(* ===== verification/Prelude.thy ===== *)
theory Prelude
  imports Complex_Main "HOL-Library.AList" "HOL-Library.List_Lexorder"
    "HOL-Library.Char_ord" "HOL-Library.Multiset"
begin

text \<open>
  Shared vocabulary of the development.

  \<^item> Python values as JSON-like data (\<open>pyval\<close>), with Python's \<open>==\<close>, truthiness,
    \<open>dict.get\<close>, hashing (\<open>in\<close> a \<open>frozenset\<close>) and \<open>sorted\<close>.
  \<^item> Python exceptions as values (\<open>py_exc\<close>), and the two combinators with which the
    validators collect the findings of generators that may raise.
  \<^item> Strings (\<open>str.startswith\<close>, \<open>str.endswith\<close>, decimal numerals) and dictionaries
    in insertion order (association lists with \<open>AList.update\<close> as item assignment).

  A string is a list of bytes: the UTF-8 text of the Python string. Prefixes, suffixes
  and the ordering of strings agree with Python's on code points.
\<close>

named_theorems result_simps "rules for combining results of generators"

section \<open>Python values\<close>

datatype pyfloat = Finite rat | PosInf | NegInf | NotANumber

datatype pyval =
    PNone
  | PBool bool
  | PInt int
  | PFloat pyfloat
  | PStr string
  | PList "pyval list"
  | PDict "(string \<times> pyval) list"

type_synonym fields = "(string \<times> pyval) list"

datatype py_exc =
    TypeError | ValueError | KeyError | AttributeError | AssertionError | NotImplementedError | IndexError
  | OutOfModel
  \<comment> \<open>\<open>OutOfModel\<close>: a value outside a declared type that the source does not check.\<close>

text \<open>\<open>bool\<close> is a subtype of \<open>int\<close>, and the three numeric types compare by value.\<close>

fun num_of :: "pyval \<Rightarrow> rat option" where
  "num_of (PBool b) = Some (if b then 1 else 0)"
| "num_of (PInt i) = Some (of_int i)"
| "num_of (PFloat (Finite r)) = Some r"
| "num_of _ = None"

fun py_eq :: "pyval \<Rightarrow> pyval \<Rightarrow> bool" where
  "py_eq (PList xs) w = (case w of PList ys \<Rightarrow> list_all2 py_eq xs ys | _ \<Rightarrow> False)"
| "py_eq (PDict xs) w =
     (case w of
        PDict ys \<Rightarrow>
          length xs = length ys \<and>
          (\<forall>x \<in> set xs. case map_of ys (fst x) of None \<Rightarrow> False | Some v \<Rightarrow> py_eq (snd x) v)
      | _ \<Rightarrow> False)"
| "py_eq PNone w = (w = PNone)"
| "py_eq (PStr s) w = (w = PStr s)"
| "py_eq (PFloat NotANumber) w = False"
| "py_eq (PFloat PosInf) w = (w = PFloat PosInf)"
| "py_eq (PFloat NegInf) w = (w = PFloat NegInf)"
| "py_eq v w = (num_of v = num_of w)"

fun truthy :: "pyval \<Rightarrow> bool" where
  "truthy PNone = False"
| "truthy (PBool b) = b"
| "truthy (PInt i) = (i \<noteq> 0)"
| "truthy (PFloat f) = (f \<noteq> Finite 0)"
| "truthy (PStr s) = (s \<noteq> [])"
| "truthy (PList xs) = (xs \<noteq> [])"
| "truthy (PDict d) = (d \<noteq> [])"

text \<open>Lists and dictionaries are unhashable: a \<open>frozenset\<close> lookup with one raises.\<close>

fun hashable :: "pyval \<Rightarrow> bool" where
  "hashable (PList _) = False"
| "hashable (PDict _) = False"
| "hashable _ = True"

definition py_in :: "pyval \<Rightarrow> string list \<Rightarrow> py_exc + bool" where
  "py_in v S =
     (if \<not> hashable v then Inl TypeError
      else Inr (case v of PStr s \<Rightarrow> s \<in> set S | _ \<Rightarrow> False))"

definition dget :: "fields \<Rightarrow> string \<Rightarrow> pyval" where
  "dget d k = (case map_of d k of None \<Rightarrow> PNone | Some v \<Rightarrow> v)"

lemma py_eq_PNone [simp]: "py_eq v PNone \<longleftrightarrow> v = PNone"
  by (cases "(v, PNone)" rule: py_eq.cases) auto

lemma py_eq_PStr [simp]: "py_eq v (PStr s) \<longleftrightarrow> v = PStr s"
  by (cases "(v, PStr s)" rule: py_eq.cases) auto

lemma py_eq_PInt: "py_eq v (PInt n) \<longleftrightarrow> num_of v = Some (of_int n)"
  by (cases "(v, PInt n)" rule: py_eq.cases) auto

lemma num_of_SomeE:
  assumes "num_of v = Some r"
  obtains b where "v = PBool b" "r = (if b then 1 else 0)"
  | i where "v = PInt i" "r = of_int i"
  | "v = PFloat (Finite r)"
  using assms by (cases v rule: num_of.cases) auto

lemma dget_Nil [simp]: "dget [] k = PNone"
  by (simp add: dget_def)

lemma dget_Cons [simp]: "dget ((k, v) # d) k' = (if k = k' then v else dget d k')"
  by (simp add: dget_def)

lemma dget_update: "dget (AList.update k v d) k' = (if k = k' then v else dget d k')"
  by (simp add: dget_def update_conv')

lemma py_in_Inr_True: "py_in v S = Inr True \<longleftrightarrow> (\<exists>s \<in> set S. v = PStr s)"
  by (cases v) (auto simp: py_in_def)

lemma py_in_PStr [simp]: "py_in (PStr s) S = Inr (s \<in> set S)"
  by (simp add: py_in_def)

section \<open>Generators that may raise\<close>

text \<open>
  A validator is a generator consumed by \<open>list.extend\<close>: its findings in order, or the
  exception that stopped it. \<open>gen_append\<close> runs one generator after another,
  \<open>collect\<close> is a loop whose body yields.
\<close>

type_synonym 'a gen = "py_exc + 'a list"

definition gen_append :: "'a gen \<Rightarrow> 'a gen \<Rightarrow> 'a gen" where
  "gen_append r s =
     (case r of Inl e \<Rightarrow> Inl e
      | Inr xs \<Rightarrow> (case s of Inl e \<Rightarrow> Inl e | Inr ys \<Rightarrow> Inr (xs @ ys)))"

fun collect :: "('a \<Rightarrow> 'b gen) \<Rightarrow> 'a list \<Rightarrow> 'b gen" where
  "collect f [] = Inr []"
| "collect f (x # xs) = gen_append (f x) (collect f xs)"

lemma gen_append_eq_Inr [result_simps]:
  "gen_append r s = Inr zs \<longleftrightarrow> (\<exists>xs ys. r = Inr xs \<and> s = Inr ys \<and> zs = xs @ ys)"
  by (auto simp: gen_append_def split: sum.splits)

lemma gen_append_clean [result_simps]:
  "gen_append r s = Inr [] \<longleftrightarrow> r = Inr [] \<and> s = Inr []"
  by (auto simp: gen_append_eq_Inr)

lemma gen_append_Inr [simp]: "gen_append (Inr xs) (Inr ys) = Inr (xs @ ys)"
  by (simp add: gen_append_def)

lemma gen_append_Inl [simp]: "gen_append (Inl e) s = Inl e"
  by (simp add: gen_append_def)

lemma gen_append_Nil [simp]: "gen_append (Inr []) s = s"
  by (cases s) (simp_all add: gen_append_def)

lemma collect_clean [result_simps]: "collect f xs = Inr [] \<longleftrightarrow> (\<forall>x \<in> set xs. f x = Inr [])"
  by (induction xs) (auto simp: gen_append_clean)

lemma collect_cong [fundef_cong]:
  "xs = ys \<Longrightarrow> (\<And>x. x \<in> set ys \<Longrightarrow> f x = g x) \<Longrightarrow> collect f xs = collect g ys"
  by (induction ys arbitrary: xs) auto

lemma concat_map_Nil [result_simps]: "concat (map f xs) = [] \<longleftrightarrow> (\<forall>x \<in> set xs. f x = [])"
  by simp

text \<open>\<open>enumerate\<close> over a sequence of operations.\<close>

lemma in_enumerate: "x \<in> set xs \<Longrightarrow> \<exists>i. (i, x) \<in> set (List.enumerate n xs)"
proof -
  assume "x \<in> set xs"
  then obtain j where "j < length xs" "xs ! j = x" by (auto simp: in_set_conv_nth)
  then have "(n + j, x) \<in> set (List.enumerate n xs)"
    by (simp add: in_set_enumerate_eq)
  then show ?thesis by blast
qed

lemma enumerateD: "(i, x) \<in> set (List.enumerate n xs) \<Longrightarrow> x \<in> set xs"
  by (auto simp: in_set_enumerate_eq)

lemma enumerate_ballI [result_simps]:
  "(\<forall>y \<in> set (List.enumerate n xs). P (snd y)) \<longleftrightarrow> (\<forall>x \<in> set xs. P x)"
proof
  assume *: "\<forall>y \<in> set (List.enumerate n xs). P (snd y)"
  show "\<forall>x \<in> set xs. P x"
  proof
    fix x assume "x \<in> set xs"
    then obtain i where "(i, x) \<in> set (List.enumerate n xs)" using in_enumerate by metis
    with * show "P x" by force
  qed
qed (auto dest: enumerateD)

text \<open>A loop over \<open>enumerate\<close> finds nothing exactly when no element has a finding.\<close>

lemma enumerate_concat_Nil:
  assumes "\<And>i x. x \<in> set xs \<Longrightarrow> g (i, x) = [] \<longleftrightarrow> P x"
  shows "concat (map g (List.enumerate n xs)) = [] \<longleftrightarrow> (\<forall>x \<in> set xs. P x)"
proof -
  have "concat (map g (List.enumerate n xs)) = [] \<longleftrightarrow>
      (\<forall>y \<in> set (List.enumerate n xs). P (snd y))"
    unfolding concat_map_Nil
  proof (rule ball_cong)
    fix y assume "y \<in> set (List.enumerate n xs)"
    then have "snd y \<in> set xs" using enumerateD [of "fst y" "snd y" n xs] by simp
    then show "g y = [] \<longleftrightarrow> P (snd y)" using assms [of "snd y" "fst y"] by simp
  qed simp
  then show ?thesis by (simp only: enumerate_ballI)
qed

lemma enumerate_collect_clean:
  assumes "\<And>i x. x \<in> set xs \<Longrightarrow> g (i, x) = Inr [] \<longleftrightarrow> P x"
  shows "collect g (List.enumerate n xs) = Inr [] \<longleftrightarrow> (\<forall>x \<in> set xs. P x)"
proof -
  have "collect g (List.enumerate n xs) = Inr [] \<longleftrightarrow>
      (\<forall>y \<in> set (List.enumerate n xs). P (snd y))"
    unfolding collect_clean
  proof (rule ball_cong)
    fix y assume "y \<in> set (List.enumerate n xs)"
    then have "snd y \<in> set xs" using enumerateD [of "fst y" "snd y" n xs] by simp
    then show "g y = Inr [] \<longleftrightarrow> P (snd y)" using assms [of "snd y" "fst y"] by simp
  qed simp
  then show ?thesis by (simp only: enumerate_ballI)
qed

text \<open>Comprehensions \<open>[f(x) for x in xs if ...]\<close>.\<close>

lemma map_filter_snoc:
  "List.map_filter f (xs @ [x]) =
     List.map_filter f xs @ (case f x of None \<Rightarrow> [] | Some y \<Rightarrow> [y])"
  by (simp add: List.map_filter_def split: option.split)

lemma map_filter_member: "y \<in> set (List.map_filter f xs) \<longleftrightarrow> (\<exists>x \<in> set xs. f x = Some y)"
  by (induction xs) (auto simp: List.map_filter_def)

section \<open>Loops over a sequence of operations\<close>

text \<open>
  \<open>for op in ops: step(state, op)\<close> where a step may raise: the first exception stops
  the loop. The locale is the contract of a loop body that keeps an invariant.
\<close>

fun run :: "('s \<Rightarrow> 'o \<Rightarrow> 'e + 's) \<Rightarrow> 's \<Rightarrow> 'o list \<Rightarrow> 'e + 's" where
  "run step s [] = Inr s"
| "run step s (x # xs) = (case step s x of Inl e \<Rightarrow> Inl e | Inr s' \<Rightarrow> run step s' xs)"

lemma run_append:
  "run step s (xs @ ys) = (case run step s xs of Inl e \<Rightarrow> Inl e | Inr t \<Rightarrow> run step t ys)"
  by (induction xs arbitrary: s) (auto split: sum.splits)

lemma run_snoc_Inr:
  "run step s (xs @ [x]) = Inr u \<longleftrightarrow> (\<exists>t. run step s xs = Inr t \<and> step t x = Inr u)"
  by (auto simp: run_append split: sum.splits)

locale invariant_loop =
  fixes step :: "'s \<Rightarrow> 'o \<Rightarrow> 'e + 's"
    and inv :: "'s \<Rightarrow> bool"
  assumes step_inv: "inv s \<Longrightarrow> step s x = Inr t \<Longrightarrow> inv t"
begin

lemma run_inv: "inv s \<Longrightarrow> run step s xs = Inr t \<Longrightarrow> inv t"
  by (induction xs arbitrary: s) (auto split: sum.splits intro: step_inv)

text \<open>A relation that every step stands in, and that is a preorder, holds across the loop.\<close>

lemma run_rel:
  assumes "\<And>s x t. inv s \<Longrightarrow> step s x = Inr t \<Longrightarrow> R s t"
    and "\<And>s. R s s" and "\<And>s t u. R s t \<Longrightarrow> R t u \<Longrightarrow> R s u"
  shows "inv s \<Longrightarrow> run step s xs = Inr t \<Longrightarrow> R s t"
proof (induction xs arbitrary: s)
  case Nil
  then show ?case using assms(2) by simp
next
  case (Cons x xs)
  from Cons.prems(2) obtain u where u: "step s x = Inr u" "run step u xs = Inr t"
    by (auto split: sum.splits)
  have "inv u" using Cons.prems(1) u(1) by (rule step_inv)
  then have "R u t" using u(2) by (rule Cons.IH)
  moreover have "R s u" using assms(1) Cons.prems(1) u(1) by blast
  ultimately show ?case using assms(3) by blast
qed

end

section \<open>Strings\<close>

definition startswith :: "string \<Rightarrow> string \<Rightarrow> bool" where
  "startswith s p \<longleftrightarrow> take (length p) s = p"

definition endswith :: "string \<Rightarrow> string \<Rightarrow> bool" where
  "endswith s p \<longleftrightarrow> length p \<le> length s \<and> drop (length s - length p) s = p"

lemma startswith_append [simp]: "startswith (p @ s) p"
  by (simp add: startswith_def)

lemma startswith_iff: "startswith s p \<longleftrightarrow> (\<exists>t. s = p @ t)"
  by (metis append_eq_conv_conj append_take_drop_id startswith_def)

text \<open>\<open>str(n)\<close> and \<open>int(s)\<close> on decimal numerals.\<close>

definition digit_char :: "nat \<Rightarrow> char" where
  "digit_char d = char_of (48 + d)"

definition digit_val :: "char \<Rightarrow> nat" where
  "digit_val c = of_char c - 48"

definition is_digit :: "char \<Rightarrow> bool" where
  "is_digit c \<longleftrightarrow> (48::nat) \<le> of_char c \<and> of_char c \<le> (57::nat)"

fun nat_str :: "nat \<Rightarrow> string" where
  "nat_str n = (if n < 10 then [digit_char n] else nat_str (n div 10) @ [digit_char (n mod 10)])"

declare nat_str.simps [simp del]

definition nat_of_str :: "string \<Rightarrow> nat" where
  "nat_of_str s = foldl (\<lambda>n c. 10 * n + digit_val c) 0 s"

lemma of_char_digit_char [simp]: "d < 10 \<Longrightarrow> (of_char (digit_char d) :: nat) = 48 + d"
  by (simp add: digit_char_def)

lemma digit_val_char [simp]: "d < 10 \<Longrightarrow> digit_val (digit_char d) = d"
  by (simp add: digit_val_def)

lemma is_digit_char [simp]: "d < 10 \<Longrightarrow> is_digit (digit_char d)"
  by (simp add: is_digit_def)

lemma nat_of_str_nat_str [simp]: "nat_of_str (nat_str n) = n"
proof (induction n rule: nat_str.induct)
  case (1 n)
  show ?case
  proof (cases "n < 10")
    case True
    then show ?thesis by (subst nat_str.simps) (simp add: nat_of_str_def)
  next
    case False
    with 1 show ?thesis
      by (subst nat_str.simps) (simp add: nat_of_str_def)
  qed
qed

lemma nat_str_inject [simp]: "nat_str m = nat_str n \<longleftrightarrow> m = n"
  by (metis nat_of_str_nat_str)

lemma nat_str_digits: "c \<in> set (nat_str n) \<Longrightarrow> is_digit c"
proof (induction n rule: nat_str.induct)
  case (1 n)
  then show ?case by (cases "n < 10") (auto simp: nat_str.simps [of n])
qed

lemma nat_str_nonempty [simp]: "nat_str n \<noteq> []"
  by (subst nat_str.simps) simp

lemma hd_nat_str: "0 < n \<Longrightarrow> hd (nat_str n) \<noteq> CHR ''0''"
proof (induction n rule: nat_str.induct)
  case (1 n)
  show ?case
  proof (cases "n < 10")
    case True
    have "of_char (digit_char n) \<noteq> (of_char (CHR ''0'') :: nat)" using True 1 by simp
    then have "digit_char n \<noteq> CHR ''0''" by metis
    with True show ?thesis by (simp add: nat_str.simps [of n])
  next
    case False
    with 1 show ?thesis by (simp add: nat_str.simps [of n])
  qed
qed

lemma is_digit_neq [simp]:
  "is_digit c \<Longrightarrow> c \<noteq> CHR ''-''" "is_digit c \<Longrightarrow> c \<noteq> CHR ''/''"
  "is_digit c \<Longrightarrow> c \<noteq> CHR 0x0A"
  by (auto simp: is_digit_def)

section \<open>Dictionaries of lists\<close>

text \<open>\<open>d[k].append(v)\<close> on a \<open>defaultdict(list)\<close>, and \<open>d.setdefault(k, v)\<close>.\<close>

definition dlist_get :: "('k \<times> 'v list) list \<Rightarrow> 'k \<Rightarrow> 'v list" where
  "dlist_get d k = (case map_of d k of None \<Rightarrow> [] | Some vs \<Rightarrow> vs)"

definition dlist_append :: "'k \<Rightarrow> 'v \<Rightarrow> ('k \<times> 'v list) list \<Rightarrow> ('k \<times> 'v list) list" where
  "dlist_append k v d = AList.update k (dlist_get d k @ [v]) d"

definition setdefault :: "'k \<Rightarrow> 'v \<Rightarrow> ('k \<times> 'v) list \<Rightarrow> ('k \<times> 'v) list" where
  "setdefault k v d = (if map_of d k = None then d @ [(k, v)] else d)"

lemma dlist_get_append:
  "dlist_get (dlist_append k v d) k' = (if k = k' then dlist_get d k @ [v] else dlist_get d k')"
  by (simp add: dlist_get_def dlist_append_def update_conv')

lemma map_of_dlist_append_None:
  "map_of (dlist_append k v d) k' = None \<longleftrightarrow> k \<noteq> k' \<and> map_of d k' = None"
  by (simp add: dlist_append_def update_conv')

lemma map_of_eq_None_dlist_get: "map_of d k = None \<Longrightarrow> dlist_get d k = []"
  by (simp add: dlist_get_def)

lemma distinct_dlist_append:
  "distinct (map fst d) \<Longrightarrow> distinct (map fst (dlist_append k v d))"
  by (simp add: dlist_append_def distinct_update)

lemma distinct_setdefault:
  "distinct (map fst d) \<Longrightarrow> distinct (map fst (setdefault k v d))"
  by (auto simp: setdefault_def map_of_eq_None_iff)

lemma map_of_setdefault:
  "map_of (setdefault k v d) k' = (if k = k' \<and> map_of d k = None then Some v else map_of d k')"
  by (auto simp: setdefault_def map_add_def split: option.splits)

section \<open>Sorting\<close>

text \<open>
  \<open>sorted\<close> on values: numbers among themselves, strings among themselves. A list of two
  or more elements that mixes kinds, or holds \<open>None\<close> or containers, raises
  \<open>TypeError\<close>. The place of a NaN is not specified by Python; here it comes last.
\<close>

fun is_number :: "pyval \<Rightarrow> bool" where
  "is_number (PBool _) = True"
| "is_number (PInt _) = True"
| "is_number (PFloat _) = True"
| "is_number _ = False"

fun is_string :: "pyval \<Rightarrow> bool" where
  "is_string (PStr _) = True"
| "is_string _ = False"

fun str_of :: "pyval \<Rightarrow> string" where
  "str_of (PStr s) = s"
| "str_of _ = []"

lemma insort_key_image: "insort_key f (g x) (map g xs) = map g (insort_key (\<lambda>x. f (g x)) x xs)"
  by (induction xs) auto

lemma sort_key_image: "sort_key f (map g xs) = map g (sort_key (\<lambda>x. f (g x)) xs)"
  by (induction xs) (simp_all add: insort_key_image)

definition sort_numbers :: "pyval list \<Rightarrow> pyval list" where
  "sort_numbers xs =
     filter (\<lambda>x. x = PFloat NegInf) xs @
     sort_key (\<lambda>x. the (num_of x)) (filter (\<lambda>x. num_of x \<noteq> None) xs) @
     filter (\<lambda>x. x = PFloat PosInf) xs @
     filter (\<lambda>x. x = PFloat NotANumber) xs"

definition py_sorted :: "pyval list \<Rightarrow> py_exc + pyval list" where
  "py_sorted xs =
     (if length xs \<le> 1 then Inr xs
      else if list_all is_number xs then Inr (sort_numbers xs)
      else if list_all is_string xs then Inr (sort_key str_of xs)
      else Inl TypeError)"

text \<open>\<open>sorted(xs) == list(range(n))\<close>.\<close>

definition is_range :: "pyval list \<Rightarrow> nat \<Rightarrow> bool" where
  "is_range ys n \<longleftrightarrow> list_all2 py_eq ys (map (\<lambda>i. PInt (int i)) [0..<n])"

lemma num_of_number: "num_of x = Some r \<Longrightarrow> is_number x"
  by (cases x) auto

lemma is_range_iff: "is_range ys n \<longleftrightarrow> map num_of ys = map (\<lambda>i. Some (rat_of_nat i)) [0..<n]"
  unfolding is_range_def list_all2_conv_all_nth list_eq_iff_nth_eq
  by (auto simp: py_eq_PInt)

lemma sort_numbers_finite:
  assumes "\<forall>x \<in> set xs. num_of x \<noteq> None"
  shows "sort_numbers xs = sort_key (\<lambda>x. the (num_of x)) xs"
proof -
  have "filter (\<lambda>x. num_of x \<noteq> None) xs = xs" using assms by (simp add: filter_id_conv)
  moreover have "filter (\<lambda>x. x = PFloat y) xs = []" if "y \<in> {NegInf, PosInf, NotANumber}" for y
    using assms that by (auto simp: filter_empty_conv)
  ultimately show ?thesis by (simp add: sort_numbers_def)
qed

lemma mset_sort_numbers: "list_all is_number xs \<Longrightarrow> mset (sort_numbers xs) = mset xs"
proof (induction xs)
  case (Cons x xs)
  then show ?case by (cases x rule: num_of.cases) (auto simp: sort_numbers_def)
qed (simp add: sort_numbers_def)

lemma py_sorted_perm: "py_sorted xs = Inr ys \<Longrightarrow> mset ys = mset xs"
  by (auto simp: py_sorted_def mset_sort_numbers split: if_splits)

text \<open>A sorted list of values is \<open>0..n-1\<close> exactly when the values are those numbers.\<close>

lemma sorted_is_range:
  "(\<exists>ys. py_sorted xs = Inr ys \<and> is_range ys n) \<longleftrightarrow>
     mset (map num_of xs) = mset (map (\<lambda>i. Some (rat_of_nat i)) [0..<n])"
    (is "?l \<longleftrightarrow> ?r")
proof
  assume ?l
  then obtain ys where "mset ys = mset xs"
    "map num_of ys = map (\<lambda>i. Some (rat_of_nat i)) [0..<n]"
    by (auto simp: is_range_iff dest: py_sorted_perm)
  then show ?r by (metis mset_map)
next
  assume r: ?r
  let ?rats = "map rat_of_nat [0..<n]"
  have fin: "\<forall>x \<in> set xs. num_of x \<noteq> None"
    using mset_eq_setD [OF r] by (auto dest!: equalityD1 subsetD)
  have somes: "map num_of ys = map Some (map (\<lambda>x. the (num_of x)) ys)"
    if "set ys = set xs" for ys using fin that by auto
  have "image_mset the (mset (map num_of xs)) =
      image_mset the (mset (map (\<lambda>i. Some (rat_of_nat i)) [0..<n]))"
    using r by simp
  then have m: "mset (map (\<lambda>x. the (num_of x)) xs) = mset ?rats"
    by (simp only: mset_map [symmetric] list.map_comp comp_def option.sel)
  let ?f = "\<lambda>x. the (num_of x)"
  have num: "list_all is_number xs" using fin by (auto simp: list_all_iff intro: num_of_number)
  have "map ?f (sort_key ?f xs) = ?rats"
  proof -
    have "sort ?rats = map ?f (sort_key ?f xs)"
    proof (rule properties_for_sort)
      show "mset (map ?f (sort_key ?f xs)) = mset ?rats" using m by simp
      show "sorted (map ?f (sort_key ?f xs))" by simp
    qed
    moreover have "sorted ?rats" unfolding sorted_iff_nth_mono by simp
    ultimately show ?thesis by (simp add: sorted_sort_id)
  qed
  then have sort: "is_range (sort_key ?f xs) n"
    unfolding is_range_iff by (subst somes) simp_all
  show ?l
  proof (cases "length xs \<le> 1")
    case True
    then have "sort_key ?f xs = xs" by (cases xs) auto
    then show ?thesis using sort True by (simp add: py_sorted_def)
  next
    case False
    then show ?thesis using sort num sort_numbers_finite [OF fin] by (simp add: py_sorted_def)
  qed
qed

section \<open>Maxima\<close>

lemma foldr_max_le: "foldr max xs (0::nat) \<le> n \<longleftrightarrow> (\<forall>x \<in> set xs. x \<le> n)"
  by (induction xs) auto

lemma foldr_max_upper: "x \<in> set xs \<Longrightarrow> x \<le> foldr max xs (0::nat)"
  using foldr_max_le [of xs "foldr max xs 0"] by simp

lemma distinct_map_mset:
  assumes "mset xs = mset ys"
  shows "distinct (map f xs) \<longleftrightarrow> distinct (map f ys)"
proof -
  have "mset (map f xs) = mset (map f ys)" using assms by simp
  then show ?thesis by (rule mset_eq_imp_distinct_iff)
qed

section \<open>Runs of a system\<close>

text \<open>
  A system that moves by \<open>step\<close>. An invariant holds in every state a run reaches, and a
  preorder that every step from a state with the invariant respects relates the ends of
  the run.
\<close>

locale step_system =
  fixes step :: "'s \<Rightarrow> 's \<Rightarrow> bool"
    and inv :: "'s \<Rightarrow> bool"
    and rel :: "'s \<Rightarrow> 's \<Rightarrow> bool"
  assumes step_inv: "inv s \<Longrightarrow> step s t \<Longrightarrow> inv t"
    and step_rel: "inv s \<Longrightarrow> step s t \<Longrightarrow> rel s t"
    and rel_refl: "rel s s"
    and rel_trans: "rel s t \<Longrightarrow> rel t u \<Longrightarrow> rel s u"
begin

lemma steps_inv: "step\<^sup>*\<^sup>* s t \<Longrightarrow> inv s \<Longrightarrow> inv t"
  by (induction rule: rtranclp_induct) (auto intro: step_inv)

lemma steps_rel: "step\<^sup>*\<^sup>* s t \<Longrightarrow> inv s \<Longrightarrow> rel s t"
proof (induction rule: rtranclp_induct)
  case base
  show ?case by (rule rel_refl)
next
  case (step t u)
  then show ?case using steps_inv step_rel rel_trans by blast
qed

end

end
