(* ===== verification/Vocab.thy ===== *)
theory Vocab
  imports Prelude
begin

text \<open>
  The closed vocabularies of \<^verbatim>\<open>src/src/shared/vocab.py\<close> and the reason codes of
  \<^verbatim>\<open>src/src/commit_gate/reasons.py\<close>. A \<^verbatim>\<open>StrEnum\<close> is the list of its literals in member order (its
  members are strings and compare as such); membership is the check both packages make.
  The label tables and \<open>gate_label\<close>, \<open>graph_label\<close>, \<open>canonical_status\<close> follow
  with the lemmas that make the translation a bijection on the graph labels and the
  canonicalisation idempotent.
\<close>

named_theorems vocab_defs "the literal lists of the closed vocabularies"

section \<open>Enumerations\<close>

definition ClaimStatus :: "string list" where
  "ClaimStatus =
    [''conjectural'', ''empirical'', ''provisional'', ''critic-accepted'',
     ''formally-closed'', ''lean-verified'', ''tainted'', ''refuted'', ''retracted'',
     ''stale'']"

definition FormalStateStatus :: "string list" where
  "FormalStateStatus =
    [''open'', ''expanded'', ''formally-closed'', ''lean-verified'', ''tainted'',
     ''reopened'', ''failed'', ''pruned'', ''stale'']"

definition StateKind :: "string list" where
  "StateKind =
    [''or'', ''and'', ''goal'']"

definition ResearchStateStatus :: "string list" where
  "ResearchStateStatus =
    [''open'', ''superseded'', ''refuted'', ''stale'']"

definition ResearchMoveStatus :: "string list" where
  "ResearchMoveStatus =
    [''queued'', ''open'', ''leased'', ''closed'', ''refuted'', ''dominated'',
     ''exhausted'', ''stale'']"

definition TacticStatus :: "string list" where
  "TacticStatus =
    [''pending'', ''queued'', ''open'', ''leased'', ''closed'', ''reopened'', ''refuted'',
     ''dominated'', ''exhausted'', ''dead'']"

definition AttemptStatus :: "string list" where
  "AttemptStatus =
    [''pending'', ''supported'', ''critic-accepted'', ''refuted'', ''retracted'']"

definition DeclarationStatus :: "string list" where
  "DeclarationStatus =
    [''draft'', ''aligned'', ''searching'', ''certificate-produced'', ''replay-pending'',
     ''replay-accepted'', ''replay-rejected'', ''stale'']"

definition CertificateStatus :: "string list" where
  "CertificateStatus =
    [''candidate'', ''replay-pending'', ''replay-accepted'', ''replay-rejected'',
     ''stale'']"

definition AlignmentLifecycle :: "string list" where
  "AlignmentLifecycle =
    [''draft'', ''review-needed'', ''reviewed'', ''superseded'', ''stale'']"

definition AlignmentVerdict :: "string list" where
  "AlignmentVerdict =
    [''aligned'', ''weaker'', ''stronger'', ''mismatch'', ''ambiguous'']"

definition RunDisposition :: "string list" where
  "RunDisposition =
    [''searching'', ''proved-pending-replay'', ''budget-exhausted'', ''stagnated'',
     ''counterexample'', ''invalid-request'', ''environment-error'', ''internal-error'',
     ''cancelled'']"

definition ExecutorResult :: "string list" where
  "ExecutorResult =
    [''lean-accepted'', ''lean-rejected'', ''timeout'', ''backend-missing'',
     ''parse-failure'', ''crash'', ''empty-output'']"

definition ReplayStatus :: "string list" where
  "ReplayStatus =
    [''verified'', ''rejected'']"

definition ObstructionKind :: "string list" where
  "ObstructionKind =
    [''missing-lemma'', ''missing-premise'', ''representation-mismatch'',
     ''statement-too-strong'', ''statement-too-weak'', ''library-gap'', ''elaboration'',
     ''typeclass'', ''coercion'', ''resource'', ''search-policy'', ''likely-false'',
     ''unknown'']"

definition EvidenceKind :: "string list" where
  "EvidenceKind =
    [''lean-replay'', ''random-sampling'', ''exhaustive-finite-search'',
     ''exact-symbolic'', ''interval-arithmetic'', ''checkable-certificate'',
     ''heuristic-optimizer'', ''model-score'', ''critic-review'', ''human-guidance'']"

definition WorkerClass :: "string list" where
  "WorkerClass =
    [''coordinator'', ''llm-research'', ''hyperon'', ''formal-atp'', ''replayer'',
     ''critic'', ''experiment'', ''alignment-reviewer'', ''human'', ''maintenance'']"


lemmas enum_defs [vocab_defs] =
  ClaimStatus_def FormalStateStatus_def StateKind_def
  ResearchStateStatus_def ResearchMoveStatus_def TacticStatus_def
  AttemptStatus_def DeclarationStatus_def CertificateStatus_def
  AlignmentLifecycle_def AlignmentVerdict_def RunDisposition_def
  ExecutorResult_def ReplayStatus_def ObstructionKind_def
  EvidenceKind_def WorkerClass_def

definition TERMINAL_EXECUTOR_FAILURES :: "string list" where
  "TERMINAL_EXECUTOR_FAILURES =
    [''timeout'', ''backend-missing'', ''parse-failure'', ''crash'', ''empty-output'']"

definition NON_KERNEL_TACTICS :: "string list" where
  "NON_KERNEL_TACTICS = [''PLN_fallback'']"

definition STANDARD_LEAN_AXIOMS :: "string list" where
  "STANDARD_LEAN_AXIOMS = [''propext'', ''Classical.choice'', ''Quot.sound'']"

definition ANNOTATION_FIELDS :: "string list" where
  "ANNOTATION_FIELDS =
    [''gnn_tactic_prior'', ''argument_probability'', ''premise_relevance'', ''pln_strength'',
     ''pln_confidence'', ''proof_number'', ''disproof_number'', ''depth'',
     ''estimated_execution_cost'', ''state_novelty'', ''transposition_count'',
     ''failure_family'', ''dependency_centrality'', ''expected_information_gain'',
     ''verification_value'', ''repeated_failure_risk'', ''expected_theorem_impact'',
     ''novelty_and_mechanism_diversity'', ''formalization_readiness'', ''estimated_cost'',
     ''human_priority'', ''availability_of_suitable_worker_or_model_or_tool'',
     ''derived_priority'']"

lemmas literal_set_defs [vocab_defs] =
  TERMINAL_EXECUTOR_FAILURES_def NON_KERNEL_TACTICS_def STANDARD_LEAN_AXIOMS_def
  ANNOTATION_FIELDS_def

text \<open>\<open>values(enum)\<close>: the literal set, for membership checks.\<close>

definition enum_values :: "string list \<Rightarrow> string set" where
  "enum_values e = set e"

text \<open>\<open>enum(value)\<close>: does the value name a member? Only a string can.\<close>

definition enum_accepts :: "string list \<Rightarrow> pyval \<Rightarrow> bool" where
  "enum_accepts e v = (case v of PStr s \<Rightarrow> s \<in> enum_values e | _ \<Rightarrow> False)"

lemma enum_accepts_iff: "enum_accepts e v \<longleftrightarrow> (\<exists>s \<in> set e. v = PStr s)"
  by (cases v) (auto simp: enum_accepts_def enum_values_def)

section \<open>Labels\<close>

definition GRAPH_TO_GATE_LABEL :: "(string \<times> string) list" where
  "GRAPH_TO_GATE_LABEL =
    [(''Proof'', ''Proof''), (''State'', ''FormalState''), (''Move'', ''TacticApplication''),
     (''Claim'', ''Claim''), (''Attempt'', ''Attempt''), (''Artifact'', ''Artifact''),
     (''Hypothesis'', ''SpeculativeHypothesis''), (''Route'', ''Route''),
     (''Context'', ''Context''), (''Concept'', ''Concept''), (''Critique'', ''Critique''),
     (''Experiment'', ''Experiment''), (''Verification'', ''Verification'')]"

definition GATE_TO_GRAPH_LABEL :: "(string \<times> string) list" where
  "GATE_TO_GRAPH_LABEL = map (\<lambda>(graph, gate). (gate, graph)) GRAPH_TO_GATE_LABEL"

definition GRAPH_LABELS :: "string list" where
  "GRAPH_LABELS = map fst GRAPH_TO_GATE_LABEL"

definition GRAPH_ONLY_LABELS :: "string list" where
  "GRAPH_ONLY_LABELS =
    [''Route'', ''Context'', ''Concept'', ''Critique'', ''Experiment'', ''Verification'']"

definition GATE_LABELS :: "string list" where
  "GATE_LABELS =
    [''Proof'', ''FormalState'', ''TacticApplication'', ''FormalDeclaration'', ''FormalRun'',
     ''FormalCheckpoint'', ''Certificate'', ''LeanReplay'', ''Environment'', ''Alignment'',
     ''Claim'', ''SpeculativeHypothesis'', ''Obstruction'', ''Attempt'', ''Artifact'',
     ''ResearchState'', ''ResearchMove''] @ GRAPH_ONLY_LABELS"

lemmas label_defs [vocab_defs] =
  GRAPH_TO_GATE_LABEL_def GATE_TO_GRAPH_LABEL_def GRAPH_LABELS_def GRAPH_ONLY_LABELS_def
  GATE_LABELS_def

definition gate_label :: "string \<Rightarrow> py_exc + string" where
  "gate_label label =
     (if label \<in> set GATE_LABELS \<and> map_of GRAPH_TO_GATE_LABEL label = None then Inr label
      else case map_of GRAPH_TO_GATE_LABEL label of
             Some l \<Rightarrow> Inr l | None \<Rightarrow> Inl ValueError)"

definition graph_label :: "string \<Rightarrow> py_exc + string" where
  "graph_label label =
     (if label \<in> set GRAPH_LABELS \<and> map_of GATE_TO_GRAPH_LABEL label = None then Inr label
      else case map_of GATE_TO_GRAPH_LABEL label of
             Some l \<Rightarrow> Inr l | None \<Rightarrow> Inl ValueError)"

lemma graph_labels_table:
  "list_all (\<lambda>g. case gate_label g of
       Inl _ \<Rightarrow> False
     | Inr l \<Rightarrow> l \<in> set GATE_LABELS \<and> graph_label l = Inr g) GRAPH_LABELS"
  by code_simp

lemma gate_labels_table:
  "list_all (\<lambda>(g, l). l \<in> set GATE_LABELS) GRAPH_TO_GATE_LABEL"
  by code_simp

lemma graph_labels_translate:
  "g \<in> set GRAPH_LABELS \<Longrightarrow> \<exists>l. gate_label g = Inr l \<and> l \<in> set GATE_LABELS \<and> graph_label l = Inr g"
  using graph_labels_table by (cases "gate_label g") (auto simp: list_all_iff)

lemma gate_label_range: "gate_label l = Inr g \<Longrightarrow> g \<in> set GATE_LABELS"
  using gate_labels_table
  by (auto simp: gate_label_def list_all_iff split: if_splits option.splits dest: map_of_SomeD)

section \<open>Statuses\<close>

definition LEGACY_STATUS_ALIASES :: "(string \<times> string) list" where
  "LEGACY_STATUS_ALIASES =
    [(''critic_accepted'', ''critic-accepted''), (''lean_verified'', ''lean-verified''),
     (''closed'', ''formally-closed'')]"

definition hyphenate :: "string \<Rightarrow> string" where
  "hyphenate s = map (\<lambda>c. if c = CHR ''_'' then CHR ''-'' else c) s"

definition canonical_status :: "string \<Rightarrow> string list \<Rightarrow> py_exc + string" where
  "canonical_status value allowed =
     (if value \<in> set allowed then Inr value
      else if hyphenate value \<in> set allowed then Inr (hyphenate value)
      else case map_of LEGACY_STATUS_ALIASES value of
             Some aliased \<Rightarrow> if aliased \<in> set allowed then Inr aliased else Inl ValueError
           | None \<Rightarrow> Inl ValueError)"

lemma canonical_status_allowed: "canonical_status v A = Inr c \<Longrightarrow> c \<in> set A"
  by (auto simp: canonical_status_def split: if_splits option.splits)

lemma canonical_status_fixed [simp]: "v \<in> set A \<Longrightarrow> canonical_status v A = Inr v"
  by (simp add: canonical_status_def)

text \<open>Every graph label translates to a gate label and back to itself; no label is lost
  between the two vocabularies.\<close>

lemma labels_round_trip:
  "\<forall>g \<in> set GRAPH_LABELS. \<exists>l. gate_label g = Inr l \<and> l \<in> set GATE_LABELS \<and> graph_label l = Inr g"
  using graph_labels_translate by blast

lemma labels_round_trip_instance: "\<exists>l. gate_label ''State'' = Inr l \<and> graph_label l = Inr ''State''"
proof -
  have "''State'' \<in> set GRAPH_LABELS" by code_simp
  then show ?thesis using labels_round_trip by blast
qed

text \<open>The canonical form of a status is a legal literal and is its own canonical form.\<close>

lemma canonical_status_settles:
  "canonical_status s A = Inr c \<Longrightarrow> c \<in> set A \<and> canonical_status c A = Inr c"
  using canonical_status_allowed [of s A c] by simp

lemma canonical_status_settles_instance:
  "''lean-verified'' \<in> set ClaimStatus \<and> canonical_status ''lean-verified'' ClaimStatus = Inr ''lean-verified''"
proof (rule canonical_status_settles)
  show "canonical_status ''lean_verified'' ClaimStatus = Inr ''lean-verified''" by code_simp
qed

section \<open>Reason codes\<close>

datatype reason =
    UNKNOWN_STATUS_VALUE | NAMESPACE_MISMATCH | MISSING_REQUIRED_FIELD | MISSING_PRIOR_VALUE
  | SUBGOAL_COUNT_MISMATCH | SUBGOAL_DUPLICATED | SUBGOAL_INDEX_INVALID | ORPHAN_SUBGOAL_EDGE
  | FORMAL_REQUIRES_REMOVAL
  | EXECUTOR_FAILURE_AS_SUCCESS | CLOSURE_WITHOUT_LEAN_ACCEPTED | CLOSURE_WITHOUT_ZERO_GOALS
  | DEAD_EDGE_MISSING_DIAGNOSTIC | FAILURE_WITH_MATHEMATICAL_DIAGNOSTIC | ORPHAN_CLOSURE_EDGE
  | HEURISTIC_CLOSURE_ATTEMPT | NON_KERNEL_CLOSURE
  | UNKNOWN_NODE | UNKNOWN_EDGE | NODE_ALREADY_EXISTS_WITH_LABEL | UPSERT_FIELD_CONFLICT
  | EDGE_ENDPOINT_TYPE_INVALID
  | PRIOR_VALUE_MISMATCH | ILLEGAL_STATUS_TRANSITION | IMMUTABLE_FIELD_OVERWRITE
  | STAGNATION_WITHOUT_OBSTRUCTION | SELF_CERTIFICATION | PROMOTION_WITHOUT_REPLAY
  | PROMOTION_WITHOUT_ALIGNMENT | ENVIRONMENT_DRIFT | CRITIC_VERDICT_REQUIRED
  | WORKER_CLASS_OUT_OF_AUTHORITY
  | STALE_BASE_REVISION | LEASE_NOT_HELD | FENCING_TOKEN_SUPERSEDED | JOURNAL_BUSY
  | MISSING_CONCURRENCY_TOKEN

text \<open>One violation found in a proposal; the human-readable detail text is not modelled.\<close>

record rejection =
  rej_reason :: reason
  rej_op_index :: "nat option"

definition reject :: "reason \<Rightarrow> nat \<Rightarrow> rejection" where
  "reject r i = \<lparr>rej_reason = r, rej_op_index = Some i\<rparr>"

lemma reject_simps [simp]: "rej_reason (reject r i) = r" "rej_op_index (reject r i) = Some i"
  by (simp_all add: reject_def)

end
