(* ===== verification/Ops.thy ===== *)
theory Ops
  imports Vocab
begin

text \<open>
  The operation algebra of \<^verbatim>\<open>src/src/commit_gate/ops.py\<close> and the proposal of \<^verbatim>\<open>src/src/commit_gate/proposal.py\<close>:
  four graph mutations, their classification, their journalled (dictionary) form, and
  the record in which a worker offers them. The lemmas show that the journalled form
  loses nothing: reading back what was written gives the same operation and proposal.
\<close>

section \<open>Operations\<close>

text \<open>
  \<open>prior\<close> of a \<open>SetField\<close> is \<open>None\<close> for the \<open>UNSET\<close> sentinel (no expectation) and
  \<open>Some PNone\<close> for the expectation that the field is null.
\<close>

datatype op =
    UpsertNode (op_label: string) (op_node: string) (op_fields: fields)
  | SetField (op_label: string) (op_node: string) (op_field: string) (op_value: pyval)
      (op_prior: "pyval option")
  | AddEdge (op_rel: string) (op_src: string) (op_dst: string) (op_edge: string)
      (op_fields: fields)
  | RemoveEdge (op_rel: string) (op_edge: string)

datatype op_class = ClsStructural | ClsStatus | ClsAnnotation

definition is_annotation :: "string \<Rightarrow> bool" where
  "is_annotation name \<longleftrightarrow> name \<in> set ANNOTATION_FIELDS"

fun class_of_op :: "op \<Rightarrow> op_class" where
  "class_of_op (SetField label node field value prior) =
     (if field \<in> set ANNOTATION_FIELDS then ClsAnnotation
      else if endswith field ''status'' \<or> endswith field ''verdict'' then ClsStatus
      else ClsStructural)"
| "class_of_op _ = ClsStructural"

fun is_setfield :: "op \<Rightarrow> bool" where
  "is_setfield (SetField _ _ _ _ _) = True"
| "is_setfield _ = False"

fun is_upsert :: "op \<Rightarrow> bool" where
  "is_upsert (UpsertNode _ _ _) = True"
| "is_upsert _ = False"

fun is_addedge :: "op \<Rightarrow> bool" where
  "is_addedge (AddEdge _ _ _ _ _) = True"
| "is_addedge _ = False"

fun is_removeedge :: "op \<Rightarrow> bool" where
  "is_removeedge (RemoveEdge _ _) = True"
| "is_removeedge _ = False"

section \<open>The journalled form\<close>

fun op_to_dict :: "op \<Rightarrow> fields" where
  "op_to_dict (UpsertNode label node fs) =
     [(''op'', PStr ''upsert_node''), (''label'', PStr label), (''id'', PStr node),
      (''fields'', PDict fs)]"
| "op_to_dict (SetField label node field value prior) =
     [(''op'', PStr ''set_field''), (''label'', PStr label), (''id'', PStr node),
      (''field'', PStr field), (''value'', value)] @
     (case prior of None \<Rightarrow> [] | Some v \<Rightarrow> [(''prior'', v)])"
| "op_to_dict (AddEdge rel src dst eid fs) =
     [(''op'', PStr ''add_edge''), (''rel'', PStr rel), (''src'', PStr src),
      (''dst'', PStr dst), (''edge_id'', PStr eid), (''fields'', PDict fs)]"
| "op_to_dict (RemoveEdge rel eid) =
     [(''op'', PStr ''remove_edge''), (''rel'', PStr rel), (''edge_id'', PStr eid)]"

text \<open>
  \<open>raw[k]\<close> raises \<open>KeyError\<close> on a missing key; where the source then uses the value as
  an identifier without checking its type, a value that is no string is outside the
  model.
\<close>

definition key_val :: "fields \<Rightarrow> string \<Rightarrow> py_exc + pyval" where
  "key_val d k = (case map_of d k of None \<Rightarrow> Inl KeyError | Some v \<Rightarrow> Inr v)"

definition key_str :: "fields \<Rightarrow> string \<Rightarrow> py_exc + string" where
  "key_str d k =
     (case key_val d k of Inl e \<Rightarrow> Inl e | Inr (PStr s) \<Rightarrow> Inr s | Inr _ \<Rightarrow> Inl OutOfModel)"

text \<open>\<open>raw.get("fields") or {}\<close>\<close>

definition get_fields :: "fields \<Rightarrow> py_exc + fields" where
  "get_fields d =
     (if \<not> truthy (dget d ''fields'') then Inr []
      else case dget d ''fields'' of PDict fs \<Rightarrow> Inr fs | _ \<Rightarrow> Inl OutOfModel)"

definition bind_res :: "py_exc + 'a \<Rightarrow> ('a \<Rightarrow> py_exc + 'b) \<Rightarrow> py_exc + 'b" where
  "bind_res r f = (case r of Inl e \<Rightarrow> Inl e | Inr x \<Rightarrow> f x)"

lemma bind_res_simps [simp]: "bind_res (Inl e) f = Inl e" "bind_res (Inr x) f = f x"
  by (simp_all add: bind_res_def)

definition op_from_dict :: "fields \<Rightarrow> py_exc + op" where
  "op_from_dict raw =
     (if dget raw ''op'' = PStr ''upsert_node'' then
        bind_res (key_str raw ''label'') (\<lambda>label.
        bind_res (key_str raw ''id'') (\<lambda>node.
        bind_res (get_fields raw) (\<lambda>fs. Inr (UpsertNode label node fs))))
      else if dget raw ''op'' = PStr ''set_field'' then
        bind_res (key_str raw ''label'') (\<lambda>label.
        bind_res (key_str raw ''id'') (\<lambda>node.
        bind_res (key_str raw ''field'') (\<lambda>field.
        bind_res (key_val raw ''value'') (\<lambda>v.
        Inr (SetField label node field v (map_of raw ''prior''))))))
      else if dget raw ''op'' = PStr ''add_edge'' then
        bind_res (key_str raw ''rel'') (\<lambda>rel.
        bind_res (key_str raw ''src'') (\<lambda>src.
        bind_res (key_str raw ''dst'') (\<lambda>dst.
        bind_res (key_str raw ''edge_id'') (\<lambda>eid.
        bind_res (get_fields raw) (\<lambda>fs. Inr (AddEdge rel src dst eid fs))))))
      else if dget raw ''op'' = PStr ''remove_edge'' then
        bind_res (key_str raw ''rel'') (\<lambda>rel.
        bind_res (key_str raw ''edge_id'') (\<lambda>eid. Inr (RemoveEdge rel eid)))
      else Inl ValueError)"

fun ops_from_dicts :: "pyval list \<Rightarrow> py_exc + op list" where
  "ops_from_dicts [] = Inr []"
| "ops_from_dicts (raw # raws) =
     (case raw of
        PDict d \<Rightarrow>
          bind_res (op_from_dict d) (\<lambda>x. bind_res (ops_from_dicts raws) (\<lambda>xs. Inr (x # xs)))
      | _ \<Rightarrow> Inl AttributeError)"

lemma op_roundtrip [simp]: "op_from_dict (op_to_dict x) = Inr x"
  by (cases x)
     (auto simp: op_from_dict_def key_str_def key_val_def get_fields_def split: option.splits)

lemma ops_roundtrip [simp]: "ops_from_dicts (map (PDict \<circ> op_to_dict) xs) = Inr xs"
  by (induction xs) auto

text \<open>\<open>raw[k]\<close> used as a dictionary, \<open>raw.get(k, fallback)\<close>, and \<open>raw.get(k)\<close> used as a string.\<close>

definition obj :: "fields \<Rightarrow> string \<Rightarrow> py_exc + fields" where
  "obj d k = bind_res (key_val d k) (\<lambda>v. case v of PDict o' \<Rightarrow> Inr o' | _ \<Rightarrow> Inl TypeError)"

definition get_or :: "fields \<Rightarrow> string \<Rightarrow> pyval \<Rightarrow> pyval" where
  "get_or d k fallback = (case map_of d k of None \<Rightarrow> fallback | Some v \<Rightarrow> v)"

definition get_str :: "fields \<Rightarrow> string \<Rightarrow> string \<Rightarrow> py_exc + string" where
  "get_str d k fallback =
     (case map_of d k of None \<Rightarrow> Inr fallback | Some (PStr s) \<Rightarrow> Inr s | Some _ \<Rightarrow> Inl OutOfModel)"

definition get_opt :: "fields \<Rightarrow> string \<Rightarrow> py_exc + string option" where
  "get_opt d k = (case dget d k of PNone \<Rightarrow> Inr None | PStr s \<Rightarrow> Inr (Some s) | _ \<Rightarrow> Inl OutOfModel)"

text \<open>\<open>raw.get(k, [])\<close> and \<open>raw.get(k, {})\<close>, iterated or read as a dictionary.\<close>

definition get_list :: "fields \<Rightarrow> string \<Rightarrow> py_exc + pyval list" where
  "get_list d k = (case map_of d k of None \<Rightarrow> Inr [] | Some (PList xs) \<Rightarrow> Inr xs | Some PNone \<Rightarrow> Inl TypeError
     | Some _ \<Rightarrow> Inl OutOfModel)"

definition get_dict :: "fields \<Rightarrow> string \<Rightarrow> py_exc + fields" where
  "get_dict d k = (case map_of d k of None \<Rightarrow> Inr [] | Some (PDict fs) \<Rightarrow> Inr fs | Some PNone \<Rightarrow> Inl TypeError
     | Some _ \<Rightarrow> Inl OutOfModel)"

text \<open>The receiver of a method that only dictionaries have.\<close>

fun as_dict :: "pyval \<Rightarrow> py_exc + fields" where
  "as_dict (PDict d) = Inr d"
| "as_dict _ = Inl AttributeError"

section \<open>Proposals\<close>

record proposal =
  prop_proof_id :: string
  prop_actor :: string
  prop_worker_class :: string
  prop_ops :: "op list"
  prop_base_revision :: "int option"
  prop_lease_id :: "string option"
  prop_fencing_token :: "int option"

definition opt_int :: "int option \<Rightarrow> pyval" where
  "opt_int n = (case n of None \<Rightarrow> PNone | Some i \<Rightarrow> PInt i)"

definition opt_str :: "string option \<Rightarrow> pyval" where
  "opt_str s = (case s of None \<Rightarrow> PNone | Some t \<Rightarrow> PStr t)"

definition proposal_to_dict :: "proposal \<Rightarrow> fields" where
  "proposal_to_dict p =
     [(''proof_id'', PStr (prop_proof_id p)),
      (''actor'', PStr (prop_actor p)),
      (''worker_class'', PStr (prop_worker_class p)),
      (''base_revision'', opt_int (prop_base_revision p)),
      (''lease_id'', opt_str (prop_lease_id p)),
      (''fencing_token'', opt_int (prop_fencing_token p)),
      (''ops'', PList (map (PDict \<circ> op_to_dict) (prop_ops p)))]"

definition get_opt_int :: "fields \<Rightarrow> string \<Rightarrow> py_exc + int option" where
  "get_opt_int d k =
     (case dget d k of PNone \<Rightarrow> Inr None | PInt i \<Rightarrow> Inr (Some i) | _ \<Rightarrow> Inl OutOfModel)"

definition get_opt_str :: "fields \<Rightarrow> string \<Rightarrow> py_exc + string option" where
  "get_opt_str d k =
     (case dget d k of PNone \<Rightarrow> Inr None | PStr s \<Rightarrow> Inr (Some s) | _ \<Rightarrow> Inl OutOfModel)"

text \<open>\<open>raw.get("ops") or ()\<close>\<close>

definition get_ops :: "fields \<Rightarrow> py_exc + pyval list" where
  "get_ops d =
     (if \<not> truthy (dget d ''ops'') then Inr []
      else case dget d ''ops'' of PList xs \<Rightarrow> Inr xs | _ \<Rightarrow> Inl OutOfModel)"

definition proposal_from_dict :: "fields \<Rightarrow> py_exc + proposal" where
  "proposal_from_dict raw =
     bind_res (key_str raw ''proof_id'') (\<lambda>pid.
     bind_res (key_str raw ''actor'') (\<lambda>actor.
     bind_res (key_str raw ''worker_class'') (\<lambda>wc.
     bind_res (get_ops raw) (\<lambda>raws.
     bind_res (ops_from_dicts raws) (\<lambda>xs.
     bind_res (get_opt_int raw ''base_revision'') (\<lambda>base.
     bind_res (get_opt_str raw ''lease_id'') (\<lambda>lease.
     bind_res (get_opt_int raw ''fencing_token'') (\<lambda>token.
       Inr \<lparr>prop_proof_id = pid, prop_actor = actor, prop_worker_class = wc, prop_ops = xs,
            prop_base_revision = base, prop_lease_id = lease,
            prop_fencing_token = token\<rparr>))))))))"

lemma proposal_dict_lookups [simp]:
  "key_str (proposal_to_dict p) ''proof_id'' = Inr (prop_proof_id p)"
  "key_str (proposal_to_dict p) ''actor'' = Inr (prop_actor p)"
  "key_str (proposal_to_dict p) ''worker_class'' = Inr (prop_worker_class p)"
  "get_ops (proposal_to_dict p) = Inr (map (PDict \<circ> op_to_dict) (prop_ops p))"
  "get_opt_int (proposal_to_dict p) ''base_revision'' = Inr (prop_base_revision p)"
  "get_opt_str (proposal_to_dict p) ''lease_id'' = Inr (prop_lease_id p)"
  "get_opt_int (proposal_to_dict p) ''fencing_token'' = Inr (prop_fencing_token p)"
  by (auto simp: proposal_to_dict_def key_str_def key_val_def get_ops_def get_opt_int_def
      get_opt_str_def opt_int_def opt_str_def split: option.splits)

lemma proposal_roundtrip: "proposal_from_dict (proposal_to_dict p) = Inr p"
  by (simp add: proposal_from_dict_def)

text \<open>A proposal read back from its journalled form is the proposal that was written.\<close>

lemma journalled_proposal_reads_back: "proposal_from_dict (proposal_to_dict p) = Inr p"
  by (rule proposal_roundtrip)

end
