(* ===== verification/Transitions.thy ===== *)
theory Transitions
  imports Vocab
begin

text \<open>
  The state machines of \<^verbatim>\<open>src/src/commit_gate/transitions.py\<close>: for each status field of a
  labelled node the legal successors of each status, and the fields that never change
  after creation. The tables are transcribed row by row; \<open>status_step\<close> is the step
  relation they describe, \<open>reaches\<close> its reachability, \<open>lifecycle\<close> the sequences of
  statuses a field can run through. The lemmas are what the tables mean for a proof's
  life: no claim status recurs, verification has a fixed history, and defeat is final.
\<close>

section \<open>The tables\<close>

definition STATUS_TRANSITIONS ::
  "((string \<times> string) \<times> (string \<times> string list) list) list" where
  "STATUS_TRANSITIONS =
    [((''FormalState'', ''status''),
       [(''open'',
          [''expanded'', ''formally-closed'', ''failed'', ''pruned'', ''tainted'', ''stale'']),
        (''expanded'',
          [''formally-closed'', ''failed'', ''pruned'', ''tainted'', ''stale'']),
        (''formally-closed'', [''lean-verified'', ''tainted'', ''stale'']),
        (''lean-verified'', [''tainted'', ''stale'']),
        (''tainted'', [''reopened'', ''pruned'', ''stale'']),
        (''reopened'',
          [''expanded'', ''formally-closed'', ''failed'', ''pruned'', ''tainted'', ''stale'']),
        (''failed'', [''stale'']),
        (''pruned'', [''stale'']),
        (''stale'', [])]),
     ((''Claim'', ''status''),
       [(''conjectural'',
          [''empirical'', ''provisional'', ''tainted'', ''refuted'', ''retracted'', ''stale'']),
        (''empirical'',
          [''provisional'', ''tainted'', ''refuted'', ''retracted'', ''stale'']),
        (''provisional'',
          [''critic-accepted'', ''formally-closed'', ''tainted'', ''refuted'', ''retracted'',
           ''stale'']),
        (''critic-accepted'',
          [''formally-closed'', ''tainted'', ''refuted'', ''retracted'', ''stale'']),
        (''formally-closed'',
          [''lean-verified'', ''tainted'', ''refuted'', ''retracted'', ''stale'']),
        (''lean-verified'', [''tainted'', ''stale'']),
        (''tainted'', [''refuted'', ''retracted'', ''stale'']),
        (''refuted'', [''stale'']),
        (''retracted'', [''stale'']),
        (''stale'', [])]),
     ((''FormalDeclaration'', ''status''),
       [(''draft'', [''aligned'', ''searching'', ''stale'']),
        (''aligned'', [''searching'', ''stale'']),
        (''searching'', [''certificate-produced'', ''stale'']),
        (''certificate-produced'', [''replay-pending'', ''stale'']),
        (''replay-pending'',
          [''replay-accepted'', ''replay-rejected'', ''stale'']),
        (''replay-accepted'', [''stale'']),
        (''replay-rejected'', [''stale'']),
        (''stale'', [])]),
     ((''Certificate'', ''status''),
       [(''candidate'', [''replay-pending'', ''stale'']),
        (''replay-pending'',
          [''replay-accepted'', ''replay-rejected'', ''stale'']),
        (''replay-accepted'', [''stale'']),
        (''replay-rejected'', [''stale'']),
        (''stale'', [])]),
     ((''Alignment'', ''lifecycle''),
       [(''draft'', [''review-needed'', ''superseded'', ''stale'']),
        (''review-needed'', [''reviewed'', ''superseded'', ''stale'']),
        (''reviewed'', [''superseded'', ''stale'']),
        (''superseded'', [''stale'']),
        (''stale'', [])]),
     ((''FormalRun'', ''status''),
       [(''searching'',
          [''proved-pending-replay'', ''budget-exhausted'', ''stagnated'',
           ''counterexample'', ''invalid-request'', ''environment-error'',
           ''internal-error'', ''cancelled'']),
        (''proved-pending-replay'', []),
        (''budget-exhausted'', []),
        (''stagnated'', []),
        (''counterexample'', []),
        (''invalid-request'', []),
        (''environment-error'', []),
        (''internal-error'', []),
        (''cancelled'', [])]),
     ((''TacticApplication'', ''status''),
       [(''pending'', [''queued'', ''open'', ''closed'', ''dead'']),
        (''queued'', [''leased'', ''open'', ''dominated'', ''dead'']),
        (''leased'',
          [''open'', ''closed'', ''refuted'', ''exhausted'', ''dead'']),
        (''open'',
          [''leased'', ''closed'', ''refuted'', ''dominated'', ''exhausted'', ''dead'']),
        (''closed'', [''reopened'']),
        (''reopened'',
          [''leased'', ''closed'', ''refuted'', ''dominated'', ''exhausted'', ''dead'']),
        (''refuted'', []),
        (''dominated'', []),
        (''exhausted'', []),
        (''dead'', [])]),
     ((''ResearchState'', ''status''),
       [(''open'', [''superseded'', ''refuted'', ''stale'']),
        (''superseded'', [''stale'']),
        (''refuted'', [''stale'']),
        (''stale'', [])]),
     ((''ResearchMove'', ''status''),
       [(''queued'',
          [''leased'', ''open'', ''dominated'', ''exhausted'', ''stale'']),
        (''open'',
          [''leased'', ''closed'', ''refuted'', ''dominated'', ''exhausted'', ''stale'']),
        (''leased'',
          [''open'', ''closed'', ''refuted'', ''dominated'', ''exhausted'', ''stale'']),
        (''closed'', [''stale'']),
        (''refuted'', []),
        (''dominated'', []),
        (''exhausted'', []),
        (''stale'', [])])]"

definition IMMUTABLE_FIELDS :: "(string \<times> string list) list" where
  "IMMUTABLE_FIELDS =
    [(''FormalState'', [''goal_text'', ''exact_hash'', ''is_theorem'']),
     (''TacticApplication'',
       [''tactic_label'', ''tactic_family'', ''subgoal_count'', ''executor_result'',
        ''diagnostic_artifact'']),
     (''Claim'', [''claim_text'', ''tag'']),
     (''FormalDeclaration'',
       [''lean_name'', ''lean_type'', ''lean_value'', ''module_path'', ''universe_level'']),
     (''FormalRun'', [''actor'', ''start_time'']),
     (''Certificate'', [''actor'', ''producer_run_id'', ''artifact_hash'']),
     (''LeanReplay'',
       [''actor'', ''replayed_at'', ''status'', ''sorry_detected'', ''rejection_reason'']),
     (''Obstruction'', [''kind'', ''description'', ''actor'']),
     (''Proof'', [''actor'']),
     (''Alignment'', [''actor'']),
     (''Attempt'', [''actor'', ''worker_class'']),
     (''Environment'', [''toolchain'', ''lake_manifest_hash'', ''mathlib_commit'']),
     (''FormalCheckpoint'', [''epoch_ms'', ''actor''])]"

text \<open>\<open>table.get(current, frozenset())\<close> for a label and field that have a table.\<close>

definition allowed_next :: "string \<Rightarrow> string \<Rightarrow> string \<Rightarrow> string list" where
  "allowed_next label field current =
     (case map_of STATUS_TRANSITIONS (label, field) of
        None \<Rightarrow> []
      | Some table \<Rightarrow> (case map_of table current of None \<Rightarrow> [] | Some ts \<Rightarrow> ts))"

definition immutable_fields :: "string \<Rightarrow> string list" where
  "immutable_fields label =
     (case map_of IMMUTABLE_FIELDS label of None \<Rightarrow> [] | Some fs \<Rightarrow> fs)"

section \<open>The step relation\<close>

inductive status_step :: "string \<Rightarrow> string \<Rightarrow> string \<Rightarrow> string \<Rightarrow> bool"
  for label field :: string where
  move: "t \<in> set (allowed_next label field s) \<Longrightarrow> status_step label field s t"

inductive_simps status_step_iff: "status_step label field s t"

inductive reaches :: "string \<Rightarrow> string \<Rightarrow> string \<Rightarrow> string \<Rightarrow> bool"
  for label field :: string where
  reach_refl: "reaches label field s s"
| reach_step: "reaches label field s t \<Longrightarrow> status_step label field t u \<Longrightarrow> reaches label field s u"

fun lifecycle :: "string \<Rightarrow> string \<Rightarrow> string list \<Rightarrow> bool" where
  "lifecycle label field (s # t # rest) \<longleftrightarrow>
     status_step label field s t \<and> lifecycle label field (t # rest)"
| "lifecycle label field _ \<longleftrightarrow> True"

text \<open>All the steps of one table, for lemmas that are decided by going through them.\<close>

definition table_steps :: "string \<Rightarrow> string \<Rightarrow> (string \<times> string) list" where
  "table_steps label field =
     (case map_of STATUS_TRANSITIONS (label, field) of
        None \<Rightarrow> []
      | Some table \<Rightarrow> concat (map (\<lambda>(s, ts). map (Pair s) ts) table))"

lemma allowed_next_member:
  assumes "t \<in> set (allowed_next label field s)"
  obtains table ts where "map_of STATUS_TRANSITIONS (label, field) = Some table"
    "map_of table s = Some ts" "t \<in> set ts"
proof (cases "map_of STATUS_TRANSITIONS (label, field)")
  case (Some table)
  with assms that show thesis by (cases "map_of table s") (simp_all add: allowed_next_def)
qed (use assms in \<open>simp add: allowed_next_def\<close>)

lemma status_step_table: "status_step label field s t \<Longrightarrow> (s, t) \<in> set (table_steps label field)"
  unfolding status_step_iff
  by (erule allowed_next_member) (force simp: table_steps_def dest: map_of_SomeD)

lemma reaches_closed:
  assumes "list_all (\<lambda>(s, t). s \<in> A \<longrightarrow> t \<in> A) (table_steps label field)"
    and "reaches label field s t" and "s \<in> A"
  shows "t \<in> A"
  using assms(2,3)
proof (induction rule: reaches.induct)
  case (reach_step s t u)
  then show ?case using assms(1) status_step_table [OF reach_step.hyps(2)]
    by (auto simp: list_all_iff)
qed simp

lemma lifecycle_append:
  "lifecycle label field (xs @ s # t # ys) \<Longrightarrow> status_step label field s t"
  by (induction xs rule: induct_list012) auto

lemma lifecycle_tail: "lifecycle label field (xs @ ys) \<Longrightarrow> lifecycle label field ys"
proof (induction xs)
  case (Cons x xs)
  then show ?case by (cases "xs @ ys") auto
qed simp

lemma lifecycle_front: "lifecycle label field (xs @ ys) \<Longrightarrow> lifecycle label field xs"
  by (induction xs rule: induct_list012) auto

lemma lifecycle_reaches:
  "lifecycle label field (s # xs) \<Longrightarrow> t \<in> set (s # xs) \<Longrightarrow> reaches label field s t"
proof (induction xs arbitrary: t rule: rev_induct)
  case Nil
  then show ?case by (simp add: reaches.reach_refl)
next
  case (snoc x xs)
  have front: "lifecycle label field (s # xs)"
    using snoc.prems(1) lifecycle_front [of label field "s # xs" "[x]"] by simp
  show ?case
  proof (cases "t = x")
    case True
    have "status_step label field (last (s # xs)) x"
    proof (rule lifecycle_append)
      have "s # xs @ [x] = butlast (s # xs) @ last (s # xs) # x # []"
        using append_butlast_last_id [of "s # xs"] by (cases xs) auto
      then show "lifecycle label field (butlast (s # xs) @ last (s # xs) # x # [])"
        using snoc.prems(1) by metis
    qed
    moreover have "reaches label field s (last (s # xs))"
      using snoc.IH [OF front, of "last (s # xs)"] by simp
    ultimately show ?thesis using True by (auto intro: reaches.reach_step)
  next
    case False
    then show ?thesis using snoc front by auto
  qed
qed

text \<open>A decreasing rank makes a lifecycle visit each status at most once.\<close>

lemma lifecycle_distinct:
  fixes rank :: "string \<Rightarrow> nat"
  assumes "list_all (\<lambda>(s, t). rank t < rank s) (table_steps label field)"
  shows "lifecycle label field xs \<Longrightarrow> distinct xs"
proof -
  have step: "status_step label field s t \<Longrightarrow> rank t < rank s" for s t
    using assms status_step_table by (fastforce simp: list_all_iff)
  have "lifecycle label field xs \<Longrightarrow> sorted_wrt (\<lambda>s t. rank t < rank s) xs"
  proof (induction xs rule: induct_list012)
    case (3 s t rest)
    then have "rank t < rank s" "sorted_wrt (\<lambda>s t. rank t < rank s) (t # rest)"
      using step by auto
    then show ?case by auto
  qed simp_all
  moreover have "sorted_wrt (\<lambda>s t. rank t < rank s) xs \<Longrightarrow> distinct xs"
    by (induction xs) auto
  ultimately show "lifecycle label field xs \<Longrightarrow> distinct xs" by blast
qed

section \<open>The lifecycle of a claim\<close>

definition claim_rank :: "string \<Rightarrow> nat" where
  "claim_rank s =
     (if s = ''conjectural'' then 9 else if s = ''empirical'' then 8
      else if s = ''provisional'' then 7 else if s = ''critic-accepted'' then 6
      else if s = ''formally-closed'' then 5 else if s = ''lean-verified'' then 4
      else if s = ''tainted'' then 3 else if s = ''refuted'' then 2
      else if s = ''retracted'' then 1 else 0)"

lemma claim_steps_decrease:
  "list_all (\<lambda>(s, t). claim_rank t < claim_rank s) (table_steps ''Claim'' ''status'')"
  by code_simp

lemma into_claim_verified:
  "list_all (\<lambda>(s, t). t = ''lean-verified'' \<longrightarrow> s = ''formally-closed'')
     (table_steps ''Claim'' ''status'')"
  by code_simp

lemma into_claim_closed:
  "list_all (\<lambda>(s, t). t = ''formally-closed'' \<longrightarrow> s = ''provisional'' \<or> s = ''critic-accepted'')
     (table_steps ''Claim'' ''status'')"
  by code_simp

lemma into_claim_accepted:
  "list_all (\<lambda>(s, t). t = ''critic-accepted'' \<longrightarrow> s = ''provisional'')
     (table_steps ''Claim'' ''status'')"
  by code_simp

lemma defeated_claims_closed:
  "list_all (\<lambda>(s, t). s \<in> {''tainted'', ''refuted'', ''retracted'', ''stale''} \<longrightarrow>
       t \<in> {''tainted'', ''refuted'', ''retracted'', ''stale''})
     (table_steps ''Claim'' ''status'')"
  by code_simp

text \<open>The status just before one that is not the first of a lifecycle.\<close>

lemma lifecycle_predecessor:
  assumes "lifecycle label field (s # xs)" "t \<in> set (s # xs)" "t \<noteq> s"
  obtains ys u zs where "s # xs = ys @ u # t # zs" "status_step label field u t"
proof -
  from assms(2,3) obtain as bs where "xs = as @ t # bs" by (auto dest: split_list)
  then have eq: "s # xs = butlast (s # as) @ last (s # as) # t # bs"
    using append_butlast_last_id [of "s # as"] by (metis append.assoc append_Cons append_Nil list.distinct(1))
  then have "status_step label field (last (s # as)) t"
    using assms(1) lifecycle_append by metis
  with eq show ?thesis by (rule that)
qed

end
