(* ===== verification/ValidateLocal.thy ===== *)
theory ValidateLocal
  imports Ops Transitions
begin

text \<open>
  The validators of \<^verbatim>\<open>src/src/commit_gate/validate.py\<close> that need the proposal alone: concurrency
  tokens, vocabulary, namespace, subgoal conservation (Invariant 2), executor results
  (11.3) and annotation separation (Invariant 3). Each is a definition that yields the
  findings in the order the generator does; \<open>Inl TypeError\<close> stands for the raise where
  an unhashable or unorderable value reaches a set lookup or \<open>sorted\<close>.

  The lemmas after each validator say what a proposal without findings looks like: they
  are the interface the other theories use.
\<close>

section \<open>Tables\<close>

definition ENUM_FIELDS :: "((string \<times> string) \<times> string list) list" where
  "ENUM_FIELDS =
    [((''Claim'', ''status''), ClaimStatus),
     ((''FormalState'', ''status''), FormalStateStatus),
     ((''FormalDeclaration'', ''status''), DeclarationStatus),
     ((''Certificate'', ''status''), CertificateStatus),
     ((''Alignment'', ''lifecycle''), AlignmentLifecycle),
     ((''Alignment'', ''verdict''), AlignmentVerdict),
     ((''FormalRun'', ''status''), RunDisposition),
     ((''TacticApplication'', ''status''), TacticStatus),
     ((''TacticApplication'', ''executor_result''), ExecutorResult),
     ((''LeanReplay'', ''status''), ReplayStatus),
     ((''Obstruction'', ''kind''), ObstructionKind),
     ((''Attempt'', ''status''), AttemptStatus),
     ((''Attempt'', ''worker_class''), WorkerClass)]"

definition CLOSED_STATE_VALUES :: "string list" where
  "CLOSED_STATE_VALUES = [''formally-closed'', ''lean-verified'']"

definition TERMINAL_FAILURE_VALUES :: "string list" where
  "TERMINAL_FAILURE_VALUES = TERMINAL_EXECUTOR_FAILURES"

definition UNSCOPED_LABELS :: "string list" where
  "UNSCOPED_LABELS = [''Artifact'']"

type_synonym indexed_op = "nat \<times> op"

abbreviation indexed_ops :: "op list \<Rightarrow> indexed_op list" where
  "indexed_ops xs \<equiv> List.enumerate 0 xs"

section \<open>Concurrency tokens\<close>

definition first_status_op :: "op list \<Rightarrow> indexed_op option" where
  "first_status_op xs = List.find (\<lambda>(i, x). class_of_op x = ClsStatus) (indexed_ops xs)"

definition check_concurrency_tokens :: "proposal \<Rightarrow> rejection list" where
  "check_concurrency_tokens p =
     (if prop_base_revision p = None
      then [\<lparr>rej_reason = MISSING_CONCURRENCY_TOKEN, rej_op_index = None\<rparr>] else []) @
     (if prop_lease_id p \<noteq> None \<and> prop_fencing_token p \<noteq> None then []
      else case first_status_op (prop_ops p) of
             None \<Rightarrow> []
           | Some (i, _) \<Rightarrow> [reject MISSING_CONCURRENCY_TOKEN i])"

lemma first_status_op_None:
  "first_status_op xs = None \<longleftrightarrow> (\<forall>x \<in> set xs. class_of_op x \<noteq> ClsStatus)"
  unfolding first_status_op_def find_None_iff
  using enumerate_ballI [of 0 xs "\<lambda>x. class_of_op x \<noteq> ClsStatus"] by force

lemma check_concurrency_tokens_clean:
  "check_concurrency_tokens p = [] \<longleftrightarrow>
     prop_base_revision p \<noteq> None \<and>
     (prop_lease_id p \<noteq> None \<and> prop_fencing_token p \<noteq> None \<or>
      (\<forall>x \<in> set (prop_ops p). class_of_op x \<noteq> ClsStatus))"
  by (auto simp: check_concurrency_tokens_def first_status_op_None [symmetric]
      split: option.splits)

section \<open>Vocabulary\<close>

definition check_literal :: "nat \<Rightarrow> string \<Rightarrow> string \<Rightarrow> pyval \<Rightarrow> rejection list" where
  "check_literal index label name value =
     (case map_of ENUM_FIELDS (label, name) of
        None \<Rightarrow> []
      | Some vocabulary \<Rightarrow>
          if enum_accepts vocabulary value then [] else [reject UNKNOWN_STATUS_VALUE index])"

fun vocabulary_of_op :: "indexed_op \<Rightarrow> rejection list" where
  "vocabulary_of_op (i, UpsertNode label n fs) =
     concat (map (\<lambda>(name, value). check_literal i label name value) fs)"
| "vocabulary_of_op (i, SetField label n field value prior) = check_literal i label field value"
| "vocabulary_of_op (i, _) = []"

definition check_vocabulary :: "proposal \<Rightarrow> rejection list" where
  "check_vocabulary p = concat (map vocabulary_of_op (indexed_ops (prop_ops p)))"

definition literal_ok :: "string \<Rightarrow> string \<Rightarrow> pyval \<Rightarrow> bool" where
  "literal_ok label name value \<longleftrightarrow>
     (\<forall>vocabulary. map_of ENUM_FIELDS (label, name) = Some vocabulary \<longrightarrow>
        (\<exists>s \<in> set vocabulary. value = PStr s))"

lemma check_literal_clean: "check_literal i label name value = [] \<longleftrightarrow> literal_ok label name value"
  by (auto simp: check_literal_def literal_ok_def enum_accepts_iff split: option.splits)

fun op_literals_ok :: "op \<Rightarrow> bool" where
  "op_literals_ok (UpsertNode label n fs) = (\<forall>(name, value) \<in> set fs. literal_ok label name value)"
| "op_literals_ok (SetField label n field value prior) = literal_ok label field value"
| "op_literals_ok _ = True"

lemma vocabulary_of_op_clean: "vocabulary_of_op (i, x) = [] \<longleftrightarrow> op_literals_ok x"
  by (cases x) (auto simp: check_literal_clean)

lemma check_vocabulary_clean:
  "check_vocabulary p = [] \<longleftrightarrow> (\<forall>x \<in> set (prop_ops p). op_literals_ok x)"
  unfolding check_vocabulary_def
  by (rule enumerate_concat_Nil) (rule vocabulary_of_op_clean)

section \<open>Namespace\<close>

definition is_content_addressed :: "string \<Rightarrow> bool" where
  "is_content_addressed identity \<longleftrightarrow> startswith identity ''sha256:''"

fun identities :: "op \<Rightarrow> string list" where
  "identities (UpsertNode label n fs) = (if label \<notin> set UNSCOPED_LABELS then [n] else [])"
| "identities (SetField label n field value prior) =
     (if label \<notin> set UNSCOPED_LABELS then [n] else [])"
| "identities (AddEdge rel src dst e fs) = [src, dst, e]"
| "identities (RemoveEdge rel e) = [e]"

definition in_namespace :: "string \<Rightarrow> string \<Rightarrow> bool" where
  "in_namespace proof_id identity \<longleftrightarrow>
     is_content_addressed identity \<or> startswith identity (proof_id @ ''/'')"

definition check_namespace :: "proposal \<Rightarrow> rejection list" where
  "check_namespace p =
     concat (map (\<lambda>(i, x).
       concat (map (\<lambda>identity.
         if in_namespace (prop_proof_id p) identity then []
         else [reject NAMESPACE_MISMATCH i]) (identities x))) (indexed_ops (prop_ops p)))"

lemma check_namespace_clean:
  "check_namespace p = [] \<longleftrightarrow>
     (\<forall>x \<in> set (prop_ops p). \<forall>identity \<in> set (identities x).
        in_namespace (prop_proof_id p) identity)"
  unfolding check_namespace_def
  by (rule enumerate_concat_Nil) (auto split: if_splits)

section \<open>Tactics, required children and closures of a proposal\<close>

text \<open>
  The dictionaries that two validators build in their first loop: the tactics created
  (a repeated id keeps its place and takes the last operation's index and fields), the
  required child edges per source and the closure edges per source.
\<close>

definition created_tactics :: "op list \<Rightarrow> (string \<times> nat \<times> fields) list" where
  "created_tactics xs =
     foldl (\<lambda>d (i, x). case x of
         UpsertNode label n fs \<Rightarrow>
           if label = ''TacticApplication'' then AList.update n (i, fs) d else d
       | _ \<Rightarrow> d) [] (indexed_ops xs)"

definition required_children :: "op list \<Rightarrow> (string \<times> (nat \<times> string \<times> pyval) list) list" where
  "required_children xs =
     foldl (\<lambda>d (i, x). case x of
         AddEdge rel src dst e fs \<Rightarrow>
           if rel = ''FORMAL_REQUIRES'' then dlist_append src (i, dst, dget fs ''child_index'') d
           else d
       | _ \<Rightarrow> d) [] (indexed_ops xs)"

definition closure_edges :: "op list \<Rightarrow> (string \<times> (nat \<times> string) list) list" where
  "closure_edges xs =
     foldl (\<lambda>d (i, x). case x of
         AddEdge rel src dst e fs \<Rightarrow>
           if rel = ''CLOSES_STATE'' then dlist_append src (i, dst) d else d
       | _ \<Rightarrow> d) [] (indexed_ops xs)"

text \<open>The same information without the loop: the edges of one source, in order.\<close>

fun child_of :: "string \<Rightarrow> op \<Rightarrow> (string \<times> pyval) option" where
  "child_of tac (AddEdge rel src dst e fs) =
     (if rel = ''FORMAL_REQUIRES'' \<and> src = tac then Some (dst, dget fs ''child_index'') else None)"
| "child_of tac _ = None"

definition children_of :: "op list \<Rightarrow> string \<Rightarrow> (string \<times> pyval) list" where
  "children_of xs tac = List.map_filter (child_of tac) xs"

fun tactic_fields :: "string \<Rightarrow> op \<Rightarrow> fields option" where
  "tactic_fields tac (UpsertNode label n fs) =
     (if label = ''TacticApplication'' \<and> n = tac then Some fs else None)"
| "tactic_fields tac _ = None"

lemma enumerate_snoc:
  "List.enumerate n (xs @ [x]) = List.enumerate n xs @ [(n + length xs, x)]"
  by (simp add: enumerate_append_eq)

lemma created_tactics_snoc:
  "created_tactics (xs @ [x]) =
     (case x of
        UpsertNode label n fs \<Rightarrow>
          if label = ''TacticApplication''
          then AList.update n (length xs, fs) (created_tactics xs) else created_tactics xs
      | _ \<Rightarrow> created_tactics xs)"
  by (cases x) (simp_all add: created_tactics_def enumerate_snoc)

lemma required_children_snoc:
  "required_children (xs @ [x]) =
     (case x of
        AddEdge rel src dst e fs \<Rightarrow>
          if rel = ''FORMAL_REQUIRES''
          then dlist_append src (length xs, dst, dget fs ''child_index'') (required_children xs)
          else required_children xs
      | _ \<Rightarrow> required_children xs)"
  by (cases x) (simp_all add: required_children_def enumerate_snoc)

lemma closure_edges_snoc:
  "closure_edges (xs @ [x]) =
     (case x of
        AddEdge rel src dst e fs \<Rightarrow>
          if rel = ''CLOSES_STATE'' then dlist_append src (length xs, dst) (closure_edges xs)
          else closure_edges xs
      | _ \<Rightarrow> closure_edges xs)"
  by (cases x) (simp_all add: closure_edges_def enumerate_snoc)

lemma loop_Nil [simp]:
  "created_tactics [] = []" "required_children [] = []" "closure_edges [] = []"
  by (simp_all add: created_tactics_def required_children_def closure_edges_def)

lemma map_snd_required_children:
  "map snd (dlist_get (required_children xs) tac) = children_of xs tac"
proof (induction xs rule: rev_induct)
  case Nil
  then show ?case by (simp add: dlist_get_def children_of_def List.map_filter_def)
next
  case (snoc x xs)
  then show ?case
    by (cases x)
       (auto simp: required_children_snoc children_of_def map_filter_snoc dlist_get_append)
qed

lemma map_of_required_children_None:
  "map_of (required_children xs) tac = None \<longleftrightarrow>
     (\<forall>dst e fs. AddEdge ''FORMAL_REQUIRES'' tac dst e fs \<notin> set xs)"
proof (induction xs rule: rev_induct)
  case (snoc x xs)
  then show ?case
    by (cases x) (auto simp: required_children_snoc map_of_dlist_append_None)
qed simp

lemma distinct_loops:
  "distinct (map fst (created_tactics xs))"
  "distinct (map fst (required_children xs))"
  "distinct (map fst (closure_edges xs))"
  by (induction xs rule: rev_induct)
     (auto simp: created_tactics_snoc required_children_snoc closure_edges_snoc
       distinct_update distinct_dlist_append split: op.splits)

lemma created_tactics_None:
  "map_of (created_tactics xs) tac = None \<longleftrightarrow>
     (\<forall>fs. UpsertNode ''TacticApplication'' tac fs \<notin> set xs)"
proof (induction xs rule: rev_induct)
  case (snoc x xs)
  then show ?case
    by (cases x) (auto simp: created_tactics_snoc update_conv')
qed simp

text \<open>The fields recorded for a tactic are those of the last operation that creates it.\<close>

definition last_tactic :: "op list \<Rightarrow> string \<Rightarrow> fields option" where
  "last_tactic xs tac =
     (let fss = List.map_filter (tactic_fields tac) xs
      in if fss = [] then None else Some (last fss))"

lemma last_tactic_snoc:
  "last_tactic (xs @ [x]) tac =
     (case tactic_fields tac x of None \<Rightarrow> last_tactic xs tac | Some fs \<Rightarrow> Some fs)"
  by (simp add: last_tactic_def map_filter_snoc split: option.split)

lemma created_tactics_fields: "map_option snd (map_of (created_tactics xs) tac) = last_tactic xs tac"
proof (induction xs rule: rev_induct)
  case (snoc x xs)
  then show ?case
    by (cases x) (auto simp: created_tactics_snoc last_tactic_snoc update_conv')
qed (simp add: last_tactic_def List.map_filter_def)

fun closure_of :: "string \<Rightarrow> op \<Rightarrow> string option" where
  "closure_of tac (AddEdge rel src dst e fs) =
     (if rel = ''CLOSES_STATE'' \<and> src = tac then Some dst else None)"
| "closure_of tac _ = None"

lemma map_snd_closure_edges:
  "map snd (dlist_get (closure_edges xs) tac) = List.map_filter (closure_of tac) xs"
proof (induction xs rule: rev_induct)
  case (snoc x xs)
  then show ?case
    by (cases x) (auto simp: closure_edges_snoc map_filter_snoc dlist_get_append)
qed (simp add: dlist_get_def List.map_filter_def)

lemma map_of_closure_edges_None:
  "map_of (closure_edges xs) tac = None \<longleftrightarrow>
     (\<forall>dst e fs. AddEdge ''CLOSES_STATE'' tac dst e fs \<notin> set xs)"
proof (induction xs rule: rev_induct)
  case (snoc x xs)
  then show ?case
    by (cases x) (auto simp: closure_edges_snoc map_of_dlist_append_None)
qed simp

lemma last_tactic_None:
  "last_tactic xs tac = None \<longleftrightarrow> (\<forall>fs. UpsertNode ''TacticApplication'' tac fs \<notin> set xs)"
  using created_tactics_None [of xs tac] created_tactics_fields [of xs tac]
  by (cases "map_of (created_tactics xs) tac") auto

section \<open>Subgoal conservation\<close>

definition removed_requirements :: "op list \<Rightarrow> rejection list" where
  "removed_requirements xs =
     concat (map (\<lambda>(i, x). case x of
        RemoveEdge rel e \<Rightarrow>
          if rel = ''FORMAL_REQUIRES'' then [reject FORMAL_REQUIRES_REMOVAL i] else []
      | _ \<Rightarrow> []) (indexed_ops xs))"

definition orphans :: "reason \<Rightarrow> (string \<times> 'a) list \<Rightarrow> (string \<times> (nat \<times> 'b) list) list \<Rightarrow> rejection list" where
  "orphans why tactics edges =
     concat (map (\<lambda>(tac, entries).
       if map_of tactics tac = None then [reject why (fst (hd entries))] else []) edges)"

definition duplicates :: "string list \<Rightarrow> string list" where
  "duplicates targets = sort (remdups (filter (\<lambda>t. 1 < count_list targets t) targets))"

definition tactic_conservation ::
  "nat \<Rightarrow> fields \<Rightarrow> (nat \<times> string \<times> pyval) list \<Rightarrow> rejection gen" where
  "tactic_conservation index fs entries =
     (let declared = dget fs ''subgoal_count'';
          count = (if declared = PNone then [reject MISSING_REQUIRED_FIELD index]
                   else if \<not> py_eq declared (PInt (int (length entries)))
                     then [reject SUBGOAL_COUNT_MISMATCH index] else []);
          targets = map (\<lambda>(_, target, _). target) entries;
          dups = map (\<lambda>_. reject SUBGOAL_DUPLICATED index) (duplicates targets)
      in case py_sorted (filter (\<lambda>pos. pos \<noteq> PNone) (map (\<lambda>(_, _, pos). pos) entries)) of
           Inl e \<Rightarrow> Inl e
         | Inr positions \<Rightarrow>
             Inr (count @ dups @
               (if \<not> is_range positions (length entries)
                then [reject SUBGOAL_INDEX_INVALID index] else [])))"

definition check_subgoal_conservation :: "proposal \<Rightarrow> rejection gen" where
  "check_subgoal_conservation p =
     (let xs = prop_ops p; tactics = created_tactics xs; children = required_children xs
      in gen_append (Inr (removed_requirements xs @ orphans ORPHAN_SUBGOAL_EDGE tactics children))
           (collect (\<lambda>(tac, index, fs). tactic_conservation index fs (dlist_get children tac))
              tactics))"

text \<open>What a conserving tactic looks like, without the loops.\<close>

definition conserves :: "fields \<Rightarrow> (string \<times> pyval) list \<Rightarrow> bool" where
  "conserves fs children \<longleftrightarrow>
     num_of (dget fs ''subgoal_count'') = Some (rat_of_nat (length children)) \<and>
     distinct (map fst children) \<and>
     mset (map (num_of \<circ> snd) children) =
       mset (map (\<lambda>i. Some (rat_of_nat i)) [0..<length children])"

lemma conserves_mset:
  assumes "conserves fs xs" and "mset ys = mset xs"
  shows "conserves fs ys"
proof -
  have "length ys = length xs" using assms(2) by (rule mset_eq_length)
  moreover have "distinct (map fst ys) \<longleftrightarrow> distinct (map fst xs)"
    using assms(2) by (metis mset_map mset_eq_imp_distinct_iff)
  moreover have "mset (map (num_of \<circ> snd) ys) = mset (map (num_of \<circ> snd) xs)"
    using assms(2) by simp
  ultimately show ?thesis using assms(1) by (simp add: conserves_def)
qed

lemma duplicates_Nil: "duplicates targets = [] \<longleftrightarrow> distinct targets"
proof -
  have "duplicates targets = [] \<longleftrightarrow> set (duplicates targets) = {}" by simp
  also have "set (duplicates targets) = {t \<in> set targets. 1 < count_list targets t}"
    by (simp add: duplicates_def)
  also have "\<dots> = {} \<longleftrightarrow> (\<forall>t \<in> set targets. count_list targets t = 1)"
  proof -
    have "t \<in> set targets \<Longrightarrow> \<not> 1 < count_list targets t \<longleftrightarrow> count_list targets t = 1" for t
      using count_notin [of t targets] count_list_0_iff [of targets t] by (metis less_one linorder_neqE_nat)
    then show ?thesis by blast
  qed
  also have "\<dots> \<longleftrightarrow> distinct targets"
    by (metis count_mset distinct_count_atmost_1 set_mset_mset count_mset_0_iff in_multiset_in_set)
  finally show ?thesis .
qed

lemma tactic_conservation_clean:
  "tactic_conservation index fs entries = Inr [] \<longleftrightarrow> conserves fs (map snd entries)"
proof -
  let ?pos = "map (\<lambda>(_, _, pos). pos) entries"
  let ?some = "filter (\<lambda>pos. pos \<noteq> PNone) ?pos"
  let ?n = "length entries"
  let ?range = "mset (map (\<lambda>i. Some (rat_of_nat i)) [0..<?n])"
  have pos: "map (num_of \<circ> snd) (map snd entries) = map num_of ?pos"
    by (auto simp: split_beta)
  have targets: "map fst (map snd entries) = map (\<lambda>(_, target, _). target) entries"
    by (auto simp: split_beta)
  have filter: "mset (map num_of ?some) = ?range \<longleftrightarrow> mset (map num_of ?pos) = ?range"
  proof
    assume *: "mset (map num_of ?some) = ?range"
    have "size (mset (map num_of ?some)) = ?n" unfolding * by simp
    then have len: "length ?some = length ?pos" by (simp only: size_mset length_map)
    have "x \<noteq> PNone" if "x \<in> set ?pos" for x
      using length_filter_less [of x ?pos "\<lambda>pos. pos \<noteq> PNone"] that len by linarith
    then have "?some = ?pos" by (simp add: filter_id_conv)
    then show "mset (map num_of ?pos) = ?range" using * by simp
  next
    assume *: "mset (map num_of ?pos) = ?range"
    then have eq: "set (map num_of ?pos) = set (map (\<lambda>i. Some (rat_of_nat i)) [0..<?n])"
      by (rule mset_eq_setD)
    have "\<forall>x \<in> set ?pos. num_of x \<noteq> None"
    proof
      fix x assume "x \<in> set ?pos"
      then have "num_of x \<in> set (map num_of ?pos)" unfolding set_map by (rule imageI)
      then show "num_of x \<noteq> None" unfolding eq by force
    qed
    then have "?some = ?pos" unfolding filter_id_conv by (metis num_of.simps(4) not_None_eq)
    then show "mset (map num_of ?some) = ?range" using * by simp
  qed
  have "tactic_conservation index fs entries = Inr [] \<longleftrightarrow>
      py_eq (dget fs ''subgoal_count'') (PInt (int ?n)) \<and>
      distinct (map (\<lambda>(_, target, _). target) entries) \<and>
      (\<exists>ys. py_sorted ?some = Inr ys \<and> is_range ys ?n)"
    unfolding tactic_conservation_def Let_def duplicates_Nil [symmetric]
    by (auto split: sum.splits)
  then show ?thesis
    unfolding conserves_def pos targets length_map sorted_is_range filter py_eq_PInt by simp
qed

lemma removed_requirements_Nil:
  "removed_requirements xs = [] \<longleftrightarrow> (\<forall>e. RemoveEdge ''FORMAL_REQUIRES'' e \<notin> set xs)"
proof -
  have "removed_requirements xs = [] \<longleftrightarrow>
      (\<forall>x \<in> set xs. \<forall>e. x \<noteq> RemoveEdge ''FORMAL_REQUIRES'' e)"
    unfolding removed_requirements_def
    by (rule enumerate_concat_Nil) (auto split: op.splits)
  then show ?thesis by blast
qed

lemma orphans_Nil:
  "orphans why tactics edges = [] \<longleftrightarrow>
     (\<forall>tac. map_of edges tac \<noteq> None \<longrightarrow> map_of tactics tac \<noteq> None)"
proof -
  have "orphans why tactics edges = [] \<longleftrightarrow> (\<forall>tac \<in> fst ` set edges. map_of tactics tac \<noteq> None)"
    unfolding orphans_def concat_map_Nil ball_simps
    by (rule ball_cong) (auto split: if_splits)
  then show ?thesis by (simp add: map_of_eq_None_iff Ball_def)
qed

text \<open>
  A proposal conserves subgoals: no requirement is removed, every required-child edge
  belongs to a tactic of the proposal, and each tactic conserves.
\<close>

definition subgoals_conserved :: "op list \<Rightarrow> bool" where
  "subgoals_conserved xs \<longleftrightarrow>
     (\<forall>e. RemoveEdge ''FORMAL_REQUIRES'' e \<notin> set xs) \<and>
     (\<forall>tac dst e fs. AddEdge ''FORMAL_REQUIRES'' tac dst e fs \<in> set xs \<longrightarrow>
        last_tactic xs tac \<noteq> None) \<and>
     (\<forall>tac fs. last_tactic xs tac = Some fs \<longrightarrow> conserves fs (children_of xs tac))"

lemma loop_ball:
  assumes "distinct (map fst d)"
  shows "(\<forall>x \<in> set d. P (fst x) (snd x)) \<longleftrightarrow> (\<forall>k v. map_of d k = Some v \<longrightarrow> P k v)"
  using assms by (auto simp: map_of_eq_Some_iff)

lemma check_subgoal_conservation_clean:
  "check_subgoal_conservation p = Inr [] \<longleftrightarrow> subgoals_conserved (prop_ops p)"
proof -
  let ?xs = "prop_ops p"
  have "collect (\<lambda>(tac, index, fs). tactic_conservation index fs
            (dlist_get (required_children ?xs) tac)) (created_tactics ?xs) = Inr [] \<longleftrightarrow>
        (\<forall>tac v. map_of (created_tactics ?xs) tac = Some v \<longrightarrow>
           conserves (snd v) (children_of ?xs tac))"
    unfolding collect_clean
    using loop_ball [OF distinct_loops(1), of ?xs
        "\<lambda>tac v. conserves (snd v) (children_of ?xs tac)"]
    by (simp add: split_beta tactic_conservation_clean map_snd_required_children)
  also have "\<dots> \<longleftrightarrow> (\<forall>tac fs. last_tactic ?xs tac = Some fs \<longrightarrow> conserves fs (children_of ?xs tac))"
    by (auto simp: created_tactics_fields [symmetric])
  finally have tactics: "collect (\<lambda>(tac, index, fs). tactic_conservation index fs
            (dlist_get (required_children ?xs) tac)) (created_tactics ?xs) = Inr [] \<longleftrightarrow>
        (\<forall>tac fs. last_tactic ?xs tac = Some fs \<longrightarrow> conserves fs (children_of ?xs tac))" .
  have "orphans ORPHAN_SUBGOAL_EDGE (created_tactics ?xs) (required_children ?xs) = [] \<longleftrightarrow>
      (\<forall>tac dst e fs. AddEdge ''FORMAL_REQUIRES'' tac dst e fs \<in> set ?xs \<longrightarrow>
        last_tactic ?xs tac \<noteq> None)"
    unfolding orphans_Nil map_of_required_children_None created_tactics_None last_tactic_None
    by blast
  with tactics show ?thesis
    by (simp add: check_subgoal_conservation_def Let_def gen_append_clean removed_requirements_Nil
        subgoals_conserved_def)
qed

section \<open>Executor results\<close>

definition executor_tactic :: "nat \<Rightarrow> fields \<Rightarrow> rejection gen" where
  "executor_tactic index fs =
     (let result = dget fs ''executor_result''; diagnostic = dget fs ''diagnostic_artifact''
      in if result = PNone then Inr [reject MISSING_REQUIRED_FIELD index]
         else case py_in result TERMINAL_FAILURE_VALUES of
             Inl e \<Rightarrow> Inl e
           | Inr terminal \<Rightarrow>
               if terminal
               then Inr ((if py_eq (dget fs ''status'') (PStr ''closed'')
                          then [reject EXECUTOR_FAILURE_AS_SUCCESS index] else []) @
                         (if diagnostic \<noteq> PNone
                          then [reject FAILURE_WITH_MATHEMATICAL_DIAGNOSTIC index] else []))
               else if py_eq result (PStr ''lean-rejected'') \<and> diagnostic = PNone
                 then Inr [reject DEAD_EDGE_MISSING_DIAGNOSTIC index]
               else Inr [])"

definition closure_findings :: "fields \<Rightarrow> (nat \<times> string) list \<Rightarrow> rejection list" where
  "closure_findings fs entries =
     (let result = dget fs ''executor_result''; declared = dget fs ''subgoal_count''
      in concat (map (\<lambda>(index, state_id).
           (if \<not> py_eq result (PStr ''lean-accepted'')
            then [reject CLOSURE_WITHOUT_LEAN_ACCEPTED index] else []) @
           (if \<not> py_eq declared (PInt 0)
            then [reject CLOSURE_WITHOUT_ZERO_GOALS index] else [])) entries))"

definition check_executor_result :: "proposal \<Rightarrow> rejection gen" where
  "check_executor_result p =
     (let xs = prop_ops p; tactics = created_tactics xs
      in gen_append (collect (\<lambda>(tac, index, fs). executor_tactic index fs) tactics)
           (Inr (concat (map (\<lambda>(tac, entries).
              case map_of tactics tac of
                None \<Rightarrow> [reject ORPHAN_CLOSURE_EDGE (fst (hd entries))]
              | Some (_, fs) \<Rightarrow> closure_findings fs entries) (closure_edges xs)))))"

definition tactic_result_ok :: "fields \<Rightarrow> bool" where
  "tactic_result_ok fs \<longleftrightarrow>
     (let result = dget fs ''executor_result''; diagnostic = dget fs ''diagnostic_artifact''
      in result \<noteq> PNone \<and> hashable result \<and>
         (result \<in> PStr ` set TERMINAL_FAILURE_VALUES \<longrightarrow>
            dget fs ''status'' \<noteq> PStr ''closed'' \<and> diagnostic = PNone) \<and>
         (result = PStr ''lean-rejected'' \<longrightarrow> diagnostic \<noteq> PNone))"

definition closes_leaf :: "fields \<Rightarrow> bool" where
  "closes_leaf fs \<longleftrightarrow>
     dget fs ''executor_result'' = PStr ''lean-accepted'' \<and>
     num_of (dget fs ''subgoal_count'') = Some 0"

definition executor_results_ok :: "op list \<Rightarrow> bool" where
  "executor_results_ok xs \<longleftrightarrow>
     (\<forall>tac fs. last_tactic xs tac = Some fs \<longrightarrow> tactic_result_ok fs) \<and>
     (\<forall>tac dst e gs. AddEdge ''CLOSES_STATE'' tac dst e gs \<in> set xs \<longrightarrow>
        (\<exists>fs. last_tactic xs tac = Some fs \<and> closes_leaf fs))"

lemma executor_tactic_clean: "executor_tactic index fs = Inr [] \<longleftrightarrow> tactic_result_ok fs"
proof -
  have "''lean-rejected'' \<notin> set TERMINAL_FAILURE_VALUES" by code_simp
  then show ?thesis
    by (cases "dget fs ''executor_result''")
       (simp_all add: executor_tactic_def tactic_result_ok_def py_in_def Let_def image_iff)
qed

lemma closure_findings_Nil: "closure_findings fs entries = [] \<longleftrightarrow> entries = [] \<or> closes_leaf fs"
  by (cases entries) (auto simp: closure_findings_def closes_leaf_def py_eq_PInt Let_def split: if_splits)

lemma closure_edges_nonempty:
  "dlist_get (closure_edges xs) tac \<noteq> [] \<longleftrightarrow>
     (\<exists>dst e fs. AddEdge ''CLOSES_STATE'' tac dst e fs \<in> set xs)"
proof -
  have "dlist_get (closure_edges xs) tac \<noteq> [] \<longleftrightarrow>
      (\<exists>dst. dst \<in> set (List.map_filter (closure_of tac) xs))"
    unfolding map_snd_closure_edges [symmetric]
    by (cases "dlist_get (closure_edges xs) tac") auto
  also have "\<dots> \<longleftrightarrow> (\<exists>dst e fs. AddEdge ''CLOSES_STATE'' tac dst e fs \<in> set xs)"
  proof -
    have "closure_of tac x = Some dst \<longleftrightarrow> (\<exists>e fs. x = AddEdge ''CLOSES_STATE'' tac dst e fs)"
      for x dst by (cases x) auto
    then show ?thesis by (auto simp: map_filter_member)
  qed
  finally show ?thesis .
qed

lemma check_executor_result_clean:
  "check_executor_result p = Inr [] \<longleftrightarrow> executor_results_ok (prop_ops p)"
proof -
  let ?xs = "prop_ops p"
  let ?tac = "created_tactics ?xs" and ?clo = "closure_edges ?xs"
  have "collect (\<lambda>(tac, index, fs). executor_tactic index fs) ?tac = Inr [] \<longleftrightarrow>
      (\<forall>tac v. map_of ?tac tac = Some v \<longrightarrow> tactic_result_ok (snd v))"
    unfolding collect_clean
    using loop_ball [OF distinct_loops(1), of ?xs "\<lambda>tac v. tactic_result_ok (snd v)"]
    by (simp add: split_beta executor_tactic_clean)
  then have one: "collect (\<lambda>(tac, index, fs). executor_tactic index fs) ?tac = Inr [] \<longleftrightarrow>
      (\<forall>tac fs. last_tactic ?xs tac = Some fs \<longrightarrow> tactic_result_ok fs)"
    by (auto simp: created_tactics_fields [symmetric])
  let ?body = "\<lambda>tac entries. case map_of ?tac tac of
      None \<Rightarrow> [reject ORPHAN_CLOSURE_EDGE (fst (hd entries))]
    | Some (_, fs) \<Rightarrow> closure_findings fs entries"
  have body: "?body tac entries = [] \<longleftrightarrow>
      (\<exists>fs. last_tactic ?xs tac = Some fs \<and> (entries = [] \<or> closes_leaf fs))" for tac entries
    by (auto simp: created_tactics_fields [symmetric] closure_findings_Nil split: option.splits)
  have "concat (map (\<lambda>(tac, entries). ?body tac entries) ?clo) = [] \<longleftrightarrow>
      (\<forall>tac entries. map_of ?clo tac = Some entries \<longrightarrow> ?body tac entries = [])"
    unfolding concat_map_Nil
    using loop_ball [OF distinct_loops(3), of ?xs "\<lambda>tac entries. ?body tac entries = []"]
    by (simp only: case_prod_unfold)
  also have "\<dots> \<longleftrightarrow> (\<forall>tac. map_of ?clo tac \<noteq> None \<longrightarrow>
      (\<exists>fs. last_tactic ?xs tac = Some fs \<and> (dlist_get ?clo tac = [] \<or> closes_leaf fs)))"
    unfolding body by (auto simp: dlist_get_def)
  also have "\<dots> \<longleftrightarrow> (\<forall>tac dst e gs. AddEdge ''CLOSES_STATE'' tac dst e gs \<in> set ?xs \<longrightarrow>
      (\<exists>fs. last_tactic ?xs tac = Some fs \<and> closes_leaf fs))"
    unfolding map_of_closure_edges_None using closure_edges_nonempty [of ?xs] by metis
  finally show ?thesis
    using one
    by (simp add: check_executor_result_def Let_def gen_append_clean executor_results_ok_def)
qed

section \<open>Annotation separation\<close>

record annotation_scan =
  an_findings :: "rejection list"
  an_closed :: "(string \<times> nat) list"
  an_annotated :: "string set"
  an_evidence :: "string set"

definition scan_start :: annotation_scan where
  "scan_start = \<lparr>an_findings = [], an_closed = [], an_annotated = {}, an_evidence = {}\<rparr>"

fun scan_op :: "annotation_scan \<Rightarrow> indexed_op \<Rightarrow> py_exc + annotation_scan" where
  "scan_op st (i, SetField label n field value prior) =
     (let c = class_of_op (SetField label n field value prior);
          st = (if prior = None \<and> c \<noteq> ClsAnnotation
                then st\<lparr>an_findings := an_findings st @ [reject MISSING_PRIOR_VALUE i]\<rparr> else st)
      in if c = ClsAnnotation then Inr (st\<lparr>an_annotated := insert n (an_annotated st)\<rparr>)
         else if label = ''FormalState'' \<and> field = ''status''
           then (case py_in value CLOSED_STATE_VALUES of
                   Inl e \<Rightarrow> Inl e
                 | Inr closing \<Rightarrow>
                     Inr (if closing then st\<lparr>an_closed := setdefault n i (an_closed st)\<rparr> else st))
         else Inr st)"
| "scan_op st (i, UpsertNode label n fs) =
     Inr (if label = ''FormalState'' \<and> list_ex (\<lambda>y. is_annotation (fst y)) fs
          then st\<lparr>an_annotated := insert n (an_annotated st)\<rparr> else st)"
| "scan_op st (i, AddEdge rel src dst e fs) =
     Inr (if rel = ''CLOSES_STATE'' then st\<lparr>an_evidence := insert dst (an_evidence st)\<rparr> else st)"
| "scan_op st (i, RemoveEdge rel e) = Inr st"

definition check_annotation_separation :: "proposal \<Rightarrow> rejection gen" where
  "check_annotation_separation p =
     (case run scan_op scan_start (indexed_ops (prop_ops p)) of
        Inl e \<Rightarrow> Inl e
      | Inr st \<Rightarrow>
          Inr (an_findings st @
            concat (map (\<lambda>(n, i).
              if n \<in> an_annotated st \<and> n \<notin> an_evidence st
              then [reject HEURISTIC_CLOSURE_ATTEMPT i] else []) (an_closed st))))"

fun unprotected_write :: "op \<Rightarrow> bool" where
  "unprotected_write (SetField label n field value prior) =
     (prior = None \<and> field \<notin> set ANNOTATION_FIELDS)"
| "unprotected_write _ = False"

fun closes_by_status :: "op \<Rightarrow> string \<Rightarrow> bool" where
  "closes_by_status (SetField label n field value prior) m =
     (n = m \<and> label = ''FormalState'' \<and> field = ''status'' \<and>
      value \<in> PStr ` set CLOSED_STATE_VALUES)"
| "closes_by_status _ m = False"

fun annotates :: "op \<Rightarrow> string \<Rightarrow> bool" where
  "annotates (SetField label n field value prior) m = (n = m \<and> field \<in> set ANNOTATION_FIELDS)"
| "annotates (UpsertNode label n fs) m =
     (n = m \<and> label = ''FormalState'' \<and> (\<exists>y \<in> set fs. is_annotation (fst y)))"
| "annotates _ m = False"

fun closure_target :: "op \<Rightarrow> string \<Rightarrow> bool" where
  "closure_target (AddEdge rel src dst e fs) m = (rel = ''CLOSES_STATE'' \<and> dst = m)"
| "closure_target _ m = False"

lemma status_no_annotation: "''status'' \<notin> set ANNOTATION_FIELDS"
  by code_simp

lemma class_annotation:
  "class_of_op (SetField label n field value prior) = ClsAnnotation \<longleftrightarrow>
     field \<in> set ANNOTATION_FIELDS"
  by simp

definition keys :: "('k \<times> 'v) list \<Rightarrow> 'k set" where
  "keys d = fst ` set d"

lemma keys_simps [simp]: "keys [] = {}" "keys (setdefault k v d) = insert k (keys d)"
  by (auto simp: keys_def setdefault_def map_of_eq_None_iff)

lemma scan_op_facts:
  assumes "scan_op st (i, x) = Inr t"
  shows "an_findings t = [] \<longleftrightarrow> an_findings st = [] \<and> \<not> unprotected_write x"
    and "an_annotated t = an_annotated st \<union> Collect (annotates x)"
    and "an_evidence t = an_evidence st \<union> Collect (closure_target x)"
    and "keys (an_closed t) = keys (an_closed st) \<union> Collect (closes_by_status x)"
proof -
  have "(an_findings t = [] \<longleftrightarrow> an_findings st = [] \<and> \<not> unprotected_write x) \<and>
    an_annotated t = an_annotated st \<union> Collect (annotates x) \<and>
    an_evidence t = an_evidence st \<union> Collect (closure_target x) \<and>
    keys (an_closed t) = keys (an_closed st) \<union> Collect (closes_by_status x)"
  proof (cases x)
    case (UpsertNode label n fs)
    then show ?thesis using assms by (fastforce simp: list_ex_iff split: if_splits)
  next
    case (SetField label n field val prior)
    have in_closed: "val \<in> PStr ` set CLOSED_STATE_VALUES \<longleftrightarrow> py_in val CLOSED_STATE_VALUES = Inr True"
      by (auto simp: py_in_Inr_True)
    show ?thesis
    proof (cases "field \<in> set ANNOTATION_FIELDS")
      case True
      then show ?thesis using assms SetField status_no_annotation by (auto simp: Let_def)
    next
      case False
      then show ?thesis
        using assms SetField
        by (cases "label = ''FormalState'' \<and> field = ''status''")
           (auto simp: Let_def class_annotation in_closed
             simp del: class_of_op.simps split: sum.splits if_splits)
    qed
  qed (use assms in \<open>auto split: if_splits\<close>)
  then show "an_findings t = [] \<longleftrightarrow> an_findings st = [] \<and> \<not> unprotected_write x"
    and "an_annotated t = an_annotated st \<union> Collect (annotates x)"
    and "an_evidence t = an_evidence st \<union> Collect (closure_target x)"
    and "keys (an_closed t) = keys (an_closed st) \<union> Collect (closes_by_status x)"
    by blast+
qed

lemma scan_facts:
  assumes "run scan_op scan_start (indexed_ops xs) = Inr st"
  shows "an_findings st = [] \<longleftrightarrow> (\<forall>x \<in> set xs. \<not> unprotected_write x)"
    and "an_annotated st = {n. \<exists>x \<in> set xs. annotates x n}"
    and "an_evidence st = {n. \<exists>x \<in> set xs. closure_target x n}"
    and "keys (an_closed st) = {n. \<exists>x \<in> set xs. closes_by_status x n}"
proof -
  have "(an_findings st = [] \<longleftrightarrow> (\<forall>x \<in> set xs. \<not> unprotected_write x)) \<and>
    an_annotated st = {n. \<exists>x \<in> set xs. annotates x n} \<and>
    an_evidence st = {n. \<exists>x \<in> set xs. closure_target x n} \<and>
    keys (an_closed st) = {n. \<exists>x \<in> set xs. closes_by_status x n}"
    using assms
  proof (induction xs arbitrary: st rule: rev_induct)
    case Nil
    then show ?case by (auto simp: scan_start_def)
  next
    case (snoc x xs)
    from snoc.prems obtain t where t: "run scan_op scan_start (indexed_ops xs) = Inr t"
      and step: "scan_op t (length xs, x) = Inr st"
      by (auto simp: enumerate_snoc run_snoc_Inr)
    show ?case using snoc.IH [OF t] scan_op_facts [OF step] by auto
  qed
  then show "an_findings st = [] \<longleftrightarrow> (\<forall>x \<in> set xs. \<not> unprotected_write x)"
    and "an_annotated st = {n. \<exists>x \<in> set xs. annotates x n}"
    and "an_evidence st = {n. \<exists>x \<in> set xs. closure_target x n}"
    and "keys (an_closed st) = {n. \<exists>x \<in> set xs. closes_by_status x n}"
    by blast+
qed

fun comparable_write :: "op \<Rightarrow> bool" where
  "comparable_write (SetField label n field value prior) =
     (label = ''FormalState'' \<and> field = ''status'' \<longrightarrow> hashable value)"
| "comparable_write _ = True"

lemma scan_defined:
  "(\<exists>st. run scan_op scan_start (indexed_ops xs) = Inr st) \<longleftrightarrow> (\<forall>x \<in> set xs. comparable_write x)"
proof (induction xs rule: rev_induct)
  case (snoc x xs)
  have "(\<exists>u. scan_op t (i, x) = Inr u) \<longleftrightarrow> comparable_write x" for t i
    using status_no_annotation
    by (cases x) (auto simp: Let_def py_in_def class_annotation simp del: class_of_op.simps)
  with snoc show ?case by (auto simp: enumerate_snoc run_snoc_Inr)
qed simp

definition annotation_separated :: "op list \<Rightarrow> bool" where
  "annotation_separated xs \<longleftrightarrow>
     (\<forall>x \<in> set xs. comparable_write x \<and> \<not> unprotected_write x) \<and>
     (\<forall>n. (\<exists>x \<in> set xs. closes_by_status x n) \<and> (\<exists>x \<in> set xs. annotates x n) \<longrightarrow>
        (\<exists>x \<in> set xs. closure_target x n))"

lemma check_annotation_separation_clean:
  "check_annotation_separation p = Inr [] \<longleftrightarrow> annotation_separated (prop_ops p)"
proof (cases "run scan_op scan_start (indexed_ops (prop_ops p))")
  case (Inl e)
  then show ?thesis
    using scan_defined [of "prop_ops p"]
    by (auto simp: check_annotation_separation_def annotation_separated_def)
next
  case (Inr st)
  have "check_annotation_separation p = Inr [] \<longleftrightarrow> an_findings st = [] \<and>
      (\<forall>y \<in> set (an_closed st). fst y \<in> an_annotated st \<longrightarrow> fst y \<in> an_evidence st)"
    using Inr by (auto simp: check_annotation_separation_def split_beta split: if_splits)
  also have "\<dots> \<longleftrightarrow> an_findings st = [] \<and>
      (\<forall>n \<in> keys (an_closed st). n \<in> an_annotated st \<longrightarrow> n \<in> an_evidence st)"
    by (simp add: keys_def)
  also have "\<dots> \<longleftrightarrow> annotation_separated (prop_ops p)"
    using scan_facts [OF Inr] scan_defined [of "prop_ops p"] Inr
    by (auto simp: annotation_separated_def)
  finally show ?thesis .
qed

end
