(* ===== verification/View.thy ===== *)
theory View
  imports Ops
begin

text \<open>
  Committed state as the gate reads it: \<^verbatim>\<open>src/src/commit_gate/state.py\<close> and the projection of
  operations onto it, \<^verbatim>\<open>src/src/commit_gate/apply.py\<close>.

  \<^item> \<open>node_rec\<close>, \<open>edge_rec\<close>: the records a view returns; \<open>read_view\<close>: the four
    questions of the \<^verbatim>\<open>ReadView\<close> protocol, as functions.
  \<^item> \<open>mem_view\<close>: \<^verbatim>\<open>MemoryView\<close> with its two adjacency indexes, one definition per method;
    \<open>apply_op\<close>, \<open>apply_ops\<close>: the projection.
  \<^item> \<open>wf_view\<close>: the indexes hold exactly the edges of the edge table. Every operation keeps
    it, and on such a view no lookup raises.
  \<^item> \<open>read_contract\<close>: what the validators may rely on in a view, interpreted on \<open>mem_view\<close>.
  \<^item> \<open>graph\<close>: the abstract state (two maps) that \<open>mem_view\<close> refines.
\<close>

section \<open>Records and the read contract\<close>

record node_rec =
  nr_id :: string
  nr_label :: string
  nr_fields :: fields

record edge_rec =
  er_id :: string
  er_rel :: string
  er_src :: string
  er_dst :: string
  er_fields :: fields

record read_view =
  rv_node :: "string \<Rightarrow> node_rec option"
  rv_edge :: "string \<Rightarrow> edge_rec option"
  rv_from :: "string \<Rightarrow> string \<Rightarrow> edge_rec list"
  rv_to :: "string \<Rightarrow> string \<Rightarrow> edge_rec list"

locale read_contract =
  fixes view :: "'v \<Rightarrow> read_view"
    and valid :: "'v \<Rightarrow> bool"
  assumes node_identity: "valid v \<Longrightarrow> rv_node (view v) n = Some nd \<Longrightarrow> nr_id nd = n"
    and edge_identity: "valid v \<Longrightarrow> rv_edge (view v) e = Some r \<Longrightarrow> er_id r = e"
    and from_iff: "valid v \<Longrightarrow> r \<in> set (rv_from (view v) n rel) \<longleftrightarrow>
      rv_edge (view v) (er_id r) = Some r \<and> er_src r = n \<and> er_rel r = rel"
    and to_iff: "valid v \<Longrightarrow> r \<in> set (rv_to (view v) n rel) \<longleftrightarrow>
      rv_edge (view v) (er_id r) = Some r \<and> er_dst r = n \<and> er_rel r = rel"
    and from_distinct: "valid v \<Longrightarrow> distinct (rv_from (view v) n rel)"
    and to_distinct: "valid v \<Longrightarrow> distinct (rv_to (view v) n rel)"
begin

lemma from_to_dual:
  assumes "valid v"
  shows "r \<in> set (rv_from (view v) (er_src r) (er_rel r)) \<longleftrightarrow>
         r \<in> set (rv_to (view v) (er_dst r) (er_rel r))"
  using assms by (simp add: from_iff to_iff)

lemma target_iff:
  assumes "valid v"
  shows "d \<in> er_dst ` set (rv_from (view v) s rel) \<longleftrightarrow>
         s \<in> er_src ` set (rv_to (view v) d rel)"
  using assms by (force simp: from_iff to_iff)

lemma from_nonempty_iff:
  assumes "valid v"
  shows "rv_from (view v) n rel \<noteq> [] \<longleftrightarrow>
         (\<exists>e r. rv_edge (view v) e = Some r \<and> er_src r = n \<and> er_rel r = rel)"
proof -
  have "rv_from (view v) n rel \<noteq> [] \<longleftrightarrow> (\<exists>r. r \<in> set (rv_from (view v) n rel))"
    by (auto simp: neq_Nil_conv) (metis list.set_cases)
  then show ?thesis using assms by (auto simp: from_iff) (metis edge_identity)
qed

end

section \<open>The in-memory view\<close>

record mem_view =
  mv_nodes :: "(string \<times> node_rec) list"
  mv_edges :: "string \<Rightarrow> edge_rec option"
  mv_out :: "string \<times> string \<Rightarrow> string list"
  mv_in :: "string \<times> string \<Rightarrow> string list"

definition empty_view :: mem_view where
  "empty_view =
     \<lparr>mv_nodes = [], mv_edges = (\<lambda>_. None), mv_out = (\<lambda>_. []), mv_in = (\<lambda>_. [])\<rparr>"

definition mem_node :: "mem_view \<Rightarrow> string \<Rightarrow> node_rec option" where
  "mem_node v n = map_of (mv_nodes v) n"

definition mem_edge :: "mem_view \<Rightarrow> string \<Rightarrow> edge_rec option" where
  "mem_edge v e = mv_edges v e"

definition edges_of_ids :: "mem_view \<Rightarrow> string list \<Rightarrow> py_exc + edge_rec list" where
  "edges_of_ids v ids =
     (case those (map (mv_edges v) ids) of None \<Rightarrow> Inl KeyError | Some rs \<Rightarrow> Inr rs)"

definition mem_edges_from :: "mem_view \<Rightarrow> string \<Rightarrow> string \<Rightarrow> py_exc + edge_rec list" where
  "mem_edges_from v n rel = edges_of_ids v (mv_out v (n, rel))"

definition mem_edges_to :: "mem_view \<Rightarrow> string \<Rightarrow> string \<Rightarrow> py_exc + edge_rec list" where
  "mem_edges_to v n rel = edges_of_ids v (mv_in v (n, rel))"

definition mem_add_node :: "mem_view \<Rightarrow> string \<Rightarrow> string \<Rightarrow> fields \<Rightarrow> mem_view" where
  "mem_add_node v n label fs =
     v\<lparr>mv_nodes := AList.update n \<lparr>nr_id = n, nr_label = label, nr_fields = fs\<rparr> (mv_nodes v)\<rparr>"

definition mem_set_field :: "mem_view \<Rightarrow> string \<Rightarrow> string \<Rightarrow> pyval \<Rightarrow> py_exc + mem_view" where
  "mem_set_field v n name value =
     (case mem_node v n of
        None \<Rightarrow> Inl KeyError
      | Some current \<Rightarrow>
          Inr (v\<lparr>mv_nodes := AList.update n
                 \<lparr>nr_id = n, nr_label = nr_label current,
                  nr_fields = AList.update name value (nr_fields current)\<rparr> (mv_nodes v)\<rparr>))"

definition mem_add_edge ::
  "mem_view \<Rightarrow> string \<Rightarrow> string \<Rightarrow> string \<Rightarrow> string \<Rightarrow> fields \<Rightarrow> mem_view" where
  "mem_add_edge v rel src dst e fs =
     v\<lparr>mv_edges := (mv_edges v)(e \<mapsto>
          \<lparr>er_id = e, er_rel = rel, er_src = src, er_dst = dst, er_fields = fs\<rparr>),
       mv_out := (mv_out v)((src, rel) := mv_out v (src, rel) @ [e]),
       mv_in := (mv_in v)((dst, rel) := mv_in v (dst, rel) @ [e])\<rparr>"

definition mem_remove_edge :: "mem_view \<Rightarrow> string \<Rightarrow> py_exc + mem_view" where
  "mem_remove_edge v e =
     (case mv_edges v e of
        None \<Rightarrow> Inr v
      | Some r \<Rightarrow>
          if e \<in> set (mv_out v (er_src r, er_rel r)) \<and> e \<in> set (mv_in v (er_dst r, er_rel r))
          then Inr (v\<lparr>mv_edges := (mv_edges v)(e := None),
                      mv_out := (mv_out v)((er_src r, er_rel r) :=
                        remove1 e (mv_out v (er_src r, er_rel r))),
                      mv_in := (mv_in v)((er_dst r, er_rel r) :=
                        remove1 e (mv_in v (er_dst r, er_rel r)))\<rparr>)
          else Inl ValueError)"

section \<open>Applying operations\<close>

fun apply_op :: "mem_view \<Rightarrow> op \<Rightarrow> py_exc + mem_view" where
  "apply_op v (UpsertNode label n fs) =
     (case mem_node v n of None \<Rightarrow> Inr (mem_add_node v n label fs) | Some _ \<Rightarrow> Inr v)"
| "apply_op v (SetField label n field value prior) =
     (case mem_node v n of None \<Rightarrow> Inl ValueError | Some _ \<Rightarrow> mem_set_field v n field value)"
| "apply_op v (AddEdge rel src dst e fs) =
     (case mem_edge v e of None \<Rightarrow> Inr (mem_add_edge v rel src dst e fs) | Some _ \<Rightarrow> Inr v)"
| "apply_op v (RemoveEdge rel e) = mem_remove_edge v e"

definition apply_ops :: "mem_view \<Rightarrow> op list \<Rightarrow> py_exc + mem_view" where
  "apply_ops v xs = run apply_op v xs"

lemma apply_ops_simps [simp]:
  "apply_ops v [] = Inr v"
  "apply_ops v (x # xs) = (case apply_op v x of Inl e \<Rightarrow> Inl e | Inr w \<Rightarrow> apply_ops w xs)"
  by (simp_all add: apply_ops_def split: sum.splits)

section \<open>Well-formed views\<close>

definition index_ok :: "mem_view \<Rightarrow> bool" where
  "index_ok v \<longleftrightarrow>
     (\<forall>n rel. distinct (mv_out v (n, rel)) \<and> distinct (mv_in v (n, rel))) \<and>
     (\<forall>n rel e. e \<in> set (mv_out v (n, rel)) \<longleftrightarrow>
        (\<exists>r. mv_edges v e = Some r \<and> er_src r = n \<and> er_rel r = rel)) \<and>
     (\<forall>n rel e. e \<in> set (mv_in v (n, rel)) \<longleftrightarrow>
        (\<exists>r. mv_edges v e = Some r \<and> er_dst r = n \<and> er_rel r = rel))"

definition wf_view :: "mem_view \<Rightarrow> bool" where
  "wf_view v \<longleftrightarrow>
     distinct (map fst (mv_nodes v)) \<and>
     (\<forall>n r. mem_node v n = Some r \<longrightarrow> nr_id r = n) \<and>
     (\<forall>e r. mv_edges v e = Some r \<longrightarrow> er_id r = e) \<and>
     index_ok v"

lemma wf_empty_view [simp]: "wf_view empty_view"
  by (simp add: wf_view_def index_ok_def empty_view_def mem_node_def)

lemma mem_node_add_node:
  "mem_node (mem_add_node v n label fs) m =
     (if m = n then Some \<lparr>nr_id = n, nr_label = label, nr_fields = fs\<rparr> else mem_node v m)"
  by (simp add: mem_node_def mem_add_node_def update_conv')

lemma mem_add_node_edges [simp]:
  "mv_edges (mem_add_node v n label fs) = mv_edges v"
  "mv_out (mem_add_node v n label fs) = mv_out v"
  "mv_in (mem_add_node v n label fs) = mv_in v"
  "index_ok (mem_add_node v n label fs) = index_ok v"
  by (simp_all add: mem_add_node_def index_ok_def)

lemma wf_add_node: "wf_view v \<Longrightarrow> wf_view (mem_add_node v n label fs)"
  by (auto simp: wf_view_def mem_node_add_node) (simp add: mem_add_node_def distinct_update)

lemma mem_set_field_Inr:
  "mem_set_field v n name value = Inr w \<longleftrightarrow>
     (\<exists>r. mem_node v n = Some r \<and>
          w = mem_add_node v n (nr_label r) (AList.update name value (nr_fields r)))"
  by (auto simp: mem_set_field_def mem_add_node_def split: option.splits)

lemma mem_node_add_edge [simp]: "mem_node (mem_add_edge v rel s d e fs) = mem_node v"
  by (simp add: mem_node_def mem_add_edge_def fun_eq_iff)

lemma index_add_edge:
  "index_ok v \<Longrightarrow> mv_edges v e = None \<Longrightarrow> index_ok (mem_add_edge v rel s d e fs)"
  unfolding index_ok_def mem_add_edge_def
  by (auto split: if_splits)

lemma wf_add_edge:
  "wf_view v \<Longrightarrow> mv_edges v e = None \<Longrightarrow> wf_view (mem_add_edge v rel s d e fs)"
  by (auto simp: wf_view_def index_add_edge) (auto simp: mem_add_edge_def split: if_splits)

lemma mem_remove_edge_cases:
  assumes "mem_remove_edge v e = Inr w"
  obtains "mv_edges v e = None" "w = v"
  | r where "mv_edges v e = Some r"
      "w = v\<lparr>mv_edges := (mv_edges v)(e := None),
             mv_out := (mv_out v)((er_src r, er_rel r) :=
               remove1 e (mv_out v (er_src r, er_rel r))),
             mv_in := (mv_in v)((er_dst r, er_rel r) :=
               remove1 e (mv_in v (er_dst r, er_rel r)))\<rparr>"
  using assms by (auto simp: mem_remove_edge_def split: option.splits if_splits)

lemma mem_remove_edge_total: "wf_view v \<Longrightarrow> \<exists>w. mem_remove_edge v e = Inr w"
  by (auto simp: mem_remove_edge_def wf_view_def index_ok_def split: option.splits)

lemma mem_node_remove_edge: "mem_remove_edge v e = Inr w \<Longrightarrow> mem_node w = mem_node v"
  by (erule mem_remove_edge_cases) (simp_all add: mem_node_def fun_eq_iff)

lemma mv_edges_remove_edge: "mem_remove_edge v e = Inr w \<Longrightarrow> mv_edges w = (mv_edges v)(e := None)"
  by (erule mem_remove_edge_cases) auto

lemma wf_remove_edge:
  assumes "wf_view v" "mem_remove_edge v e = Inr w"
  shows "wf_view w"
  using assms(2)
proof (cases rule: mem_remove_edge_cases)
  case 1
  then show ?thesis using assms(1) by simp
next
  case (2 r)
  have "index_ok w" using assms(1) 2 by (auto simp: wf_view_def index_ok_def)
  then show ?thesis using assms(1) 2 by (auto simp: wf_view_def mem_node_def)
qed

lemma wf_apply_op: "wf_view v \<Longrightarrow> apply_op v x = Inr w \<Longrightarrow> wf_view w"
  by (cases x)
     (auto simp: wf_add_node mem_set_field_Inr wf_add_edge mem_edge_def wf_remove_edge
       split: option.splits)

interpretation view_loop: invariant_loop apply_op wf_view
  by unfold_locales (rule wf_apply_op)

lemma wf_apply_ops: "wf_view v \<Longrightarrow> apply_ops v xs = Inr w \<Longrightarrow> wf_view w"
  unfolding apply_ops_def by (rule view_loop.run_inv)

lemma apply_op_Inl:
  "wf_view v \<Longrightarrow> apply_op v x = Inl e \<longleftrightarrow>
     e = ValueError \<and> (\<exists>l n f val p. x = SetField l n f val p \<and> mem_node v n = None)"
  using mem_remove_edge_total [of v "op_edge x"]
  by (cases x) (auto simp: mem_set_field_def split: option.splits)

section \<open>Lookups on a well-formed view\<close>

lemma edges_of_ids_Inr:
  assumes "\<And>e. e \<in> set ids \<Longrightarrow> mv_edges v e \<noteq> None"
  shows "edges_of_ids v ids = Inr (map (the \<circ> mv_edges v) ids)"
proof -
  have "those (map (mv_edges v) ids) = Some (map (the \<circ> mv_edges v) ids)"
    using assms by (induction ids) (force split: option.splits)+
  then show ?thesis by (simp add: edges_of_ids_def)
qed

lemma mem_edges_from_Inr:
  "wf_view v \<Longrightarrow> mem_edges_from v n rel = Inr (map (the \<circ> mv_edges v) (mv_out v (n, rel)))"
  unfolding mem_edges_from_def
  by (rule edges_of_ids_Inr) (auto simp: wf_view_def index_ok_def)

lemma mem_edges_to_Inr:
  "wf_view v \<Longrightarrow> mem_edges_to v n rel = Inr (map (the \<circ> mv_edges v) (mv_in v (n, rel)))"
  unfolding mem_edges_to_def
  by (rule edges_of_ids_Inr) (auto simp: wf_view_def index_ok_def)

text \<open>
  The view the validators read. On a well-formed view the two edge lookups never raise
  (\<open>mem_edges_from_Inr\<close>, \<open>mem_edges_to_Inr\<close>); a raise is the empty answer here.
\<close>

definition as_view :: "mem_view \<Rightarrow> read_view" where
  "as_view v =
     \<lparr>rv_node = mem_node v, rv_edge = mem_edge v,
      rv_from = (\<lambda>n rel. case mem_edges_from v n rel of Inl _ \<Rightarrow> [] | Inr rs \<Rightarrow> rs),
      rv_to = (\<lambda>n rel. case mem_edges_to v n rel of Inl _ \<Rightarrow> [] | Inr rs \<Rightarrow> rs)\<rparr>"

lemma as_view_node [simp]: "rv_node (as_view v) = mem_node v"
  by (simp add: as_view_def)

lemma as_view_edge [simp]: "rv_edge (as_view v) = mv_edges v"
  by (simp add: as_view_def mem_edge_def fun_eq_iff)

lemma as_view_from:
  "wf_view v \<Longrightarrow> rv_from (as_view v) n rel = map (the \<circ> mv_edges v) (mv_out v (n, rel))"
  by (simp add: as_view_def mem_edges_from_Inr)

lemma as_view_to:
  "wf_view v \<Longrightarrow> rv_to (as_view v) n rel = map (the \<circ> mv_edges v) (mv_in v (n, rel))"
  by (simp add: as_view_def mem_edges_to_Inr)

lemma distinct_the_edges:
  assumes "wf_view v" "distinct ids" "\<And>e. e \<in> set ids \<Longrightarrow> mv_edges v e \<noteq> None"
  shows "distinct (map (the \<circ> mv_edges v) ids)"
proof -
  have "inj_on (the \<circ> mv_edges v) (set ids)"
  proof (rule inj_onI)
    fix a b assume "a \<in> set ids" "b \<in> set ids" "(the \<circ> mv_edges v) a = (the \<circ> mv_edges v) b"
    then obtain r where "mv_edges v a = Some r" "mv_edges v b = Some r"
      using assms(3) by (metis comp_apply option.collapse)
    then show "a = b" using assms(1) by (metis wf_view_def)
  qed
  then show ?thesis using assms(2) by (simp add: distinct_map)
qed

lemma edges_of_index:
  assumes wf: "wf_view v"
    and mem: "\<And>e. e \<in> set ids \<longleftrightarrow> (\<exists>r. mv_edges v e = Some r \<and> P r)"
  shows "r \<in> set (map (the \<circ> mv_edges v) ids) \<longleftrightarrow> mv_edges v (er_id r) = Some r \<and> P r"
proof
  assume "r \<in> set (map (the \<circ> mv_edges v) ids)"
  then obtain e where "e \<in> set ids" "r = the (mv_edges v e)" by auto
  then obtain "mv_edges v e = Some r" "P r" using mem [of e] by auto
  then show "mv_edges v (er_id r) = Some r \<and> P r" using wf by (metis wf_view_def)
next
  assume *: "mv_edges v (er_id r) = Some r \<and> P r"
  then have "er_id r \<in> set ids" using mem by blast
  then show "r \<in> set (map (the \<circ> mv_edges v) ids)" using * by force
qed

lemma index_membership:
  assumes "wf_view v"
  shows "e \<in> set (mv_out v (n, rel)) \<longleftrightarrow>
           (\<exists>r. mv_edges v e = Some r \<and> er_src r = n \<and> er_rel r = rel)"
    and "e \<in> set (mv_in v (n, rel)) \<longleftrightarrow>
           (\<exists>r. mv_edges v e = Some r \<and> er_dst r = n \<and> er_rel r = rel)"
    and "distinct (mv_out v (n, rel))" and "distinct (mv_in v (n, rel))"
  using assms by (auto simp: wf_view_def index_ok_def)

interpretation mem_contract: read_contract as_view wf_view
proof
  fix v :: mem_view and n rel :: string and r :: edge_rec
  assume wf: "wf_view v"
  show "r \<in> set (rv_from (as_view v) n rel) \<longleftrightarrow>
      rv_edge (as_view v) (er_id r) = Some r \<and> er_src r = n \<and> er_rel r = rel"
    unfolding as_view_from [OF wf] as_view_edge
    by (rule edges_of_index [OF wf]) (simp add: index_membership [OF wf])
  show "r \<in> set (rv_to (as_view v) n rel) \<longleftrightarrow>
      rv_edge (as_view v) (er_id r) = Some r \<and> er_dst r = n \<and> er_rel r = rel"
    unfolding as_view_to [OF wf] as_view_edge
    by (rule edges_of_index [OF wf]) (simp add: index_membership [OF wf])
  show "distinct (rv_from (as_view v) n rel)"
    unfolding as_view_from [OF wf]
    by (rule distinct_the_edges [OF wf]) (auto simp: index_membership [OF wf])
  show "distinct (rv_to (as_view v) n rel)"
    unfolding as_view_to [OF wf]
    by (rule distinct_the_edges [OF wf]) (auto simp: index_membership [OF wf])
qed (auto simp: wf_view_def)

text \<open>The committed edges as a relation, and the lists of a lookup as sets of them.\<close>

definition linked :: "mem_view \<Rightarrow> string \<Rightarrow> string \<Rightarrow> string \<Rightarrow> string \<Rightarrow> bool" where
  "linked v rel e s d \<longleftrightarrow> (\<exists>r. mv_edges v e = Some r \<and> er_rel r = rel \<and> er_src r = s \<and> er_dst r = d)"

lemma edges_out:
  assumes "wf_view v"
  shows "distinct (map er_id (rv_from (as_view v) n rel))"
    and "r \<in> set (rv_from (as_view v) n rel) \<longleftrightarrow>
      mv_edges v (er_id r) = Some r \<and> linked v rel (er_id r) n (er_dst r)"
    and "linked v rel e n d \<longleftrightarrow> (\<exists>r \<in> set (rv_from (as_view v) n rel). er_id r = e \<and> er_dst r = d)"
proof -
  note member = mem_contract.from_iff [OF assms, simplified]
  show "distinct (map er_id (rv_from (as_view v) n rel))"
    unfolding distinct_map using mem_contract.from_distinct [OF assms, of n rel] member
    by (auto intro!: inj_onI)
  show "r \<in> set (rv_from (as_view v) n rel) \<longleftrightarrow>
      mv_edges v (er_id r) = Some r \<and> linked v rel (er_id r) n (er_dst r)"
    by (auto simp: member linked_def)
  show "linked v rel e n d \<longleftrightarrow> (\<exists>r \<in> set (rv_from (as_view v) n rel). er_id r = e \<and> er_dst r = d)"
  proof
    assume "linked v rel e n d"
    then obtain r where r: "mv_edges v e = Some r" "er_rel r = rel" "er_src r = n" "er_dst r = d"
      by (auto simp: linked_def)
    moreover from r(1) have "er_id r = e" using assms by (simp add: wf_view_def)
    ultimately show "\<exists>r \<in> set (rv_from (as_view v) n rel). er_id r = e \<and> er_dst r = d" using member by blast
  qed (auto simp: member linked_def)
qed

lemma edges_ex:
  assumes "wf_view v"
  shows "(\<exists>r \<in> set (rv_from (as_view v) n rel). P (er_dst r)) \<longleftrightarrow> (\<exists>e d. linked v rel e n d \<and> P d)"
  by (auto simp: edges_out(3) [OF assms])

lemma counted_edges:
  assumes "wf_view v"
  shows "length (filter (\<lambda>r. P (er_dst r)) (rv_from (as_view v) n rel)) = card {e. \<exists>d. linked v rel e n d \<and> P d}"
proof -
  have "distinct (map er_id (filter (\<lambda>r. P (er_dst r)) (rv_from (as_view v) n rel)))"
    by (rule distinct_map_filter [OF edges_out(1) [OF assms]])
  then have "length (filter (\<lambda>r. P (er_dst r)) (rv_from (as_view v) n rel)) =
      card (er_id ` set (filter (\<lambda>r. P (er_dst r)) (rv_from (as_view v) n rel)))"
    by (metis distinct_card length_map list.set_map)
  also have "er_id ` set (filter (\<lambda>r. P (er_dst r)) (rv_from (as_view v) n rel)) = {e. \<exists>d. linked v rel e n d \<and> P d}"
    using edges_out(3) [OF assms, of rel _ n] by auto
  finally show ?thesis .
qed

lemma edges_in_ex:
  assumes "wf_view v"
  shows "(\<exists>r \<in> set (rv_to (as_view v) n rel). P (er_src r)) \<longleftrightarrow> (\<exists>e s. linked v rel e s n \<and> P s)"
proof
  assume "\<exists>r \<in> set (rv_to (as_view v) n rel). P (er_src r)"
  then show "\<exists>e s. linked v rel e s n \<and> P s"
    using mem_contract.to_iff [OF assms, of _ n rel] by (auto simp: linked_def)
next
  assume "\<exists>e s. linked v rel e s n \<and> P s"
  then obtain e r where r: "mv_edges v e = Some r" "er_rel r = rel" "er_dst r = n" "P (er_src r)"
    by (auto simp: linked_def)
  moreover from r(1) have "er_id r = e" using assms by (simp add: wf_view_def)
  ultimately show "\<exists>r \<in> set (rv_to (as_view v) n rel). P (er_src r)"
    using mem_contract.to_iff [OF assms, of r n rel] by auto
qed

section \<open>The abstract graph\<close>

text \<open>What a view promises: one map of nodes, one map of edges; the indexes are derived.\<close>

record graph =
  g_node :: "string \<Rightarrow> node_rec option"
  g_edge :: "string \<Rightarrow> edge_rec option"

definition abs_view :: "mem_view \<Rightarrow> graph" where
  "abs_view v = \<lparr>g_node = mem_node v, g_edge = mv_edges v\<rparr>"

fun graph_step :: "graph \<Rightarrow> op \<Rightarrow> py_exc + graph" where
  "graph_step g (UpsertNode label n fs) =
     (case g_node g n of
        None \<Rightarrow> Inr (g\<lparr>g_node := (g_node g)(n \<mapsto>
                  \<lparr>nr_id = n, nr_label = label, nr_fields = fs\<rparr>)\<rparr>)
      | Some _ \<Rightarrow> Inr g)"
| "graph_step g (SetField label n field value prior) =
     (case g_node g n of
        None \<Rightarrow> Inl ValueError
      | Some r \<Rightarrow> Inr (g\<lparr>g_node := (g_node g)(n \<mapsto> \<lparr>nr_id = n, nr_label = nr_label r,
                  nr_fields = AList.update field value (nr_fields r)\<rparr>)\<rparr>))"
| "graph_step g (AddEdge rel s d e fs) =
     (case g_edge g e of
        None \<Rightarrow> Inr (g\<lparr>g_edge := (g_edge g)(e \<mapsto>
                  \<lparr>er_id = e, er_rel = rel, er_src = s, er_dst = d, er_fields = fs\<rparr>)\<rparr>)
      | Some _ \<Rightarrow> Inr g)"
| "graph_step g (RemoveEdge rel e) = Inr (g\<lparr>g_edge := (g_edge g)(e := None)\<rparr>)"

lemma abs_view_simps [simp]:
  "g_node (abs_view v) = mem_node v" "g_edge (abs_view v) = mv_edges v"
  by (simp_all add: abs_view_def)

lemma abs_view_add_node:
  "abs_view (mem_add_node v n l fs) =
     (abs_view v)\<lparr>g_node := (mem_node v)(n \<mapsto> \<lparr>nr_id = n, nr_label = l, nr_fields = fs\<rparr>)\<rparr>"
  by (simp add: abs_view_def mem_node_add_node fun_eq_iff)

lemma abs_view_add_edge:
  "abs_view (mem_add_edge v rel s d e fs) =
     (abs_view v)\<lparr>g_edge := (mv_edges v)(e \<mapsto>
        \<lparr>er_id = e, er_rel = rel, er_src = s, er_dst = d, er_fields = fs\<rparr>)\<rparr>"
  by (simp add: abs_view_def mem_add_edge_def mem_node_def fun_eq_iff)

lemma abs_view_remove_edge:
  "mem_remove_edge v e = Inr w \<Longrightarrow>
     abs_view w = (abs_view v)\<lparr>g_edge := (mv_edges v)(e := None)\<rparr>"
  by (simp add: abs_view_def mem_node_remove_edge mv_edges_remove_edge)

lemma apply_op_refines:
  assumes "wf_view v"
  shows "map_sum id abs_view (apply_op v x) = graph_step (abs_view v) x"
proof (cases x)
  case (RemoveEdge rel e)
  then show ?thesis using mem_remove_edge_total [OF assms, of e]
    by (auto simp: abs_view_remove_edge)
qed (auto simp: abs_view_add_node abs_view_add_edge mem_edge_def mem_set_field_def
      mem_add_node_def [symmetric] split: option.splits)

end
