(* ===== verification/ValidateState.thy ===== *)
theory ValidateState
  imports ValidateLocal View
begin

text \<open>
  The validators of \<^verbatim>\<open>src/src/commit_gate/validate.py\<close> that read committed state, and
  \<open>validate_proposal\<close>, which runs them all. The view is a \<open>read_view\<close>; \<open>as_view\<close> of
  a \<open>mem_view\<close> is one.

  The \<open>_clean\<close> lemmas give, for each validator, the condition under which it yields
  nothing; \<open>validate_proposal_clean\<close> collects them.
\<close>

section \<open>Endpoint types\<close>

definition EDGE_ENDPOINTS :: "(string \<times> string \<times> string) list" where
  "EDGE_ENDPOINTS =
    [(''HAS_TACTIC'', ''FormalState'', ''TacticApplication''),
     (''FORMAL_REQUIRES'', ''TacticApplication'', ''FormalState''),
     (''CLOSES_STATE'', ''TacticApplication'', ''FormalState''),
     (''HAS_ROOT'', ''FormalRun'', ''FormalState''),
     (''HAS_CHECKPOINT'', ''FormalRun'', ''FormalCheckpoint''),
     (''CHECKPOINT_FRONTIER'', ''FormalCheckpoint'', ''FormalState''),
     (''RAN_UNDER'', ''FormalRun'', ''Environment''),
     (''SEARCHES'', ''FormalRun'', ''FormalDeclaration''),
     (''PRODUCED_CERTIFICATE'', ''FormalRun'', ''Certificate''),
     (''CERTIFIES'', ''Certificate'', ''FormalDeclaration''),
     (''CERTIFICATE_ENVIRONMENT'', ''Certificate'', ''Environment''),
     (''REPLAYED_BY'', ''Certificate'', ''LeanReplay''),
     (''REPLAY_ENVIRONMENT'', ''LeanReplay'', ''Environment''),
     (''PINNED_ENVIRONMENT'', ''FormalDeclaration'', ''Environment''),
     (''ALIGNS_CLAIM'', ''Alignment'', ''Claim''),
     (''ALIGNS_DECLARATION'', ''Alignment'', ''FormalDeclaration''),
     (''PROVED_BY'', ''Claim'', ''Certificate''),
     (''DEPENDS_ON'', ''Claim'', ''Claim''),
     (''PROMOTED_TO'', ''SpeculativeHypothesis'', ''Claim''),
     (''RAISED_OBSTRUCTION'', ''FormalRun'', ''Obstruction''),
     (''AT_STATE'', ''Obstruction'', ''FormalState''),
     (''RESOLVES'', ''Claim'', ''Obstruction''),
     (''HAS_TARGET'', ''Proof'', ''Claim'')]"

section \<open>References\<close>

definition created_nodes :: "op list \<Rightarrow> (string \<times> string) list" where
  "created_nodes xs =
     foldl (\<lambda>d x. case x of UpsertNode label n fs \<Rightarrow> AList.update n label d | _ \<Rightarrow> d) [] xs"

definition added_edges :: "op list \<Rightarrow> (string \<times> string) list" where
  "added_edges xs =
     foldl (\<lambda>d x. case x of AddEdge rel src dst e fs \<Rightarrow> AList.update e rel d | _ \<Rightarrow> d) [] xs"

definition get_label :: "proposal \<Rightarrow> read_view \<Rightarrow> string \<Rightarrow> string option" where
  "get_label p v n =
     (case map_of (created_nodes (prop_ops p)) n of
        Some label \<Rightarrow> Some label
      | None \<Rightarrow> map_option nr_label (rv_node v n))"

definition get_rel :: "proposal \<Rightarrow> read_view \<Rightarrow> string \<Rightarrow> string option" where
  "get_rel p v e =
     (case map_of (added_edges (prop_ops p)) e of
        Some rel \<Rightarrow> Some rel
      | None \<Rightarrow> map_option er_rel (rv_edge v e))"

definition endpoint_findings ::
  "nat \<Rightarrow> string \<Rightarrow> string \<Rightarrow> string option \<Rightarrow> string option \<Rightarrow> rejection list" where
  "endpoint_findings i rel dst src_label dst_label =
     (if src_label = None then [reject UNKNOWN_NODE i] else []) @
     (if dst_label = None \<and> \<not> is_content_addressed dst then [reject UNKNOWN_NODE i] else []) @
     (case map_of EDGE_ENDPOINTS rel of
        None \<Rightarrow> []
      | Some (exp_src, exp_dst) \<Rightarrow>
          (if src_label \<noteq> None \<and> src_label \<noteq> Some exp_src
           then [reject EDGE_ENDPOINT_TYPE_INVALID i] else []) @
          (if dst_label \<noteq> None \<and> dst_label \<noteq> Some exp_dst
           then [reject EDGE_ENDPOINT_TYPE_INVALID i] else []))"

definition upsert_findings :: "nat \<Rightarrow> node_rec \<Rightarrow> fields \<Rightarrow> rejection list" where
  "upsert_findings i r fs =
     concat (map (\<lambda>(field, proposed).
       case map_of (nr_fields r) field of
         None \<Rightarrow> [reject UPSERT_FIELD_CONFLICT i]
       | Some committed \<Rightarrow>
           if \<not> py_eq committed proposed then [reject UPSERT_FIELD_CONFLICT i] else []) fs)"

fun references_op :: "proposal \<Rightarrow> read_view \<Rightarrow> string set \<Rightarrow> indexed_op \<Rightarrow> string set \<times> rejection list" where
  "references_op p v removed (i, SetField label n field value prior) =
     (removed,
      if get_label p v n = None then [reject UNKNOWN_NODE i]
      else if get_label p v n \<noteq> Some label then [reject NODE_ALREADY_EXISTS_WITH_LABEL i]
      else [])"
| "references_op p v removed (i, AddEdge rel src dst e fs) =
     (removed, endpoint_findings i rel dst (get_label p v src) (get_label p v dst))"
| "references_op p v removed (i, UpsertNode label n fs) =
     (removed, case rv_node v n of None \<Rightarrow> [] | Some r \<Rightarrow> upsert_findings i r fs)"
| "references_op p v removed (i, RemoveEdge rel e) =
     (if e \<in> removed then (removed, [reject UNKNOWN_EDGE i])
      else (insert e removed,
            case get_rel p v e of
              None \<Rightarrow> [reject UNKNOWN_EDGE i]
            | Some actual \<Rightarrow> if actual \<noteq> rel then [reject UNKNOWN_EDGE i] else []))"

fun references_loop :: "proposal \<Rightarrow> read_view \<Rightarrow> string set \<Rightarrow> indexed_op list \<Rightarrow> rejection list" where
  "references_loop p v removed [] = []"
| "references_loop p v removed (x # xs) =
     (case references_op p v removed x of (removed', found) \<Rightarrow> found @ references_loop p v removed' xs)"

definition check_references :: "proposal \<Rightarrow> read_view \<Rightarrow> rejection list" where
  "check_references p v = references_loop p v {} (indexed_ops (prop_ops p))"

section \<open>Prior values, transitions and immutability\<close>

fun prior_op :: "read_view \<Rightarrow> indexed_op \<Rightarrow> rejection list" where
  "prior_op v (i, SetField label n field value (Some prior)) =
     (case rv_node v n of
        None \<Rightarrow> []
      | Some r \<Rightarrow>
          if \<not> py_eq (dget (nr_fields r) field) prior then [reject PRIOR_VALUE_MISMATCH i] else [])"
| "prior_op v (i, _) = []"

definition check_prior_values :: "proposal \<Rightarrow> read_view \<Rightarrow> rejection list" where
  "check_prior_values p v = concat (map (prior_op v) (indexed_ops (prop_ops p)))"

text \<open>\<open>op.value not in table.get(current, frozenset())\<close>; both lookups hash their argument.\<close>

definition transition_allowed :: "string \<Rightarrow> string \<Rightarrow> pyval \<Rightarrow> pyval \<Rightarrow> py_exc + bool" where
  "transition_allowed label field current value =
     (if \<not> hashable current then Inl TypeError
      else py_in value (case current of PStr s \<Rightarrow> allowed_next label field s | _ \<Rightarrow> []))"

fun transition_op :: "read_view \<Rightarrow> indexed_op \<Rightarrow> rejection gen" where
  "transition_op v (i, SetField label n field value prior) =
     (if map_of STATUS_TRANSITIONS (label, field) = None then Inr []
      else case rv_node v n of
          None \<Rightarrow> Inr []
        | Some r \<Rightarrow>
            let current = dget (nr_fields r) field
            in if current = PNone then Inr []
               else case transition_allowed label field current value of
                   Inl e \<Rightarrow> Inl e
                 | Inr allowed \<Rightarrow>
                     Inr (if allowed then [] else [reject ILLEGAL_STATUS_TRANSITION i]))"
| "transition_op v (i, _) = Inr []"

definition check_status_transitions :: "proposal \<Rightarrow> read_view \<Rightarrow> rejection gen" where
  "check_status_transitions p v = collect (transition_op v) (indexed_ops (prop_ops p))"

fun immutability_op :: "indexed_op \<Rightarrow> rejection list" where
  "immutability_op (i, SetField label n field value prior) =
     (if field \<in> set (immutable_fields label) then [reject IMMUTABLE_FIELD_OVERWRITE i] else [])"
| "immutability_op (i, _) = []"

definition check_immutability :: "proposal \<Rightarrow> read_view \<Rightarrow> rejection list" where
  "check_immutability p v = concat (map immutability_op (indexed_ops (prop_ops p)))"

section \<open>Evidence\<close>

fun raises_obstruction :: "string \<Rightarrow> op \<Rightarrow> bool" where
  "raises_obstruction n (AddEdge rel src dst e fs) = (rel = ''RAISED_OBSTRUCTION'' \<and> src = n)"
| "raises_obstruction n _ = False"

fun stagnation_op :: "proposal \<Rightarrow> read_view \<Rightarrow> indexed_op \<Rightarrow> rejection list" where
  "stagnation_op p v (i, SetField label n field value prior) =
     (if label = ''FormalRun'' \<and> field = ''status'' \<and> py_eq value (PStr ''stagnated'')
      then if list_ex (raises_obstruction n) (prop_ops p) then []
           else if rv_node v n \<noteq> None \<and> 0 < length (rv_from v n ''RAISED_OBSTRUCTION'') then []
           else [reject STAGNATION_WITHOUT_OBSTRUCTION i]
      else [])"
| "stagnation_op p v (i, _) = []"

definition check_stagnation_obstruction :: "proposal \<Rightarrow> read_view \<Rightarrow> rejection list" where
  "check_stagnation_obstruction p v = concat (map (stagnation_op p v) (indexed_ops (prop_ops p)))"

fun upsert_of :: "string \<Rightarrow> op \<Rightarrow> fields option" where
  "upsert_of n (UpsertNode label m fs) = (if m = n then Some fs else None)"
| "upsert_of n _ = None"

definition node_fields :: "string \<Rightarrow> proposal \<Rightarrow> read_view \<Rightarrow> fields" where
  "node_fields n p v =
     (case rv_node v n of
        Some r \<Rightarrow> nr_fields r
      | None \<Rightarrow> (case List.map_filter (upsert_of n) (prop_ops p) of [] \<Rightarrow> [] | fs # _ \<Rightarrow> fs))"

fun added_target :: "string \<Rightarrow> string \<Rightarrow> op \<Rightarrow> string option" where
  "added_target n rel (AddEdge rel' src dst e fs) = (if rel' = rel \<and> src = n then Some dst else None)"
| "added_target n rel _ = None"

fun added_source :: "string \<Rightarrow> string \<Rightarrow> op \<Rightarrow> string option" where
  "added_source n rel (AddEdge rel' src dst e fs) = (if rel' = rel \<and> dst = n then Some src else None)"
| "added_source n rel _ = None"

definition edge_targets :: "string \<Rightarrow> string \<Rightarrow> proposal \<Rightarrow> read_view \<Rightarrow> string list" where
  "edge_targets n rel p v =
     List.map_filter (added_target n rel) (prop_ops p) @ map er_dst (rv_from v n rel)"

definition edge_sources :: "string \<Rightarrow> string \<Rightarrow> proposal \<Rightarrow> read_view \<Rightarrow> string list" where
  "edge_sources n rel p v =
     List.map_filter (added_source n rel) (prop_ops p) @ map er_src (rv_to v n rel)"

definition independent_replay :: "fields \<Rightarrow> fields \<Rightarrow> bool" where
  "independent_replay certificate replay \<longleftrightarrow>
     py_eq (dget replay ''status'') (PStr ''verified'') \<and>
     dget replay ''sorry_detected'' = PBool False \<and>
     dget replay ''actor'' \<noteq> PNone \<and> dget certificate ''actor'' \<noteq> PNone \<and>
     \<not> py_eq (dget replay ''actor'') (dget certificate ''actor'')"

definition has_verified_sorry_free_replay :: "string \<Rightarrow> proposal \<Rightarrow> read_view \<Rightarrow> bool" where
  "has_verified_sorry_free_replay claim p v =
     list_ex (\<lambda>certificate. list_ex (\<lambda>replay.
        independent_replay (node_fields certificate p v) (node_fields replay p v))
       (edge_targets certificate ''REPLAYED_BY'' p v))
     (edge_targets claim ''PROVED_BY'' p v)"

definition reviewed_aligned :: "fields \<Rightarrow> bool" where
  "reviewed_aligned fs \<longleftrightarrow>
     py_eq (dget fs ''lifecycle'') (PStr ''reviewed'') \<and>
     py_eq (dget fs ''verdict'') (PStr ''aligned'')"

definition has_reviewed_aligned_alignment :: "string \<Rightarrow> proposal \<Rightarrow> read_view \<Rightarrow> bool" where
  "has_reviewed_aligned_alignment claim p v =
     list_ex (\<lambda>alignment. reviewed_aligned (node_fields alignment p v))
       (edge_sources claim ''ALIGNS_CLAIM'' p v)"

fun promotes_claim :: "op \<Rightarrow> string option" where
  "promotes_claim (SetField label n field value prior) =
     (if label = ''Claim'' \<and> field = ''status'' \<and> py_eq value (PStr ''lean-verified'')
      then Some n else None)"
| "promotes_claim _ = None"

definition promotion_check ::
  "reason \<Rightarrow> (string \<Rightarrow> proposal \<Rightarrow> read_view \<Rightarrow> bool) \<Rightarrow> proposal \<Rightarrow> read_view \<Rightarrow> rejection list" where
  "promotion_check why evidence p v =
     concat (map (\<lambda>(i, x).
       case promotes_claim x of
         None \<Rightarrow> []
       | Some n \<Rightarrow> if \<not> evidence n p v then [reject why i] else []) (indexed_ops (prop_ops p)))"

definition check_replay_evidence :: "proposal \<Rightarrow> read_view \<Rightarrow> rejection list" where
  "check_replay_evidence = promotion_check PROMOTION_WITHOUT_REPLAY has_verified_sorry_free_replay"

definition check_alignment_gate :: "proposal \<Rightarrow> read_view \<Rightarrow> rejection list" where
  "check_alignment_gate = promotion_check PROMOTION_WITHOUT_ALIGNMENT has_reviewed_aligned_alignment"

fun self_certification_op :: "proposal \<Rightarrow> read_view \<Rightarrow> indexed_op \<Rightarrow> rejection list" where
  "self_certification_op p v (i, AddEdge rel certificate replay e fs) =
     (if rel = ''REPLAYED_BY''
      then let replay_actor = dget (node_fields replay p v) ''actor'';
               certificate_actor = dget (node_fields certificate p v) ''actor''
           in if replay_actor \<noteq> PNone \<and> certificate_actor \<noteq> PNone \<and>
                 py_eq replay_actor certificate_actor
              then [reject SELF_CERTIFICATION i] else []
      else [])"
| "self_certification_op p v (i, _) = []"

definition check_self_certification :: "proposal \<Rightarrow> read_view \<Rightarrow> rejection list" where
  "check_self_certification p v = concat (map (self_certification_op p v) (indexed_ops (prop_ops p)))"

section \<open>The whole validation\<close>

definition validate_local :: "proposal \<Rightarrow> rejection gen" where
  "validate_local p =
     gen_append (Inr (check_concurrency_tokens p))
     (gen_append (Inr (check_vocabulary p))
     (gen_append (Inr (check_namespace p))
     (gen_append (check_subgoal_conservation p)
     (gen_append (check_executor_result p)
                 (check_annotation_separation p)))))"

definition validate_state :: "proposal \<Rightarrow> read_view \<Rightarrow> rejection gen" where
  "validate_state p v =
     gen_append (Inr (check_references p v))
     (gen_append (Inr (check_prior_values p v))
     (gen_append (check_status_transitions p v)
     (gen_append (Inr (check_immutability p v))
     (gen_append (Inr (check_stagnation_obstruction p v))
     (gen_append (Inr (check_replay_evidence p v))
     (gen_append (Inr (check_self_certification p v))
                 (Inr (check_alignment_gate p v))))))))"

definition validate_proposal :: "proposal \<Rightarrow> read_view option \<Rightarrow> rejection gen" where
  "validate_proposal p view =
     gen_append (validate_local p) (case view of None \<Rightarrow> Inr [] | Some v \<Rightarrow> validate_state p v)"

section \<open>What a proposal without findings satisfies\<close>

fun removal_of :: "op \<Rightarrow> string option" where
  "removal_of (RemoveEdge rel e) = Some e"
| "removal_of _ = None"

definition label_ok :: "string option \<Rightarrow> string \<Rightarrow> bool" where
  "label_ok found expected \<longleftrightarrow> found = None \<or> found = Some expected"

fun refers_ok :: "proposal \<Rightarrow> read_view \<Rightarrow> op \<Rightarrow> bool" where
  "refers_ok p v (SetField label n field value prior) = (get_label p v n = Some label)"
| "refers_ok p v (AddEdge rel src dst e fs) =
     (get_label p v src \<noteq> None \<and>
      (get_label p v dst \<noteq> None \<or> is_content_addressed dst) \<and>
      (\<forall>s d. map_of EDGE_ENDPOINTS rel = Some (s, d) \<longrightarrow>
         label_ok (get_label p v src) s \<and> label_ok (get_label p v dst) d))"
| "refers_ok p v (UpsertNode label n fs) =
     (\<forall>r. rv_node v n = Some r \<longrightarrow>
        (\<forall>(field, proposed) \<in> set fs.
           \<exists>committed. map_of (nr_fields r) field = Some committed \<and> py_eq committed proposed))"
| "refers_ok p v (RemoveEdge rel e) = (get_rel p v e = Some rel)"

fun prior_ok :: "read_view \<Rightarrow> op \<Rightarrow> bool" where
  "prior_ok v (SetField label n field value (Some prior)) =
     (\<forall>r. rv_node v n = Some r \<longrightarrow> py_eq (dget (nr_fields r) field) prior)"
| "prior_ok v _ = True"

fun transition_ok :: "read_view \<Rightarrow> op \<Rightarrow> bool" where
  "transition_ok v (SetField label n field value prior) =
     (map_of STATUS_TRANSITIONS (label, field) \<noteq> None \<longrightarrow>
      (\<forall>r. rv_node v n = Some r \<longrightarrow> dget (nr_fields r) field \<noteq> PNone \<longrightarrow>
         (\<exists>s t. dget (nr_fields r) field = PStr s \<and> value = PStr t \<and>
                status_step label field s t)))"
| "transition_ok v _ = True"

fun immutable_ok :: "op \<Rightarrow> bool" where
  "immutable_ok (SetField label n field value prior) = (field \<notin> set (immutable_fields label))"
| "immutable_ok _ = True"

fun stagnation_ok :: "proposal \<Rightarrow> read_view \<Rightarrow> op \<Rightarrow> bool" where
  "stagnation_ok p v (SetField label n field value prior) =
     (label = ''FormalRun'' \<and> field = ''status'' \<and> value = PStr ''stagnated'' \<longrightarrow>
        (\<exists>x \<in> set (prop_ops p). raises_obstruction n x) \<or>
        rv_node v n \<noteq> None \<and> rv_from v n ''RAISED_OBSTRUCTION'' \<noteq> [])"
| "stagnation_ok p v _ = True"

fun certified_by_another :: "proposal \<Rightarrow> read_view \<Rightarrow> op \<Rightarrow> bool" where
  "certified_by_another p v (AddEdge rel certificate replay e fs) =
     (rel = ''REPLAYED_BY'' \<longrightarrow>
      (let a = dget (node_fields replay p v) ''actor''; b = dget (node_fields certificate p v) ''actor''
       in a = PNone \<or> b = PNone \<or> \<not> py_eq a b))"
| "certified_by_another p v _ = True"

definition promotion_ok :: "proposal \<Rightarrow> read_view \<Rightarrow> op \<Rightarrow> bool" where
  "promotion_ok p v x \<longleftrightarrow>
     (\<forall>n. promotes_claim x = Some n \<longrightarrow>
        has_verified_sorry_free_replay n p v \<and> has_reviewed_aligned_alignment n p v)"

lemma endpoint_findings_Nil:
  "endpoint_findings i rel dst ls ld = [] \<longleftrightarrow>
     ls \<noteq> None \<and> (ld \<noteq> None \<or> is_content_addressed dst) \<and>
     (\<forall>s d. map_of EDGE_ENDPOINTS rel = Some (s, d) \<longrightarrow> label_ok ls s \<and> label_ok ld d)"
  by (cases "map_of EDGE_ENDPOINTS rel") (auto simp: endpoint_findings_def label_ok_def split: if_splits)

lemma upsert_findings_Nil:
  "upsert_findings i r fs = [] \<longleftrightarrow>
     (\<forall>(field, proposed) \<in> set fs.
        \<exists>committed. map_of (nr_fields r) field = Some committed \<and> py_eq committed proposed)"
proof -
  have "(case map_of (nr_fields r) field of
          None \<Rightarrow> [reject UPSERT_FIELD_CONFLICT i]
        | Some committed \<Rightarrow>
            if \<not> py_eq committed proposed then [reject UPSERT_FIELD_CONFLICT i] else []) = [] \<longleftrightarrow>
      (\<exists>committed. map_of (nr_fields r) field = Some committed \<and> py_eq committed proposed)"
    for field proposed
    by (cases "map_of (nr_fields r) field") auto
  then show ?thesis unfolding upsert_findings_def concat_map_Nil by (simp add: split_beta)
qed

lemma references_loop_Nil:
  "references_loop p v removed (List.enumerate k xs) = [] \<longleftrightarrow>
     (\<forall>x \<in> set xs. refers_ok p v x) \<and>
     distinct (List.map_filter removal_of xs) \<and>
     set (List.map_filter removal_of xs) \<inter> removed = {}"
proof (induction xs arbitrary: removed k)
  case Nil
  then show ?case by (simp add: List.map_filter_def)
next
  case (Cons x xs)
  show ?case
  proof (cases x)
    case (RemoveEdge rel e)
    then show ?thesis
      using Cons.IH by (cases "get_rel p v e") (auto simp: List.map_filter_def)
  next
    case (AddEdge rel src dst e fs)
    then show ?thesis using Cons.IH by (simp add: List.map_filter_def endpoint_findings_Nil)
  next
    case (UpsertNode label n fs)
    then show ?thesis
      using Cons.IH
      by (cases "rv_node v n") (simp_all add: List.map_filter_def upsert_findings_Nil)
  next
    case (SetField label n field val prior)
    then show ?thesis using Cons.IH by (simp add: List.map_filter_def)
  qed
qed

lemma check_references_clean:
  "check_references p v = [] \<longleftrightarrow>
     (\<forall>x \<in> set (prop_ops p). refers_ok p v x) \<and>
     distinct (List.map_filter removal_of (prop_ops p))"
  by (simp add: check_references_def references_loop_Nil)

lemma check_prior_values_clean:
  "check_prior_values p v = [] \<longleftrightarrow> (\<forall>x \<in> set (prop_ops p). prior_ok v x)"
  unfolding check_prior_values_def
proof (rule enumerate_concat_Nil)
  fix i x
  show "prior_op v (i, x) = [] \<longleftrightarrow> prior_ok v x"
    by (cases "(v, x)" rule: prior_ok.cases) (auto split: option.splits)
qed

lemma transition_allowed_True:
  "transition_allowed label field current val = Inr True \<longleftrightarrow>
     (\<exists>s t. current = PStr s \<and> val = PStr t \<and> status_step label field s t)"
  by (cases current) (auto simp: transition_allowed_def py_in_Inr_True status_step_iff)

lemma transition_op_clean: "transition_op v (i, x) = Inr [] \<longleftrightarrow> transition_ok v x"
proof (cases x)
  case (SetField label n field val prior)
  show ?thesis
  proof (cases "rv_node v n")
    case (Some r)
    have "(case transition_allowed label field (dget (nr_fields r) field) val of
            Inl e \<Rightarrow> Inl e
          | Inr allowed \<Rightarrow> Inr (if allowed then [] else [reject ILLEGAL_STATUS_TRANSITION i])) =
          Inr [] \<longleftrightarrow>
        transition_allowed label field (dget (nr_fields r) field) val = Inr True"
      by (auto split: sum.splits)
    then show ?thesis using Some SetField by (simp add: Let_def transition_allowed_True)
  qed (simp add: SetField)
qed simp_all

lemma check_status_transitions_clean:
  "check_status_transitions p v = Inr [] \<longleftrightarrow> (\<forall>x \<in> set (prop_ops p). transition_ok v x)"
  unfolding check_status_transitions_def
  by (rule enumerate_collect_clean) (rule transition_op_clean)

lemma check_immutability_clean:
  "check_immutability p v = [] \<longleftrightarrow> (\<forall>x \<in> set (prop_ops p). immutable_ok x)"
  unfolding check_immutability_def
proof (rule enumerate_concat_Nil)
  fix i x
  show "immutability_op (i, x) = [] \<longleftrightarrow> immutable_ok x" by (cases x) simp_all
qed

lemma check_stagnation_obstruction_clean:
  "check_stagnation_obstruction p v = [] \<longleftrightarrow> (\<forall>x \<in> set (prop_ops p). stagnation_ok p v x)"
  unfolding check_stagnation_obstruction_def
proof (rule enumerate_concat_Nil)
  fix i x
  show "stagnation_op p v (i, x) = [] \<longleftrightarrow> stagnation_ok p v x"
    by (cases x) (auto simp: list_ex_iff)
qed

lemma promotion_check_clean:
  "promotion_check why evidence p v = [] \<longleftrightarrow>
     (\<forall>x \<in> set (prop_ops p). \<forall>n. promotes_claim x = Some n \<longrightarrow> evidence n p v)"
  unfolding promotion_check_def
proof (rule enumerate_concat_Nil)
  fix i x
  show "(case (i, x) of (i, x) \<Rightarrow> case promotes_claim x of
          None \<Rightarrow> []
        | Some n \<Rightarrow> if \<not> evidence n p v then [reject why i] else []) = [] \<longleftrightarrow>
      (\<forall>n. promotes_claim x = Some n \<longrightarrow> evidence n p v)"
    by (cases "promotes_claim x") auto
qed

lemma check_self_certification_clean:
  "check_self_certification p v = [] \<longleftrightarrow> (\<forall>x \<in> set (prop_ops p). certified_by_another p v x)"
  unfolding check_self_certification_def
proof (rule enumerate_concat_Nil)
  fix i x
  show "self_certification_op p v (i, x) = [] \<longleftrightarrow> certified_by_another p v x"
    by (cases x) (auto simp: Let_def)
qed

definition locally_ok :: "proposal \<Rightarrow> bool" where
  "locally_ok p \<longleftrightarrow>
     check_concurrency_tokens p = [] \<and> check_vocabulary p = [] \<and> check_namespace p = [] \<and>
     subgoals_conserved (prop_ops p) \<and> executor_results_ok (prop_ops p) \<and>
     annotation_separated (prop_ops p)"

definition op_ok :: "proposal \<Rightarrow> read_view \<Rightarrow> op \<Rightarrow> bool" where
  "op_ok p v x \<longleftrightarrow>
     refers_ok p v x \<and> prior_ok v x \<and> transition_ok v x \<and> immutable_ok x \<and>
     stagnation_ok p v x \<and> promotion_ok p v x \<and> certified_by_another p v x"

lemma validate_local_clean: "validate_local p = Inr [] \<longleftrightarrow> locally_ok p"
  by (simp add: validate_local_def gen_append_clean check_subgoal_conservation_clean
      check_executor_result_clean check_annotation_separation_clean locally_ok_def)

lemma validate_state_clean:
  "validate_state p v = Inr [] \<longleftrightarrow>
     (\<forall>x \<in> set (prop_ops p). op_ok p v x) \<and> distinct (List.map_filter removal_of (prop_ops p))"
  unfolding validate_state_def gen_append_clean sum.inject check_references_clean
    check_prior_values_clean check_status_transitions_clean check_immutability_clean
    check_stagnation_obstruction_clean check_self_certification_clean check_replay_evidence_def
    check_alignment_gate_def promotion_check_clean op_ok_def promotion_ok_def
  by blast

lemma validate_proposal_clean:
  "validate_proposal p (Some v) = Inr [] \<longleftrightarrow>
     locally_ok p \<and> (\<forall>x \<in> set (prop_ops p). op_ok p v x) \<and>
     distinct (List.map_filter removal_of (prop_ops p))"
  by (simp add: validate_proposal_def gen_append_clean validate_local_clean validate_state_clean)

end
