(* ===== verification/Effects.thy ===== *)
theory Effects
  imports View
begin

text \<open>
  What a batch of operations does to a view, without the loop: which nodes exist
  afterwards, under which label and with which field values, and which edges.
  These are the lemmas with which the properties of accepted proposals are proved.
\<close>

section \<open>Writes and creations of a batch\<close>

fun write_of :: "string \<Rightarrow> string \<Rightarrow> op \<Rightarrow> pyval option" where
  "write_of n f (SetField label m g value prior) = (if m = n \<and> g = f then Some value else None)"
| "write_of n f _ = None"

definition last_write :: "op list \<Rightarrow> string \<Rightarrow> string \<Rightarrow> pyval option" where
  "last_write xs n f =
     (let ws = List.map_filter (write_of n f) xs in if ws = [] then None else Some (last ws))"

fun creation_of :: "string \<Rightarrow> op \<Rightarrow> (string \<times> fields) option" where
  "creation_of n (UpsertNode label m fs) = (if m = n then Some (label, fs) else None)"
| "creation_of n _ = None"

definition created_as :: "op list \<Rightarrow> string \<Rightarrow> (string \<times> fields) option" where
  "created_as xs n =
     (case List.map_filter (creation_of n) xs of [] \<Rightarrow> None | c # _ \<Rightarrow> Some c)"

text \<open>The label and fields a node starts from: its committed ones, or its first creation's.\<close>

definition origin :: "mem_view \<Rightarrow> op list \<Rightarrow> string \<Rightarrow> (string \<times> fields) option" where
  "origin v xs n =
     (case mem_node v n of
        Some r \<Rightarrow> Some (nr_label r, nr_fields r)
      | None \<Rightarrow> created_as xs n)"

definition value_after :: "op list \<Rightarrow> string \<Rightarrow> fields \<Rightarrow> string \<Rightarrow> pyval" where
  "value_after xs n fs f = (case last_write xs n f of None \<Rightarrow> dget fs f | Some w \<Rightarrow> w)"

lemma last_write_Nil [simp]: "last_write [] n f = None"
  by (simp add: last_write_def List.map_filter_def)

lemma last_write_snoc [simp]:
  "last_write (xs @ [x]) n f = (case write_of n f x of None \<Rightarrow> last_write xs n f | Some w \<Rightarrow> Some w)"
  by (simp add: last_write_def map_filter_snoc split: option.split)

lemma created_as_Nil [simp]: "created_as [] n = None"
  by (simp add: created_as_def List.map_filter_def)

lemma created_as_snoc [simp]:
  "created_as (xs @ [x]) n = (case created_as xs n of None \<Rightarrow> creation_of n x | Some c \<Rightarrow> Some c)"
  by (simp add: created_as_def map_filter_snoc split: option.split list.split)

lemma last_write_Some_iff:
  "last_write xs n f \<noteq> None \<longleftrightarrow> (\<exists>x \<in> set xs. write_of n f x \<noteq> None)"
  by (induction xs rule: rev_induct) (auto split: option.splits)

lemma last_write_member:
  "last_write xs n f = Some w \<Longrightarrow> \<exists>label prior. SetField label n f w prior \<in> set xs"
proof (induction xs rule: rev_induct)
  case (snoc x xs)
  then show ?case by (cases x) (auto split: if_splits)
qed simp

lemma created_as_member:
  "created_as xs n = Some (label, fs) \<Longrightarrow> UpsertNode label n fs \<in> set xs"
proof (induction xs rule: rev_induct)
  case (snoc x xs)
  then show ?case by (cases x) (auto split: option.splits if_splits)
qed simp

lemma created_as_None:
  "created_as xs n = None \<longleftrightarrow> (\<forall>label fs. UpsertNode label n fs \<notin> set xs)"
proof (induction xs rule: rev_induct)
  case (snoc x xs)
  then show ?case by (cases x) (auto split: option.splits)
qed simp

section \<open>Nodes after a batch\<close>

lemma apply_ops_snoc:
  "apply_ops v (xs @ [x]) = Inr w \<longleftrightarrow> (\<exists>t. apply_ops v xs = Inr t \<and> apply_op t x = Inr w)"
  by (simp add: apply_ops_def run_snoc_Inr)

lemma nodes_after_step:
  assumes "apply_op t x = Inr w"
  shows "mem_node w n =
     (case mem_node t n of
        None \<Rightarrow> map_option (\<lambda>(label, fs). \<lparr>nr_id = n, nr_label = label, nr_fields = fs\<rparr>)
                  (creation_of n x)
      | Some r \<Rightarrow>
          (case x of
             SetField label m f value prior \<Rightarrow>
               if m = n
               then Some \<lparr>nr_id = n, nr_label = nr_label r,
                          nr_fields = AList.update f value (nr_fields r)\<rparr>
               else Some r
           | _ \<Rightarrow> Some r))"
  using assms
  by (cases x)
     (auto simp: mem_node_add_node mem_set_field_Inr mem_node_remove_edge
       split: option.splits if_splits)

lemma nodes_after:
  assumes "apply_ops v xs = Inr w"
  shows "(mem_node w n = None \<longleftrightarrow> origin v xs n = None) \<and>
     (mem_node w n = None \<longrightarrow> (\<forall>f. last_write xs n f = None)) \<and>
     (\<forall>label fs. origin v xs n = Some (label, fs) \<longrightarrow>
        (\<exists>r. mem_node w n = Some r \<and> nr_label r = label \<and>
             (\<forall>f. dget (nr_fields r) f = value_after xs n fs f)))"
  using assms
proof (induction xs arbitrary: w rule: rev_induct)
  case Nil
  then show ?case by (auto simp: origin_def value_after_def split: option.splits)
next
  case (snoc x xs)
  from snoc.prems obtain t where t: "apply_ops v xs = Inr t" "apply_op t x = Inr w"
    by (auto simp: apply_ops_snoc)
  have IH: "(mem_node t n = None \<longleftrightarrow> origin v xs n = None) \<and>
     (mem_node t n = None \<longrightarrow> (\<forall>f. last_write xs n f = None)) \<and>
     (\<forall>label fs. origin v xs n = Some (label, fs) \<longrightarrow>
        (\<exists>r. mem_node t n = Some r \<and> nr_label r = label \<and>
             (\<forall>f. dget (nr_fields r) f = value_after xs n fs f)))"
    by (rule snoc.IH) (rule t(1))
  note w = nodes_after_step [OF t(2), of n]
  have orig: "origin v (xs @ [x]) n =
      (case origin v xs n of None \<Rightarrow> creation_of n x | Some c \<Rightarrow> Some c)"
    by (auto simp: origin_def split: option.splits)
  show ?case
  proof (cases "mem_node t n")
    case None
    then have none: "origin v xs n = None" "\<forall>f. last_write xs n f = None" using IH by auto
    have no_write: "write_of n f x = None" for f
      using t(2) None by (cases x) (auto split: option.splits)
    then show ?thesis
      using None none w orig by (auto simp: value_after_def split: option.splits)
  next
    case (Some r)
    then obtain label fs where o: "origin v xs n = Some (label, fs)" using IH by fastforce
    with IH Some have r: "nr_label r = label" "\<forall>f. dget (nr_fields r) f = value_after xs n fs f"
      by auto
    then show ?thesis
      using Some w orig o by (cases x) (auto simp: value_after_def dget_update)
  qed
qed

lemma existing_node_after:
  assumes "apply_ops v xs = Inr w" and "mem_node v n = Some r"
  obtains r' where "mem_node w n = Some r'" "nr_label r' = nr_label r"
    "\<And>f. dget (nr_fields r') f = value_after xs n (nr_fields r) f"
  using nodes_after [OF assms(1), of n] assms(2) by (auto simp: origin_def)

lemma node_origin:
  assumes "apply_ops v xs = Inr w" and "mem_node w n = Some r"
  obtains fs where "origin v xs n = Some (nr_label r, fs)"
    "\<And>f. dget (nr_fields r) f = value_after xs n fs f"
proof -
  obtain label fs where o: "origin v xs n = Some (label, fs)"
    using nodes_after [OF assms(1), of n] assms(2) by (cases "origin v xs n") auto
  then have "nr_label r = label" "\<And>f. dget (nr_fields r) f = value_after xs n fs f"
    using nodes_after [OF assms(1), of n] assms(2) by auto
  with that o show thesis by simp
qed

lemma new_node_after:
  assumes "apply_ops v xs = Inr w" and "mem_node v n = None" and "mem_node w n = Some r"
  obtains fs where "UpsertNode (nr_label r) n fs \<in> set xs" "created_as xs n = Some (nr_label r, fs)"
    "\<And>f. dget (nr_fields r) f = value_after xs n fs f"
proof -
  obtain fs where o: "origin v xs n = Some (nr_label r, fs)"
    "\<And>f. dget (nr_fields r) f = value_after xs n fs f"
    using node_origin [OF assms(1,3)] by metis
  then have c: "created_as xs n = Some (nr_label r, fs)" using assms(2) by (simp add: origin_def)
  with that o(2) created_as_member [OF c] show thesis by blast
qed

lemma nodes_stay: "apply_ops v xs = Inr w \<Longrightarrow> mem_node v n \<noteq> None \<Longrightarrow> mem_node w n \<noteq> None"
  using nodes_after [of v xs w n] by (auto simp: origin_def)

lemma label_stays:
  assumes "apply_ops v xs = Inr w" and "map_option nr_label (mem_node v n) = Some l"
  shows "map_option nr_label (mem_node w n) = Some l"
proof -
  from assms(2) obtain r where "mem_node v n = Some r" "nr_label r = l" by auto
  then show ?thesis using existing_node_after [OF assms(1)] by (metis option.simps(9))
qed

section \<open>Edges after a batch\<close>

lemma edge_after_step:
  assumes "apply_op t x = Inr w"
  shows "mv_edges w e' =
     (case x of
        AddEdge rel s d e fs \<Rightarrow>
          if e = e' \<and> mv_edges t e = None
          then Some \<lparr>er_id = e, er_rel = rel, er_src = s, er_dst = d, er_fields = fs\<rparr>
          else mv_edges t e'
      | RemoveEdge rel e \<Rightarrow> if e = e' then None else mv_edges t e'
      | _ \<Rightarrow> mv_edges t e')"
  using assms
  by (cases x)
     (auto simp: mem_set_field_Inr mem_edge_def mem_add_edge_def mv_edges_remove_edge
       split: option.splits)

lemma edge_origin:
  "apply_ops v xs = Inr w \<Longrightarrow> mv_edges w e = Some r \<Longrightarrow>
     mv_edges v e = Some r \<or>
     (\<exists>rel s d fs. r = \<lparr>er_id = e, er_rel = rel, er_src = s, er_dst = d, er_fields = fs\<rparr> \<and>
        AddEdge rel s d e fs \<in> set xs)"
proof (induction xs arbitrary: w rule: rev_induct)
  case (snoc x xs)
  from snoc.prems obtain t where t: "apply_ops v xs = Inr t" "apply_op t x = Inr w"
    by (auto simp: apply_ops_snoc)
  note w = edge_after_step [OF t(2), of e]
  show ?case
  proof (cases "mv_edges t e = Some r")
    case True
    then show ?thesis using snoc.IH [OF t(1)] by auto
  next
    case False
    then have "\<exists>rel s d fs. x = AddEdge rel s d e fs \<and>
        r = \<lparr>er_id = e, er_rel = rel, er_src = s, er_dst = d, er_fields = fs\<rparr>"
      using snoc.prems(2) w by (cases x) (simp_all split: if_splits)
    then show ?thesis by auto
  qed
qed simp

lemma edge_kept:
  "apply_ops v xs = Inr w \<Longrightarrow> mv_edges v e = Some r \<Longrightarrow>
     (\<And>rel. RemoveEdge rel e \<notin> set xs) \<Longrightarrow> mv_edges w e = Some r"
proof (induction xs arbitrary: w rule: rev_induct)
  case (snoc x xs)
  from snoc.prems obtain t where t: "apply_ops v xs = Inr t" "apply_op t x = Inr w"
    by (auto simp: apply_ops_snoc)
  have "mv_edges t e = Some r" using snoc.IH [OF t(1)] snoc.prems by auto
  then show ?case
    using edge_after_step [OF t(2), of e] snoc.prems(3) by (cases x) auto
qed simp

lemma edge_added:
  "apply_ops v xs = Inr w \<Longrightarrow> AddEdge rel s d e fs \<in> set xs \<Longrightarrow> mv_edges v e = None \<Longrightarrow>
     (\<And>rel'. RemoveEdge rel' e \<notin> set xs) \<Longrightarrow>
     (\<And>rel' s' d' fs'. AddEdge rel' s' d' e fs' \<in> set xs \<Longrightarrow> (rel', s', d', fs') = (rel, s, d, fs)) \<Longrightarrow>
     mv_edges w e = Some \<lparr>er_id = e, er_rel = rel, er_src = s, er_dst = d, er_fields = fs\<rparr>"
proof (induction xs arbitrary: w rule: rev_induct)
  case (snoc x xs)
  from snoc.prems obtain t where t: "apply_ops v xs = Inr t" "apply_op t x = Inr w"
    by (auto simp: apply_ops_snoc)
  note w = edge_after_step [OF t(2), of e]
  have uniq: "AddEdge rel' s' d' e fs' \<in> set xs \<Longrightarrow> (rel', s', d', fs') = (rel, s, d, fs)"
    for rel' s' d' fs' using snoc.prems(5) [of rel' s' d' fs'] by simp
  have kept: "RemoveEdge rel' e \<notin> set xs" for rel' using snoc.prems(4) [of rel'] by simp
  show ?case
  proof (cases "AddEdge rel s d e fs \<in> set xs")
    case True
    then have "mv_edges t e = Some \<lparr>er_id = e, er_rel = rel, er_src = s, er_dst = d, er_fields = fs\<rparr>"
      by (rule snoc.IH [OF t(1) _ snoc.prems(3) kept uniq])
    then show ?thesis using w snoc.prems(4) [of "op_rel x"] by (cases x) auto
  next
    case False
    then have x: "x = AddEdge rel s d e fs" using snoc.prems(2) by auto
    have "mv_edges t e = None"
    proof (rule ccontr)
      assume "mv_edges t e \<noteq> None"
      then obtain r where "mv_edges t e = Some r" by auto
      from edge_origin [OF t(1) this] snoc.prems(3) obtain rel' s' d' fs'
        where "AddEdge rel' s' d' e fs' \<in> set xs" by (metis option.distinct(1))
      with uniq False show False by blast
    qed
    then show ?thesis using w x by simp
  qed
qed simp

section \<open>When a batch applies\<close>

fun fields_after_nodes :: "(string \<Rightarrow> bool) \<Rightarrow> op list \<Rightarrow> bool" where
  "fields_after_nodes known [] = True"
| "fields_after_nodes known (UpsertNode label n fs # xs) =
     fields_after_nodes (known(n := True)) xs"
| "fields_after_nodes known (SetField label n field value prior # xs) =
     (known n \<and> fields_after_nodes known xs)"
| "fields_after_nodes known (_ # xs) = fields_after_nodes known xs"

definition known_in :: "mem_view \<Rightarrow> string \<Rightarrow> bool" where
  "known_in v n \<longleftrightarrow> mem_node v n \<noteq> None"

lemma known_in_step:
  "apply_op v x = Inr w \<Longrightarrow>
     known_in w = (case x of UpsertNode label n fs \<Rightarrow> (known_in v)(n := True) | _ \<Rightarrow> known_in v)"
  using nodes_after_step [of v x w]
  by (cases x) (auto simp: known_in_def fun_eq_iff split: option.splits)

lemma apply_ops_defined:
  assumes "wf_view v"
  shows "(\<exists>w. apply_ops v xs = Inr w) \<longleftrightarrow> fields_after_nodes (known_in v) xs"
  using assms
proof (induction xs arbitrary: v)
  case (Cons x xs)
  show ?case
  proof (cases "apply_op v x")
    case (Inl err)
    then obtain l n f val p where "x = SetField l n f val p" "mem_node v n = None"
      using iffD1 [OF apply_op_Inl [OF Cons.prems] Inl] by metis
    then show ?thesis using Inl by (simp add: known_in_def)
  next
    case (Inr u)
    have "wf_view u" by (rule wf_apply_op [OF Cons.prems Inr])
    then have IH: "(\<exists>w. apply_ops u xs = Inr w) \<longleftrightarrow> fields_after_nodes (known_in u) xs"
      by (rule Cons.IH)
    then show ?thesis
    proof (cases x)
      case (SetField l n f val p)
      have "known_in v n" using Inr SetField by (simp add: known_in_def split: option.splits)
      then show ?thesis using IH Inr known_in_step [OF Inr] SetField by simp
    qed (use Inr known_in_step [OF Inr] in simp_all)
  qed
qed simp

section \<open>Applying again\<close>

lemma update_again: "AList.update k w (AList.update k w d) = AList.update k w d"
  by (rule update_triv) (simp add: update_conv')

lemma add_node_again:
  "mem_add_node (mem_add_node v n l fs) n l fs = mem_add_node v n l fs"
  by (simp add: mem_add_node_def update_again)

lemma apply_op_idempotent: "apply_op v x = Inr w \<Longrightarrow> apply_op w x = Inr w"
  by (cases x)
     (auto simp: mem_set_field_Inr mem_node_add_node mem_edge_def add_node_again update_again
       mem_remove_edge_def mem_add_edge_def split: option.splits if_splits)

text \<open>
  A batch without removals is idempotent as a whole, up to what the view answers: node
  labels, field values and edges. (The insertion order of a rewritten field list and of an
  adjacency index is not part of that.)
\<close>

definition same_answers :: "mem_view \<Rightarrow> mem_view \<Rightarrow> bool" where
  "same_answers v w \<longleftrightarrow>
     (\<forall>n. map_option (\<lambda>r. (nr_label r, dget (nr_fields r))) (mem_node v n) =
          map_option (\<lambda>r. (nr_label r, dget (nr_fields r))) (mem_node w n)) \<and>
     (\<forall>e. mv_edges v e = mv_edges w e)"

lemma fields_after_nodes_mono:
  "fields_after_nodes known xs \<Longrightarrow> (\<And>n. known n \<Longrightarrow> known' n) \<Longrightarrow> fields_after_nodes known' xs"
proof (induction known xs arbitrary: known' rule: fields_after_nodes.induct)
  case (2 known label n fs xs)
  show ?case using 2(2,3) by (auto intro!: 2(1))
qed auto

lemma edges_again:
  assumes "apply_ops v xs = Inr w" and "\<And>rel e. RemoveEdge rel e \<notin> set xs"
    and "apply_ops w xs = Inr u"
  shows "mv_edges u e = mv_edges w e"
proof (cases "mv_edges w e")
  case (Some r)
  then show ?thesis using edge_kept [OF assms(3) Some] assms(2) by simp
next
  case None
  have "\<And>rel s d fs. AddEdge rel s d e fs \<notin> set xs"
  proof
    fix rel s d fs
    assume "AddEdge rel s d e fs \<in> set xs"
    then have "mv_edges w e \<noteq> None" using assms(1,2)
    proof (induction xs arbitrary: w rule: rev_induct)
      case (snoc x xs)
      from snoc.prems obtain t where t: "apply_ops v xs = Inr t" "apply_op t x = Inr w"
        by (auto simp: apply_ops_snoc)
      show ?case
        using snoc.prems snoc.IH [OF _ t(1)] edge_after_step [OF t(2), of e]
        by (cases x) (auto split: if_splits)
    qed simp
    then show False using None by simp
  qed
  then show ?thesis using None edge_origin [OF assms(3), of e] by (cases "mv_edges u e") auto
qed

lemma apply_ops_again:
  assumes "wf_view v" and "apply_ops v xs = Inr w" and "\<And>rel e. RemoveEdge rel e \<notin> set xs"
  shows "\<exists>u. apply_ops w xs = Inr u \<and> same_answers u w"
proof -
  have "fields_after_nodes (known_in v) xs" using assms(2) apply_ops_defined [OF assms(1)] by blast
  then have "fields_after_nodes (known_in w) xs"
    by (rule fields_after_nodes_mono) (simp add: known_in_def nodes_stay [OF assms(2)])
  then obtain u where u: "apply_ops w xs = Inr u"
    using apply_ops_defined [OF wf_apply_ops [OF assms(1,2)]] by blast
  have "map_option (\<lambda>r. (nr_label r, dget (nr_fields r))) (mem_node u n) =
        map_option (\<lambda>r. (nr_label r, dget (nr_fields r))) (mem_node w n)" for n
  proof (cases "mem_node w n")
    case None
    then have "origin v xs n = None" using nodes_after [OF assms(2), of n] by simp
    then have "created_as xs n = None" by (simp add: origin_def split: option.splits)
    then have "origin w xs n = None" using None by (simp add: origin_def)
    then show ?thesis using nodes_after [OF u, of n] None by simp
  next
    case (Some r)
    obtain label fs where "origin v xs n = Some (label, fs)"
      using nodes_after [OF assms(2), of n] Some by (cases "origin v xs n") auto
    then have r: "dget (nr_fields r) f = value_after xs n fs f" for f
      using nodes_after [OF assms(2), of n] Some by auto
    from existing_node_after [OF u Some] obtain r' where r': "mem_node u n = Some r'"
      "nr_label r' = nr_label r" "\<And>f. dget (nr_fields r') f = value_after xs n (nr_fields r) f"
      by metis
    have "dget (nr_fields r') f = dget (nr_fields r) f" for f
      using r [of f] r'(3) [of f] by (simp add: value_after_def split: option.splits)
    then show ?thesis using Some r' by (simp add: fun_eq_iff)
  qed
  then show ?thesis using u edges_again [OF assms(2,3) u] by (auto simp: same_answers_def)
qed

section \<open>The contract of a batch\<close>

lemma run_refines:
  assumes "wf_view v"
  shows "map_sum id abs_view (apply_ops v xs) = run graph_step (abs_view v) xs"
  using assms
proof (induction xs arbitrary: v)
  case (Cons x xs)
  note step = apply_op_refines [OF Cons.prems, of x]
  show ?case
  proof (cases "apply_op v x")
    case (Inl e)
    then show ?thesis using step by (cases "graph_step (abs_view v) x") auto
  next
    case (Inr u)
    then show ?thesis using step Cons.IH [OF wf_apply_op [OF Cons.prems Inr]]
      by (cases "graph_step (abs_view v) x") auto
  qed
qed simp

text \<open>
  A view answers for a graph when each of its four questions has the graph's answer: the node
  and the edge of an id, and, read off the two adjacency indexes, the edges of a relation out of
  and into a node, each once and none that the graph does not hold.
\<close>

definition listed :: "py_exc + edge_rec list \<Rightarrow> edge_rec set \<Rightarrow> bool" where
  "listed found es \<longleftrightarrow> (\<exists>rs. found = Inr rs \<and> distinct rs \<and> set rs = es)"

definition answers :: "mem_view \<Rightarrow> graph \<Rightarrow> bool" where
  "answers v g \<longleftrightarrow>
     (\<forall>n. mem_node v n = g_node g n) \<and> (\<forall>e. mem_edge v e = g_edge g e) \<and>
     (\<forall>n rel. listed (mem_edges_from v n rel)
        {r. g_edge g (er_id r) = Some r \<and> er_src r = n \<and> er_rel r = rel}) \<and>
     (\<forall>n rel. listed (mem_edges_to v n rel)
        {r. g_edge g (er_id r) = Some r \<and> er_dst r = n \<and> er_rel r = rel})"

lemma view_answers:
  assumes "wf_view v"
  shows "answers v (abs_view v)"
proof -
  have "mem_edges_from v n rel = Inr (rv_from (as_view v) n rel)"
    "mem_edges_to v n rel = Inr (rv_to (as_view v) n rel)" for n rel
    using assms by (simp_all add: as_view_def mem_edges_from_Inr mem_edges_to_Inr)
  moreover have "set (rv_from (as_view v) n rel) =
      {r. mv_edges v (er_id r) = Some r \<and> er_src r = n \<and> er_rel r = rel}"
    "set (rv_to (as_view v) n rel) = {r. mv_edges v (er_id r) = Some r \<and> er_dst r = n \<and> er_rel r = rel}"
    for n rel using mem_contract.from_iff [OF assms] mem_contract.to_iff [OF assms] by auto
  ultimately show ?thesis
    using mem_contract.from_distinct [OF assms] mem_contract.to_distinct [OF assms]
    by (simp add: answers_def listed_def mem_edge_def)
qed

lemma run_answers:
  assumes "wf_view v"
  shows "rel_sum (=) answers (apply_ops v xs) (run graph_step (abs_view v) xs)"
proof (cases "apply_ops v xs")
  case (Inl e)
  then show ?thesis using run_refines [OF assms, of xs] by (metis map_sum.simps(1) id_apply rel_sum_simps(1))
next
  case (Inr w)
  then have "run graph_step (abs_view v) xs = Inr (abs_view w)"
    using run_refines [OF assms, of xs] by (metis map_sum.simps(2))
  then show ?thesis using Inr view_answers [OF wf_apply_ops [OF assms Inr]] by simp
qed

text \<open>C34. Applying a batch to the view with its two adjacency indexes is applying it to the
  plain graph of nodes and edges: the same error, or a view that answers all four of its
  questions as the resulting graph does, the two read off the indexes included: they list
  exactly the graph's edges, each once, and raise nothing.\<close>

theorem view_refines_graph:
  "wf_view v \<Longrightarrow> rel_sum (=) answers (apply_ops v xs) (run graph_step (abs_view v) xs)"
  by (rule run_answers)

theorem view_refines_graph_witness:
  "\<exists>w g. let xs = [UpsertNode ''Claim'' ''p/c-1'' [], UpsertNode ''Claim'' ''p/c-2'' [],
         AddEdge ''DEPENDS_ON'' ''p/c-1'' ''p/c-2'' ''p/e-1'' [],
         AddEdge ''DEPENDS_ON'' ''p/c-1'' ''p/c-2'' ''p/e-2'' [], RemoveEdge ''DEPENDS_ON'' ''p/e-1'']
     in apply_ops empty_view xs = Inr w \<and> run graph_step (abs_view empty_view) xs = Inr g \<and>
        answers w g \<and> map_sum id (map er_id) (mem_edges_from w ''p/c-1'' ''DEPENDS_ON'') = Inr [''p/e-2'']"
proof -
  let ?xs = "[UpsertNode ''Claim'' ''p/c-1'' [], UpsertNode ''Claim'' ''p/c-2'' [],
         AddEdge ''DEPENDS_ON'' ''p/c-1'' ''p/c-2'' ''p/e-1'' [],
         AddEdge ''DEPENDS_ON'' ''p/c-1'' ''p/c-2'' ''p/e-2'' [], RemoveEdge ''DEPENDS_ON'' ''p/e-1'']"
  have "map_sum id (\<lambda>w. map_sum id (map er_id) (mem_edges_from w ''p/c-1'' ''DEPENDS_ON''))
      (apply_ops empty_view ?xs) = Inr (Inr [''p/e-2''])" by code_simp
  then obtain w where w: "apply_ops empty_view ?xs = Inr w"
      "map_sum id (map er_id) (mem_edges_from w ''p/c-1'' ''DEPENDS_ON'') = Inr [''p/e-2'']"
    by (cases "apply_ops empty_view ?xs") (simp_all del: apply_ops_simps)
  from view_refines_graph [OF wf_empty_view, of ?xs] obtain g
    where "run graph_step (abs_view empty_view) ?xs = Inr g" "answers w g"
    unfolding w(1) by (auto elim: rel_sum.cases simp del: run.simps)
  with w show ?thesis unfolding Let_def by blast
qed

text \<open>Applying a batch without removals a second time succeeds and changes no answer of
  the view: replaying committed operations is harmless.\<close>

lemma replay_is_idempotent:
  assumes "wf_view v" and "apply_ops v xs = Inr w" and "\<forall>rel e. RemoveEdge rel e \<notin> set xs"
  shows "\<exists>u. apply_ops w xs = Inr u \<and> same_answers u w"
  using assms by (intro apply_ops_again) auto

lemma replay_is_idempotent_witness:
  "\<exists>w u. apply_ops empty_view [UpsertNode ''Claim'' ''p/c-1'' [], SetField ''Claim'' ''p/c-1'' ''tag'' PNone None] = Inr w \<and>
     apply_ops w [UpsertNode ''Claim'' ''p/c-1'' [], SetField ''Claim'' ''p/c-1'' ''tag'' PNone None] = Inr u \<and>
     same_answers u w"
proof -
  let ?xs = "[UpsertNode ''Claim'' ''p/c-1'' [], SetField ''Claim'' ''p/c-1'' ''tag'' PNone None]"
  have "fields_after_nodes (known_in empty_view) ?xs" by simp
  then obtain w where w: "apply_ops empty_view ?xs = Inr w"
    using apply_ops_defined [OF wf_empty_view] by blast
  from replay_is_idempotent [OF wf_empty_view this] w show ?thesis by (simp del: apply_ops_simps)
qed

end
