(* ===== verification/Accepted.thy ===== *)
theory Accepted
  imports ValidateState Effects
begin

text \<open>
  What acceptance by the validators guarantees about the state after the proposal is
  applied (\<^verbatim>\<open>validate_proposal\<close>, then \<^verbatim>\<open>apply_ops\<close>, which gives the view the next validation reads).

  The validators trust the label of an \<open>UpsertNode\<close> over the committed one, and nothing of the
  gate compares the two. What a write to a node was checked for is therefore known for the nodes
  that the proposal does not misname (\<open>misnamed\<close>); every lemma says for which node it needs that.
\<close>

section \<open>Acceptance\<close>

definition accepted :: "proposal \<Rightarrow> mem_view \<Rightarrow> bool" where
  "accepted p v \<longleftrightarrow> validate_proposal p (Some (as_view v)) = Inr []"

text \<open>One commit: the proposal is accepted at \<open>v\<close> and its operations lead to \<open>w\<close>.\<close>

definition commits :: "proposal \<Rightarrow> mem_view \<Rightarrow> mem_view \<Rightarrow> bool" where
  "commits p v w \<longleftrightarrow> wf_view v \<and> accepted p v \<and> apply_ops v (prop_ops p) = Inr w"

lemma commitsD:
  assumes "commits p v w"
  shows "wf_view v" "accepted p v" "apply_ops v (prop_ops p) = Inr w" "wf_view w"
  using assms by (auto simp: commits_def intro: wf_apply_ops)

text \<open>A node is misnamed by operations that upsert it under a label it does not have.\<close>

fun misnames :: "mem_view \<Rightarrow> string \<Rightarrow> op \<Rightarrow> bool" where
  "misnames v n (UpsertNode label m fs) = (m = n \<and> map_option nr_label (mem_node v n) \<noteq> Some label)"
| "misnames v n _ = False"

definition misnamed :: "op list \<Rightarrow> mem_view \<Rightarrow> string \<Rightarrow> bool" where
  "misnamed xs v n \<longleftrightarrow> list_ex (misnames v n) xs"

lemma misnamed_iff:
  "misnamed xs v n \<longleftrightarrow>
     (\<exists>label fs. UpsertNode label n fs \<in> set xs \<and> map_option nr_label (mem_node v n) \<noteq> Some label)"
proof -
  have "misnames v n x \<longleftrightarrow>
      (\<exists>label fs. x = UpsertNode label n fs \<and> map_option nr_label (mem_node v n) \<noteq> Some label)" for x
    by (cases x) simp_all
  then show ?thesis by (simp add: misnamed_def list_ex_iff) metis
qed

lemma named_label:
  assumes "\<not> misnamed xs v n" "UpsertNode label n fs \<in> set xs"
  shows "map_option nr_label (mem_node v n) = Some label"
  using assms unfolding misnamed_iff by blast

lemma misnamed_append: "misnamed (xs @ ys) v n \<longleftrightarrow> misnamed xs v n \<or> misnamed ys v n"
  by (simp add: misnamed_def)

text \<open>A node keeps its label, so it stays misnamed.\<close>

lemma misnamed_mono:
  assumes "apply_ops u xs = Inr v" "apply_ops v ys = Inr w" "misnamed xs v n"
  shows "misnamed xs w n"
proof -
  from assms(3) obtain label fs where up: "UpsertNode label n fs \<in> set xs"
    "map_option nr_label (mem_node v n) \<noteq> Some label" unfolding misnamed_iff by blast
  have "created_as xs n \<noteq> None" using up(1) created_as_None by metis
  then have "origin u xs n \<noteq> None" by (auto simp: origin_def split: option.split)
  then obtain r where r: "mem_node v n = Some r" using nodes_after [OF assms(1), of n] by (cases "mem_node v n") auto
  then have "map_option nr_label (mem_node w n) = Some (nr_label r)" by (intro label_stays [OF assms(2)]) simp
  then have "map_option nr_label (mem_node w n) \<noteq> Some label" using up(2) r by auto
  with up(1) show ?thesis unfolding misnamed_iff by blast
qed

lemma accepted_op: "accepted p v \<Longrightarrow> x \<in> set (prop_ops p) \<Longrightarrow> op_ok p (as_view v) x"
  by (simp add: accepted_def validate_proposal_clean)

lemma accepted_locally: "accepted p v \<Longrightarrow> locally_ok p"
  by (simp add: accepted_def validate_proposal_clean)

section \<open>Labels\<close>

lemma created_nodes_snoc:
  "created_nodes (xs @ [x]) =
     (case x of UpsertNode label n fs \<Rightarrow> AList.update n label (created_nodes xs)
      | _ \<Rightarrow> created_nodes xs)"
  by (cases x) (simp_all add: created_nodes_def)

lemma created_nodes_Some:
  "map_of (created_nodes xs) n = Some label \<Longrightarrow> \<exists>fs. UpsertNode label n fs \<in> set xs"
proof (induction xs rule: rev_induct)
  case Nil
  then show ?case by (simp add: created_nodes_def)
next
  case (snoc x xs)
  then show ?case by (cases x) (auto simp: created_nodes_snoc update_conv' split: if_splits)
qed

lemma created_nodes_None:
  "map_of (created_nodes xs) n = None \<longleftrightarrow> created_as xs n = None"
proof (induction xs rule: rev_induct)
  case Nil
  then show ?case by (simp add: created_nodes_def)
next
  case (snoc x xs)
  then show ?case
    by (cases x) (auto simp: created_nodes_snoc update_conv' split: option.splits)
qed

text \<open>The label the validators see is the label after the commit, unless the node is misnamed.\<close>

lemma known_after:
  assumes "commits p v w"
  shows "get_label p (as_view v) n = None \<longleftrightarrow> mem_node w n = None"
proof -
  have "mem_node w n = None \<longleftrightarrow> origin v (prop_ops p) n = None" using nodes_after [OF commitsD(3) [OF assms]] by blast
  then show ?thesis
    using created_nodes_None [of "prop_ops p" n] by (auto simp: get_label_def origin_def split: option.splits)
qed

lemma get_label_after:
  assumes "commits p v w" "\<not> misnamed (prop_ops p) w n"
  shows "get_label p (as_view v) n = map_option nr_label (mem_node w n)"
proof (cases "map_of (created_nodes (prop_ops p)) n")
  case (Some l)
  then obtain fs where "UpsertNode l n fs \<in> set (prop_ops p)" using created_nodes_Some by metis
  from named_label [OF assms(2) this] Some show ?thesis unfolding get_label_def by (simp only: option.case)
next
  case None
  then have "created_as (prop_ops p) n = None" by (simp add: created_nodes_None)
  then have o: "origin v (prop_ops p) n = map_option (\<lambda>r. (nr_label r, nr_fields r)) (mem_node v n)"
    by (simp add: origin_def split: option.split)
  have "map_option nr_label (mem_node w n) = map_option nr_label (mem_node v n)"
  proof (cases "mem_node v n")
    case (Some r)
    then show ?thesis using label_stays [OF commitsD(3) [OF assms(1)], of n "nr_label r"] by simp
  next
    case None
    then show ?thesis using nodes_after [OF commitsD(3) [OF assms(1)], of n] o by simp
  qed
  then show ?thesis using None by (simp add: get_label_def)
qed

lemma write_label:
  assumes "commits p v w" "\<not> misnamed (prop_ops p) w n" "SetField label n f val prior \<in> set (prop_ops p)"
  obtains r where "mem_node w n = Some r" "nr_label r = label"
proof -
  have "op_ok p (as_view v) (SetField label n f val prior)"
    using accepted_op assms(1,3) commitsD(2) by blast
  then have "map_option nr_label (mem_node w n) = Some label"
    using get_label_after [OF assms(1,2)] by (simp add: op_ok_def)
  with that show thesis by auto
qed

section \<open>Fields\<close>

text \<open>Every write to a node of label \<open>label\<close> went through the checks for that label.\<close>

lemma last_write_accepted:
  assumes "commits p v w" "last_write (prop_ops p) n f = Some val"
  obtains label prior where "SetField label n f val prior \<in> set (prop_ops p)"
    "op_ok p (as_view v) (SetField label n f val prior)"
  using last_write_member [OF assms(2)] accepted_op [OF commitsD(2) [OF assms(1)]] that by blast

lemma last_write_checked:
  assumes "commits p v w" "\<not> misnamed (prop_ops p) w n" "mem_node w n = Some r"
    and "last_write (prop_ops p) n f = Some val"
  obtains prior where "SetField (nr_label r) n f val prior \<in> set (prop_ops p)"
    "op_ok p (as_view v) (SetField (nr_label r) n f val prior)"
proof -
  obtain label prior where x: "SetField label n f val prior \<in> set (prop_ops p)"
    "op_ok p (as_view v) (SetField label n f val prior)" by (rule last_write_accepted [OF assms(1,4)])
  have "label = nr_label r" using write_label [OF assms(1,2) x(1)] assms(3) by auto
  then show thesis using that x by blast
qed

lemma immutable_value:
  assumes "commits p v w" "\<not> misnamed (prop_ops p) w n" "mem_node w n = Some r"
    and "f \<in> set (immutable_fields (nr_label r))"
  shows "last_write (prop_ops p) n f = None"
proof (rule ccontr)
  assume "last_write (prop_ops p) n f \<noteq> None"
  then obtain val where "last_write (prop_ops p) n f = Some val" by auto
  from last_write_checked [OF assms(1-3) this] assms(4) show False by (auto simp: op_ok_def)
qed

lemma origin_immutable:
  assumes "commits p v w" "\<not> misnamed (prop_ops p) w n" "origin v (prop_ops p) n = Some (label, fs)"
    and "f \<in> set (immutable_fields label)"
  shows "\<exists>r. mem_node w n = Some r \<and> nr_label r = label \<and> dget (nr_fields r) f = dget fs f"
proof -
  from nodes_after [OF commitsD(3) [OF assms(1)], of n] assms(3)
  obtain r where r: "mem_node w n = Some r" "nr_label r = label"
    "dget (nr_fields r) f = value_after (prop_ops p) n fs f" by auto
  have "last_write (prop_ops p) n f = None"
    by (rule immutable_value [OF assms(1,2) r(1)]) (simp add: r(2) assms(4))
  with r show ?thesis by (simp add: value_after_def)
qed

lemma node_fields_origin:
  "node_fields n p (as_view v) =
     (case origin v (prop_ops p) n of None \<Rightarrow> [] | Some (label, fs) \<Rightarrow> fs)"
proof -
  have "List.map_filter (upsert_of n) xs = map snd (List.map_filter (creation_of n) xs)" for xs
  proof (induction xs)
    case (Cons x xs)
    then show ?case by (cases x) (auto simp: List.map_filter_def)
  qed (simp add: List.map_filter_def)
  then show ?thesis
    by (auto simp: node_fields_def origin_def created_as_def split: option.splits list.splits)
qed

text \<open>The fields the evidence checks read are those of the committed result, when immutable.\<close>

lemma evidence_fields:
  assumes "commits p v w" "\<not> misnamed (prop_ops p) w n" "mem_node w n = Some r"
    and "f \<in> set (immutable_fields (nr_label r))"
  shows "dget (nr_fields r) f = dget (node_fields n p (as_view v)) f"
proof -
  note after = nodes_after [OF commitsD(3) [OF assms(1)], of n]
  have "origin v (prop_ops p) n \<noteq> None" using after assms(3) by auto
  then obtain label fs where o: "origin v (prop_ops p) n = Some (label, fs)" by auto
  then have "nr_label r = label" using after assms(3) by auto
  then show ?thesis
    using origin_immutable [OF assms(1,2) o] assms(3,4) by (simp add: node_fields_origin o)
qed

end
