(* ===== verification/Guarantees.thy ===== *)
theory Guarantees
  imports Accepted
begin

text \<open>
  The guarantees of the commit gate on committed state: typed edges, immutable fields,
  legal status changes, evidence behind promotions, independence of replays; and the
  histories of commits (\<open>reached\<close>, \<open>history\<close>) along which the invariants hold.
\<close>

section \<open>Typed edges\<close>

text \<open>
  Both ends of an edge exist, a content-addressed target apart, and have the labels its relation
  requires, where they are not misnamed and, for the target, not content-addressed: such a target
  may be created after the edge, under any label.
\<close>

definition has_label :: "mem_view \<Rightarrow> string \<Rightarrow> string \<Rightarrow> bool" where
  "has_label v n label \<longleftrightarrow> map_option nr_label (mem_node v n) = Some label"

definition edge_typed :: "op list \<Rightarrow> mem_view \<Rightarrow> edge_rec \<Rightarrow> bool" where
  "edge_typed xs v r \<longleftrightarrow>
     mem_node v (er_src r) \<noteq> None \<and>
     (mem_node v (er_dst r) \<noteq> None \<or> is_content_addressed (er_dst r)) \<and>
     (\<forall>s d. map_of EDGE_ENDPOINTS (er_rel r) = Some (s, d) \<longrightarrow>
        (has_label v (er_src r) s \<or> misnamed xs v (er_src r)) \<and>
        (has_label v (er_dst r) d \<or> is_content_addressed (er_dst r) \<or> misnamed xs v (er_dst r)))"

definition typed_view :: "op list \<Rightarrow> mem_view \<Rightarrow> bool" where
  "typed_view xs v \<longleftrightarrow> (\<forall>e r. mv_edges v e = Some r \<longrightarrow> edge_typed xs v r)"

lemma has_label_stays: "apply_ops v xs = Inr w \<Longrightarrow> has_label v n l \<Longrightarrow> has_label w n l"
  unfolding has_label_def by (rule label_stays)

lemma has_label_Some: "mem_node v n = Some r \<Longrightarrow> has_label v n l \<longleftrightarrow> nr_label r = l"
  by (simp add: has_label_def)

lemma edge_typed_added:
  assumes "commits p v w" "AddEdge rel s d e fs \<in> set (prop_ops p)"
  shows "edge_typed (prop_ops p) w \<lparr>er_id = e, er_rel = rel, er_src = s, er_dst = d, er_fields = fs\<rparr>"
proof -
  have ok: "op_ok p (as_view v) (AddEdge rel s d e fs)"
    using accepted_op commitsD(2) assms by blast
  have label: "has_label w n l \<or> misnamed (prop_ops p) w n"
    if "label_ok (get_label p (as_view v) n) l" "mem_node w n \<noteq> None" for n l
    using that get_label_after [OF assms(1), of n] by (auto simp: has_label_def label_ok_def)
  show ?thesis
    using ok label [of s] label [of d] known_after [OF assms(1), of s] known_after [OF assms(1), of d]
    by (auto simp: op_ok_def edge_typed_def)
qed

text \<open>A misnamed node of the history stays one in the next view.\<close>

lemma edge_typed_kept:
  assumes "apply_ops empty_view xs = Inr v" "apply_ops v ys = Inr w" "edge_typed xs v r"
  shows "edge_typed (xs @ ys) w r"
  using assms(3) nodes_stay [OF assms(2)] has_label_stays [OF assms(2)] misnamed_mono [OF assms(1,2)]
  unfolding edge_typed_def misnamed_append by blast

lemma edge_typed_later: "edge_typed ys w r \<Longrightarrow> edge_typed (xs @ ys) w r"
  unfolding edge_typed_def misnamed_append by blast

lemma commit_typed:
  assumes "commits p v w" "apply_ops empty_view xs = Inr v" "typed_view xs v"
  shows "typed_view (xs @ prop_ops p) w"
  unfolding typed_view_def
proof (intro allI impI)
  fix e r assume "mv_edges w e = Some r"
  from edge_origin [OF commitsD(3) [OF assms(1)] this] show "edge_typed (xs @ prop_ops p) w r"
  proof
    assume "mv_edges v e = Some r"
    then show ?thesis
      using edge_typed_kept [OF assms(2) commitsD(3) [OF assms(1)]] assms(3) by (simp add: typed_view_def)
  next
    assume "\<exists>rel s d fs. r = \<lparr>er_id = e, er_rel = rel, er_src = s, er_dst = d, er_fields = fs\<rparr> \<and>
        AddEdge rel s d e fs \<in> set (prop_ops p)"
    then show ?thesis using edge_typed_later [OF edge_typed_added [OF assms(1)]] by blast
  qed
qed

section \<open>Status changes\<close>

text \<open>
  Whatever label a write names, it replaces the committed value it states. The transition table is
  the one of the node's label where the node is not misnamed.
\<close>

lemma commit_field_written:
  assumes "commits p v w" "mem_node v n = Some r" "mem_node w n = Some r'"
    and "dget (nr_fields r') f \<noteq> dget (nr_fields r) f"
  shows "last_write (prop_ops p) n f = Some (dget (nr_fields r') f)" "nr_label r' = nr_label r"
proof -
  obtain r'' where r'': "mem_node w n = Some r''" "nr_label r'' = nr_label r"
    "\<And>f. dget (nr_fields r'') f = value_after (prop_ops p) n (nr_fields r) f"
    using existing_node_after [OF commitsD(3) [OF assms(1)] assms(2)] by metis
  then have "r'' = r'" using assms(3) by simp
  then show "last_write (prop_ops p) n f = Some (dget (nr_fields r') f)" "nr_label r' = nr_label r"
    using r''(2) r''(3) [of f] assms(4) by (auto simp: value_after_def split: option.splits)
qed

lemma commit_field_change:
  assumes "commits p v w" "\<not> misnamed (prop_ops p) w n" "mem_node v n = Some r" "mem_node w n = Some r'"
    and "dget (nr_fields r') f \<noteq> dget (nr_fields r) f"
  obtains prior where
    "SetField (nr_label r) n f (dget (nr_fields r') f) prior \<in> set (prop_ops p)"
    "op_ok p (as_view v) (SetField (nr_label r) n f (dget (nr_fields r') f) prior)"
    "nr_label r' = nr_label r"
proof -
  note written = commit_field_written [OF assms(1,3-5)]
  from last_write_checked [OF assms(1,2,4) written(1)] written(2) that show thesis by metis
qed

lemma commit_status_step:
  assumes "commits p v w" "\<not> misnamed (prop_ops p) w n" "mem_node v n = Some r" "mem_node w n = Some r'"
    and "map_of STATUS_TRANSITIONS (nr_label r, f) \<noteq> None" "dget (nr_fields r) f \<noteq> PNone"
    and "dget (nr_fields r') f \<noteq> dget (nr_fields r) f"
  shows "\<exists>s t. dget (nr_fields r) f = PStr s \<and> dget (nr_fields r') f = PStr t \<and>
      status_step (nr_label r) f s t"
proof -
  from commit_field_change [OF assms(1-4,7)] obtain prior where
    "op_ok p (as_view v) (SetField (nr_label r) n f (dget (nr_fields r') f) prior)" by metis
  then have "transition_ok (as_view v) (SetField (nr_label r) n f (dget (nr_fields r') f) prior)"
    by (simp add: op_ok_def)
  then show ?thesis using assms(3,5,6) by auto
qed

section \<open>Independence of replays\<close>

definition independent_edge :: "op list \<Rightarrow> mem_view \<Rightarrow> edge_rec \<Rightarrow> bool" where
  "independent_edge xs v r \<longleftrightarrow>
     (er_rel r = ''REPLAYED_BY'' \<longrightarrow> \<not> is_content_addressed (er_dst r) \<longrightarrow>
      misnamed xs v (er_src r) \<or> misnamed xs v (er_dst r) \<or>
      (\<forall>c a. mem_node v (er_src r) = Some c \<longrightarrow> mem_node v (er_dst r) = Some a \<longrightarrow>
         dget (nr_fields a) ''actor'' = PNone \<or> dget (nr_fields c) ''actor'' = PNone \<or>
         \<not> py_eq (dget (nr_fields a) ''actor'') (dget (nr_fields c) ''actor'')))"

definition replays_independent :: "op list \<Rightarrow> mem_view \<Rightarrow> bool" where
  "replays_independent xs v \<longleftrightarrow> (\<forall>e r. mv_edges v e = Some r \<longrightarrow> independent_edge xs v r)"

lemma replay_endpoints: "map_of EDGE_ENDPOINTS ''REPLAYED_BY'' = Some (''Certificate'', ''LeanReplay'')"
  by code_simp

lemma proved_by_endpoints: "map_of EDGE_ENDPOINTS ''PROVED_BY'' = Some (''Claim'', ''Certificate'')"
  by code_simp

lemma obstruction_endpoints:
  "map_of EDGE_ENDPOINTS ''RAISED_OBSTRUCTION'' = Some (''FormalRun'', ''Obstruction'')"
  by code_simp

lemma immutable_evidence:
  "''actor'' \<in> set (immutable_fields ''Certificate'')"
  "''actor'' \<in> set (immutable_fields ''LeanReplay'')"
  "''status'' \<in> set (immutable_fields ''LeanReplay'')"
  "''sorry_detected'' \<in> set (immutable_fields ''LeanReplay'')"
  by code_simp+

text \<open>The ends of a replay edge keep the actors they had when the gate looked.\<close>

lemma replay_actors:
  assumes "commits p v w" "edge_typed xs w r" "er_rel r = ''REPLAYED_BY''" "\<not> is_content_addressed (er_dst r)"
    and "\<not> misnamed xs w (er_src r)" "\<not> misnamed xs w (er_dst r)" "set (prop_ops p) \<subseteq> set xs"
    and "mem_node w (er_src r) = Some c" "mem_node w (er_dst r) = Some a"
  shows "dget (nr_fields c) ''actor'' = dget (node_fields (er_src r) p (as_view v)) ''actor''"
    and "dget (nr_fields a) ''actor'' = dget (node_fields (er_dst r) p (as_view v)) ''actor''"
proof -
  have "nr_label c = ''Certificate''" "nr_label a = ''LeanReplay''"
    using assms(2-6,8,9) replay_endpoints by (auto simp: edge_typed_def has_label_Some)
  moreover have "\<not> misnamed (prop_ops p) w (er_src r)" "\<not> misnamed (prop_ops p) w (er_dst r)"
    using assms(5-7) unfolding misnamed_iff by blast+
  ultimately show "dget (nr_fields c) ''actor'' = dget (node_fields (er_src r) p (as_view v)) ''actor''"
    and "dget (nr_fields a) ''actor'' = dget (node_fields (er_dst r) p (as_view v)) ''actor''"
    using evidence_fields [OF assms(1) _ assms(8)] evidence_fields [OF assms(1) _ assms(9)] immutable_evidence
    by simp_all
qed

lemma commit_independent:
  assumes "commits p v w" "apply_ops empty_view xs = Inr v" "typed_view xs v" "replays_independent xs v"
  shows "replays_independent (xs @ prop_ops p) w"
  unfolding replays_independent_def
proof (intro allI impI)
  let ?xs = "xs @ prop_ops p"
  fix e r assume e: "mv_edges w e = Some r"
  note c = commitsD [OF assms(1)]
  have typed: "edge_typed ?xs w r" using commit_typed [OF assms(1-3)] e by (simp add: typed_view_def)
  have "dget (nr_fields replay) ''actor'' = PNone \<or> dget (nr_fields cert) ''actor'' = PNone \<or>
      \<not> py_eq (dget (nr_fields replay) ''actor'') (dget (nr_fields cert) ''actor'')"
    if rel: "er_rel r = ''REPLAYED_BY''" "\<not> is_content_addressed (er_dst r)"
      and named: "\<not> misnamed ?xs w (er_src r)" "\<not> misnamed ?xs w (er_dst r)"
      and nodes: "mem_node w (er_src r) = Some cert" "mem_node w (er_dst r) = Some replay" for cert replay
  proof -
    note actors = replay_actors [OF assms(1) typed rel named _ nodes]
    from edge_origin [OF c(3) e] show ?thesis
    proof
      assume old: "mv_edges v e = Some r"
      then have "edge_typed xs v r" "independent_edge xs v r"
        using assms(3,4) by (auto simp: typed_view_def replays_independent_def)
      moreover have "\<not> misnamed xs v (er_src r)" "\<not> misnamed xs v (er_dst r)"
        using named misnamed_mono [OF assms(2) c(3)] unfolding misnamed_append by blast+
      moreover obtain cv av where nv: "mem_node v (er_src r) = Some cv" "mem_node v (er_dst r) = Some av"
        using calculation(1) rel(2) by (auto simp: edge_typed_def)
      moreover have "node_fields (er_src r) p (as_view v) = nr_fields cv"
        "node_fields (er_dst r) p (as_view v) = nr_fields av" using nv by (simp_all add: node_fields_def)
      ultimately show ?thesis using rel actors by (auto simp: independent_edge_def)
    next
      assume "\<exists>rel s d fs. r = \<lparr>er_id = e, er_rel = rel, er_src = s, er_dst = d, er_fields = fs\<rparr> \<and>
          AddEdge rel s d e fs \<in> set (prop_ops p)"
      then have "AddEdge ''REPLAYED_BY'' (er_src r) (er_dst r) e (er_fields r) \<in> set (prop_ops p)"
        using rel by auto
      from accepted_op [OF c(2) this] have "certified_by_another p (as_view v)
          (AddEdge ''REPLAYED_BY'' (er_src r) (er_dst r) e (er_fields r))"
        by (simp add: op_ok_def)
      then show ?thesis using actors by (auto simp: Let_def)
    qed
  qed
  then show "independent_edge ?xs w r" unfolding independent_edge_def by blast
qed

section \<open>Evidence in the committed result\<close>

text \<open>
  The validators count every \<open>AddEdge\<close> as an edge of the result and every committed edge as one that
  stays. An edge id is disturbed by a proposal that removes it, adds it although it is committed, or
  adds it twice with different content; edges with other ids are in the result.
\<close>

definition has_edge :: "mem_view \<Rightarrow> string \<Rightarrow> string \<Rightarrow> string \<Rightarrow> bool" where
  "has_edge v rel s d \<longleftrightarrow>
     (\<exists>e r. mv_edges v e = Some r \<and> er_rel r = rel \<and> er_src r = s \<and> er_dst r = d)"

fun edge_id_of :: "op \<Rightarrow> string option" where
  "edge_id_of (AddEdge rel s d e fs) = Some e"
| "edge_id_of _ = None"

definition additions :: "proposal \<Rightarrow> string \<Rightarrow> op list" where
  "additions p e = filter (\<lambda>x. edge_id_of x = Some e) (prop_ops p)"

definition disturbed :: "proposal \<Rightarrow> mem_view \<Rightarrow> string \<Rightarrow> bool" where
  "disturbed p v e \<longleftrightarrow>
     list_ex (\<lambda>x. removal_of x = Some e) (prop_ops p) \<or>
     (case additions p e of [] \<Rightarrow> False | x # xs \<Rightarrow> mv_edges v e \<noteq> None \<or> list_ex (\<lambda>y. y \<noteq> x) xs)"

text \<open>The proposal or the view before it names an edge by its id.\<close>

definition names_edge :: "proposal \<Rightarrow> mem_view \<Rightarrow> string \<Rightarrow> string \<Rightarrow> string \<Rightarrow> string \<Rightarrow> bool" where
  "names_edge p v e rel s d \<longleftrightarrow>
     (\<exists>fs. AddEdge rel s d e fs \<in> set (prop_ops p)) \<or>
     (\<exists>r. mv_edges v e = Some r \<and> er_rel r = rel \<and> er_src r = s \<and> er_dst r = d)"

definition attested :: "proposal \<Rightarrow> mem_view \<Rightarrow> mem_view \<Rightarrow> string \<Rightarrow> string \<Rightarrow> string \<Rightarrow> bool" where
  "attested p v w rel s d \<longleftrightarrow> has_edge w rel s d \<or> (\<exists>e. names_edge p v e rel s d \<and> disturbed p v e)"

lemma additions_member: "x \<in> set (additions p e) \<longleftrightarrow> x \<in> set (prop_ops p) \<and> edge_id_of x = Some e"
  by (auto simp: additions_def)

lemma undisturbedD:
  assumes "\<not> disturbed p v e"
  shows "RemoveEdge rel e \<notin> set (prop_ops p)"
    and "x \<in> set (additions p e) \<Longrightarrow> mv_edges v e = None"
    and "x \<in> set (additions p e) \<Longrightarrow> y \<in> set (additions p e) \<Longrightarrow> x = y"
proof -
  show "RemoveEdge rel e \<notin> set (prop_ops p)" using assms by (force simp: disturbed_def list_ex_iff)
  obtain z where "\<forall>y \<in> set (additions p e). y = z \<and> mv_edges v e = None"
    using assms by (cases "additions p e") (auto simp: disturbed_def list_ex_iff)
  then show "x \<in> set (additions p e) \<Longrightarrow> mv_edges v e = None"
    and "x \<in> set (additions p e) \<Longrightarrow> y \<in> set (additions p e) \<Longrightarrow> x = y" by metis+
qed

lemma undisturbed_addition:
  assumes "commits p v w" "\<not> disturbed p v e" "AddEdge rel s d e fs \<in> set (prop_ops p)"
  shows "mv_edges w e = Some \<lparr>er_id = e, er_rel = rel, er_src = s, er_dst = d, er_fields = fs\<rparr>"
proof -
  have x: "AddEdge rel s d e fs \<in> set (additions p e)" using assms(3) by (simp add: additions_member)
  show ?thesis
  proof (rule edge_added [OF commitsD(3) [OF assms(1)] assms(3)])
    show "mv_edges v e = None" by (rule undisturbedD(2) [OF assms(2) x])
    show "RemoveEdge rel' e \<notin> set (prop_ops p)" for rel' by (rule undisturbedD(1) [OF assms(2)])
    show "AddEdge rel' s' d' e fs' \<in> set (prop_ops p) \<Longrightarrow> (rel', s', d', fs') = (rel, s, d, fs)"
      for rel' s' d' fs'
      using undisturbedD(3) [OF assms(2) x, of "AddEdge rel' s' d' e fs'"] by (simp add: additions_member)
  qed
qed

lemma named_edge_attested:
  assumes "commits p v w" "names_edge p v e rel s d"
  shows "attested p v w rel s d"
proof (cases "disturbed p v e")
  case True
  then show ?thesis using assms(2) by (auto simp: attested_def)
next
  case False
  from assms(2) have "\<exists>r. mv_edges w e = Some r \<and> er_rel r = rel \<and> er_src r = s \<and> er_dst r = d"
    unfolding names_edge_def
    using undisturbed_addition [OF assms(1) False] edge_kept [OF commitsD(3) [OF assms(1)] _ undisturbedD(1) [OF False]]
    by (metis edge_rec.select_convs(2-4))
  then show ?thesis by (auto simp: attested_def has_edge_def)
qed

lemma edge_targets_named:
  assumes "commits p v w" "t \<in> set (edge_targets n rel p (as_view v))"
  obtains e where "names_edge p v e rel n t"
proof -
  from assms(2) consider x where "x \<in> set (prop_ops p)" "added_target n rel x = Some t"
    | r where "r \<in> set (rv_from (as_view v) n rel)" "er_dst r = t"
    by (auto simp: edge_targets_def map_filter_member)
  then show thesis
  proof cases
    case 1
    have "\<exists>e fs. x = AddEdge rel n t e fs" using 1(2) by (cases x) (auto split: if_splits)
    then show thesis using that 1(1) by (auto simp: names_edge_def)
  next
    case 2
    then show thesis
      using that mem_contract.from_iff [OF commitsD(1) [OF assms(1)]] by (auto simp: names_edge_def)
  qed
qed

lemma edge_sources_named:
  assumes "commits p v w" "t \<in> set (edge_sources n rel p (as_view v))"
  obtains e where "names_edge p v e rel t n"
proof -
  from assms(2) consider x where "x \<in> set (prop_ops p)" "added_source n rel x = Some t"
    | r where "r \<in> set (rv_to (as_view v) n rel)" "er_src r = t"
    by (auto simp: edge_sources_def map_filter_member)
  then show thesis
  proof cases
    case 1
    have "\<exists>e fs. x = AddEdge rel t n e fs" using 1(2) by (cases x) (auto split: if_splits)
    then show thesis using that 1(1) by (auto simp: names_edge_def)
  next
    case 2
    then show thesis
      using that mem_contract.to_iff [OF commitsD(1) [OF assms(1)]] by (auto simp: names_edge_def)
  qed
qed

text \<open>The ends of a named edge are typed in the result.\<close>

lemma named_edge_typed:
  assumes "commits p v w" "apply_ops empty_view xs = Inr v" "typed_view xs v" "names_edge p v e rel s d"
  obtains r where "er_rel r = rel" "er_src r = s" "er_dst r = d" "edge_typed (xs @ prop_ops p) w r"
  using assms(4) unfolding names_edge_def
proof
  assume "\<exists>fs. AddEdge rel s d e fs \<in> set (prop_ops p)"
  then obtain fs where "AddEdge rel s d e fs \<in> set (prop_ops p)" by blast
  from that [OF _ _ _ edge_typed_later [OF edge_typed_added [OF assms(1) this]]] show thesis by simp
next
  assume "\<exists>r. mv_edges v e = Some r \<and> er_rel r = rel \<and> er_src r = s \<and> er_dst r = d"
  then obtain r where r: "mv_edges v e = Some r" "er_rel r = rel" "er_src r = s" "er_dst r = d" by blast
  then have "edge_typed xs v r" using assms(3) by (simp add: typed_view_def)
  from edge_typed_kept [OF assms(2) commitsD(3) [OF assms(1)] this] r that show thesis by blast
qed

text \<open>A certificate and an independent, verified and sorry-free replay of it, as they are committed.\<close>

definition verified_by :: "mem_view \<Rightarrow> string \<Rightarrow> string \<Rightarrow> bool" where
  "verified_by w cert replay \<longleftrightarrow>
     (\<exists>c a. mem_node w cert = Some c \<and> nr_label c = ''Certificate'' \<and>
        mem_node w replay = Some a \<and> nr_label a = ''LeanReplay'' \<and>
        dget (nr_fields a) ''status'' = PStr ''verified'' \<and>
        dget (nr_fields a) ''sorry_detected'' = PBool False \<and>
        dget (nr_fields a) ''actor'' \<noteq> PNone \<and> dget (nr_fields c) ''actor'' \<noteq> PNone \<and>
        \<not> py_eq (dget (nr_fields a) ''actor'') (dget (nr_fields c) ''actor''))"

lemma node_fields_present:
  assumes "commits p v w" "dget (node_fields n p (as_view v)) f \<noteq> PNone"
  obtains r where "mem_node w n = Some r"
proof -
  have "origin v (prop_ops p) n \<noteq> None"
    using assms(2) by (cases "origin v (prop_ops p) n") (simp_all add: node_fields_origin)
  then show thesis using nodes_after [OF commitsD(3) [OF assms(1)], of n] that by (cases "mem_node w n") auto
qed

lemma replay_evidence_committed:
  assumes "commits p v w" "apply_ops empty_view xs = Inr v" "typed_view xs v"
    and "has_verified_sorry_free_replay claim p (as_view v)"
  obtains cert replay where "attested p v w ''PROVED_BY'' claim cert" "attested p v w ''REPLAYED_BY'' cert replay"
    "verified_by w cert replay \<or> is_content_addressed replay \<or>
       misnamed (xs @ prop_ops p) w cert \<or> misnamed (xs @ prop_ops p) w replay"
proof -
  let ?xs = "xs @ prop_ops p"
  from assms(4) obtain cert replay where
    cert: "cert \<in> set (edge_targets claim ''PROVED_BY'' p (as_view v))" and
    replay: "replay \<in> set (edge_targets cert ''REPLAYED_BY'' p (as_view v))" and
    ind: "independent_replay (node_fields cert p (as_view v)) (node_fields replay p (as_view v))"
    by (auto simp: has_verified_sorry_free_replay_def list_ex_iff)
  obtain e1 e2 where named: "names_edge p v e1 ''PROVED_BY'' claim cert" "names_edge p v e2 ''REPLAYED_BY'' cert replay"
    using edge_targets_named [OF assms(1)] cert replay by metis
  have "verified_by w cert replay"
    if names: "\<not> is_content_addressed replay" "\<not> misnamed ?xs w cert" "\<not> misnamed ?xs w replay"
  proof -
    obtain c where c: "mem_node w cert = Some c"
      using node_fields_present [OF assms(1)] ind by (metis independent_replay_def)
    obtain a where a: "mem_node w replay = Some a"
      using node_fields_present [OF assms(1)] ind by (metis independent_replay_def)
    obtain r where "er_rel r = ''REPLAYED_BY''" "er_src r = cert" "er_dst r = replay" "edge_typed ?xs w r"
      by (rule named_edge_typed [OF assms(1-3) named(2)])
    then have labels: "nr_label c = ''Certificate''" "nr_label a = ''LeanReplay''"
      using names c a replay_endpoints by (auto simp: edge_typed_def has_label_Some)
    have here: "\<not> misnamed (prop_ops p) w cert" "\<not> misnamed (prop_ops p) w replay"
      using names unfolding misnamed_append by blast+
    have "independent_replay (nr_fields c) (nr_fields a)"
      using ind evidence_fields [OF assms(1) here(1) c] evidence_fields [OF assms(1) here(2) a] immutable_evidence
      by (simp add: independent_replay_def labels)
    then show ?thesis
      using c a labels unfolding verified_by_def independent_replay_def py_eq_PStr by blast
  qed
  then show thesis using that named_edge_attested [OF assms(1)] named by blast
qed

lemma commit_promotion:
  assumes "commits p v w" "\<not> misnamed (prop_ops p) w n" "mem_node v n = Some r" "nr_label r = ''Claim''"
    and "dget (nr_fields r) ''status'' \<noteq> PStr ''lean-verified''"
    and "mem_node w n = Some r'" "dget (nr_fields r') ''status'' = PStr ''lean-verified''"
  shows "has_verified_sorry_free_replay n p (as_view v)"
    and "has_reviewed_aligned_alignment n p (as_view v)"
proof -
  have "dget (nr_fields r') ''status'' \<noteq> dget (nr_fields r) ''status''" using assms(5,7) by simp
  from commit_field_change [OF assms(1-3,6) this] obtain prior where
    "op_ok p (as_view v) (SetField ''Claim'' n ''status'' (PStr ''lean-verified'') prior)"
    using assms(4,7) by metis
  then show "has_verified_sorry_free_replay n p (as_view v)"
    and "has_reviewed_aligned_alignment n p (as_view v)"
    by (simp_all add: op_ok_def promotion_ok_def)
qed

lemma commit_stagnation:
  assumes "commits p v w" "\<not> misnamed (prop_ops p) w n" "mem_node v n = Some r"
    and "nr_label r = ''FormalRun''" "dget (nr_fields r) ''status'' \<noteq> PStr ''stagnated''"
    and "mem_node w n = Some r'" "dget (nr_fields r') ''status'' = PStr ''stagnated''"
  shows "\<exists>obstruction. attested p v w ''RAISED_OBSTRUCTION'' n obstruction"
proof -
  have "dget (nr_fields r') ''status'' \<noteq> dget (nr_fields r) ''status''" using assms(5,7) by simp
  from commit_field_change [OF assms(1-3,6) this] obtain prior where
    "op_ok p (as_view v) (SetField ''FormalRun'' n ''status'' (PStr ''stagnated'') prior)"
    using assms(4,7) by metis
  then consider x where "x \<in> set (prop_ops p)" "raises_obstruction n x"
    | "rv_from (as_view v) n ''RAISED_OBSTRUCTION'' \<noteq> []"
    by (auto simp: op_ok_def)
  then have "\<exists>e d. names_edge p v e ''RAISED_OBSTRUCTION'' n d"
  proof cases
    case 1
    show ?thesis by (cases x) (use 1 in \<open>auto simp: names_edge_def\<close>)
  next
    case 2
    then show ?thesis
      using mem_contract.from_nonempty_iff [OF commitsD(1) [OF assms(1)]] by (auto simp: names_edge_def)
  qed
  then show ?thesis using named_edge_attested [OF assms(1)] by blast
qed

section \<open>Histories\<close>

text \<open>The views that a sequence of commits leads to, with the proposals committed.\<close>

inductive reached :: "proposal list \<Rightarrow> mem_view \<Rightarrow> bool" where
  genesis: "reached [] empty_view"
| commit: "reached ps v \<Longrightarrow> commits p v w \<Longrightarrow> reached (ps @ [p]) w"

inductive_cases reachedE: "reached ps w"

definition ops_of :: "proposal list \<Rightarrow> op list" where
  "ops_of ps = concat (map prop_ops ps)"

lemma ops_of_simps [simp]: "ops_of [] = []" "ops_of (ps @ qs) = ops_of ps @ ops_of qs" "ops_of [p] = prop_ops p"
  by (simp_all add: ops_of_def)

lemma apply_ops_append:
  "apply_ops v (xs @ ys) = (case apply_ops v xs of Inl e \<Rightarrow> Inl e | Inr w \<Rightarrow> apply_ops w ys)"
  by (induction xs arbitrary: v) (simp_all split: sum.split)

lemma reached_graph: "reached ps v \<Longrightarrow> apply_ops empty_view (ops_of ps) = Inr v"
  by (induction rule: reached.induct) (auto simp: apply_ops_append dest: commitsD(3))

lemma reached_wf: "reached ps v \<Longrightarrow> wf_view v"
  by (induction rule: reached.induct) (auto dest: commitsD(4))

lemma reached_sound: "reached ps v \<Longrightarrow> typed_view (ops_of ps) v \<and> replays_independent (ops_of ps) v"
proof (induction rule: reached.induct)
  case genesis
  show ?case by (simp add: typed_view_def replays_independent_def empty_view_def)
next
  case (commit ps v p w)
  then show ?case
    using commit_typed [OF commit(2) reached_graph] commit_independent [OF commit(2) reached_graph] by simp
qed

lemma reached_named:
  assumes "reached ps v" "commits p v w" "\<not> misnamed (ops_of (ps @ [p])) w n"
  shows "\<not> misnamed (ops_of ps) v n" "\<not> misnamed (prop_ops p) w n"
  using assms(3) misnamed_mono [OF reached_graph [OF assms(1)] commitsD(3) [OF assms(2)]]
  by (auto simp: misnamed_append)

text \<open>The proposals committed from a view on, each with the view after it.\<close>

fun history :: "mem_view \<Rightarrow> (proposal \<times> mem_view) list \<Rightarrow> bool" where
  "history v ((p, w) # rest) \<longleftrightarrow> commits p v w \<and> history w rest"
| "history v [] \<longleftrightarrow> True"

definition value_in :: "string \<Rightarrow> string \<Rightarrow> mem_view \<Rightarrow> pyval" where
  "value_in n f v = (case mem_node v n of None \<Rightarrow> PNone | Some r \<Rightarrow> dget (nr_fields r) f)"

definition status_trace :: "string \<Rightarrow> string \<Rightarrow> mem_view list \<Rightarrow> pyval list" where
  "status_trace n f vs = remdups_adj (map (value_in n f) vs)"

lemma misnamed_label:
  "has_label v n l \<Longrightarrow> has_label w n l \<Longrightarrow> misnamed xs w n \<longleftrightarrow> misnamed xs v n"
  unfolding misnamed_iff has_label_def by (simp only:)

lemma history_trace:
  assumes "history v steps" "mem_node v n = Some r" "\<not> misnamed (ops_of (map fst steps)) v n"
    and "map_of STATUS_TRANSITIONS (nr_label r, f) \<noteq> None" "dget (nr_fields r) f = PStr s"
  shows "\<exists>ss. status_trace n f (v # map snd steps) = map PStr (s # ss) \<and> lifecycle (nr_label r) f (s # ss)"
  using assms
proof (induction steps arbitrary: v r s)
  case Nil
  then show ?case by (simp add: status_trace_def value_in_def)
next
  case (Cons x steps)
  obtain p w where x: "x = (p, w)" by (cases x)
  from Cons.prems(1) have c: "commits p v w" and h: "history w steps" by (simp_all add: x)
  have l: "has_label v n (nr_label r)" using Cons.prems(2) by (simp add: has_label_Some)
  note lw = has_label_stays [OF commitsD(3) [OF c] l]
  have named: "\<not> misnamed (prop_ops p) w n" "\<not> misnamed (ops_of (map fst steps)) w n"
    using Cons.prems(3) misnamed_label [OF l lw] by (simp_all add: x ops_of_def misnamed_append)
  obtain r' where r': "mem_node w n = Some r'" "nr_label r' = nr_label r"
    using existing_node_after [OF commitsD(3) [OF c] Cons.prems(2)] by metis
  have step: "dget (nr_fields r') f = PStr s \<or>
      (\<exists>t. dget (nr_fields r') f = PStr t \<and> t \<noteq> s \<and> status_step (nr_label r) f s t)"
    using commit_status_step [OF c named(1) Cons.prems(2) r'(1) Cons.prems(4)] Cons.prems(5) by fastforce
  then obtain t where t: "dget (nr_fields r') f = PStr t" by auto
  from Cons.IH [OF h r'(1) named(2) _ t] Cons.prems(4) r'(2) obtain ss where
    ss: "status_trace n f (w # map snd steps) = map PStr (t # ss)" "lifecycle (nr_label r) f (t # ss)" by auto
  have v: "value_in n f v = PStr s" using Cons.prems(2,5) by (simp add: value_in_def)
  have w: "value_in n f w = PStr t" using r'(1) t by (simp add: value_in_def)
  show ?case
  proof (cases "t = s")
    case True
    then show ?thesis using ss v w by (simp add: status_trace_def x) metis
  next
    case False
    then have "status_trace n f (v # w # map snd steps) = map PStr (s # t # ss)"
      using ss v w by (simp add: status_trace_def)
    moreover have "lifecycle (nr_label r) f (s # t # ss)" using False step t ss(2) by auto
    ultimately show ?thesis unfolding x by (intro exI [of _ "t # ss"]) simp
  qed
qed

end
