(* ===== verification/Closures.thy ===== *)
theory Closures
  imports Guarantees
begin

text \<open>
  Lean evidence in committed state: what acceptance says about the tactics, required
  children and closure edges that a commit adds. The executor and conservation checks read
  the last creation of a tactic in the proposal, \<open>apply_ops\<close> keeps the first, so these
  guarantees are for tactics that no proposal creates twice with different content (\<open>recreated\<close>).
\<close>

section \<open>One creation per node\<close>

definition recreated :: "op list \<Rightarrow> string \<Rightarrow> bool" where
  "recreated xs n \<longleftrightarrow>
     (case List.map_filter (creation_of n) xs of [] \<Rightarrow> False | c # cs \<Rightarrow> list_ex (\<lambda>d. d \<noteq> c) cs)"

lemma creation_member: "c \<in> set (List.map_filter (creation_of n) xs) \<longleftrightarrow> UpsertNode (fst c) n (snd c) \<in> set xs"
proof -
  have "creation_of n x = Some c \<longleftrightarrow> x = UpsertNode (fst c) n (snd c)" for x
    by (cases x) auto
  then show ?thesis by (simp only: map_filter_member) auto
qed

lemma created_once:
  assumes "\<not> recreated xs n" "UpsertNode l n fs \<in> set xs"
  shows "created_as xs n = Some (l, fs)"
  using assms creation_member [of "(l, fs)" n xs]
  by (auto simp: recreated_def created_as_def list_ex_iff split: list.splits)

text \<open>A new node that is created under one label only is not misnamed.\<close>

lemma created_named:
  assumes "apply_ops v xs = Inr w" "mem_node v n = None" "\<not> recreated xs n"
  shows "\<not> misnamed xs w n"
proof
  assume "misnamed xs w n"
  then obtain l fs where up: "UpsertNode l n fs \<in> set xs" "map_option nr_label (mem_node w n) \<noteq> Some l"
    unfolding misnamed_iff by blast
  from created_once [OF assms(3) up(1)] assms(2) have "origin v xs n = Some (l, fs)" by (simp add: origin_def)
  then show False using nodes_after [OF assms(1), of n] up(2) by auto
qed

lemma last_tactic_member:
  "last_tactic xs tac = Some fs \<Longrightarrow> UpsertNode ''TacticApplication'' tac fs \<in> set xs"
proof (induction xs rule: rev_induct)
  case Nil
  then show ?case by (simp add: last_tactic_def List.map_filter_def)
next
  case (snoc x xs)
  then show ?case by (cases x) (auto simp: last_tactic_snoc split: if_splits)
qed

section \<open>Tactics after a commit\<close>

lemma immutable_tactic:
  "''executor_result'' \<in> set (immutable_fields ''TacticApplication'')"
  "''subgoal_count'' \<in> set (immutable_fields ''TacticApplication'')"
  "''diagnostic_artifact'' \<in> set (immutable_fields ''TacticApplication'')"
  by code_simp+

lemma closes_endpoints:
  "map_of EDGE_ENDPOINTS ''CLOSES_STATE'' = Some (''TacticApplication'', ''FormalState'')"
  by code_simp

lemma requires_endpoints:
  "map_of EDGE_ENDPOINTS ''FORMAL_REQUIRES'' = Some (''TacticApplication'', ''FormalState'')"
  by code_simp

text \<open>
  The committed node of a tactic in the proposal agrees with the proposal on every field
  the proposal gives and that cannot be overwritten.
\<close>

lemma tactic_after:
  assumes "commits p v w" "\<not> recreated (prop_ops p) tac" "\<not> misnamed (prop_ops p) w tac"
    and "last_tactic (prop_ops p) tac = Some fs"
  obtains r where "mem_node w tac = Some r" "nr_label r = ''TacticApplication''"
    "\<And>f. f \<in> set (immutable_fields ''TacticApplication'') \<Longrightarrow> dget fs f \<noteq> PNone \<Longrightarrow>
       py_eq (dget (nr_fields r) f) (dget fs f) \<or> dget (nr_fields r) f = dget fs f"
proof -
  note c = commitsD [OF assms(1)]
  have x: "UpsertNode ''TacticApplication'' tac fs \<in> set (prop_ops p)"
    by (rule last_tactic_member [OF assms(4)])
  show thesis
  proof (cases "mem_node v tac")
    case None
    have o: "origin v (prop_ops p) tac = Some (''TacticApplication'', fs)"
      using None created_once [OF assms(2) x] by (simp add: origin_def)
    then obtain r where r: "mem_node w tac = Some r" "nr_label r = ''TacticApplication''"
      using nodes_after [OF c(3), of tac] by auto
    show thesis
    proof (rule that [OF r])
      fix f assume "f \<in> set (immutable_fields ''TacticApplication'')"
      from origin_immutable [OF assms(1,3) o this] r(1)
      show "py_eq (dget (nr_fields r) f) (dget fs f) \<or> dget (nr_fields r) f = dget fs f" by auto
    qed
  next
    case (Some q)
    then have q: "nr_label q = ''TacticApplication''"
      using named_label [OF assms(3) x] label_stays [OF c(3), of tac "nr_label q"] by simp
    have o: "origin v (prop_ops p) tac = Some (''TacticApplication'', nr_fields q)"
      using Some q by (simp add: origin_def)
    then obtain r where r: "mem_node w tac = Some r" "nr_label r = ''TacticApplication''"
      using nodes_after [OF c(3), of tac] by auto
    have agree: "\<forall>(field, proposed) \<in> set fs.
        \<exists>committed. map_of (nr_fields q) field = Some committed \<and> py_eq committed proposed"
      using accepted_op [OF c(2) x] Some by (auto simp: op_ok_def)
    show thesis
    proof (rule that [OF r])
      fix f assume f: "f \<in> set (immutable_fields ''TacticApplication'')" "dget fs f \<noteq> PNone"
      then obtain val where val: "(f, val) \<in> set fs" "dget fs f = val"
        by (auto simp: dget_def dest: map_of_SomeD split: option.splits)
      then have "py_eq (dget (nr_fields q) f) (dget fs f)" using agree by (fastforce simp: dget_def)
      then show "py_eq (dget (nr_fields r) f) (dget fs f) \<or> dget (nr_fields r) f = dget fs f"
        using origin_immutable [OF assms(1,3) o f(1)] r(1) by auto
    qed
  qed
qed

section \<open>Closures\<close>

text \<open>The tactic of a closure edge closed its state, where the history is clear about the tactic.\<close>

definition ambiguous :: "proposal list \<Rightarrow> mem_view \<Rightarrow> string \<Rightarrow> bool" where
  "ambiguous ps v n \<longleftrightarrow> misnamed (ops_of ps) v n \<or> list_ex (\<lambda>p. recreated (prop_ops p) n) ps"

definition closure_sound :: "proposal list \<Rightarrow> mem_view \<Rightarrow> edge_rec \<Rightarrow> bool" where
  "closure_sound ps v r \<longleftrightarrow>
     (er_rel r = ''CLOSES_STATE'' \<longrightarrow>
      ambiguous ps v (er_src r) \<or>
      (\<exists>t. mem_node v (er_src r) = Some t \<and> nr_label t = ''TacticApplication'' \<and>
           closes_leaf (nr_fields t)))"

definition closures_sound :: "proposal list \<Rightarrow> mem_view \<Rightarrow> bool" where
  "closures_sound ps v \<longleftrightarrow> (\<forall>e r. mv_edges v e = Some r \<longrightarrow> closure_sound ps v r)"

lemma ambiguous_snoc:
  assumes "reached ps v" "commits p v w" "\<not> ambiguous (ps @ [p]) w n"
  shows "\<not> ambiguous ps v n" "\<not> recreated (prop_ops p) n" "\<not> misnamed (prop_ops p) w n"
  using assms(3) reached_named [OF assms(1,2)] by (simp_all add: ambiguous_def)

lemma num_of_py_eq: "num_of v = Some n \<Longrightarrow> py_eq w v \<Longrightarrow> num_of w = Some n"
  by (cases v rule: num_of.cases; cases "(w, v)" rule: py_eq.cases) auto

lemma closure_sound_added:
  assumes "commits p v w" "\<not> recreated (prop_ops p) tac" "\<not> misnamed (prop_ops p) w tac"
    and "AddEdge ''CLOSES_STATE'' tac st e gs \<in> set (prop_ops p)"
  obtains t where "mem_node w tac = Some t" "nr_label t = ''TacticApplication''" "closes_leaf (nr_fields t)"
proof -
  have "executor_results_ok (prop_ops p)"
    using accepted_locally [OF commitsD(2) [OF assms(1)]] by (simp add: locally_ok_def)
  then obtain fs where fs: "last_tactic (prop_ops p) tac = Some fs" "closes_leaf fs"
    using assms(4) unfolding executor_results_ok_def by blast
  obtain t where t: "mem_node w tac = Some t" "nr_label t = ''TacticApplication''"
    "\<And>f. f \<in> set (immutable_fields ''TacticApplication'') \<Longrightarrow> dget fs f \<noteq> PNone \<Longrightarrow>
       py_eq (dget (nr_fields t) f) (dget fs f) \<or> dget (nr_fields t) f = dget fs f"
    using tactic_after [OF assms(1-3) fs(1)] by metis
  have "dget fs ''executor_result'' \<noteq> PNone" "dget fs ''subgoal_count'' \<noteq> PNone"
    using fs(2) by (auto simp: closes_leaf_def)
  then have "closes_leaf (nr_fields t)"
    using t(3) [OF immutable_tactic(1)] t(3) [OF immutable_tactic(2)] fs(2)
    by (auto simp: closes_leaf_def dest: num_of_py_eq)
  then show thesis using t that by blast
qed

text \<open>A tactic that closed its state keeps the fields that say so.\<close>

lemma closing_tactic_stays:
  assumes "commits p v w" "\<not> misnamed (prop_ops p) w tac" "mem_node v tac = Some t"
    and "nr_label t = ''TacticApplication''" "closes_leaf (nr_fields t)"
  shows "\<exists>u. mem_node w tac = Some u \<and> nr_label u = ''TacticApplication'' \<and> closes_leaf (nr_fields u)"
proof -
  have o: "origin v (prop_ops p) tac = Some (''TacticApplication'', nr_fields t)"
    using assms(3,4) by (simp add: origin_def)
  then show ?thesis
    using origin_immutable [OF assms(1,2) o immutable_tactic(1)]
      origin_immutable [OF assms(1,2) o immutable_tactic(2)] assms(5)
    by (auto simp: closes_leaf_def)
qed

lemma commit_closures:
  assumes "reached ps v" "commits p v w" "closures_sound ps v"
  shows "closures_sound (ps @ [p]) w"
  unfolding closures_sound_def
proof (intro allI impI)
  fix e r assume e: "mv_edges w e = Some r"
  have "\<exists>t. mem_node w (er_src r) = Some t \<and> nr_label t = ''TacticApplication'' \<and> closes_leaf (nr_fields t)"
    if rel: "er_rel r = ''CLOSES_STATE''" and clear: "\<not> ambiguous (ps @ [p]) w (er_src r)"
  proof -
    note here = ambiguous_snoc [OF assms(1,2) clear]
    from edge_origin [OF commitsD(3) [OF assms(2)] e] show ?thesis
    proof
      assume "mv_edges v e = Some r"
      then show ?thesis
        using assms(3) rel here closing_tactic_stays [OF assms(2) here(3)]
        unfolding closures_sound_def closure_sound_def by blast
    next
      assume "\<exists>rel s d fs. r = \<lparr>er_id = e, er_rel = rel, er_src = s, er_dst = d, er_fields = fs\<rparr> \<and>
          AddEdge rel s d e fs \<in> set (prop_ops p)"
      then have "AddEdge ''CLOSES_STATE'' (er_src r) (er_dst r) e (er_fields r) \<in> set (prop_ops p)"
        using rel by auto
      from closure_sound_added [OF assms(2) here(2,3) this] show ?thesis by blast
    qed
  qed
  then show "closure_sound (ps @ [p]) w r" unfolding closure_sound_def by blast
qed

lemma reached_closures: "reached ps v \<Longrightarrow> closures_sound ps v"
proof (induction rule: reached.induct)
  case genesis
  show ?case by (simp add: closures_sound_def empty_view_def)
qed (rule commit_closures)

section \<open>Obligations\<close>

text \<open>
  The required-child edges of a tactic that a proposal introduces are, after the commit,
  exactly those of the proposal.
\<close>

definition obligations :: "mem_view \<Rightarrow> string \<Rightarrow> edge_rec list" where
  "obligations v tac = rv_from (as_view v) tac ''FORMAL_REQUIRES''"

fun obligation_of :: "string \<Rightarrow> op \<Rightarrow> edge_rec option" where
  "obligation_of tac (AddEdge rel s d e fs) =
     (if rel = ''FORMAL_REQUIRES'' \<and> s = tac
      then Some \<lparr>er_id = e, er_rel = rel, er_src = s, er_dst = d, er_fields = fs\<rparr> else None)"
| "obligation_of tac _ = None"

lemma children_of_obligations:
  "children_of xs tac =
     map (\<lambda>r. (er_dst r, dget (er_fields r) ''child_index'')) (List.map_filter (obligation_of tac) xs)"
proof (induction xs)
  case (Cons x xs)
  then show ?case by (cases x) (simp_all add: children_of_def List.map_filter_def)
qed (simp add: children_of_def List.map_filter_def)

lemma obligation_member:
  "r \<in> set (List.map_filter (obligation_of tac) xs) \<longleftrightarrow>
     er_rel r = ''FORMAL_REQUIRES'' \<and> er_src r = tac \<and>
     AddEdge (er_rel r) (er_src r) (er_dst r) (er_id r) (er_fields r) \<in> set xs"
proof -
  have "obligation_of tac x = Some r \<longleftrightarrow> er_rel r = ''FORMAL_REQUIRES'' \<and> er_src r = tac \<and>
      x = AddEdge (er_rel r) (er_src r) (er_dst r) (er_id r) (er_fields r)" for x
    by (cases x; cases r) auto
  then show ?thesis by (simp only: map_filter_member) auto
qed

text \<open>A new tactic has no edges from before.\<close>

lemma new_node_edges:
  assumes "reached ps v" "mem_node v n = None" "mv_edges v e = Some r"
  shows "er_src r \<noteq> n"
  using reached_sound [OF assms(1)] assms(2,3) unfolding typed_view_def edge_typed_def by blast

lemma obligations_committed:
  assumes "reached ps v" "commits p v w" "mem_node v tac = None"
    and "\<And>dst e gs. AddEdge ''FORMAL_REQUIRES'' tac dst e gs \<in> set (prop_ops p) \<Longrightarrow> \<not> disturbed p v e"
    and "distinct (map fst (children_of (prop_ops p) tac))"
  shows "mset (obligations w tac) = mset (List.map_filter (obligation_of tac) (prop_ops p))"
proof -
  note c = commitsD [OF assms(2)]
  have "r \<in> set (obligations w tac) \<longleftrightarrow> r \<in> set (List.map_filter (obligation_of tac) (prop_ops p))"
    for r
  proof
    assume "r \<in> set (obligations w tac)"
    then have r: "mv_edges w (er_id r) = Some r" "er_src r = tac" "er_rel r = ''FORMAL_REQUIRES''"
      using mem_contract.from_iff [OF c(4)] by (simp_all add: obligations_def)
    from edge_origin [OF c(3) r(1)] show "r \<in> set (List.map_filter (obligation_of tac) (prop_ops p))"
    proof
      assume "mv_edges v (er_id r) = Some r"
      then show ?thesis using new_node_edges [OF assms(1,3)] r(2) by blast
    next
      assume "\<exists>rel s d fs. r = \<lparr>er_id = er_id r, er_rel = rel, er_src = s, er_dst = d, er_fields = fs\<rparr> \<and>
          AddEdge rel s d (er_id r) fs \<in> set (prop_ops p)"
      then have "AddEdge (er_rel r) (er_src r) (er_dst r) (er_id r) (er_fields r) \<in> set (prop_ops p)"
        by (metis edge_rec.select_convs(2-5))
      then show ?thesis using r by (simp add: obligation_member)
    qed
  next
    assume "r \<in> set (List.map_filter (obligation_of tac) (prop_ops p))"
    then have r: "er_rel r = ''FORMAL_REQUIRES''" "er_src r = tac"
      "AddEdge (er_rel r) (er_src r) (er_dst r) (er_id r) (er_fields r) \<in> set (prop_ops p)"
      unfolding obligation_member by blast+
    then have "\<not> disturbed p v (er_id r)" using assms(4) by metis
    from undisturbed_addition [OF assms(2) this r(3)] have "mv_edges w (er_id r) = Some r" by simp
    then show "r \<in> set (obligations w tac)"
      using mem_contract.from_iff [OF c(4)] r by (simp add: obligations_def)
  qed
  moreover have "distinct (obligations w tac)"
    using mem_contract.from_distinct [OF c(4)] by (simp add: obligations_def)
  moreover have "distinct (List.map_filter (obligation_of tac) (prop_ops p))"
    using assms(5) by (simp add: children_of_obligations distinct_map comp_def)
  ultimately show ?thesis by (simp add: set_eq_iff_mset_eq_distinct [symmetric] set_eq_iff)
qed

lemma commit_conserves:
  assumes "reached ps v" "commits p v w" "mem_node v tac = None" "\<not> recreated (prop_ops p) tac"
    and "\<And>dst e gs. AddEdge ''FORMAL_REQUIRES'' tac dst e gs \<in> set (prop_ops p) \<Longrightarrow> \<not> disturbed p v e"
    and "mem_node w tac = Some t" "nr_label t = ''TacticApplication''"
  shows "conserves (nr_fields t) (map (\<lambda>r. (er_dst r, dget (er_fields r) ''child_index'')) (obligations w tac))"
proof -
  let ?child = "\<lambda>r. (er_dst r, dget (er_fields r) ''child_index'')"
  note c = commitsD [OF assms(2)]
  have named: "\<not> misnamed (prop_ops p) w tac" by (rule created_named [OF c(3) assms(3,4)])
  obtain fs where up: "UpsertNode ''TacticApplication'' tac fs \<in> set (prop_ops p)"
    using new_node_after [OF c(3) assms(3,6)] assms(7) by metis
  obtain gs where "last_tactic (prop_ops p) tac = Some gs"
    using up last_tactic_None [of "prop_ops p" tac] by (cases "last_tactic (prop_ops p) tac") auto
  moreover from this have "gs = fs"
    using created_once [OF assms(4) up] created_once [OF assms(4) last_tactic_member] by simp
  ultimately have "conserves fs (children_of (prop_ops p) tac)"
    using accepted_locally [OF c(2)] by (simp add: locally_ok_def subgoals_conserved_def)
  moreover from this have "mset (map ?child (obligations w tac)) = mset (children_of (prop_ops p) tac)"
    using obligations_committed [OF assms(1-3,5)] by (simp add: children_of_obligations conserves_def)
  ultimately have "conserves fs (map ?child (obligations w tac))" by (rule conserves_mset)
  moreover have "origin v (prop_ops p) tac = Some (''TacticApplication'', fs)"
    using created_once [OF assms(4) up] assms(3) by (simp add: origin_def)
  from origin_immutable [OF assms(2) named this immutable_tactic(2)] assms(6)
  have "dget (nr_fields t) ''subgoal_count'' = dget fs ''subgoal_count''" by auto
  ultimately show ?thesis by (simp add: conserves_def)
qed

end
