(* ===== verification/Scenario.thy ===== *)
theory Scenario
  imports Closures
begin

text \<open>
  A worked history, on which the properties of the gate are instantiated: a proposal that
  creates a claim with its certificate, replay, alignment and run, one that promotes the
  claim to \<open>lean-verified\<close> and marks the run stagnated, and one that taints the claim.
\<close>

definition commit_result :: "proposal \<Rightarrow> mem_view \<Rightarrow> mem_view" where
  "commit_result p v = (case apply_ops v (prop_ops p) of Inl _ \<Rightarrow> v | Inr w \<Rightarrow> w)"

definition committable :: "proposal \<Rightarrow> mem_view \<Rightarrow> bool" where
  "committable p v \<longleftrightarrow>
     accepted p v \<and> fields_after_nodes (known_in v) (prop_ops p)"

lemma committable_commits: "wf_view v \<Longrightarrow> committable p v \<Longrightarrow> commits p v (commit_result p v)"
  using apply_ops_defined [of v "prop_ops p"]
  by (auto simp: committable_def commits_def commit_result_def)

definition setup_proposal :: proposal where
  "setup_proposal =
     \<lparr>prop_proof_id = ''p'', prop_actor = ''planner'', prop_worker_class = ''prover'',
      prop_ops =
        [UpsertNode ''Claim'' ''p/c-1'' [(''status'', PStr ''formally-closed'')],
         UpsertNode ''Certificate'' ''p/crt-1'' [(''actor'', PStr ''prover-a'')],
         UpsertNode ''LeanReplay'' ''p/rp-1''
           [(''actor'', PStr ''replayer-b''), (''status'', PStr ''verified''),
            (''sorry_detected'', PBool False)],
         UpsertNode ''Alignment'' ''p/al-1''
           [(''lifecycle'', PStr ''reviewed''), (''verdict'', PStr ''aligned'')],
         UpsertNode ''FormalRun'' ''p/r-1''
           [(''actor'', PStr ''prover-a''), (''status'', PStr ''searching'')],
         UpsertNode ''Obstruction'' ''p/ob-1'' [(''kind'', PStr ''missing-lemma'')],
         AddEdge ''PROVED_BY'' ''p/c-1'' ''p/crt-1'' ''p/e-1'' [],
         AddEdge ''REPLAYED_BY'' ''p/crt-1'' ''p/rp-1'' ''p/e-2'' [],
         AddEdge ''ALIGNS_CLAIM'' ''p/al-1'' ''p/c-1'' ''p/e-3'' []],
      prop_base_revision = Some 0, prop_lease_id = None, prop_fencing_token = None\<rparr>"

definition promotion_proposal :: proposal where
  "promotion_proposal =
     \<lparr>prop_proof_id = ''p'', prop_actor = ''verifier'', prop_worker_class = ''verifier'',
      prop_ops =
        [SetField ''Claim'' ''p/c-1'' ''status'' (PStr ''lean-verified'')
           (Some (PStr ''formally-closed'')),
         AddEdge ''RAISED_OBSTRUCTION'' ''p/r-1'' ''p/ob-1'' ''p/e-4'' [],
         SetField ''FormalRun'' ''p/r-1'' ''status'' (PStr ''stagnated'')
           (Some (PStr ''searching''))],
      prop_base_revision = Some 1, prop_lease_id = Some ''p/ls-1'', prop_fencing_token = Some 1\<rparr>"

definition tainting_proposal :: proposal where
  "tainting_proposal =
     \<lparr>prop_proof_id = ''p'', prop_actor = ''critic'', prop_worker_class = ''critic'',
      prop_ops =
        [SetField ''Claim'' ''p/c-1'' ''status'' (PStr ''tainted'')
           (Some (PStr ''lean-verified''))],
      prop_base_revision = Some 2, prop_lease_id = Some ''p/ls-1'', prop_fencing_token = Some 1\<rparr>"

definition view1 :: mem_view where "view1 = commit_result setup_proposal empty_view"
definition view2 :: mem_view where "view2 = commit_result promotion_proposal view1"
definition view3 :: mem_view where "view3 = commit_result tainting_proposal view2"

lemma committable1: "committable setup_proposal empty_view"
  by code_simp

lemma committable2: "committable promotion_proposal view1"
  by code_simp

lemma committable3: "committable tainting_proposal view2"
  by code_simp

lemma scenario_commits:
  "commits setup_proposal empty_view view1"
  "commits promotion_proposal view1 view2"
  "commits tainting_proposal view2 view3"
proof -
  show 1: "commits setup_proposal empty_view view1"
    using committable_commits [OF wf_empty_view committable1] by (simp add: view1_def)
  show 2: "commits promotion_proposal view1 view2"
    using committable_commits [OF commitsD(4) [OF 1] committable2] by (simp add: view2_def)
  show "commits tainting_proposal view2 view3"
    using committable_commits [OF commitsD(4) [OF 2] committable3] by (simp add: view3_def)
qed

lemma scenario_reached:
  "reached [setup_proposal] view1" "reached [setup_proposal, promotion_proposal] view2"
  "reached [setup_proposal, promotion_proposal, tainting_proposal] view3"
  using reached.commit [OF reached.genesis scenario_commits(1)]
    reached.commit [OF _ scenario_commits(2), of "[setup_proposal]"]
    reached.commit [OF _ scenario_commits(3), of "[setup_proposal, promotion_proposal]"] by simp_all

text \<open>A proposal with a tactic that leaves one goal and a tactic that closes it.\<close>

definition tactic_proposal :: proposal where
  "tactic_proposal =
     \<lparr>prop_proof_id = ''p'', prop_actor = ''prover-a'', prop_worker_class = ''formal-atp'',
      prop_ops =
        [UpsertNode ''FormalState'' ''p/fs-1'' [(''status'', PStr ''expanded'')],
         UpsertNode ''FormalState'' ''p/fs-2''
           [(''status'', PStr ''open''), (''state_novelty'', PFloat (Finite (1/2)))],
         UpsertNode ''TacticApplication'' ''p/t-1''
           [(''executor_result'', PStr ''lean-accepted''), (''subgoal_count'', PInt 1)],
         AddEdge ''FORMAL_REQUIRES'' ''p/t-1'' ''p/fs-2'' ''p/e-1'' [(''child_index'', PInt 0)],
         UpsertNode ''TacticApplication'' ''p/t-2''
           [(''executor_result'', PStr ''lean-accepted''), (''subgoal_count'', PInt 0)],
         AddEdge ''CLOSES_STATE'' ''p/t-2'' ''p/fs-2'' ''p/e-2'' [],
         SetField ''FormalState'' ''p/fs-2'' ''status'' (PStr ''formally-closed'') (Some (PStr ''open''))],
      prop_base_revision = Some 0, prop_lease_id = Some ''p/ls-1'', prop_fencing_token = Some 1\<rparr>"

definition tactic_view :: mem_view where "tactic_view = commit_result tactic_proposal empty_view"

lemma committable_tactics: "committable tactic_proposal empty_view"
  by code_simp

lemma tactic_commits: "commits tactic_proposal empty_view tactic_view"
  using committable_commits [OF wf_empty_view committable_tactics] by (simp add: tactic_view_def)

end
