(* ===== verification/GateSafety.thy ===== *)
theory GateSafety
  imports Scenario
begin

text \<open>
  The properties of an accepted proposal and of histories of commits, each with an
  instance on the worked history of \<^verbatim>\<open>Scenario\<close>. The proofs apply the lemmas of
  \<^verbatim>\<open>Guarantees\<close> and \<^verbatim>\<open>Closures\<close>. No statement assumes more of a proposal than that the gate accepts it
  and that it applies; where the gate leaves a gap, the statement names it as an alternative of its
  conclusion: the node is misnamed, its creation is contradicted, an edge id is disturbed. \<^verbatim>\<open>Findings\<close>
  has an accepted proposal for each of these gaps.
\<close>

section \<open>Promotion\<close>

text \<open>C1. A commit on a reached state that turns a claim to lean-verified either upserts the claim
  under another label, or took it from formally-closed (or from no status) on a certificate of the
  claim and a replay of the certificate. Both edges are committed unless the commit removes or reuses
  their ids; the replay is verified, free of sorry and run by another actor unless its id is content-addressed
  or one of the two nodes was ever misnamed.\<close>

theorem promotion_needs_independent_replay:
  assumes "reached ps v" "commits p v w"
    and "mem_node v n = Some r" "nr_label r = ''Claim''"
    and "dget (nr_fields r) ''status'' \<noteq> PStr ''lean-verified''"
    and "mem_node w n = Some r'" "dget (nr_fields r') ''status'' = PStr ''lean-verified''"
  shows "misnamed (prop_ops p) w n \<or>
    dget (nr_fields r) ''status'' \<in> {PStr ''formally-closed'', PNone} \<and>
    (\<exists>cert replay. attested p v w ''PROVED_BY'' n cert \<and> attested p v w ''REPLAYED_BY'' cert replay \<and>
       (verified_by w cert replay \<or> is_content_addressed replay \<or>
        misnamed (ops_of (ps @ [p])) w cert \<or> misnamed (ops_of (ps @ [p])) w replay))"
proof (rule disj_imp [THEN iffD2], rule impI)
  assume named: "\<not> misnamed (prop_ops p) w n"
  have "dget (nr_fields r) ''status'' \<in> {PStr ''formally-closed'', PNone}"
  proof (rule ccontr)
    assume other: "dget (nr_fields r) ''status'' \<notin> {PStr ''formally-closed'', PNone}"
    have "map_of STATUS_TRANSITIONS (''Claim'', ''status'') \<noteq> None" by code_simp
    then obtain s where "dget (nr_fields r) ''status'' = PStr s"
      "status_step ''Claim'' ''status'' s ''lean-verified''"
      using commit_status_step [OF assms(2) named assms(3,6), of "''status''"] assms(4,5,7) other by auto
    then show False using other into_claim_verified status_step_table by (fastforce simp: list_all_iff)
  qed
  moreover have "typed_view (ops_of ps) v" using reached_sound [OF assms(1)] by blast
  from replay_evidence_committed [OF assms(2) reached_graph [OF assms(1)] this
      commit_promotion(1) [OF assms(2) named assms(3-7)]]
  have "\<exists>cert replay. attested p v w ''PROVED_BY'' n cert \<and> attested p v w ''REPLAYED_BY'' cert replay \<and>
       (verified_by w cert replay \<or> is_content_addressed replay \<or>
        misnamed (ops_of (ps @ [p])) w cert \<or> misnamed (ops_of (ps @ [p])) w replay)" by simp metis
  ultimately show "dget (nr_fields r) ''status'' \<in> {PStr ''formally-closed'', PNone} \<and>
    (\<exists>cert replay. attested p v w ''PROVED_BY'' n cert \<and> attested p v w ''REPLAYED_BY'' cert replay \<and>
       (verified_by w cert replay \<or> is_content_addressed replay \<or>
        misnamed (ops_of (ps @ [p])) w cert \<or> misnamed (ops_of (ps @ [p])) w replay))" by blast
qed

lemma scenario_values:
  "mem_node view1 ''p/c-1'' = Some \<lparr>nr_id = ''p/c-1'', nr_label = ''Claim'',
     nr_fields = [(''status'', PStr ''formally-closed'')]\<rparr>"
  "mem_node view2 ''p/c-1'' = Some \<lparr>nr_id = ''p/c-1'', nr_label = ''Claim'',
     nr_fields = [(''status'', PStr ''lean-verified'')]\<rparr>"
  "mem_node view3 ''p/c-1'' = Some \<lparr>nr_id = ''p/c-1'', nr_label = ''Claim'',
     nr_fields = [(''status'', PStr ''tainted'')]\<rparr>"
  by code_simp+

lemma scenario_run_values:
  "mem_node view1 ''p/r-1'' = Some \<lparr>nr_id = ''p/r-1'', nr_label = ''FormalRun'',
     nr_fields = [(''actor'', PStr ''prover-a''), (''status'', PStr ''searching'')]\<rparr>"
  "mem_node view2 ''p/r-1'' = Some \<lparr>nr_id = ''p/r-1'', nr_label = ''FormalRun'',
     nr_fields = [(''actor'', PStr ''prover-a''), (''status'', PStr ''stagnated'')]\<rparr>"
  by code_simp+

text \<open>Nothing in the worked history is misnamed or disturbed, so its alternatives do not apply.\<close>

lemma scenario_clean:
  "list_all (\<lambda>n. \<not> misnamed (ops_of [setup_proposal, promotion_proposal]) view2 n)
     [''p/c-1'', ''p/crt-1'', ''p/rp-1'', ''p/al-1'']"
  "list_all (\<lambda>e. \<not> disturbed promotion_proposal view1 e) [''p/e-1'', ''p/e-2'', ''p/e-3'']"
  "\<not> misnamed (prop_ops promotion_proposal) view2 ''p/c-1''"
  by code_simp+

theorem promotion_needs_independent_replay_witness:
  "\<exists>cert replay. attested promotion_proposal view1 view2 ''PROVED_BY'' ''p/c-1'' cert \<and>
     attested promotion_proposal view1 view2 ''REPLAYED_BY'' cert replay"
  using promotion_needs_independent_replay [OF scenario_reached(1) scenario_commits(2)
      scenario_values(1) _ _ scenario_values(2)] scenario_clean(3) by auto

text \<open>C13. A commit that turns a claim to lean-verified either upserts the claim under another label,
  or rests on an alignment edge to the claim, committed unless the commit removes or reuses its id, from
  a node that was reviewed and aligned when the gate looked.\<close>

theorem promotion_needs_reviewed_alignment:
  assumes "commits p v w"
    and "mem_node v n = Some r" "nr_label r = ''Claim''"
    and "dget (nr_fields r) ''status'' \<noteq> PStr ''lean-verified''"
    and "mem_node w n = Some r'" "dget (nr_fields r') ''status'' = PStr ''lean-verified''"
  shows "misnamed (prop_ops p) w n \<or>
     (\<exists>alignment. attested p v w ''ALIGNS_CLAIM'' alignment n \<and>
        dget (node_fields alignment p (as_view v)) ''lifecycle'' = PStr ''reviewed'' \<and>
        dget (node_fields alignment p (as_view v)) ''verdict'' = PStr ''aligned'')"
proof (rule disj_imp [THEN iffD2], rule impI)
  assume named: "\<not> misnamed (prop_ops p) w n"
  from commit_promotion(2) [OF assms(1) named assms(2-6)] obtain alignment where
    "alignment \<in> set (edge_sources n ''ALIGNS_CLAIM'' p (as_view v))"
    "reviewed_aligned (node_fields alignment p (as_view v))"
    by (auto simp: has_reviewed_aligned_alignment_def list_ex_iff)
  moreover from edge_sources_named [OF assms(1) this(1)] named_edge_attested [OF assms(1)]
  have "attested p v w ''ALIGNS_CLAIM'' alignment n" by metis
  ultimately show "\<exists>alignment. attested p v w ''ALIGNS_CLAIM'' alignment n \<and>
        dget (node_fields alignment p (as_view v)) ''lifecycle'' = PStr ''reviewed'' \<and>
        dget (node_fields alignment p (as_view v)) ''verdict'' = PStr ''aligned''"
    unfolding reviewed_aligned_def py_eq_PStr by blast
qed

theorem promotion_needs_reviewed_alignment_witness:
  "\<exists>alignment. attested promotion_proposal view1 view2 ''ALIGNS_CLAIM'' alignment ''p/c-1''"
  using promotion_needs_reviewed_alignment [OF scenario_commits(2)
      scenario_values(1) _ _ scenario_values(2)] scenario_clean(3) by auto

section \<open>Invariants of every history\<close>

text \<open>C2. In every state that commits lead to from the empty graph the indexes agree with the
  edges; every edge starts at a node and ends at a node or a content address, and the nodes have the labels
  its relation requires, targets with a content-addressed id and nodes misnamed in the history apart;
  and, with the same exceptions, no replay edge joins a certificate and a replay of the same actor.\<close>

theorem reachable_states_sound:
  assumes "reached ps v"
  shows "wf_view v \<and> typed_view (ops_of ps) v \<and> replays_independent (ops_of ps) v"
  using reached_wf [OF assms] reached_sound [OF assms] by blast

theorem reachable_states_sound_witness:
  "wf_view view3 \<and> typed_view (ops_of [setup_proposal, promotion_proposal, tainting_proposal]) view3"
  using reachable_states_sound [OF scenario_reached(3)] by blast

text \<open>C3. Along any history of commits, the statuses a node shows form a path of the
  transition table of its label, unless a proposal of the history upserts the node under another label.\<close>

theorem status_history_lawful:
  assumes "history v steps" "mem_node v n = Some r"
    and "map_of STATUS_TRANSITIONS (nr_label r, f) \<noteq> None" "dget (nr_fields r) f = PStr s"
  shows "misnamed (ops_of (map fst steps)) v n \<or>
    (\<exists>ss. status_trace n f (v # map snd steps) = map PStr (s # ss) \<and> lifecycle (nr_label r) f (s # ss))"
  using history_trace [OF assms(1,2) _ assms(3,4)] by blast

definition scenario_steps :: "(proposal \<times> mem_view) list" where
  "scenario_steps = [(promotion_proposal, view2), (tainting_proposal, view3)]"

lemma scenario_history: "history view1 scenario_steps" "map snd scenario_steps = [view2, view3]"
  using scenario_commits by (simp_all add: scenario_steps_def)

lemma scenario_named: "\<not> misnamed (ops_of (map fst scenario_steps)) view1 ''p/c-1''"
  by code_simp

lemma claim_table: "map_of STATUS_TRANSITIONS (''Claim'', ''status'') \<noteq> None"
  by code_simp

theorem status_history_lawful_witness:
  "\<exists>ss. status_trace ''p/c-1'' ''status'' [view1, view2, view3] = map PStr (''formally-closed'' # ss) \<and>
     lifecycle ''Claim'' ''status'' (''formally-closed'' # ss)"
  using status_history_lawful [OF scenario_history(1) scenario_values(1), of "''status''" "''formally-closed''"]
    claim_table scenario_named by (simp add: scenario_history(2))

text \<open>A claim that a history leads to lean-verified passed through formally-closed, if it
  did not start verified.\<close>

lemma verified_claims_were_closed:
  assumes "history v steps" "mem_node v n = Some r" "\<not> misnamed (ops_of (map fst steps)) v n" "nr_label r = ''Claim''"
    and "dget (nr_fields r) ''status'' = PStr s" "s \<noteq> ''lean-verified''"
    and "PStr ''lean-verified'' \<in> set (status_trace n ''status'' (v # map snd steps))"
  shows "PStr ''formally-closed'' \<in> set (status_trace n ''status'' (v # map snd steps))"
proof -
  obtain ss where ss: "status_trace n ''status'' (v # map snd steps) = map PStr (s # ss)"
    "lifecycle ''Claim'' ''status'' (s # ss)"
    using history_trace [OF assms(1-3) _ assms(5)] claim_table assms(4) by auto
  then have "''lean-verified'' \<in> set (s # ss)" using assms(7) by auto
  from lifecycle_predecessor [OF ss(2) this assms(6) [symmetric]]
  obtain ys u zs where u: "s # ss = ys @ u # ''lean-verified'' # zs"
    "status_step ''Claim'' ''status'' u ''lean-verified''" .
  then have "u = ''formally-closed''"
    using into_claim_verified status_step_table by (fastforce simp: list_all_iff)
  then show ?thesis unfolding ss(1) u(1) by simp
qed

lemma verified_claims_were_closed_witness:
  "PStr ''formally-closed'' \<in> set (status_trace ''p/c-1'' ''status'' [view1, view2, view3])"
  using verified_claims_were_closed [OF scenario_history(1) scenario_values(1) scenario_named, of "''formally-closed''"]
  by (simp add: scenario_history(2)) (simp add: status_trace_def value_in_def scenario_values)

text \<open>A claim never shows a status again once it has left it.\<close>

lemma claim_status_never_returns:
  assumes "history v steps" "mem_node v n = Some r" "\<not> misnamed (ops_of (map fst steps)) v n" "nr_label r = ''Claim''"
    and "dget (nr_fields r) ''status'' = PStr s"
  shows "distinct (status_trace n ''status'' (v # map snd steps))"
proof -
  obtain ss where "status_trace n ''status'' (v # map snd steps) = map PStr (s # ss)"
    "lifecycle ''Claim'' ''status'' (s # ss)"
    using history_trace [OF assms(1-3) _ assms(5)] claim_table assms(4) by auto
  then have "distinct (s # ss)" "status_trace n ''status'' (v # map snd steps) = map PStr (s # ss)"
    using lifecycle_distinct [OF claim_steps_decrease] by blast+
  then show ?thesis by (simp only: distinct_map) (simp add: inj_on_def)
qed

lemma claim_status_never_returns_witness:
  "distinct (status_trace ''p/c-1'' ''status'' [view1, view2, view3])"
  using claim_status_never_returns [OF scenario_history(1) scenario_values(1) scenario_named]
  by (simp add: scenario_history(2))

text \<open>A tainted, refuted, retracted or stale claim stays defeated in every later state.\<close>

lemma defeated_claims_stay_defeated:
  assumes "history v steps" "mem_node v n = Some r" "\<not> misnamed (ops_of (map fst steps)) v n" "nr_label r = ''Claim''"
    and "dget (nr_fields r) ''status'' = PStr s"
    and "s \<in> {''tainted'', ''refuted'', ''retracted'', ''stale''}" "w \<in> set (map snd steps)"
  shows "\<exists>t \<in> {''tainted'', ''refuted'', ''retracted'', ''stale''}. value_in n ''status'' w = PStr t"
proof -
  obtain ss where ss: "status_trace n ''status'' (v # map snd steps) = map PStr (s # ss)"
    "lifecycle ''Claim'' ''status'' (s # ss)"
    using history_trace [OF assms(1-3) _ assms(5)] claim_table assms(4) by auto
  have "value_in n ''status'' w \<in> set (status_trace n ''status'' (v # map snd steps))"
    using assms(7) by (auto simp: status_trace_def)
  then obtain t where t: "t \<in> set (s # ss)" "value_in n ''status'' w = PStr t"
    unfolding ss(1) by auto
  from reaches_closed [OF defeated_claims_closed lifecycle_reaches [OF ss(2) t(1)] assms(6)] t(2)
  show ?thesis by blast
qed

lemma tainted_history: "history view3 [(tainting_proposal\<lparr>prop_ops := []\<rparr>, view3)]"
proof -
  let ?p = "tainting_proposal\<lparr>prop_ops := []\<rparr>"
  have "committable ?p view3" by code_simp
  from committable_commits [OF commitsD(4) [OF scenario_commits(3)] this]
  show ?thesis by (simp add: commit_result_def)
qed

lemma defeated_claims_stay_defeated_witness:
  "\<exists>t \<in> {''tainted'', ''refuted'', ''retracted'', ''stale''}. value_in ''p/c-1'' ''status'' view3 = PStr t"
  by (rule defeated_claims_stay_defeated [where s = "''tainted''", OF tainted_history scenario_values(3)])
     (simp_all add: ops_of_def misnamed_def)

section \<open>Fields\<close>

text \<open>C14. An immutable field of a committed node, or of a node the proposal creates, has its
  first value after the commit, unless the proposal upserts the node under another label.\<close>

theorem immutable_fields_kept:
  assumes "commits p v w" "origin v (prop_ops p) n = Some (label, fs)"
    and "f \<in> set (immutable_fields label)"
  shows "misnamed (prop_ops p) w n \<or>
    (\<exists>r. mem_node w n = Some r \<and> nr_label r = label \<and> dget (nr_fields r) f = dget fs f)"
  using origin_immutable [OF assms(1) _ assms(2,3)] by blast

theorem immutable_fields_kept_witness:
  "\<exists>r. mem_node view2 ''p/r-1'' = Some r \<and> nr_label r = ''FormalRun'' \<and>
     dget (nr_fields r) ''actor'' = PStr ''prover-a''"
proof -
  have "origin view1 (prop_ops promotion_proposal) ''p/r-1'' = Some (''FormalRun'',
      [(''actor'', PStr ''prover-a''), (''status'', PStr ''searching'')])"
    by (simp add: origin_def scenario_run_values)
  moreover have "''actor'' \<in> set (immutable_fields ''FormalRun'')" by code_simp
  moreover have "\<not> misnamed (prop_ops promotion_proposal) view2 ''p/r-1''" by code_simp
  ultimately show ?thesis using immutable_fields_kept [OF scenario_commits(2)] by fastforce
qed

text \<open>C15. A commit changes a field of a committed node only through a write of the new value to that
  field; the write names the node's own label unless the commit upserts the node under another label,
  and, if the field is not an annotation, it names the committed value as the one it replaces.\<close>

theorem no_lost_update:
  assumes "commits p v w" "mem_node v n = Some r" "mem_node w n = Some r'"
    and "dget (nr_fields r') f \<noteq> dget (nr_fields r) f"
  shows "\<exists>label prior. SetField label n f (dget (nr_fields r') f) prior \<in> set (prop_ops p) \<and>
     (label = nr_label r \<or> misnamed (prop_ops p) w n) \<and>
     (f \<notin> set ANNOTATION_FIELDS \<longrightarrow> (\<exists>old. prior = Some old \<and> py_eq (dget (nr_fields r) f) old))"
proof -
  note written = commit_field_written [OF assms]
  obtain label prior where x: "SetField label n f (dget (nr_fields r') f) prior \<in> set (prop_ops p)"
       "op_ok p (as_view v) (SetField label n f (dget (nr_fields r') f) prior)"
    by (rule last_write_accepted [OF assms(1) written(1)])
  have "label = nr_label r \<or> misnamed (prop_ops p) w n"
    using write_label [OF assms(1) _ x(1)] assms(3) written(2) by fastforce
  moreover have "annotation_separated (prop_ops p)"
    using accepted_locally [OF commitsD(2) [OF assms(1)]] by (simp add: locally_ok_def)
  then have "f \<notin> set ANNOTATION_FIELDS \<Longrightarrow> prior \<noteq> None"
    using x(1) by (fastforce simp: annotation_separated_def)
  ultimately show ?thesis using x assms(2) by (cases prior) (auto simp: op_ok_def)
qed

theorem no_lost_update_witness:
  "\<exists>label prior. SetField label ''p/c-1'' ''status'' (PStr ''lean-verified'') prior
     \<in> set (prop_ops promotion_proposal)"
  using no_lost_update [OF scenario_commits(2) scenario_values(1,2), of "''status''"] by auto

text \<open>A write that comes before the creation of its node in the same proposal.\<close>

fun early_write :: "(string \<Rightarrow> bool) \<Rightarrow> op list \<Rightarrow> bool" where
  "early_write known [] = False"
| "early_write known (UpsertNode label n fs # xs) = early_write (known(n := True)) xs"
| "early_write known (SetField label n field val prior # xs) =
     (\<not> known n \<and> created_as xs n \<noteq> None \<or> early_write known xs)"
| "early_write known (_ # xs) = early_write known xs"

lemma early_write_only:
  assumes "\<And>label n f val prior. SetField label n f val prior \<in> set xs \<Longrightarrow> known n \<or> created_as xs n \<noteq> None"
  shows "fields_after_nodes known xs \<longleftrightarrow> \<not> early_write known xs"
  using assms
proof (induction known xs rule: early_write.induct)
  case (2 known label n fs xs)
  have tail: "(known(n := True)) m \<or> created_as xs m \<noteq> None" if "SetField l m f val prior \<in> set xs" for l m f val prior
    using 2(2) [of l m f val prior] that by (auto simp: created_as_def List.map_filter_def split: if_splits)
  have "fields_after_nodes (known(n := True)) xs \<longleftrightarrow> \<not> early_write (known(n := True)) xs"
    by (rule 2(1)) (rule tail)
  then show ?case by (simp only: early_write.simps fields_after_nodes.simps)
next
  case (3 known label n field val prior xs)
  have tail: "known m \<or> created_as xs m \<noteq> None" if "SetField l m f val' prior' \<in> set xs" for l m f val' prior'
    using 3(2) [of l m f val' prior'] that by (auto simp: created_as_def List.map_filter_def)
  have "known n \<or> created_as xs n \<noteq> None"
    using 3(2) [of label n field val prior] by (auto simp: created_as_def List.map_filter_def)
  then show ?case using 3(1) tail by auto
qed (simp_all add: created_as_def List.map_filter_simps)

lemma apply_ops_ValueError: "wf_view v \<Longrightarrow> apply_ops v xs = Inl e \<Longrightarrow> e = ValueError"
proof (induction xs arbitrary: v)
  case (Cons x xs)
  show ?case
  proof (cases "apply_op v x")
    case (Inl e')
    then show ?thesis using Cons.prems apply_op_Inl [OF Cons.prems(1), of x e'] by simp
  next
    case (Inr w)
    then show ?thesis using Cons.prems Cons.IH [OF wf_apply_op [OF Cons.prems(1) Inr]] by simp
  qed
qed simp

text \<open>C17. An accepted proposal applies, or raises ValueError; it raises exactly when it writes to an
  uncommitted node before it creates that node. Writes to nodes that it never creates are not accepted.\<close>

theorem accepted_applies_iff_ordered:
  assumes "wf_view v" "accepted p v"
  shows "if early_write (known_in v) (prop_ops p) then apply_ops v (prop_ops p) = Inl ValueError
    else \<exists>w. apply_ops v (prop_ops p) = Inr w"
proof -
  have "known_in v n \<or> created_as (prop_ops p) n \<noteq> None" if "SetField label n f val prior \<in> set (prop_ops p)"
    for label n f val prior
    using accepted_op [OF assms(2) that] created_nodes_None [of "prop_ops p" n]
    by (auto simp: op_ok_def get_label_def known_in_def split: option.splits)
  then have "fields_after_nodes (known_in v) (prop_ops p) \<longleftrightarrow> \<not> early_write (known_in v) (prop_ops p)"
    by (rule early_write_only)
  then show ?thesis
    using apply_ops_defined [OF assms(1), of "prop_ops p"] apply_ops_ValueError [OF assms(1), of "prop_ops p"]
    by (cases "apply_ops v (prop_ops p)") auto
qed

theorem accepted_applies_iff_ordered_witness: "\<exists>w. apply_ops view1 (prop_ops promotion_proposal) = Inr w"
proof -
  have "\<not> early_write (known_in view1) (prop_ops promotion_proposal)" by code_simp
  then show ?thesis using accepted_applies_iff_ordered [OF commitsD(1,2) [OF scenario_commits(2)]] by simp
qed

text \<open>Every node that a commit adds, artifacts apart, and every edge it adds carries an id
  scoped to the proof of the proposal or a content address.\<close>

lemma commits_stay_in_namespace:
  assumes "commits p v w"
  shows "(mem_node v n = None \<and> mem_node w n = Some r \<and> nr_label r \<noteq> ''Artifact'' \<longrightarrow>
      in_namespace (prop_proof_id p) n) \<and>
    (mv_edges v e = None \<and> mv_edges w e = Some q \<longrightarrow>
      (\<forall>i \<in> {e, er_src q, er_dst q}. in_namespace (prop_proof_id p) i))"
proof -
  note c = commitsD [OF assms]
  have "check_namespace p = []" using accepted_locally [OF c(2)] by (simp add: locally_ok_def)
  then have ns: "x \<in> set (prop_ops p) \<Longrightarrow> i \<in> set (identities x) \<Longrightarrow> in_namespace (prop_proof_id p) i"
    for x i by (simp add: check_namespace_clean)
  have "in_namespace (prop_proof_id p) n"
    if "mem_node v n = None" "mem_node w n = Some r" "nr_label r \<noteq> ''Artifact''"
  proof -
    from new_node_after [OF c(3) that(1,2)] obtain fs where
      "UpsertNode (nr_label r) n fs \<in> set (prop_ops p)" by metis
    from ns [OF this] show ?thesis using that(3) by (simp add: UNSCOPED_LABELS_def)
  qed
  moreover have "in_namespace (prop_proof_id p) i"
    if "mv_edges v e = None" "mv_edges w e = Some q" "i \<in> {e, er_src q, er_dst q}" for i
  proof -
    from edge_origin [OF c(3) that(2)] that(1) obtain rel s d fs where
      "q = \<lparr>er_id = e, er_rel = rel, er_src = s, er_dst = d, er_fields = fs\<rparr>"
      "AddEdge rel s d e fs \<in> set (prop_ops p)" by auto
    with ns [of "AddEdge rel s d e fs"] that(3) show ?thesis by auto
  qed
  ultimately show ?thesis by blast
qed

lemma commits_stay_in_namespace_witness: "in_namespace ''p'' ''p/c-1''"
proof -
  have "mem_node empty_view ''p/c-1'' = None" by code_simp
  moreover have "prop_proof_id setup_proposal = ''p''" by (simp add: setup_proposal_def)
  ultimately show ?thesis
    using commits_stay_in_namespace [OF scenario_commits(1), of "''p/c-1''" "the (mem_node view1 ''p/c-1'')"]
    by (simp add: scenario_values(1))
qed

text \<open>All fields of a node are literals of their vocabularies.\<close>

definition well_worded :: "node_rec \<Rightarrow> bool" where
  "well_worded r \<longleftrightarrow> (\<forall>(f, val) \<in> set (nr_fields r). literal_ok (nr_label r) f val)"

lemma worded_update:
  assumes "\<forall>(f, x) \<in> set fs. literal_ok label f x" "literal_ok label g val"
  shows "\<forall>(f, x) \<in> set (AList.update g val fs). literal_ok label f x"
  using assms by (induction fs) auto

lemma worded_step:
  assumes "apply_op t x = Inr w" "mem_node w n = Some r" "op_literals_ok x"
    and "\<And>r'. mem_node t n = Some r' \<Longrightarrow> well_worded r'"
    and "\<And>label f val prior. x = SetField label n f val prior \<Longrightarrow> label = nr_label r"
  shows "well_worded r"
proof (cases x)
  case (SetField label m f val prior)
  show ?thesis
  proof (cases "m = n")
    case True
    then obtain r' where "mem_node t n = Some r'" "nr_label r = nr_label r'"
      "nr_fields r = AList.update f val (nr_fields r')"
      using assms(1,2) SetField by (auto simp: mem_set_field_def mem_node_def update_conv' split: option.splits)
    then show ?thesis
      using assms(3,4) assms(5) [OF SetField [unfolded True]] SetField
        worded_update [of "nr_fields r'" "nr_label r" f val] by (auto simp: well_worded_def)
  next
    case False
    then have "mem_node t n = Some r"
      using assms(1,2) SetField by (auto simp: mem_set_field_def mem_node_def update_conv' split: option.splits)
    then show ?thesis by (rule assms(4))
  qed
next
  case (UpsertNode label m fs)
  show ?thesis
  proof (cases "mem_node t n")
    case (Some r')
    then show ?thesis using assms(4) nodes_after_step [OF assms(1), of n] assms(2) UpsertNode by auto
  next
    case None
    then have "m = n" "r = \<lparr>nr_id = n, nr_label = label, nr_fields = fs\<rparr>"
      using nodes_after_step [OF assms(1), of n] assms(2) UpsertNode by (auto split: if_splits)
    then show ?thesis using assms(3) UpsertNode by (simp add: well_worded_def)
  qed
next
  case (AddEdge rel s d e fs)
  then show ?thesis using assms(1,2,4) by (auto split: option.splits)
next
  case (RemoveEdge rel e)
  then show ?thesis using assms(1,2,4) nodes_after_step [OF assms(1), of n] by (auto split: option.splits)
qed

lemma worded_batch:
  assumes "apply_ops v xs = Inr w" "mem_node w n = Some r" "\<forall>x \<in> set xs. op_literals_ok x"
    and "\<And>r'. mem_node v n = Some r' \<Longrightarrow> well_worded r'"
    and "\<And>label f val prior. SetField label n f val prior \<in> set xs \<Longrightarrow> label = nr_label r"
  shows "well_worded r"
  using assms
proof (induction xs arbitrary: w r rule: rev_induct)
  case Nil
  then show ?case by simp
next
  case (snoc x xs)
  from snoc.prems(1) obtain t where t: "apply_ops v xs = Inr t" "apply_op t x = Inr w"
    by (auto simp: apply_ops_snoc)
  have "well_worded r'" if r': "mem_node t n = Some r'" for r'
  proof (rule snoc.IH [OF t(1) r'])
    have "apply_ops t [x] = Inr w" using t(2) by simp
    from existing_node_after [OF this r'] snoc.prems(2) have "nr_label r = nr_label r'" by auto
    then show "label = nr_label r'" if "SetField label n f val prior \<in> set xs" for label f val prior
      using snoc.prems(5) that by auto
  qed (use snoc.prems in auto)
  from worded_step [OF t(2) snoc.prems(2) _ this] snoc.prems(3,5) show ?case by auto
qed

lemma reached_worded:
  assumes "reached ps v" "mem_node v n = Some r" "\<not> misnamed (ops_of ps) v n"
  shows "well_worded r"
  using assms
proof (induction arbitrary: r rule: reached.induct)
  case genesis
  then show ?case by (simp add: empty_view_def mem_node_def)
next
  case (commit ps v p w)
  note c = commitsD [OF commit.hyps(2)] and named = reached_named [OF commit.hyps commit.prems(2)]
  have "\<forall>x \<in> set (prop_ops p). op_literals_ok x"
    using accepted_locally [OF c(2)] by (simp add: locally_ok_def check_vocabulary_clean)
  then show ?case
    using worded_batch [OF c(3) commit.prems(1)] commit.IH [OF _ named(1)]
      write_label [OF commit.hyps(2) named(2)] commit.prems(1) by (metis option.inject)
qed

text \<open>C16. In every state that commits lead to from the empty graph, each field of a node that has a
  closed vocabulary holds a literal of it, unless a proposal of the history upserted the node under
  another label.\<close>

theorem vocabulary_invariant:
  assumes "reached ps v" "mem_node v n = Some r" "map_of ENUM_FIELDS (nr_label r, f) = Some vocabulary"
    and "(f, val) \<in> set (nr_fields r)"
  shows "misnamed (ops_of ps) v n \<or> (\<exists>s \<in> set vocabulary. val = PStr s)"
  using reached_worded [OF assms(1,2)] assms(3,4) by (fastforce simp: well_worded_def literal_ok_def)

theorem vocabulary_invariant_witness:
  "\<exists>vocabulary. map_of ENUM_FIELDS (''Claim'', ''status'') = Some vocabulary \<and>
     (\<exists>s \<in> set vocabulary. PStr ''lean-verified'' = PStr s)"
proof -
  have "map_of ENUM_FIELDS (''Claim'', ''status'') \<noteq> None" by code_simp
  then obtain vocabulary where voc: "map_of ENUM_FIELDS (''Claim'', ''status'') = Some vocabulary" by auto
  have "\<not> misnamed (ops_of [setup_proposal, promotion_proposal]) view2 ''p/c-1''" using scenario_clean(1) by simp
  with vocabulary_invariant [OF scenario_reached(2) scenario_values(2), of "''status''" vocabulary "PStr ''lean-verified''"] voc
  show ?thesis by simp
qed

section \<open>Runs and tactics\<close>

text \<open>A run that a commit marks stagnated has an obstruction, committed unless its edge id is disturbed.\<close>

lemma stagnated_runs_have_obstructions:
  assumes "commits p v w" "\<not> misnamed (prop_ops p) w n" "mem_node v n = Some r"
    and "nr_label r = ''FormalRun''" "dget (nr_fields r) ''status'' \<noteq> PStr ''stagnated''"
    and "mem_node w n = Some r'" "dget (nr_fields r') ''status'' = PStr ''stagnated''"
  shows "\<exists>obstruction. attested p v w ''RAISED_OBSTRUCTION'' n obstruction"
  using assms by (rule commit_stagnation)

lemma stagnated_runs_have_obstructions_witness:
  "\<exists>obstruction. attested promotion_proposal view1 view2 ''RAISED_OBSTRUCTION'' ''p/r-1'' obstruction"
proof (rule stagnated_runs_have_obstructions [OF scenario_commits(2) _ scenario_run_values(1) _ _ scenario_run_values(2)])
  show "\<not> misnamed (prop_ops promotion_proposal) view2 ''p/r-1''" by code_simp
qed simp_all

text \<open>C4. In every state that commits lead to from the empty graph, each closure edge comes from a tactic
  that Lean accepted with no goal left, unless a proposal of the history created the tactic twice with
  different content or upserted it under another label.\<close>

theorem closures_are_lean_accepted:
  assumes "reached ps v" "mv_edges v e = Some r" "er_rel r = ''CLOSES_STATE''"
  shows "ambiguous ps v (er_src r) \<or>
    (\<exists>t. mem_node v (er_src r) = Some t \<and> nr_label t = ''TacticApplication'' \<and> closes_leaf (nr_fields t))"
  using reached_closures [OF assms(1)] assms(2,3) by (auto simp: closures_sound_def closure_sound_def)

lemma tactic_reached: "reached [tactic_proposal] tactic_view"
  using reached.commit [OF reached.genesis tactic_commits] by simp

theorem closures_are_lean_accepted_witness:
  "\<exists>t. mem_node tactic_view ''p/t-2'' = Some t \<and> nr_label t = ''TacticApplication'' \<and> closes_leaf (nr_fields t)"
proof -
  have e: "mv_edges tactic_view ''p/e-2'' =
      Some \<lparr>er_id = ''p/e-2'', er_rel = ''CLOSES_STATE'', er_src = ''p/t-2'', er_dst = ''p/fs-2'', er_fields = []\<rparr>"
    by code_simp
  have "\<not> ambiguous [tactic_proposal] tactic_view ''p/t-2''" by code_simp
  with closures_are_lean_accepted [OF tactic_reached e] show ?thesis by simp
qed

text \<open>C12. After the commit that introduces a tactic, the graph holds exactly as many required
  children of it as its committed subgoal count, pairwise different and indexed from 0 without gaps, unless
  the commit creates the tactic twice with different content, or removes or reuses the id of one of its
  required-child edges.\<close>

theorem every_subgoal_is_required:
  assumes "reached ps v" "commits p v w"
    and "mem_node v tac = None" "mem_node w tac = Some t" "nr_label t = ''TacticApplication''"
  shows "recreated (prop_ops p) tac \<or>
    (\<exists>dst e gs. AddEdge ''FORMAL_REQUIRES'' tac dst e gs \<in> set (prop_ops p) \<and> disturbed p v e) \<or>
    conserves (nr_fields t) (map (\<lambda>r. (er_dst r, dget (er_fields r) ''child_index'')) (obligations w tac))"
  using commit_conserves [OF assms(1-3) _ _ assms(4,5)] by blast

theorem every_subgoal_is_required_witness: "length (obligations tactic_view ''p/t-1'') = 1"
proof -
  let ?fs = "[(''executor_result'', PStr ''lean-accepted''), (''subgoal_count'', PInt 1)]"
  have t: "mem_node tactic_view ''p/t-1'' = Some \<lparr>nr_id = ''p/t-1'', nr_label = ''TacticApplication'', nr_fields = ?fs\<rparr>"
    "mem_node empty_view ''p/t-1'' = None" by code_simp+
  have once: "\<not> recreated (prop_ops tactic_proposal) ''p/t-1''" by code_simp
  have "list_all (\<lambda>x. \<not> (is_addedge x \<and> disturbed tactic_proposal empty_view (op_edge x))) (prop_ops tactic_proposal)"
    by code_simp
  then have clean: "\<not> (\<exists>dst e gs. AddEdge ''FORMAL_REQUIRES'' ''p/t-1'' dst e gs \<in> set (prop_ops tactic_proposal) \<and>
      disturbed tactic_proposal empty_view e)" by (fastforce simp: list_all_iff)
  have "nr_label \<lparr>nr_id = ''p/t-1'', nr_label = ''TacticApplication'', nr_fields = ?fs\<rparr> = ''TacticApplication''"
    by (rule node_rec.select_convs)
  from every_subgoal_is_required [OF reached.genesis tactic_commits t(2,1) this] once clean
  have "conserves ?fs (map (\<lambda>r. (er_dst r, dget (er_fields r) ''child_index'')) (obligations tactic_view ''p/t-1''))"
    unfolding node_rec.select_convs by blast
  then show ?thesis by (simp add: conserves_def)
qed

text \<open>A proposal that closes a state by status while it scores the same state is accepted
  only with a closure edge to the state from a tactic of the proposal that Lean accepted with
  no goal left.\<close>

lemma scored_states_close_only_by_lean:
  assumes "accepted p v" "x \<in> set (prop_ops p)" "closes_by_status x n"
    and "y \<in> set (prop_ops p)" "annotates y n"
  shows "\<exists>tac e gs fs. AddEdge ''CLOSES_STATE'' tac n e gs \<in> set (prop_ops p) \<and>
     last_tactic (prop_ops p) tac = Some fs \<and> closes_leaf fs"
proof -
  have ok: "annotation_separated (prop_ops p)" "executor_results_ok (prop_ops p)"
    using accepted_locally [OF assms(1)] by (simp_all add: locally_ok_def)
  then obtain z where z: "z \<in> set (prop_ops p)" "closure_target z n"
    using assms(2-5) unfolding annotation_separated_def by blast
  have "\<exists>tac e gs. z = AddEdge ''CLOSES_STATE'' tac n e gs"
    by (cases z) (use z(2) in auto)
  then show ?thesis using z(1) ok(2) unfolding executor_results_ok_def by blast
qed

lemma scored_states_close_only_by_lean_witness:
  "\<exists>tac e gs fs. AddEdge ''CLOSES_STATE'' tac ''p/fs-2'' e gs \<in> set (prop_ops tactic_proposal) \<and>
     last_tactic (prop_ops tactic_proposal) tac = Some fs \<and> closes_leaf fs"
proof (rule scored_states_close_only_by_lean [OF commitsD(2) [OF tactic_commits]])
  show "prop_ops tactic_proposal ! 6 \<in> set (prop_ops tactic_proposal)"
    by (rule nth_mem) (simp add: tactic_proposal_def)
  show "closes_by_status (prop_ops tactic_proposal ! 6) ''p/fs-2''" by code_simp
  show "prop_ops tactic_proposal ! 1 \<in> set (prop_ops tactic_proposal)"
    by (rule nth_mem) (simp add: tactic_proposal_def)
  show "annotates (prop_ops tactic_proposal ! 1) ''p/fs-2''" by code_simp
qed

end
