(* ===== verification/Findings.thy ===== *)
theory Findings
  imports GateSafety
begin

text \<open>
  Accepted proposals whose result is not what the gate's documentation promises. Each is
  a concrete proposal at a concrete committed state, evaluated. The theorems of \<^verbatim>\<open>GateSafety\<close> name
  alternatives in their conclusions (\<open>misnamed\<close>, \<open>recreated\<close>, \<open>disturbed\<close>, content-addressed replays); each of
  them occurs in one of these proposals, so none of them can be left out.
\<close>

definition batch :: "op list \<Rightarrow> proposal" where
  "batch xs =
     \<lparr>prop_proof_id = ''p'', prop_actor = ''w'', prop_worker_class = ''formal-atp'', prop_ops = xs,
      prop_base_revision = Some 0, prop_lease_id = Some ''p/ls-1'', prop_fencing_token = Some 1\<rparr>"

definition claim_view :: mem_view where
  "claim_view =
     commit_result (batch [UpsertNode ''Claim'' ''p/c-1'' [(''status'', PStr ''provisional'')]]) empty_view"

text \<open>
  An \<open>UpsertNode\<close> of a committed node under another label changes nothing in the graph,
  but \<open>check_references\<close> takes its label for the node's. A write under the false label
  meets neither the transition table, nor the immutable fields, nor the evidence gates of
  the real one.
\<close>

definition mislabelled_promotion :: proposal where
  "mislabelled_promotion = batch
     [UpsertNode ''Proof'' ''p/c-1'' [],
      SetField ''Proof'' ''p/c-1'' ''status'' (PStr ''lean-verified'') (Some (PStr ''provisional''))]"

text \<open>At a state with a provisional claim the gate accepts a proposal that names the
  claim a Proof and writes its status; the claim is lean-verified after it, without a replay.\<close>

lemma mislabelled_promotion_accepted:
  "accepted mislabelled_promotion claim_view \<and>
   misnamed (prop_ops mislabelled_promotion) (commit_result mislabelled_promotion claim_view) ''p/c-1'' \<and>
   value_in ''p/c-1'' ''status'' (commit_result mislabelled_promotion claim_view) = PStr ''lean-verified'' \<and>
   \<not> has_verified_sorry_free_replay ''p/c-1'' mislabelled_promotion (as_view claim_view)"
  by code_simp

text \<open>The evidence gates look at writes only: a claim can be created verified.\<close>

definition verified_creation :: proposal where
  "verified_creation = batch [UpsertNode ''Claim'' ''p/c-1'' [(''status'', PStr ''lean-verified'')]]"

lemma verified_creation_accepted:
  "accepted verified_creation empty_view \<and>
   value_in ''p/c-1'' ''status'' (commit_result verified_creation empty_view) = PStr ''lean-verified''"
  by code_simp

text \<open>
  Of two creations of one tactic the checks read the last and the graph keeps the first: a
  tactic that timed out closes a state.
\<close>

definition shadowed_tactic :: proposal where
  "shadowed_tactic = batch
     [UpsertNode ''FormalState'' ''p/fs-1'' [(''status'', PStr ''open'')],
      UpsertNode ''TacticApplication'' ''p/t-1''
        [(''executor_result'', PStr ''timeout''), (''subgoal_count'', PInt 0)],
      UpsertNode ''TacticApplication'' ''p/t-1''
        [(''executor_result'', PStr ''lean-accepted''), (''subgoal_count'', PInt 0)],
      AddEdge ''CLOSES_STATE'' ''p/t-1'' ''p/fs-1'' ''p/e-1'' []]"

text \<open>The gate accepts two creations of one tactic, the first timed out and the second
  accepted by Lean; the graph keeps the first and its closure edge.\<close>

lemma shadowed_tactic_accepted:
  "accepted shadowed_tactic empty_view \<and> recreated (prop_ops shadowed_tactic) ''p/t-1'' \<and>
   value_in ''p/t-1'' ''executor_result'' (commit_result shadowed_tactic empty_view) = PStr ''timeout'' \<and>
   map er_dst (rv_from (as_view (commit_result shadowed_tactic empty_view)) ''p/t-1'' ''CLOSES_STATE'') =
     [''p/fs-1'']"
  by code_simp

text \<open>
  \<open>get_rel\<close> prefers the relation of an \<open>AddEdge\<close> that reuses a committed id, which the
  graph ignores: a required child is removed under another relation's name.
\<close>

definition obligation_removal :: proposal where
  "obligation_removal = batch
     [AddEdge ''NOTE'' ''p/t-1'' ''p/fs-2'' ''p/e-1'' [], RemoveEdge ''NOTE'' ''p/e-1'']"

text \<open>The gate accepts a proposal after which a committed tactic has lost its required
  child.\<close>

lemma obligation_removal_accepted:
  "accepted obligation_removal tactic_view \<and>
   map er_dst (obligations tactic_view ''p/t-1'') = [''p/fs-2''] \<and>
   map er_dst (obligations (commit_result obligation_removal tactic_view) ''p/t-1'') = []"
  by code_simp

text \<open>
  Conservation counts the edges of the proposal, not the committed ones: naming a committed
  tactic again with its own fields adds children beyond its declared subgoals.
\<close>

definition arity_change :: proposal where
  "arity_change = batch
     [UpsertNode ''TacticApplication'' ''p/t-1''
        [(''executor_result'', PStr ''lean-accepted''), (''subgoal_count'', PInt 1)],
      AddEdge ''FORMAL_REQUIRES'' ''p/t-1'' ''p/fs-1'' ''p/e-9'' [(''child_index'', PInt 0)]]"

lemma arity_change_accepted:
  "accepted arity_change tactic_view \<and>
   map er_dst (obligations (commit_result arity_change tactic_view) ''p/t-1'') = [''p/fs-2'', ''p/fs-1''] \<and>
   value_in ''p/t-1'' ''subgoal_count'' (commit_result arity_change tactic_view) = PInt 1"
  by code_simp

text \<open>A write placed before the creation of its node is accepted, and applying it raises.\<close>

definition write_before_creation :: proposal where
  "write_before_creation = batch
     [SetField ''Proof'' ''p/pf-1'' ''title'' (PStr ''t'') (Some PNone),
      UpsertNode ''Proof'' ''p/pf-1'' []]"

lemma write_before_creation_accepted:
  "accepted write_before_creation empty_view \<and>
   (case apply_ops empty_view (prop_ops write_before_creation) of
      Inl e \<Rightarrow> e = ValueError | Inr _ \<Rightarrow> False)"
  by code_simp

text \<open>
  A promotion is accepted on a \<open>PROVED_BY\<close> edge whose id is taken: the validators count it,
  the graph never has it.
\<close>

definition unproved_setup :: proposal where
  "unproved_setup = batch (filter (\<lambda>x. \<not> (is_addedge x \<and> op_rel x = ''PROVED_BY'')) (prop_ops setup_proposal))"

definition taken_id_promotion :: proposal where
  "taken_id_promotion = batch
     [AddEdge ''PROVED_BY'' ''p/c-1'' ''p/crt-1'' ''p/e-3'' [],
      SetField ''Claim'' ''p/c-1'' ''status'' (PStr ''lean-verified'') (Some (PStr ''formally-closed''))]"

text \<open>The gate accepts a promotion after which the claim is lean-verified and has no
  certificate edge.\<close>

lemma taken_id_promotion_accepted:
  "let v = commit_result unproved_setup empty_view; w = commit_result taken_id_promotion v
   in accepted unproved_setup empty_view \<and> accepted taken_id_promotion v \<and> disturbed taken_id_promotion v ''p/e-3'' \<and>
      value_in ''p/c-1'' ''status'' w = PStr ''lean-verified'' \<and>
      map er_dst (rv_from (as_view w) ''p/c-1'' ''PROVED_BY'') = []"
  by code_simp

text \<open>
  An edge may point to a content address before the node exists, and the node may be created later under
  any label: a promotion is accepted on a replay that is no \<open>LeanReplay\<close>.
\<close>

definition addressed_setup :: proposal where
  "addressed_setup = batch
     [UpsertNode ''Claim'' ''p/c-1'' [(''status'', PStr ''formally-closed'')],
      UpsertNode ''Certificate'' ''p/crt-1'' [(''actor'', PStr ''prover-a'')],
      UpsertNode ''Alignment'' ''p/al-1'' [(''lifecycle'', PStr ''reviewed''), (''verdict'', PStr ''aligned'')],
      AddEdge ''PROVED_BY'' ''p/c-1'' ''p/crt-1'' ''p/e-1'' [],
      AddEdge ''REPLAYED_BY'' ''p/crt-1'' ''sha256:0'' ''p/e-2'' [],
      AddEdge ''ALIGNS_CLAIM'' ''p/al-1'' ''p/c-1'' ''p/e-3'' []]"

definition addressed_promotion :: proposal where
  "addressed_promotion = batch
     [UpsertNode ''Note'' ''sha256:0''
        [(''actor'', PStr ''b''), (''status'', PStr ''verified''), (''sorry_detected'', PBool False)],
      SetField ''Claim'' ''p/c-1'' ''status'' (PStr ''lean-verified'') (Some (PStr ''formally-closed''))]"

lemma addressed_promotion_accepted:
  "let v = commit_result addressed_setup empty_view; w = commit_result addressed_promotion v
   in accepted addressed_setup empty_view \<and> accepted addressed_promotion v \<and>
      value_in ''p/c-1'' ''status'' w = PStr ''lean-verified'' \<and>
      list_all (\<lambda>(n, r). nr_label r \<noteq> ''LeanReplay'') (mv_nodes w)"
  by code_simp

text \<open>The label of a non-kernel tactic is no obstacle to a closure at the gate.\<close>

definition non_kernel_closure :: proposal where
  "non_kernel_closure = batch
     [UpsertNode ''FormalState'' ''p/fs-1'' [(''status'', PStr ''open'')],
      UpsertNode ''TacticApplication'' ''p/t-1''
        [(''tactic_label'', PStr ''PLN_fallback''), (''executor_result'', PStr ''lean-accepted''),
         (''subgoal_count'', PInt 0)],
      AddEdge ''CLOSES_STATE'' ''p/t-1'' ''p/fs-1'' ''p/e-1'' []]"

lemma non_kernel_closure_accepted:
  "''PLN_fallback'' \<in> set NON_KERNEL_TACTICS \<and> accepted non_kernel_closure empty_view"
  by code_simp

text \<open>Applying a batch that removes and adds the same edge twice reorders an index.\<close>

definition reordering_batch :: "op list" where
  "reordering_batch =
     [RemoveEdge ''R'' ''p/e-1'', AddEdge ''R'' ''p/a'' ''p/b'' ''p/e-1'' [],
      AddEdge ''R'' ''p/a'' ''p/c'' ''p/e-2'' []]"

lemma reordering_batch_not_idempotent:
  "let v = commit_result (batch reordering_batch) empty_view;
       w = commit_result (batch reordering_batch) v
   in map er_id (rv_from (as_view v) ''p/a'' ''R'') = [''p/e-1'', ''p/e-2''] \<and>
      map er_id (rv_from (as_view w) ''p/a'' ''R'') = [''p/e-2'', ''p/e-1'']"
  by code_simp

end
