(* ===== verification/Canon.thy ===== *)
theory Canon
  imports Prelude
begin

text \<open>
  Canonical serialization and hashing, \<^verbatim>\<open>src/src/commit_gate/canon.py\<close>.

  What Python's runtime computes below the source is a record of functions, \<open>runtime\<close>: the
  SHA-256 digest of a byte string as hexadecimal text, and the text of a finite float.
  \<open>canonical_json\<close> is \<^verbatim>\<open>json.dumps\<close> with sorted keys, without spaces and without
  escaping of non-ASCII text. \<open>json_norm\<close> is the value that \<^verbatim>\<open>json.loads\<close> reads back from it:
  the same value with the keys of every dictionary sorted.
\<close>

record runtime =
  rt_sha256 :: "string \<Rightarrow> string"
  rt_float :: "rat \<Rightarrow> string"

definition GENESIS_HASH :: string where
  "GENESIS_HASH = ''sha256:'' @ replicate 64 (CHR ''0'')"

section \<open>Floats\<close>

text \<open>Whether \<open>_check_floats\<close> returns; it raises \<open>ValueError\<close> otherwise.\<close>

fun floats_finite :: "pyval \<Rightarrow> bool" where
  "floats_finite (PFloat f) = (case f of Finite _ \<Rightarrow> True | _ \<Rightarrow> False)"
| "floats_finite (PDict d) = (\<forall>x \<in> set d. floats_finite (snd x))"
| "floats_finite (PList xs) = (\<forall>x \<in> set xs. floats_finite x)"
| "floats_finite _ = True"

definition check_floats :: "pyval \<Rightarrow> py_exc + unit" where
  "check_floats v = (if floats_finite v then Inr () else Inl ValueError)"

section \<open>JSON text\<close>

definition hex_digit :: "nat \<Rightarrow> char" where
  "hex_digit d = (if d < 10 then char_of (48 + d) else char_of (87 + d))"

definition json_escape :: "char \<Rightarrow> string" where
  "json_escape c =
     (if c = CHR 0x22 then [CHR 0x5C, CHR 0x22]
      else if c = CHR 0x5C then [CHR 0x5C, CHR 0x5C]
      else if c = CHR 0x0A then [CHR 0x5C, CHR ''n'']
      else if c = CHR 0x0D then [CHR 0x5C, CHR ''r'']
      else if c = CHR 0x09 then [CHR 0x5C, CHR ''t'']
      else if c = CHR 0x08 then [CHR 0x5C, CHR ''b'']
      else if c = CHR 0x0C then [CHR 0x5C, CHR ''f'']
      else if of_char c < (32 :: nat)
        then [CHR 0x5C, CHR ''u'', CHR ''0'', CHR ''0'', hex_digit (of_char c div 16), hex_digit (of_char c mod 16)]
      else [c])"

definition json_string :: "string \<Rightarrow> string" where
  "json_string s = CHR 0x22 # concat (map json_escape s) @ [CHR 0x22]"

definition int_str :: "int \<Rightarrow> string" where
  "int_str i = (if i < 0 then CHR ''-'' # nat_str (nat (- i)) else nat_str (nat i))"

fun join_comma :: "string list \<Rightarrow> string" where
  "join_comma [] = []"
| "join_comma [s] = s"
| "join_comma (s # ss) = s @ '','' @ join_comma ss"

fun json_norm :: "pyval \<Rightarrow> pyval" where
  "json_norm (PDict d) = PDict (sort_key fst (map (\<lambda>x. (fst x, json_norm (snd x))) d))"
| "json_norm (PList xs) = PList (map json_norm xs)"
| "json_norm v = v"

fun json_text :: "runtime \<Rightarrow> pyval \<Rightarrow> string" where
  "json_text rt PNone = ''null''"
| "json_text rt (PBool b) = (if b then ''true'' else ''false'')"
| "json_text rt (PInt i) = int_str i"
| "json_text rt (PFloat f) = (case f of Finite r \<Rightarrow> rt_float rt r | _ \<Rightarrow> [])"
| "json_text rt (PStr s) = json_string s"
| "json_text rt (PList xs) = ''['' @ join_comma (map (json_text rt) xs) @ '']''"
| "json_text rt (PDict d) =
     ''{'' @ join_comma (map (\<lambda>x. json_string (fst x) @ '':'' @ json_text rt (snd x)) d) @ ''}''"

definition canonical_json :: "runtime \<Rightarrow> pyval \<Rightarrow> py_exc + string" where
  "canonical_json rt v =
     (case check_floats v of Inl e \<Rightarrow> Inl e | Inr _ \<Rightarrow> Inr (json_text rt (json_norm v)))"

definition content_hash :: "runtime \<Rightarrow> pyval \<Rightarrow> py_exc + string" where
  "content_hash rt v =
     (case canonical_json rt v of
        Inl e \<Rightarrow> Inl e
      | Inr bytes \<Rightarrow> Inr (''sha256:'' @ rt_sha256 rt bytes))"

definition chain_hash :: "runtime \<Rightarrow> string \<Rightarrow> pyval \<Rightarrow> py_exc + string" where
  "chain_hash rt prev body =
     content_hash rt (PDict [(''prev'', PStr prev), (''body'', body)])"

section \<open>Normal forms\<close>

lemma insort_key_map:
  assumes "\<And>x. g (f x) = g x"
  shows "map f (insort_key g x xs) = insort_key g (f x) (map f xs)"
  by (induction xs) (simp_all add: assms)

lemma sort_key_map:
  assumes "\<And>x. g (f x) = g x"
  shows "sort_key g (map f xs) = map f (sort_key g xs)"
  by (induction xs) (simp_all add: insort_key_map assms)

lemma sort_key_twice: "sort_key f (sort_key f xs) = sort_key f xs"
  by (rule properties_for_sort_key) simp_all

lemma json_norm_idem [simp]: "json_norm (json_norm v) = json_norm v"
proof (induction v rule: json_norm.induct)
  case (1 d)
  let ?f = "\<lambda>x. (fst x, json_norm (snd x))"
  have "map ?f (map ?f d) = map ?f d" using 1 by auto
  then show ?case
    by (simp add: sort_key_map [of fst ?f, symmetric] del: map_map) (simp add: sort_key_twice)
next
  case (2 xs)
  then show ?case by simp
qed simp_all

lemma floats_finite_norm [simp]: "floats_finite (json_norm v) = floats_finite v"
  by (induction v rule: json_norm.induct) auto

lemma canonical_norm: "canonical_json rt (json_norm v) = canonical_json rt v"
  by (simp add: canonical_json_def check_floats_def)

lemma chain_hash_norm: "chain_hash rt prev (json_norm v) = chain_hash rt prev v"
  by (simp add: chain_hash_def content_hash_def canonical_json_def check_floats_def)

lemma canonical_json_Inr: "(\<exists>s. canonical_json rt v = Inr s) \<longleftrightarrow> floats_finite v"
  by (simp add: canonical_json_def check_floats_def)

lemma chain_hash_Inr: "(\<exists>s. chain_hash rt prev v = Inr s) \<longleftrightarrow> floats_finite v"
  by (auto simp: chain_hash_def content_hash_def canonical_json_def check_floats_def)

text \<open>The order in which a dictionary was built leaves no trace in its canonical form.\<close>

lemma json_norm_order:
  assumes "mset d = mset d'" "distinct (map fst d)"
  shows "json_norm (PDict d) = json_norm (PDict d')"
proof -
  let ?f = "\<lambda>x. (fst x, json_norm (snd x))"
  have m: "mset (map ?f d) = mset (map ?f d')" using assms(1) by simp
  have "inj_on fst (set (map ?f d))" using assms(2) by (auto simp: distinct_map inj_on_def)
  then have "sort_key fst (map ?f d) = sort_key fst (map ?f d')"
    using m by (intro sort_key_inj_key_eq) simp_all
  then show ?thesis by simp
qed

lemma canonical_json_order:
  assumes "mset d = mset d'" "distinct (map fst d)"
  shows "canonical_json rt (PDict d) = canonical_json rt (PDict d')"
  using json_norm_order [OF assms] canonical_norm by metis

end
