(* ===== verification/Database.thy ===== *)
theory Database
  imports Canon Vocab
begin

text \<open>
  The tables of \<^verbatim>\<open>src/src/commit_gate/store.py\<close> and its write transaction.

  A table is the list of its rows in insertion order. A payload column holds canonical
  JSON text in the source; here it holds the value \<^verbatim>\<open>json.loads\<close> reads from that text
  (\<open>json_norm\<close>). The wall-clock columns \<^verbatim>\<open>committed_at\<close> and \<^verbatim>\<open>created_at\<close> are not read by any
  operation and left out.

  SQLite itself is not part of the repository: what an operation meets when it asks for
  the write lock and when it commits is an argument (\<open>lock\<close>), and rows that a query does
  not order come in table order.
\<close>

section \<open>Rows\<close>

datatype lease_status = Active | Expired | Released | Superseded

record lease_row =
  lr_proof :: string
  lr_id :: string
  lr_class :: string
  lr_move :: "string option"
  lr_token :: nat
  lr_base :: int
  lr_ttl :: rat
  lr_issued :: rat
  lr_expires :: "rat option"
  lr_status :: lease_status

record lease_event =
  le_proof :: string
  le_lease :: string
  le_event :: string
  le_token :: "nat option"
  le_class :: "string option"
  le_move :: "string option"
  le_score :: "pyval option"

record journal_row =
  jr_proof :: string
  jr_revision :: nat
  jr_hash :: string
  jr_prev :: string
  jr_actor :: string
  jr_class :: string
  jr_payload :: pyval

record rejection_row =
  xr_proof :: string
  xr_reason :: reason
  xr_payload :: "pyval option"

record db =
  db_journal :: "journal_row list"
  db_leases :: "lease_row list"
  db_events :: "lease_event list"
  db_serials :: "(string \<times> nat) list"
  db_rejections :: "rejection_row list"

definition empty_db :: db where
  "empty_db =
     \<lparr>db_journal = [], db_leases = [], db_events = [], db_serials = [], db_rejections = []\<rparr>"

section \<open>Errors and the write transaction\<close>

datatype store_error =
    ConcurrencyError reason
  | HashChainError
  | IntegrityError
  | PyError py_exc

text \<open>Whether \<^verbatim>\<open>BEGIN IMMEDIATE\<close> and \<^verbatim>\<open>COMMIT\<close> succeed within the busy timeout.\<close>

record lock =
  lk_begin :: bool
  lk_commit :: bool

definition uncontended :: lock where
  "uncontended = \<lparr>lk_begin = True, lk_commit = True\<rparr>"

definition write_tx ::
  "lock \<Rightarrow> (db \<Rightarrow> store_error + 'a \<times> db) \<Rightarrow> db \<Rightarrow> (store_error + 'a) \<times> db" where
  "write_tx lk body d =
     (if \<not> lk_begin lk then (Inl (ConcurrencyError JOURNAL_BUSY), d)
      else case body d of
          Inl e \<Rightarrow> (Inl e, d)
        | Inr (a, d') \<Rightarrow>
            if lk_commit lk then (Inr a, d') else (Inl (ConcurrencyError JOURNAL_BUSY), d))"

lemma write_tx_cases:
  assumes "write_tx lk body d = (r, d')"
  obtains e where "r = Inl e" "d' = d"
  | a where "r = Inr a" "body d = Inr (a, d')" "lk_begin lk" "lk_commit lk"
  using assms by (auto simp: write_tx_def split: if_splits sum.splits)

lemma write_tx_Inr:
  "write_tx lk body d = (Inr a, d') \<longleftrightarrow> lk_begin lk \<and> lk_commit lk \<and> body d = Inr (a, d')"
  by (auto simp: write_tx_def split: sum.splits)

lemma write_tx_Inl: "write_tx lk body d = (Inl e, d') \<Longrightarrow> d' = d"
  by (auto simp: write_tx_def split: if_splits sum.splits)

section \<open>The head of a journal\<close>

definition events_of :: "db \<Rightarrow> string \<Rightarrow> journal_row list" where
  "events_of d p = sort_key jr_revision (filter (\<lambda>r. jr_proof r = p) (db_journal d))"

definition head_row :: "db \<Rightarrow> string \<Rightarrow> journal_row option" where
  "head_row d p = (case rev (events_of d p) of [] \<Rightarrow> None | r # _ \<Rightarrow> Some r)"

definition head :: "db \<Rightarrow> string \<Rightarrow> nat \<times> string" where
  "head d p =
     (case head_row d p of None \<Rightarrow> (0, GENESIS_HASH) | Some r \<Rightarrow> (jr_revision r, jr_hash r))"

end
