(* ===== verification/Leases.thy ===== *)
theory Leases
  imports Database
begin

text \<open>
  The lease operations of \<^verbatim>\<open>src/src/commit_gate/store.py\<close>: the proof-level write lease, the
  dispatch lease, release, expiry, and the fencing tokens that order them. Clock readings
  are arguments: \<open>t1\<close> is the reading that decides what is due, \<open>t2\<close> the one the new lease
  is dated with.
\<close>

section \<open>Queries\<close>

definition is_live :: "lease_row \<Rightarrow> rat \<Rightarrow> bool" where
  "is_live r now \<longleftrightarrow>
     lr_status r = Active \<and> (case lr_expires r of None \<Rightarrow> True | Some t \<Rightarrow> now < t)"

definition leases_of :: "db \<Rightarrow> string \<Rightarrow> lease_row list" where
  "leases_of d p = filter (\<lambda>r. lr_proof r = p) (db_leases d)"

definition find_lease :: "db \<Rightarrow> string \<Rightarrow> string \<Rightarrow> lease_row option" where
  "find_lease d p lid = List.find (\<lambda>r. lr_proof r = p \<and> lr_id r = lid) (db_leases d)"

definition top_token :: "db \<Rightarrow> string \<Rightarrow> nat" where
  "top_token d p = foldr max (map lr_token (leases_of d p)) 0"

definition next_token :: "db \<Rightarrow> string \<Rightarrow> nat" where
  "next_token d p = top_token d p + 1"

definition next_lease_id :: "db \<Rightarrow> string \<Rightarrow> string \<times> db" where
  "next_lease_id d p =
     (let serial = (case map_of (db_serials d) p of None \<Rightarrow> 0 | Some n \<Rightarrow> n) + 1
      in (p @ ''/ls-'' @ nat_str serial, d\<lparr>db_serials := AList.update p serial (db_serials d)\<rparr>))"

section \<open>The audit trail\<close>

definition plain_event :: "string \<Rightarrow> string \<Rightarrow> string \<Rightarrow> lease_event" where
  "plain_event p lid event =
     \<lparr>le_proof = p, le_lease = lid, le_event = event, le_token = None, le_class = None,
      le_move = None, le_score = None\<rparr>"

definition record_lease_event :: "runtime \<Rightarrow> db \<Rightarrow> lease_event \<Rightarrow> store_error + db" where
  "record_lease_event rt d e =
     (case le_score e of
        None \<Rightarrow> Inr (d\<lparr>db_events := db_events d @ [e]\<rparr>)
      | Some score \<Rightarrow>
          (case canonical_json rt score of
             Inl exc \<Rightarrow> Inl (PyError exc)
           | Inr _ \<Rightarrow>
               Inr (d\<lparr>db_events := db_events d @ [e\<lparr>le_score := Some (json_norm score)\<rparr>]\<rparr>)))"

definition read_lease_events :: "db \<Rightarrow> string \<Rightarrow> lease_event list" where
  "read_lease_events d p = filter (\<lambda>e. le_proof e = p) (db_events d)"

section \<open>Expiry and supersession\<close>

definition due :: "string \<Rightarrow> rat \<Rightarrow> lease_row \<Rightarrow> bool" where
  "due p now r \<longleftrightarrow>
     lr_proof r = p \<and> lr_status r = Active \<and>
     (case lr_expires r of None \<Rightarrow> False | Some t \<Rightarrow> t \<le> now)"

definition mark :: "(lease_row \<Rightarrow> bool) \<Rightarrow> lease_status \<Rightarrow> db \<Rightarrow> db" where
  "mark P st d =
     d\<lparr>db_leases := map (\<lambda>r. if P r then r\<lparr>lr_status := st\<rparr> else r) (db_leases d)\<rparr>"

definition log_all :: "string \<Rightarrow> string list \<Rightarrow> string \<Rightarrow> db \<Rightarrow> db" where
  "log_all p ids event d =
     d\<lparr>db_events := db_events d @ map (\<lambda>lid. plain_event p lid event) ids\<rparr>"

definition expire_due_leases :: "string \<Rightarrow> rat \<Rightarrow> db \<Rightarrow> nat \<times> db" where
  "expire_due_leases p now d =
     (let ids = map lr_id (filter (due p now) (db_leases d))
      in (length ids,
          log_all p ids ''expired''
            (mark (\<lambda>r. lr_proof r = p \<and> lr_id r \<in> set ids) Expired d)))"

text \<open>Mark the active leases that satisfy \<open>lost\<close>, then log every superseded one that satisfies
  \<open>logged\<close>.\<close>

definition supersede ::
  "string \<Rightarrow> (lease_row \<Rightarrow> bool) \<Rightarrow> (lease_row \<Rightarrow> bool) \<Rightarrow> db \<Rightarrow> db" where
  "supersede p lost logged d =
     (let d1 = mark (\<lambda>r. lr_proof r = p \<and> lr_status r = Active \<and> lost r) Superseded d;
          ids = map lr_id (filter (\<lambda>r. lr_proof r = p \<and> lr_status r = Superseded \<and> logged r)
                  (db_leases d1))
      in log_all p ids ''superseded'' d1)"

definition upsert_lease :: "lease_row \<Rightarrow> db \<Rightarrow> db" where
  "upsert_lease row d =
     (if \<exists>r \<in> set (db_leases d). lr_proof r = lr_proof row \<and> lr_id r = lr_id row
      then d\<lparr>db_leases := map (\<lambda>r. if lr_proof r = lr_proof row \<and> lr_id r = lr_id row then row else r)
               (db_leases d)\<rparr>
      else d\<lparr>db_leases := db_leases d @ [row]\<rparr>)"

section \<open>Operations\<close>

definition acquire_body ::
  "rat \<Rightarrow> rat \<Rightarrow> string \<Rightarrow> string \<Rightarrow> rat \<Rightarrow> db \<Rightarrow> store_error + nat \<times> db" where
  "acquire_body t1 t2 p lid ttl d =
     (let d1 = snd (expire_due_leases p t1 d);
          d2 = supersede p (\<lambda>r. lr_id r \<noteq> lid) (\<lambda>r. True) d1;
          token = next_token d2 p;
          row = \<lparr>lr_proof = p, lr_id = lid, lr_class = [], lr_move = None, lr_token = token,
                 lr_base = int (fst (head d2 p)), lr_ttl = ttl, lr_issued = t2,
                 lr_expires = (if ttl > 0 then Some (t2 + ttl) else None), lr_status = Active\<rparr>;
          d3 = upsert_lease row d2
      in Inr (token, d3\<lparr>db_events := db_events d3 @
                [(plain_event p lid ''issued'')\<lparr>le_token := Some token\<rparr>]\<rparr>))"

definition acquire_lease ::
  "lock \<Rightarrow> rat \<Rightarrow> rat \<Rightarrow> string \<Rightarrow> string \<Rightarrow> rat \<Rightarrow> db \<Rightarrow> (store_error + nat) \<times> db" where
  "acquire_lease lk t1 t2 p lid ttl = write_tx lk (acquire_body t1 t2 p lid ttl)"

definition issued_event :: "lease_row \<Rightarrow> pyval option \<Rightarrow> lease_event" where
  "issued_event row score =
     \<lparr>le_proof = lr_proof row, le_lease = lr_id row, le_event = ''issued'',
      le_token = Some (lr_token row), le_class = Some (lr_class row), le_move = lr_move row,
      le_score = score\<rparr>"

definition issue_body ::
  "runtime \<Rightarrow> rat \<Rightarrow> rat \<Rightarrow> string \<Rightarrow> string option \<Rightarrow> string \<Rightarrow> string option \<Rightarrow> int option \<Rightarrow> rat \<Rightarrow>
     pyval option \<Rightarrow> db \<Rightarrow> store_error + lease_row \<times> db" where
  "issue_body rt t1 t2 p lease_id worker_class move base ttl score d =
     (let d1 = snd (expire_due_leases p t1 d);
          (lid, d2) = (case lease_id of None \<Rightarrow> next_lease_id d1 p | Some l \<Rightarrow> (l, d1));
          rival = (\<lambda>r. lr_move r = move \<and> lr_id r \<noteq> lid);
          d3 = (if move = None then d2 else supersede p rival rival d2);
          token = next_token d3 p;
          revision = (case base of None \<Rightarrow> int (fst (head d3 p)) | Some b \<Rightarrow> b);
          row = \<lparr>lr_proof = p, lr_id = lid, lr_class = worker_class, lr_move = move,
                 lr_token = token, lr_base = revision, lr_ttl = ttl, lr_issued = t2,
                 lr_expires = Some (t2 + ttl), lr_status = Active\<rparr>
      in case record_lease_event rt (upsert_lease row d3) (issued_event row score) of
           Inl e \<Rightarrow> Inl e
         | Inr d4 \<Rightarrow> Inr (row, d4))"

definition issue_lease ::
  "runtime \<Rightarrow> lock \<Rightarrow> rat \<Rightarrow> rat \<Rightarrow> string \<Rightarrow> string option \<Rightarrow> string \<Rightarrow> string option \<Rightarrow> int option \<Rightarrow>
     rat \<Rightarrow> pyval option \<Rightarrow> db \<Rightarrow> (store_error + lease_row) \<times> db" where
  "issue_lease rt lk t1 t2 p lease_id worker_class move base ttl score d =
     (if ttl \<le> 0 then (Inl (PyError ValueError), d)
      else write_tx lk (issue_body rt t1 t2 p lease_id worker_class move base ttl score) d)"

definition taken_moves :: "db \<Rightarrow> string \<Rightarrow> string list" where
  "taken_moves d p =
     List.map_filter (\<lambda>r. if lr_proof r = p \<and> lr_status r = Active then lr_move r else None)
       (db_leases d)"

definition dispatch_body ::
  "runtime \<Rightarrow> rat \<Rightarrow> rat \<Rightarrow> string \<Rightarrow> (string \<times> pyval option) list \<Rightarrow> string \<Rightarrow> rat \<Rightarrow>
     db \<Rightarrow> store_error + lease_row option \<times> db" where
  "dispatch_body rt t1 t2 p ranked worker_class ttl d =
     (let d1 = snd (expire_due_leases p t1 d); taken = taken_moves d1 p
      in case List.find (\<lambda>(move, _). move \<notin> set taken) ranked of
           None \<Rightarrow> Inr (None, d1)
         | Some (move, score) \<Rightarrow>
             let token = next_token d1 p;
                 (lid, d2) = next_lease_id d1 p;
                 row = \<lparr>lr_proof = p, lr_id = lid, lr_class = worker_class, lr_move = Some move,
                        lr_token = token, lr_base = int (fst (head d2 p)), lr_ttl = ttl,
                        lr_issued = t2, lr_expires = Some (t2 + ttl), lr_status = Active\<rparr>
             in if find_lease d2 p lid \<noteq> None then Inl IntegrityError
                else case record_lease_event rt (d2\<lparr>db_leases := db_leases d2 @ [row]\<rparr>)
                            (issued_event row score) of
                    Inl e \<Rightarrow> Inl e
                  | Inr d3 \<Rightarrow> Inr (Some row, d3))"

definition dispatch_lease ::
  "runtime \<Rightarrow> lock \<Rightarrow> rat \<Rightarrow> rat \<Rightarrow> string \<Rightarrow> (string \<times> pyval option) list \<Rightarrow> string \<Rightarrow> rat \<Rightarrow>
     db \<Rightarrow> (store_error + lease_row option) \<times> db" where
  "dispatch_lease rt lk t1 t2 p ranked worker_class ttl d =
     (if ttl \<le> 0 then (Inl (PyError ValueError), d)
      else write_tx lk (dispatch_body rt t1 t2 p ranked worker_class ttl) d)"

definition release_body :: "string \<Rightarrow> string \<Rightarrow> db \<Rightarrow> store_error + bool \<times> db" where
  "release_body p lid d =
     (let held = (\<lambda>r. lr_proof r = p \<and> lr_id r = lid \<and> lr_status r = Active)
      in if list_ex held (db_leases d)
         then Inr (True, log_all p [lid] ''released'' (mark held Released d))
         else Inr (False, d))"

definition release_lease :: "lock \<Rightarrow> string \<Rightarrow> string \<Rightarrow> db \<Rightarrow> (store_error + bool) \<times> db" where
  "release_lease lk p lid = write_tx lk (release_body p lid)"

definition active_body :: "rat \<Rightarrow> string \<Rightarrow> db \<Rightarrow> store_error + lease_row list \<times> db" where
  "active_body t1 p d =
     (let d1 = snd (expire_due_leases p t1 d)
      in Inr (filter (\<lambda>r. lr_status r = Active) (leases_of d1 p), d1))"

definition active_leases :: "lock \<Rightarrow> rat \<Rightarrow> string \<Rightarrow> db \<Rightarrow> (store_error + lease_row list) \<times> db" where
  "active_leases lk t1 p = write_tx lk (active_body t1 p)"

text \<open>
  \<^verbatim>\<open>_check_lease\<close>: the proposer's lease must be active and carry its token. The expiry it
  runs first is part of the surrounding transaction.
\<close>

definition check_lease ::
  "rat \<Rightarrow> string \<Rightarrow> string option \<Rightarrow> int option \<Rightarrow> db \<Rightarrow> store_error + db" where
  "check_lease t1 p lease_id token d =
     (let d1 = snd (expire_due_leases p t1 d)
      in case (case lease_id of None \<Rightarrow> None | Some lid \<Rightarrow> find_lease d1 p lid) of
           None \<Rightarrow> Inl (ConcurrencyError LEASE_NOT_HELD)
         | Some r \<Rightarrow>
             if lr_status r \<noteq> Active then Inl (ConcurrencyError LEASE_NOT_HELD)
             else if token \<noteq> Some (int (lr_token r))
               then Inl (ConcurrencyError FENCING_TOKEN_SUPERSEDED)
             else Inr d1)"

section \<open>What every operation keeps\<close>

abbreviation key :: "lease_row \<Rightarrow> string \<times> string" where
  "key r \<equiv> (lr_proof r, lr_id r)"

definition exclusive :: "lease_row set \<Rightarrow> bool" where
  "exclusive R \<longleftrightarrow>
     (\<forall>r \<in> R. \<forall>s \<in> R. lr_status r = Active \<and> lr_status s = Active \<and> lr_proof r = lr_proof s \<and>
        lr_move r = lr_move s \<and> lr_move r \<noteq> None \<longrightarrow> r = s)"

definition leases_ok :: "db \<Rightarrow> bool" where
  "leases_ok d \<longleftrightarrow>
     distinct (map key (db_leases d)) \<and>
     distinct (map (\<lambda>r. (lr_proof r, lr_token r)) (db_leases d)) \<and>
     exclusive (set (db_leases d))"

definition live :: "db \<Rightarrow> string \<Rightarrow> string \<Rightarrow> nat \<Rightarrow> bool" where
  "live d p lid token \<longleftrightarrow>
     (\<exists>r \<in> set (db_leases d). lr_proof r = p \<and> lr_id r = lid \<and> lr_token r = token \<and>
        lr_status r = Active)"

text \<open>
  Tokens never go back, and a lease that is not live under an issued token never is again.
\<close>

definition fenced :: "db \<Rightarrow> db \<Rightarrow> bool" where
  "fenced d d' \<longleftrightarrow>
     (\<forall>p. top_token d p \<le> top_token d' p) \<and>
     (\<forall>p lid token. token \<le> top_token d p \<longrightarrow> live d' p lid token \<longrightarrow> live d p lid token)"

lemma fenced_refl: "fenced d d"
  by (simp add: fenced_def)

lemma fenced_trans: "fenced d d' \<Longrightarrow> fenced d' d'' \<Longrightarrow> fenced d d''"
  unfolding fenced_def by (meson order_trans)

definition safe_change :: "db \<Rightarrow> db \<Rightarrow> bool" where
  "safe_change d d' \<longleftrightarrow> (leases_ok d \<longrightarrow> leases_ok d' \<and> fenced d d')"

lemma safe_refl [simp]: "safe_change d d"
  by (simp add: safe_change_def fenced_refl)

lemma safe_trans: "safe_change d d' \<Longrightarrow> safe_change d' d'' \<Longrightarrow> safe_change d d''"
  unfolding safe_change_def using fenced_trans by blast

lemma top_token_upper:
  "r \<in> set (db_leases d) \<Longrightarrow> lr_proof r = p \<Longrightarrow> lr_token r \<le> top_token d p"
  unfolding top_token_def by (rule foldr_max_upper) (simp add: leases_of_def)

lemma top_token_le:
  "top_token d p \<le> n \<longleftrightarrow> (\<forall>r \<in> set (db_leases d). lr_proof r = p \<longrightarrow> lr_token r \<le> n)"
  by (auto simp: top_token_def foldr_max_le leases_of_def)

lemma same_leases:
  assumes "db_leases d' = db_leases d"
  shows "safe_change d d'" "top_token d' p = top_token d p" "find_lease d' p lid = find_lease d p lid"
  using assms
  by (simp_all add: safe_change_def leases_ok_def fenced_def top_token_def leases_of_def live_def
      find_lease_def)

lemma log_all_leases [simp]: "db_leases (log_all p ids event d) = db_leases d"
  by (simp add: log_all_def)

lemma mark_map:
  "(\<And>r. f (r\<lparr>lr_status := st\<rparr>) = f r) \<Longrightarrow> map f (db_leases (mark P st d)) = map f (db_leases d)"
  by (simp add: mark_def)

lemma mark_active:
  assumes "st \<noteq> Active" "r \<in> set (db_leases (mark P st d))" "lr_status r = Active"
  shows "r \<in> set (db_leases d)" "\<not> P r"
  using assms by (auto simp: mark_def split: if_splits)

lemma mark_safe:
  assumes "st \<noteq> Active"
  shows "safe_change d (mark P st d)"
proof -
  let ?d = "mark P st d"
  have top: "top_token ?d p = top_token d p" for p
  proof -
    let ?f = "\<lambda>r. if P r then r\<lparr>lr_status := st\<rparr> else r"
    have f: "lr_proof (?f r) = lr_proof r" "lr_token (?f r) = lr_token r" for r by simp_all
    have "map lr_token (filter (\<lambda>r. lr_proof r = p) (map ?f xs)) =
        map lr_token (filter (\<lambda>r. lr_proof r = p) xs)" for xs
      by (induction xs) (simp_all only: list.map filter.simps f split: if_split, simp_all)
    then show ?thesis by (simp add: top_token_def leases_of_def mark_def)
  qed
  have "leases_ok ?d" if "leases_ok d"
  proof -
    have "exclusive (set (db_leases ?d))"
      using that mark_active [OF assms] unfolding leases_ok_def exclusive_def by metis
    then show ?thesis using that by (simp add: leases_ok_def mark_map)
  qed
  moreover have "fenced d ?d"
    using mark_active [OF assms] by (auto simp: fenced_def top live_def)
  ultimately show ?thesis by (simp add: safe_change_def)
qed

lemma expire_safe: "safe_change d (snd (expire_due_leases p now d))"
  unfolding expire_due_leases_def Let_def snd_conv
  by (rule safe_trans [OF mark_safe same_leases(1)]) simp_all

lemma supersede_safe: "safe_change d (supersede p lost logged d)"
  unfolding supersede_def Let_def
  by (rule safe_trans [OF mark_safe same_leases(1)]) simp_all

lemma supersede_active:
  assumes "r \<in> set (db_leases (supersede p lost logged d))" "lr_status r = Active"
  shows "r \<in> set (db_leases d)" "lr_proof r = p \<Longrightarrow> \<not> lost r"
  using assms mark_active [of Superseded r _ d] by (fastforce simp: supersede_def Let_def)+

text \<open>The rows after an upsert: the new one, and the others.\<close>

lemma upsert_rows:
  assumes "distinct (map key (db_leases d))"
  shows "mset (db_leases (upsert_lease row d)) =
     mset (row # filter (\<lambda>r. key r \<noteq> key row) (db_leases d))"
proof -
  have replace: "mset (map (\<lambda>r. if key r = k then row else r) xs) =
      (if k \<in> set (map key xs) then {#row#} else {#}) + mset (filter (\<lambda>r. key r \<noteq> k) xs)"
    if "distinct (map key xs)" for xs k
    using that by (induction xs) (auto simp: image_iff)
  show ?thesis
  proof (cases "\<exists>r \<in> set (db_leases d). lr_proof r = lr_proof row \<and> lr_id r = lr_id row")
    case True
    then obtain r where "r \<in> set (db_leases d)" "key row = key r" by auto
    then have "key row \<in> set (map key (db_leases d))" by (simp only: set_map image_eqI)
    then show ?thesis using replace [OF assms, of "key row"] True by (simp add: upsert_lease_def)
  next
    case False
    then have "filter (\<lambda>r. key r \<noteq> key row) (db_leases d) = db_leases d"
      by (auto simp: filter_id_conv)
    then show ?thesis unfolding upsert_lease_def if_not_P [OF False] by simp
  qed
qed

lemma upsert_safe:
  assumes "lr_token row = next_token d (lr_proof row)"
    and "\<And>r. r \<in> set (db_leases d) \<Longrightarrow> lr_status r = Active \<Longrightarrow> lr_proof r = lr_proof row \<Longrightarrow>
          lr_move r = lr_move row \<Longrightarrow> lr_move row \<noteq> None \<Longrightarrow> lr_id r = lr_id row"
  shows "safe_change d (upsert_lease row d)"
  unfolding safe_change_def
proof
  assume ok: "leases_ok d"
  let ?d = "upsert_lease row d" and ?rest = "filter (\<lambda>r. key r \<noteq> key row) (db_leases d)"
  have m: "mset (db_leases ?d) = mset (row # ?rest)"
    using ok by (intro upsert_rows) (simp add: leases_ok_def)
  have rows: "set (db_leases ?d) = insert row (set ?rest)"
    using mset_eq_setD [OF m] by simp
  have old: "r \<in> set (db_leases d) \<Longrightarrow> lr_proof r = lr_proof row \<Longrightarrow> lr_token r < lr_token row" for r
    using top_token_upper [of r d "lr_proof row"] assms(1) by (simp add: next_token_def)
  have "distinct (map key ?rest)" "distinct (map (\<lambda>r. (lr_proof r, lr_token r)) ?rest)"
    using ok by (simp_all add: leases_ok_def distinct_map_filter)
  then have "distinct (map key (row # ?rest))" "distinct (map (\<lambda>r. (lr_proof r, lr_token r)) (row # ?rest))"
    using old by fastforce+
  then have dist: "distinct (map key (db_leases ?d))"
    "distinct (map (\<lambda>r. (lr_proof r, lr_token r)) (db_leases ?d))"
    using distinct_map_mset [OF m] by blast+
  have "exclusive (set (db_leases ?d))"
    unfolding exclusive_def rows
  proof (intro ballI impI)
    fix r s
    assume r: "r \<in> insert row (set ?rest)" and s: "s \<in> insert row (set ?rest)"
      and act: "lr_status r = Active \<and> lr_status s = Active \<and> lr_proof r = lr_proof s \<and>
        lr_move r = lr_move s \<and> lr_move r \<noteq> None"
    have ex: "x = y" if "x \<in> set ?rest" "y \<in> set ?rest" "lr_status x = Active" "lr_status y = Active"
      "lr_proof x = lr_proof y" "lr_move x = lr_move y" "lr_move x \<noteq> None" for x y
      using ok that unfolding leases_ok_def exclusive_def by simp
    have new: "x \<notin> set ?rest" if "lr_status x = Active" "lr_proof x = lr_proof row"
      "lr_move x = lr_move row" "lr_move row \<noteq> None" for x
      using assms(2) that by auto
    have moves: "lr_move s \<noteq> None" "lr_move r \<noteq> None" using act by metis+
    show "r = s"
    proof (cases "r = row")
      case True
      then have "s \<notin> set ?rest" by (intro new) (use act moves in simp_all)
      then show ?thesis using s True by auto
    next
      case r': False
      show ?thesis
      proof (cases "s = row")
        case True
        then have "r \<notin> set ?rest" by (intro new) (use act moves in simp_all)
        then show ?thesis using r r' by auto
      next
        case False
        then have "r \<in> set ?rest" "s \<in> set ?rest" using r r' s by simp_all
        then show ?thesis by (rule ex) (use act moves in simp_all)
      qed
    qed
  qed
  moreover have "fenced d ?d"
    unfolding fenced_def
  proof (intro conjI allI impI)
    fix p show "top_token d p \<le> top_token ?d p"
      unfolding top_token_le
    proof (intro ballI impI)
      fix r assume r: "r \<in> set (db_leases d)" "lr_proof r = p"
      show "lr_token r \<le> top_token ?d p"
      proof (cases "key r = key row")
        case True
        then have "lr_token r < lr_token row" using old r by simp
        moreover have "lr_token row \<le> top_token ?d p"
          using rows True r(2) by (intro top_token_upper) auto
        ultimately show ?thesis by simp
      next
        case False
        then show ?thesis using rows r by (intro top_token_upper) auto
      qed
    qed
  next
    fix p lid token
    assume le: "token \<le> top_token d p" and "live ?d p lid token"
    then obtain r where r: "r \<in> insert row (set ?rest)" "lr_proof r = p" "lr_id r = lid"
      "lr_token r = token" "lr_status r = Active"
      using rows by (auto simp: live_def)
    have "r \<noteq> row" using le r assms(1) by (auto simp: next_token_def)
    then show "live d p lid token" using r by (auto simp: live_def)
  qed
  ultimately show "leases_ok ?d \<and> fenced d ?d" using dist by (simp add: leases_ok_def)
qed

section \<open>The operations are safe\<close>

lemma next_lease_id_leases: "next_lease_id d p = (lid, d') \<Longrightarrow> db_leases d' = db_leases d"
  by (auto simp: next_lease_id_def Let_def)

lemma record_lease_event_leases:
  assumes "record_lease_event rt d e = Inr d'"
  shows "db_leases d' = db_leases d"
proof (cases "le_score e")
  case None
  then have "d' = d\<lparr>db_events := db_events d @ [e]\<rparr>" using assms by (simp add: record_lease_event_def)
  then show ?thesis by simp
next
  case (Some score)
  then have "d' = d\<lparr>db_events := db_events d @ [e\<lparr>le_score := Some (json_norm score)\<rparr>]\<rparr>"
    using assms by (simp add: record_lease_event_def split: sum.splits)
  then show ?thesis by simp
qed

lemma acquire_safe: "acquire_body t1 t2 p lid ttl d = Inr (token, d') \<Longrightarrow> safe_change d d'"
  unfolding acquire_body_def Let_def sum.inject prod.inject
proof (elim conjE)
  let ?d1 = "snd (expire_due_leases p t1 d)"
  let ?d2 = "supersede p (\<lambda>r. lr_id r \<noteq> lid) (\<lambda>r. True) ?d1"
  let ?row = "\<lparr>lr_proof = p, lr_id = lid, lr_class = [], lr_move = None, lr_token = next_token ?d2 p,
    lr_base = int (fst (head ?d2 p)), lr_ttl = ttl, lr_issued = t2,
    lr_expires = if ttl > 0 then Some (t2 + ttl) else None, lr_status = Active\<rparr>"
  assume d': "upsert_lease ?row ?d2\<lparr>db_events := db_events (upsert_lease ?row ?d2) @
      [plain_event p lid ''issued''\<lparr>le_token := Some (next_token ?d2 p)\<rparr>]\<rparr> = d'"
  have "safe_change ?d2 (upsert_lease ?row ?d2)" by (rule upsert_safe) simp_all
  moreover have "safe_change (upsert_lease ?row ?d2) d'"
    by (rule same_leases) (simp add: d' [symmetric])
  ultimately show "safe_change d d'"
    using expire_safe supersede_safe safe_trans by meson
qed

lemma issue_safe:
  assumes "issue_body rt t1 t2 p lease_id c move base ttl score d = Inr (row, d')"
  shows "safe_change d d'"
proof -
  let ?d1 = "snd (expire_due_leases p t1 d)"
  obtain lid d2 where lid: "(case lease_id of None \<Rightarrow> next_lease_id ?d1 p | Some l \<Rightarrow> (l, ?d1)) = (lid, d2)"
    by (cases "case lease_id of None \<Rightarrow> next_lease_id ?d1 p | Some l \<Rightarrow> (l, ?d1)") auto
  then have d2: "db_leases d2 = db_leases ?d1"
    by (cases lease_id) (auto dest: next_lease_id_leases)
  let ?rival = "\<lambda>r. lr_move r = move \<and> lr_id r \<noteq> lid"
  let ?d3 = "if move = None then d2 else supersede p ?rival ?rival d2"
  obtain d4 where d4: "record_lease_event rt (upsert_lease row ?d3) (issued_event row score) = Inr d4"
    and row: "lr_proof row = p" "lr_id row = lid" "lr_move row = move" "lr_token row = next_token ?d3 p"
    and d': "d' = d4"
    using assms lid by (auto simp: issue_body_def Let_def split: sum.splits)
  have "safe_change d2 ?d3" by (simp add: supersede_safe)
  moreover have "safe_change ?d3 (upsert_lease row ?d3)"
  proof (rule upsert_safe)
    fix r assume r: "r \<in> set (db_leases ?d3)" "lr_status r = Active" "lr_proof r = lr_proof row"
      "lr_move r = lr_move row" "lr_move row \<noteq> None"
    then have "move \<noteq> None" using row by simp
    then have "r \<in> set (db_leases (supersede p ?rival ?rival d2))" using r(1) by (simp only: if_False)
    from supersede_active(2) [OF this r(2)] have "\<not> ?rival r" using r(3) row(1) by simp
    then show "lr_id r = lr_id row" using r row by simp
  qed (simp add: row)
  moreover have "safe_change (upsert_lease row ?d3) d'"
    unfolding d' by (rule same_leases) (rule record_lease_event_leases [OF d4])
  moreover have "safe_change ?d1 d2" by (rule same_leases) (rule d2)
  ultimately show ?thesis using expire_safe safe_trans by meson
qed

lemma taken_moves_iff:
  "move \<in> set (taken_moves d p) \<longleftrightarrow>
     (\<exists>r \<in> set (db_leases d). lr_proof r = p \<and> lr_status r = Active \<and> lr_move r = Some move)"
  by (auto simp: taken_moves_def map_filter_member split: if_splits)

lemma find_lease_None:
  "find_lease d p lid = None \<longleftrightarrow>
     (\<forall>r \<in> set (db_leases d). lr_proof r = p \<longrightarrow> lr_id r \<noteq> lid)"
  by (auto simp: find_lease_def find_None_iff)

text \<open>A dispatch that grants a move: what it grants and the state it leaves.\<close>

lemma dispatch_grant:
  assumes "dispatch_body rt t1 t2 p ranked c ttl d = Inr (Some row, d')"
  obtains move where "lr_move row = Some move" "move \<in> fst ` set ranked" "lr_proof row = p"
    "lr_status row = Active" "lr_token row = next_token (snd (expire_due_leases p t1 d)) p"
    "move \<notin> set (taken_moves (snd (expire_due_leases p t1 d)) p)"
    "db_leases d' = db_leases (snd (expire_due_leases p t1 d)) @ [row]"
    "\<forall>r \<in> set (db_leases (snd (expire_due_leases p t1 d))). lr_proof r = p \<longrightarrow> lr_id r \<noteq> lr_id row"
proof -
  let ?d1 = "snd (expire_due_leases p t1 d)"
  obtain move score where f: "List.find (\<lambda>(move, _). move \<notin> set (taken_moves ?d1 p)) ranked = Some (move, score)"
    using assms by (auto simp: dispatch_body_def Let_def split: option.splits)
  then have m: "move \<in> fst ` set ranked" "move \<notin> set (taken_moves ?d1 p)"
    by (auto simp: find_Some_iff in_set_conv_nth image_iff) (metis fst_conv nth_mem)
  obtain lid d2 where n: "next_lease_id ?d1 p = (lid, d2)" by (cases "next_lease_id ?d1 p") auto
  have d2: "db_leases d2 = db_leases ?d1" by (rule next_lease_id_leases [OF n])
  from assms f n have row: "lr_move row = Some move" "lr_proof row = p" "lr_status row = Active"
      "lr_token row = next_token ?d1 p" "lr_id row = lid"
    and none: "find_lease d2 p lid = None"
    and rec: "record_lease_event rt (d2\<lparr>db_leases := db_leases d2 @ [row]\<rparr>) (issued_event row score) = Inr d'"
    by (auto simp: dispatch_body_def Let_def split: sum.splits if_splits)
  show thesis
  proof (rule that [OF row(1) m(1) row(2-4) m(2)])
    show "db_leases d' = db_leases ?d1 @ [row]"
      using record_lease_event_leases [OF rec] d2 by simp
    show "\<forall>r \<in> set (db_leases ?d1). lr_proof r = p \<longrightarrow> lr_id r \<noteq> lr_id row"
      using none d2 row(5) by (simp add: find_lease_None)
  qed
qed

lemma dispatch_safe:
  assumes "dispatch_body rt t1 t2 p ranked c ttl d = Inr (granted, d')"
  shows "safe_change d d'"
proof (cases granted)
  case None
  then have "d' = snd (expire_due_leases p t1 d)"
    using assms
    by (auto simp: dispatch_body_def Let_def split: option.splits prod.splits if_splits sum.splits)
  then show ?thesis using expire_safe by simp
next
  case (Some row)
  let ?d1 = "snd (expire_due_leases p t1 d)"
  from dispatch_grant [OF assms [unfolded Some]] obtain move where g: "lr_move row = Some move"
    "lr_proof row = p" "lr_token row = next_token ?d1 p" "move \<notin> set (taken_moves ?d1 p)"
    "db_leases d' = db_leases ?d1 @ [row]"
    "\<forall>r \<in> set (db_leases ?d1). lr_proof r = p \<longrightarrow> lr_id r \<noteq> lr_id row" by metis
  have "safe_change ?d1 (upsert_lease row ?d1)"
    by (rule upsert_safe) (use g in \<open>auto simp: taken_moves_iff\<close>)
  moreover have "db_leases d' = db_leases (upsert_lease row ?d1)"
    using g by (auto simp: upsert_lease_def)
  then have "safe_change (upsert_lease row ?d1) d'" by (rule same_leases)
  ultimately show ?thesis using expire_safe safe_trans by meson
qed

lemma release_safe: "release_body p lid d = Inr (held, d') \<Longrightarrow> safe_change d d'"
  by (auto simp: release_body_def Let_def split: if_splits
      intro: safe_trans [OF mark_safe same_leases(1)])

lemma active_safe: "active_body t1 p d = Inr (rows, d') \<Longrightarrow> safe_change d d'"
  using expire_safe by (auto simp: active_body_def Let_def)

lemma check_lease_safe: "check_lease t1 p lid token d = Inr d' \<Longrightarrow> safe_change d d'"
  using expire_safe by (auto simp: check_lease_def Let_def split: option.splits if_splits)

lemma tx_safe:
  assumes "\<And>a d'. body d = Inr (a, d') \<Longrightarrow> safe_change d d'" and "write_tx lk body d = (r, d')"
  shows "safe_change d d'"
  using assms(2) by (rule write_tx_cases) (use assms(1) in auto)

end
