(* ===== verification/Journal.thy ===== *)
theory Journal
  imports Leases Ops "HOL-Library.Sublist"
begin

text \<open>
  The append-only journal of \<^verbatim>\<open>src/src/commit_gate/store.py\<close>: the append with its
  compare-and-set on the head revision and its lease check, the hash chain and its
  verification, the rejection log, and the steps of the whole store.
\<close>

section \<open>Reading\<close>

definition read_events :: "db \<Rightarrow> string \<Rightarrow> pyval list" where
  "read_events d p = map jr_payload (events_of d p)"

definition read_chain :: "db \<Rightarrow> string \<Rightarrow> (nat \<times> string \<times> string) list" where
  "read_chain d p = map (\<lambda>r. (jr_revision r, jr_hash r, jr_prev r)) (events_of d p)"

definition read_rejections :: "db \<Rightarrow> string \<Rightarrow> rejection_row list" where
  "read_rejections d p = filter (\<lambda>r. xr_proof r = p) (db_rejections d)"

section \<open>The hash chain\<close>

definition verify_row :: "runtime \<Rightarrow> journal_row \<Rightarrow> store_error + unit" where
  "verify_row rt r =
     (case chain_hash rt (jr_prev r) (jr_payload r) of
        Inl exc \<Rightarrow> Inl (PyError exc)
      | Inr recomputed \<Rightarrow> if recomputed \<noteq> jr_hash r then Inl HashChainError else Inr ())"

fun verify_rows :: "runtime \<Rightarrow> nat \<Rightarrow> string \<Rightarrow> journal_row list \<Rightarrow> store_error + unit" where
  "verify_rows rt expected prev [] = Inr ()"
| "verify_rows rt expected prev (r # rs) =
     (if jr_revision r \<noteq> expected then Inl HashChainError
      else if jr_prev r \<noteq> prev then Inl HashChainError
      else case verify_row rt r of
          Inl e \<Rightarrow> Inl e
        | Inr _ \<Rightarrow> verify_rows rt (expected + 1) (jr_hash r) rs)"

definition verify_chain :: "runtime \<Rightarrow> db \<Rightarrow> string \<Rightarrow> store_error + nat" where
  "verify_chain rt d p =
     (let rows = events_of d p
      in case verify_rows rt 1 GENESIS_HASH rows of Inl e \<Rightarrow> Inl e | Inr _ \<Rightarrow> Inr (length rows))"

section \<open>Append\<close>

definition checked_head :: "runtime \<Rightarrow> db \<Rightarrow> string \<Rightarrow> store_error + nat \<times> string" where
  "checked_head rt d p =
     (case head_row d p of
        None \<Rightarrow> Inr (0, GENESIS_HASH)
      | Some r \<Rightarrow>
          (case verify_row rt r of Inl e \<Rightarrow> Inl e | Inr _ \<Rightarrow> Inr (jr_revision r, jr_hash r)))"

definition insert_event :: "journal_row \<Rightarrow> db \<Rightarrow> store_error + db" where
  "insert_event row d =
     (if \<exists>r \<in> set (db_journal d). jr_proof r = jr_proof row \<and> jr_revision r = jr_revision row \<or>
            jr_hash r = jr_hash row
      then Inl IntegrityError else Inr (d\<lparr>db_journal := db_journal d @ [row]\<rparr>))"

definition chain_event ::
  "runtime \<Rightarrow> string \<Rightarrow> nat \<Rightarrow> string \<Rightarrow> fields \<Rightarrow> db \<Rightarrow> store_error + (nat \<times> string) \<times> db" where
  "chain_event rt p head_revision head_hash payload d =
     (case chain_hash rt head_hash (PDict payload) of
        Inl exc \<Rightarrow> Inl (PyError exc)
      | Inr event_hash \<Rightarrow>
          (case (key_str payload ''actor'', key_str payload ''worker_class'') of
             (Inl exc, _) \<Rightarrow> Inl (PyError exc)
           | (Inr actor, Inl exc) \<Rightarrow> Inl (PyError exc)
           | (Inr actor, Inr worker_class) \<Rightarrow>
               (case insert_event
                       \<lparr>jr_proof = p, jr_revision = head_revision + 1, jr_hash = event_hash,
                        jr_prev = head_hash, jr_actor = actor, jr_class = worker_class,
                        jr_payload = json_norm (PDict payload)\<rparr> d of
                  Inl e \<Rightarrow> Inl e
                | Inr d2 \<Rightarrow> Inr ((head_revision + 1, event_hash), d2))))"

definition append_body ::
  "runtime \<Rightarrow> rat \<Rightarrow> string \<Rightarrow> int option \<Rightarrow> string option \<Rightarrow> int option \<Rightarrow> fields \<Rightarrow>
     db \<Rightarrow> store_error + (nat \<times> string) \<times> db" where
  "append_body rt t1 p base lid token payload d =
     (case checked_head rt d p of
        Inl e \<Rightarrow> Inl e
      | Inr (head_revision, head_hash) \<Rightarrow>
          if base \<noteq> None \<and> base \<noteq> Some (int head_revision)
          then Inl (ConcurrencyError STALE_BASE_REVISION)
          else (case (if lid \<noteq> None \<or> token \<noteq> None then check_lease t1 p lid token d else Inr d) of
                  Inl e \<Rightarrow> Inl e
                | Inr d1 \<Rightarrow> chain_event rt p head_revision head_hash payload d1))"

text \<open>
  A refused append has rolled back the expiry of the dead lease; it is run again in a
  transaction of its own (lock \<open>lk2\<close>, reading \<open>t2\<close>), whose failure is what the caller sees.
\<close>

definition relapse ::
  "lock \<Rightarrow> rat \<Rightarrow> string \<Rightarrow> (store_error + 'a) \<times> db \<Rightarrow> (store_error + 'a) \<times> db" where
  "relapse lk2 t2 p outcome =
     (case outcome of
        (Inl (ConcurrencyError LEASE_NOT_HELD), d) \<Rightarrow>
          (case write_tx lk2 (\<lambda>d. Inr ((), snd (expire_due_leases p t2 d))) d of
             (Inl e, d') \<Rightarrow> (Inl e, d')
           | (Inr _, d') \<Rightarrow> (Inl (ConcurrencyError LEASE_NOT_HELD), d'))
      | _ \<Rightarrow> outcome)"

definition append_event ::
  "runtime \<Rightarrow> lock \<Rightarrow> lock \<Rightarrow> rat \<Rightarrow> rat \<Rightarrow> fields \<Rightarrow> db \<Rightarrow> (store_error + nat \<times> string) \<times> db" where
  "append_event rt lk lk2 t1 t2 payload d =
     (case bind_res (key_str payload ''proof_id'') (\<lambda>p.
            bind_res (get_opt_int payload ''base_revision'') (\<lambda>base.
            bind_res (get_opt_str payload ''lease_id'') (\<lambda>lid.
            bind_res (get_opt_int payload ''fencing_token'') (\<lambda>token. Inr (p, base, lid, token))))) of
        Inl exc \<Rightarrow> (Inl (PyError exc), d)
      | Inr (p, base, lid, token) \<Rightarrow>
          relapse lk2 t2 p (write_tx lk (append_body rt t1 p base lid token payload) d))"

section \<open>Rejections\<close>

definition rejection_body ::
  "runtime \<Rightarrow> string \<Rightarrow> reason \<Rightarrow> fields option \<Rightarrow> db \<Rightarrow> store_error + nat \<times> db" where
  "rejection_body rt p why payload d =
     (let stored = (case payload of
                      None \<Rightarrow> Inr None
                    | Some fs \<Rightarrow>
                        if fs = [] then Inr None
                        else case canonical_json rt (PDict fs) of
                            Inl exc \<Rightarrow> Inl (PyError exc)
                          | Inr _ \<Rightarrow> Inr (Some (json_norm (PDict fs))))
      in case stored of
           Inl e \<Rightarrow> Inl e
         | Inr body \<Rightarrow>
             Inr (length (db_rejections d) + 1,
                  d\<lparr>db_rejections := db_rejections d @
                      [\<lparr>xr_proof = p, xr_reason = why, xr_payload = body\<rparr>]\<rparr>))"

definition record_rejection ::
  "runtime \<Rightarrow> lock \<Rightarrow> string \<Rightarrow> reason \<Rightarrow> fields option \<Rightarrow> db \<Rightarrow> (store_error + nat) \<times> db" where
  "record_rejection rt lk p why payload = write_tx lk (rejection_body rt p why payload)"

section \<open>Verified journals\<close>

lemma verify_rows_snoc:
  "verify_rows rt k prev (rs @ [r]) = Inr () \<longleftrightarrow>
     verify_rows rt k prev rs = Inr () \<and> jr_revision r = k + length rs \<and>
     jr_prev r = (if rs = [] then prev else jr_hash (last rs)) \<and> verify_row rt r = Inr ()"
proof (induction rs arbitrary: k prev)
  case Nil
  then show ?case by (auto split: sum.splits)
next
  case (Cons q rs)
  then show ?case by (cases "verify_row rt q") auto
qed

lemma verify_rows_revisions:
  "verify_rows rt k prev rs = Inr () \<Longrightarrow> i < length rs \<Longrightarrow> jr_revision (rs ! i) = k + i"
proof (induction rs arbitrary: k prev i)
  case (Cons q rs)
  then show ?case by (cases i) (auto split: if_splits sum.splits)
qed simp

definition journal_ok :: "runtime \<Rightarrow> db \<Rightarrow> bool" where
  "journal_ok rt d \<longleftrightarrow> (\<forall>p. verify_rows rt 1 GENESIS_HASH (events_of d p) = Inr ())"

lemma journal_ok_verify:
  "journal_ok rt d \<longleftrightarrow> (\<forall>p. verify_chain rt d p = Inr (length (events_of d p)))"
proof -
  have "verify_rows rt 1 GENESIS_HASH (events_of d p) = Inr () \<longleftrightarrow>
      verify_chain rt d p = Inr (length (events_of d p))" for p
    by (cases "verify_rows rt 1 GENESIS_HASH (events_of d p)") (simp_all add: verify_chain_def Let_def)
  then show ?thesis by (simp add: journal_ok_def)
qed

lemma head_row_last:
  "head_row d p = (if events_of d p = [] then None else Some (last (events_of d p)))"
proof (cases "events_of d p" rule: rev_cases)
  case Nil
  then show ?thesis by (simp add: head_row_def)
next
  case (snoc ys y)
  then show ?thesis by (simp add: head_row_def)
qed

lemma head_revision:
  assumes "journal_ok rt d"
  shows "fst (head d p) = length (events_of d p)"
proof (cases "events_of d p" rule: rev_cases)
  case (snoc rs r)
  then have "verify_rows rt 1 GENESIS_HASH (rs @ [r]) = Inr ()"
    using assms by (metis journal_ok_def)
  then show ?thesis using snoc by (simp add: head_def head_row_last verify_rows_snoc)
qed (simp add: head_def head_row_last)

lemma checked_head_ok:
  assumes "journal_ok rt d"
  shows "checked_head rt d p = Inr (head d p)"
proof (cases "events_of d p" rule: rev_cases)
  case (snoc rs r)
  then have "verify_rows rt 1 GENESIS_HASH (rs @ [r]) = Inr ()"
    using assms by (metis journal_ok_def)
  then show ?thesis
    using snoc by (simp add: checked_head_def head_def head_row_last verify_rows_snoc)
qed (simp add: checked_head_def head_def head_row_last)

lemma sort_key_snoc:
  assumes "\<And>x. x \<in> set xs \<Longrightarrow> f x \<le> f r"
  shows "sort_key f (xs @ [r]) = sort_key f xs @ [r]"
proof (rule properties_for_sort_key)
  show "sorted (map f (sort_key f xs @ [r]))"
    using assms by (auto simp: sorted_append)
  fix k
  have "filter (\<lambda>x. f k = f x) (sort_key f xs) = filter (\<lambda>x. f k = f x) xs"
    using sort_key_stable [of f "f k" xs] by (simp add: eq_commute)
  then show "filter (\<lambda>x. f k = f x) (sort_key f xs @ [r]) = filter (\<lambda>x. f k = f x) (xs @ [r])"
    by simp
qed simp

lemma events_of_insert:
  assumes "insert_event row d = Inr d'"
    and "\<And>r. r \<in> set (events_of d (jr_proof row)) \<Longrightarrow> jr_revision r \<le> jr_revision row"
  shows "events_of d' p = events_of d p @ (if p = jr_proof row then [row] else [])"
proof -
  have d': "db_journal d' = db_journal d @ [row]"
    using assms(1) by (auto simp: insert_event_def split: if_splits)
  show ?thesis
  proof (cases "p = jr_proof row")
    case True
    have "x \<in> set (filter (\<lambda>r. jr_proof r = p) (db_journal d)) \<Longrightarrow> jr_revision x \<le> jr_revision row" for x
      using assms(2) True by (simp add: events_of_def)
    then have "sort_key jr_revision (filter (\<lambda>r. jr_proof r = p) (db_journal d) @ [row]) =
        sort_key jr_revision (filter (\<lambda>r. jr_proof r = p) (db_journal d)) @ [row]"
      by (rule sort_key_snoc)
    then show ?thesis using d' True by (simp add: events_of_def)
  next
    case False
    then show ?thesis using d' by (simp add: events_of_def)
  qed
qed

lemma same_journal: "db_journal d' = db_journal d \<Longrightarrow> events_of d' p = events_of d p"
  by (simp add: events_of_def)

section \<open>What each operation does to the journal\<close>

lemma keeps_journal [simp]:
  "db_journal (mark P st d) = db_journal d"
  "db_journal (log_all p ids event d) = db_journal d"
  "db_journal (upsert_lease row d) = db_journal d"
  "db_journal (snd (expire_due_leases p now d)) = db_journal d"
  "db_journal (supersede p lost logged d) = db_journal d"
  by (simp_all add: mark_def log_all_def upsert_lease_def expire_due_leases_def supersede_def Let_def)

lemma next_lease_id_journal: "next_lease_id d p = (lid, d') \<Longrightarrow> db_journal d' = db_journal d"
  by (auto simp: next_lease_id_def Let_def)

lemma record_lease_event_journal:
  assumes "record_lease_event rt d e = Inr d'"
  shows "db_journal d' = db_journal d"
proof (cases "le_score e")
  case None
  then have "d' = d\<lparr>db_events := db_events d @ [e]\<rparr>" using assms by (simp add: record_lease_event_def)
  then show ?thesis by simp
next
  case (Some score)
  then have "d' = d\<lparr>db_events := db_events d @ [e\<lparr>le_score := Some (json_norm score)\<rparr>]\<rparr>"
    using assms by (simp add: record_lease_event_def split: sum.splits)
  then show ?thesis by simp
qed

lemma lease_bodies_keep_journal:
  "acquire_body t1 t2 p lid ttl d = Inr (token, d') \<Longrightarrow> db_journal d' = db_journal d"
  "release_body p lid d = Inr (held, d') \<Longrightarrow> db_journal d' = db_journal d"
  "active_body t1 p d = Inr (rows, d') \<Longrightarrow> db_journal d' = db_journal d"
  "check_lease t1 p l tok d = Inr d' \<Longrightarrow> db_journal d' = db_journal d"
  by (auto simp: acquire_body_def release_body_def active_body_def check_lease_def Let_def
      split: if_splits option.splits)

lemma issue_keeps_journal:
  assumes "issue_body rt t1 t2 p lease_id c move base ttl score d = Inr (row, d')"
  shows "db_journal d' = db_journal d"
proof -
  let ?d1 = "snd (expire_due_leases p t1 d)"
  obtain lid d2 where lid: "(case lease_id of None \<Rightarrow> next_lease_id ?d1 p | Some l \<Rightarrow> (l, ?d1)) = (lid, d2)"
    by (cases "case lease_id of None \<Rightarrow> next_lease_id ?d1 p | Some l \<Rightarrow> (l, ?d1)") auto
  then have "db_journal d2 = db_journal d"
    by (cases lease_id) (auto dest: next_lease_id_journal)
  moreover obtain d3 row' where "record_lease_event rt (upsert_lease row' d3) (issued_event row' score) = Inr d'"
    "db_journal d3 = db_journal d2"
    using assms lid by (auto simp: issue_body_def Let_def split: sum.splits)
  ultimately show ?thesis using record_lease_event_journal by fastforce
qed

lemma dispatch_keeps_journal:
  assumes "dispatch_body rt t1 t2 p ranked c ttl d = Inr (granted, d')"
  shows "db_journal d' = db_journal d"
proof -
  let ?d1 = "snd (expire_due_leases p t1 d)"
  obtain lid d2 where n: "next_lease_id ?d1 p = (lid, d2)" by (cases "next_lease_id ?d1 p") auto
  have d2: "db_journal d2 = db_journal d" using next_lease_id_journal [OF n] by simp
  show ?thesis
  proof (cases "List.find (\<lambda>(move, _). move \<notin> set (taken_moves ?d1 p)) ranked")
    case None
    then show ?thesis using assms by (auto simp: dispatch_body_def Let_def)
  next
    case (Some ms)
    then obtain row score where
      "record_lease_event rt (d2\<lparr>db_leases := db_leases d2 @ [row]\<rparr>) (issued_event row score) = Inr d'"
      using assms n by (cases ms) (auto simp: dispatch_body_def Let_def split: sum.splits if_splits)
    from record_lease_event_journal [OF this] d2 show ?thesis by simp
  qed
qed

text \<open>A successful append, in full.\<close>

lemma chain_event_success:
  assumes "chain_event rt p hr hh payload d = Inr ((n, h), d')"
  obtains row where "insert_event row d = Inr d'" "n = hr + 1" "jr_proof row = p"
    "jr_revision row = n" "jr_hash row = h" "jr_prev row = hh"
    "jr_payload row = json_norm (PDict payload)" "chain_hash rt hh (PDict payload) = Inr h"
proof (cases "chain_hash rt hh (PDict payload)")
  case (Inl e)
  then show thesis using assms by (simp add: chain_event_def)
next
  case (Inr eh)
  show thesis
  proof (cases "key_str payload ''actor''")
    case (Inl e)
    then show thesis using assms Inr by (simp add: chain_event_def)
  next
    case actor: (Inr actor)
    show thesis
    proof (cases "key_str payload ''worker_class''")
      case (Inl e)
      then show thesis using assms Inr actor by (simp add: chain_event_def)
    next
      case wc: (Inr wc)
      let ?row = "\<lparr>jr_proof = p, jr_revision = hr + 1, jr_hash = eh, jr_prev = hh,
        jr_actor = actor, jr_class = wc, jr_payload = json_norm (PDict payload)\<rparr>"
      have "insert_event ?row d = Inr d' \<and> n = hr + 1 \<and> h = eh"
        using assms Inr actor wc
        by (cases "insert_event ?row d") (simp_all add: chain_event_def del: json_norm.simps)
      then show thesis using that [of ?row] Inr by (simp del: json_norm.simps)
    qed
  qed
qed

lemma append_success:
  assumes ok: "journal_ok rt d" and "append_body rt t1 p base lid token payload d = Inr ((n, h), d')"
  obtains d1 row where
    "n = length (events_of d p) + 1" "base = None \<or> base = Some (int (length (events_of d p)))"
    "if lid \<noteq> None \<or> token \<noteq> None then check_lease t1 p lid token d = Inr d1 else d1 = d"
    "db_leases d' = db_leases d1" "\<And>q. events_of d' q = events_of d q @ (if q = p then [row] else [])"
    "jr_revision row = n" "jr_hash row = h" "jr_prev row = snd (head d p)"
    "jr_payload row = json_norm (PDict payload)" "verify_row rt row = Inr ()"
proof -
  obtain hr hh where hd: "head d p = (hr, hh)" by (cases "head d p") auto
  have hr: "hr = length (events_of d p)" using head_revision [OF ok, of p] hd by simp
  have ch: "checked_head rt d p = Inr (hr, hh)" using checked_head_ok [OF ok] hd by simp
  let ?checked = "if lid \<noteq> None \<or> token \<noteq> None then check_lease t1 p lid token d else Inr d"
  have fresh: "base = None \<or> base = Some (int hr)"
    using assms(2) by (cases "base \<noteq> None \<and> base \<noteq> Some (int hr)") (simp_all add: append_body_def ch)
  then have body: "(case ?checked of Inl e \<Rightarrow> Inl e | Inr d1 \<Rightarrow> chain_event rt p hr hh payload d1) =
      Inr ((n, h), d')"
    using assms(2) by (auto simp: append_body_def ch)
  then obtain d1 where d1: "?checked = Inr d1" and ev: "chain_event rt p hr hh payload d1 = Inr ((n, h), d')"
    by (cases ?checked) auto
  have j1: "db_journal d1 = db_journal d"
    using d1 lease_bodies_keep_journal(4) [of t1 p lid token d d1] by (simp split: if_splits)
  obtain row where row: "insert_event row d1 = Inr d'" "n = hr + 1" "jr_proof row = p"
    "jr_revision row = n" "jr_hash row = h" "jr_prev row = hh"
    "jr_payload row = json_norm (PDict payload)" "chain_hash rt hh (PDict payload) = Inr h"
    by (rule chain_event_success [OF ev])
  have revs: "jr_revision r \<le> hr" if "r \<in> set (events_of d p)" for r
  proof -
    from that obtain i where i: "i < length (events_of d p)" "events_of d p ! i = r"
      by (auto simp: in_set_conv_nth)
    have "verify_rows rt 1 GENESIS_HASH (events_of d p) = Inr ()" using ok by (simp add: journal_ok_def)
    from verify_rows_revisions [OF this i(1)] i hr show ?thesis by simp
  qed
  have ev': "events_of d' q = events_of d1 q @ (if q = jr_proof row then [row] else [])" for q
    using row(1)
  proof (rule events_of_insert)
    fix r assume "r \<in> set (events_of d1 (jr_proof row))"
    then have "jr_revision r \<le> hr" using revs same_journal [OF j1] row(3) by simp
    then show "jr_revision r \<le> jr_revision row" using row(2,4) by simp
  qed
  show thesis
  proof (rule that [of d1 row])
    show "n = length (events_of d p) + 1" using row(2) hr by simp
    show "base = None \<or> base = Some (int (length (events_of d p)))" using fresh hr by simp
    show "if lid \<noteq> None \<or> token \<noteq> None then check_lease t1 p lid token d = Inr d1 else d1 = d"
      using d1 by (cases "lid \<noteq> None \<or> token \<noteq> None") (simp_all only: if_True if_False, simp)
    show "db_leases d' = db_leases d1"
      using row(1) by (auto simp: insert_event_def split: if_splits)
    show "events_of d' q = events_of d q @ (if q = p then [row] else [])" for q
      using ev' [of q] same_journal [OF j1] row(3) by simp
    show "verify_row rt row = Inr ()"
      using row(5-8) by (simp add: verify_row_def chain_hash_norm del: json_norm.simps)
    show "jr_prev row = snd (head d p)" using row(6) hd by simp
  qed (use row in simp_all)
qed

lemma append_keeps_journal_ok:
  assumes ok: "journal_ok rt d" and "append_body rt t1 p base lid token payload d = Inr (a, d')"
  shows "journal_ok rt d'"
  unfolding journal_ok_def
proof
  fix q
  obtain n h where a: "a = (n, h)" by (cases a) auto
  from append_success [OF ok assms(2) [unfolded a]] obtain row where
    r: "n = length (events_of d p) + 1" "\<And>q. events_of d' q = events_of d q @ (if q = p then [row] else [])"
      "jr_revision row = n" "jr_prev row = snd (head d p)" "verify_row rt row = Inr ()" by metis
  have old: "verify_rows rt 1 GENESIS_HASH (events_of d x) = Inr ()" for x
    using ok by (simp add: journal_ok_def)
  show "verify_rows rt 1 GENESIS_HASH (events_of d' q) = Inr ()"
  proof (cases "q = p")
    case True
    have "jr_prev row = (if events_of d p = [] then GENESIS_HASH else jr_hash (last (events_of d p)))"
      by (simp add: r(4) head_def head_row_last)
    then have "verify_rows rt 1 GENESIS_HASH (events_of d p @ [row]) = Inr ()"
      unfolding verify_rows_snoc using old r(1,3,5) by simp
    then show ?thesis using True r(2) by simp
  next
    case False
    then show ?thesis using old r(2) by simp
  qed
qed

section \<open>Steps of the store\<close>

text \<open>
  One call on the store, with whatever lock outcomes, clock readings and arguments.
  Leases, journal and rejection log share the database, so the steps of every caller
  interleave.
\<close>

inductive store_step :: "runtime \<Rightarrow> db \<Rightarrow> db \<Rightarrow> bool" for rt where
  acquire: "acquire_lease lk t1 t2 p lid ttl d = (r, d') \<Longrightarrow> store_step rt d d'"
| issue: "issue_lease rt lk t1 t2 p l c move base ttl score d = (r, d') \<Longrightarrow> store_step rt d d'"
| dispatch: "dispatch_lease rt lk t1 t2 p ranked c ttl d = (r, d') \<Longrightarrow> store_step rt d d'"
| release: "release_lease lk p lid d = (r, d') \<Longrightarrow> store_step rt d d'"
| active: "active_leases lk t1 p d = (r, d') \<Longrightarrow> store_step rt d d'"
| append: "append_event rt lk lk2 t1 t2 payload d = (r, d') \<Longrightarrow> store_step rt d d'"
| reject: "record_rejection rt lk p why body d = (r, d') \<Longrightarrow> store_step rt d d'"

inductive_cases store_stepE: "store_step rt d d'"

definition store_ok :: "runtime \<Rightarrow> db \<Rightarrow> bool" where
  "store_ok rt d \<longleftrightarrow> leases_ok d \<and> journal_ok rt d"

definition store_rel :: "db \<Rightarrow> db \<Rightarrow> bool" where
  "store_rel d d' \<longleftrightarrow> fenced d d' \<and> (\<forall>p. prefix (events_of d p) (events_of d' p))"

lemma lease_change:
  assumes "safe_change d d'" "db_journal d' = db_journal d" "store_ok rt d"
  shows "store_ok rt d' \<and> store_rel d d'"
  using assms same_journal [OF assms(2)]
  by (simp add: store_ok_def store_rel_def safe_change_def journal_ok_def)

lemma tx_change:
  assumes "write_tx lk body d = (r, d')" "store_ok rt d"
    and "\<And>a e. body d = Inr (a, e) \<Longrightarrow> store_ok rt e \<and> store_rel d e"
  shows "store_ok rt d' \<and> store_rel d d'"
  using assms(1)
proof (rule write_tx_cases)
  fix e assume "r = Inl e" "d' = d"
  then show ?thesis using assms(2) by (simp add: store_rel_def fenced_refl)
next
  fix a assume "body d = Inr (a, d')"
  then show ?thesis by (rule assms(3))
qed

lemma append_change:
  assumes "append_body rt t1 p base lid token payload d = Inr (a, d')" "store_ok rt d"
  shows "store_ok rt d' \<and> store_rel d d'"
proof -
  have ok: "journal_ok rt d" "leases_ok d" using assms(2) by (simp_all add: store_ok_def)
  obtain n h where a: "a = (n, h)" by (cases a) auto
  from append_success [OF ok(1) assms(1) [unfolded a]] obtain d1 row where
    r: "if lid \<noteq> None \<or> token \<noteq> None then check_lease t1 p lid token d = Inr d1 else d1 = d"
      "db_leases d' = db_leases d1" "\<And>q. events_of d' q = events_of d q @ (if q = p then [row] else [])"
    by metis
  have "safe_change d d1" using r(1) check_lease_safe by (auto split: if_splits)
  then have "safe_change d d'" using safe_trans same_leases(1) [OF r(2)] by blast
  then show ?thesis
    using ok append_keeps_journal_ok [OF ok(1) assms(1)] r(3)
    by (simp add: store_ok_def store_rel_def safe_change_def)
qed

lemma relapse_cases:
  assumes "relapse lk2 t2 p (r0, d0) = (r, d')"
  shows "d' = d0 \<or> d' = snd (expire_due_leases p t2 d0)"
  using assms by (auto simp: relapse_def write_tx_def split: sum.splits store_error.splits reason.splits if_splits)

lemma store_rel_refl: "store_rel d d"
  by (simp add: store_rel_def fenced_refl)

lemma store_rel_trans: "store_rel d d' \<Longrightarrow> store_rel d' d'' \<Longrightarrow> store_rel d d''"
  unfolding store_rel_def using fenced_trans prefix_order.order_trans by blast

lemma tx_lease_change:
  assumes "write_tx lk body d = (r, d')" "store_ok rt d"
    and "\<And>a e. body d = Inr (a, e) \<Longrightarrow> safe_change d e"
    and "\<And>a e. body d = Inr (a, e) \<Longrightarrow> db_journal e = db_journal d"
  shows "store_ok rt d' \<and> store_rel d d'"
  using tx_change [OF assms(1,2)] lease_change [OF assms(3,4) assms(2)] by blast

lemma relapse_change:
  assumes "relapse lk2 t2 p (write_tx lk (append_body rt t1 p base lid token payload) d) = (r, d')"
    and "store_ok rt d"
  shows "store_ok rt d' \<and> store_rel d d'"
proof -
  obtain r0 d0 where tx: "write_tx lk (append_body rt t1 p base lid token payload) d = (r0, d0)"
    by (cases "write_tx lk (append_body rt t1 p base lid token payload) d") auto
  have 0: "store_ok rt d0 \<and> store_rel d d0"
    using tx_change [OF tx assms(2)] append_change assms(2) by blast
  have "store_ok rt (snd (expire_due_leases p t2 d0)) \<and> store_rel d0 (snd (expire_due_leases p t2 d0))"
    by (rule lease_change [OF expire_safe _ conjunct1 [OF 0]]) simp
  then show ?thesis
    using relapse_cases [OF assms(1) [unfolded tx]] 0 store_rel_trans by blast
qed

lemma step_change: "store_step rt d d' \<Longrightarrow> store_ok rt d \<Longrightarrow> store_ok rt d' \<and> store_rel d d'"
proof (induction rule: store_step.induct)
  case (acquire lk t1 t2 p lid ttl d r d')
  then show ?case
    unfolding acquire_lease_def
    by (intro tx_lease_change [of lk _ d r d']) (auto dest: acquire_safe lease_bodies_keep_journal)
next
  case (issue lk t1 t2 p l c move base ttl score d r d')
  show ?case
  proof (cases "ttl \<le> 0")
    case True
    then show ?thesis using issue by (simp add: issue_lease_def store_rel_refl)
  next
    case False
    then show ?thesis
      using issue unfolding issue_lease_def
      by (intro tx_lease_change [of lk _ d r d']) (auto dest: issue_safe issue_keeps_journal)
  qed
next
  case (dispatch lk t1 t2 p ranked c ttl d r d')
  show ?case
  proof (cases "ttl \<le> 0")
    case True
    then show ?thesis using dispatch by (simp add: dispatch_lease_def store_rel_refl)
  next
    case False
    then show ?thesis
      using dispatch unfolding dispatch_lease_def
      by (intro tx_lease_change [of lk _ d r d']) (auto dest: dispatch_safe dispatch_keeps_journal)
  qed
next
  case (release lk p lid d r d')
  then show ?case
    unfolding release_lease_def
    by (intro tx_lease_change [of lk _ d r d']) (auto dest: release_safe lease_bodies_keep_journal)
next
  case (active lk t1 p d r d')
  then show ?case
    unfolding active_leases_def
    by (intro tx_lease_change [of lk _ d r d']) (auto dest: active_safe lease_bodies_keep_journal)
next
  case (append lk lk2 t1 t2 payload d r d')
  then show ?case
    unfolding append_event_def
    by (auto split: sum.splits prod.splits simp: store_rel_refl dest: relapse_change)
next
  case (reject lk p why body d r d')
  have "safe_change d e \<and> db_journal e = db_journal d" if "rejection_body rt p why body d = Inr (a, e)" for a e
  proof -
    from that obtain rows where "e = d\<lparr>db_rejections := rows\<rparr>"
      by (auto simp: rejection_body_def Let_def split: sum.splits)
    then show ?thesis using same_leases(1) by simp
  qed
  then show ?case
    using reject unfolding record_rejection_def
    by (intro tx_lease_change [of lk _ d r d']) auto
qed

interpretation store: step_system "store_step rt" "store_ok rt" store_rel for rt
  by unfold_locales (use step_change store_rel_refl store_rel_trans in blast)+

lemma empty_store_ok [simp]: "store_ok rt empty_db"
  by (simp add: store_ok_def leases_ok_def exclusive_def journal_ok_def events_of_def empty_db_def)

lemmas steps_ok = store.steps_inv
lemmas steps_related = store.steps_rel

end
