(* ===== verification/StoreSafety.thy ===== *)
theory StoreSafety
  imports Journal
begin

text \<open>
  The properties of the store: what an append may do, what a lease holder can rely on, and
  what every run of the store keeps. Each has an instance on a small concrete run.
\<close>

section \<open>A small run\<close>

text \<open>
  A worker is dispatched to a move; then it appends a proposal under its lease, or the write
  lease is acquired. The demonstration runtime digests a text to its length.
\<close>

definition demo_runtime :: runtime where
  "demo_runtime = \<lparr>rt_sha256 = (\<lambda>s. nat_str (length s)), rt_float = (\<lambda>_. ''0.5'')\<rparr>"

definition demo_proposal :: proposal where
  "demo_proposal =
     \<lparr>prop_proof_id = ''p'', prop_actor = ''a'', prop_worker_class = ''w'', prop_ops = [],
      prop_base_revision = Some 0, prop_lease_id = Some ''p/ls-1'', prop_fencing_token = Some 1\<rparr>"

definition demo_lease :: lease_row where
  "demo_lease =
     \<lparr>lr_proof = ''p'', lr_id = ''p/ls-1'', lr_class = ''w'', lr_move = Some ''m'', lr_token = 1,
      lr_base = 0, lr_ttl = 10, lr_issued = 0, lr_expires = Some 10, lr_status = Active\<rparr>"

definition leased_db :: db where
  "leased_db =
     snd (dispatch_lease demo_runtime uncontended 0 0 ''p'' [(''m'', None)] ''w'' 10 empty_db)"

definition appended_db :: db where
  "appended_db =
     snd (append_event demo_runtime uncontended uncontended 1 1 (proposal_to_dict demo_proposal) leased_db)"

definition guarded_db :: db where
  "guarded_db = snd (acquire_lease uncontended 2 2 ''p'' ''p/maintenance'' 0 leased_db)"

lemma demo_dispatch:
  "dispatch_lease demo_runtime uncontended 0 0 ''p'' [(''m'', None)] ''w'' 10 empty_db =
     (Inr (Some demo_lease), leased_db)"
  by code_simp

lemma demo_append:
  "\<exists>h. append_event demo_runtime uncontended uncontended 1 1 (proposal_to_dict demo_proposal) leased_db =
     (Inr (1, h), appended_db)"
proof -
  have "case fst (append_event demo_runtime uncontended uncontended 1 1
      (proposal_to_dict demo_proposal) leased_db) of Inl _ \<Rightarrow> False | Inr (n, _) \<Rightarrow> n = 1"
    by code_simp
  then show ?thesis
    by (cases "append_event demo_runtime uncontended uncontended 1 1
        (proposal_to_dict demo_proposal) leased_db")
       (auto simp: appended_db_def split: sum.splits)
qed

lemma demo_acquire:
  "acquire_lease uncontended 2 2 ''p'' ''p/maintenance'' 0 leased_db = (Inr 2, guarded_db)"
proof -
  have "next_token (supersede ''p'' (\<lambda>r. lr_id r \<noteq> ''p/maintenance'') (\<lambda>r. True)
      (snd (expire_due_leases ''p'' 2 leased_db))) ''p'' = 2" by code_simp
  then show ?thesis
    by (simp add: guarded_db_def acquire_lease_def write_tx_def uncontended_def acquire_body_def Let_def)
qed

lemma demo_values:
  "read_events leased_db ''p'' = []" "head leased_db ''p'' = (0, GENESIS_HASH)"
  "db_leases leased_db = [demo_lease]" "events_of leased_db ''p'' = []" "db_journal leased_db = []"
  by code_simp+

lemma demo_steps:
  "store_step demo_runtime empty_db leased_db" "store_step demo_runtime leased_db appended_db"
  "store_step demo_runtime leased_db guarded_db"
  using demo_dispatch demo_append demo_acquire store_step.dispatch store_step.append
    store_step.acquire by metis+

lemma demo_ok:
  "store_ok demo_runtime leased_db" "store_ok demo_runtime appended_db" "store_ok demo_runtime guarded_db"
  using demo_steps step_change empty_store_ok by metis+

lemma demo_runs:
  "(store_step demo_runtime)\<^sup>*\<^sup>* leased_db appended_db"
  "(store_step demo_runtime)\<^sup>*\<^sup>* leased_db guarded_db"
  by (rule r_into_rtranclp, rule demo_steps)+

section \<open>Appending a proposal\<close>

lemma append_proposal:
  "append_event rt lk lk2 t1 t2 (proposal_to_dict q) d =
     relapse lk2 t2 (prop_proof_id q)
       (write_tx lk (append_body rt t1 (prop_proof_id q) (prop_base_revision q) (prop_lease_id q)
          (prop_fencing_token q) (proposal_to_dict q)) d)"
  by (simp add: append_event_def)

lemma relapse_Inr [simp]: "relapse lk2 t2 p x = (Inr a, d') \<longleftrightarrow> x = (Inr a, d')"
  by (auto simp: relapse_def write_tx_def split: prod.splits sum.splits store_error.splits
      reason.splits if_splits)

lemma append_proposal_Inr:
  "append_event rt lk lk2 t1 t2 (proposal_to_dict q) d = (Inr a, d') \<longleftrightarrow>
     lk_begin lk \<and> lk_commit lk \<and>
     append_body rt t1 (prop_proof_id q) (prop_base_revision q) (prop_lease_id q)
       (prop_fencing_token q) (proposal_to_dict q) d = Inr (a, d')"
  by (simp add: append_proposal write_tx_Inr)

lemma appended_payloads:
  assumes "store_ok rt d" "append_event rt lk lk2 t1 t2 (proposal_to_dict q) d = (Inr (n, h), d')"
  shows "n = length (read_events d (prop_proof_id q)) + 1"
    and "prop_base_revision q = None \<or>
      prop_base_revision q = Some (int (length (read_events d (prop_proof_id q))))"
    and "read_events d' p = read_events d p @
      (if p = prop_proof_id q then [json_norm (PDict (proposal_to_dict q))] else [])"
    and "head d' (prop_proof_id q) = (n, h)"
proof -
  have ok: "journal_ok rt d" using assms(1) by (simp add: store_ok_def)
  have body: "append_body rt t1 (prop_proof_id q) (prop_base_revision q) (prop_lease_id q)
      (prop_fencing_token q) (proposal_to_dict q) d = Inr ((n, h), d')"
    using assms(2) by (simp add: append_proposal_Inr)
  from append_success [OF ok body] obtain row where
    r: "n = length (events_of d (prop_proof_id q)) + 1"
      "prop_base_revision q = None \<or>
       prop_base_revision q = Some (int (length (events_of d (prop_proof_id q))))"
      "\<And>p. events_of d' p = events_of d p @ (if p = prop_proof_id q then [row] else [])"
      "jr_revision row = n" "jr_hash row = h"
      "jr_payload row = json_norm (PDict (proposal_to_dict q))" by metis
  show "n = length (read_events d (prop_proof_id q)) + 1"
    "prop_base_revision q = None \<or>
      prop_base_revision q = Some (int (length (read_events d (prop_proof_id q))))"
    using r(1,2) by (simp_all add: read_events_def)
  show "read_events d' p = read_events d p @
      (if p = prop_proof_id q then [json_norm (PDict (proposal_to_dict q))] else [])"
    using r(3,6) by (simp add: read_events_def del: json_norm.simps)
  show "head d' (prop_proof_id q) = (n, h)"
    using r(3-5) by (simp add: head_def head_row_last)
qed

lemma grown_events: "store_rel d d' \<Longrightarrow> prefix (read_events d p) (read_events d' p)"
  by (simp add: store_rel_def read_events_def map_mono_prefix)

section \<open>The journal\<close>

text \<open>C5. An append succeeds only on the revision its proposal was based on, and then the
  journal of its proof grows by exactly the proposal, at the next revision, and no other
  journal changes.\<close>

theorem append_compares_and_sets:
  assumes "store_ok rt d" "append_event rt lk lk2 t1 t2 (proposal_to_dict q) d = (Inr (n, h), d')"
  shows "n = fst (head d (prop_proof_id q)) + 1 \<and>
     prop_base_revision q \<in> {None, Some (int (fst (head d (prop_proof_id q))))} \<and>
     head d' (prop_proof_id q) = (n, h) \<and>
     (\<forall>p. read_events d' p = read_events d p @
        (if p = prop_proof_id q then [json_norm (PDict (proposal_to_dict q))] else []))"
proof -
  have "fst (head d (prop_proof_id q)) = length (read_events d (prop_proof_id q))"
    using head_revision [of rt d] assms(1) by (simp add: store_ok_def read_events_def)
  then show ?thesis using appended_payloads [OF assms] by (auto simp del: json_norm.simps)
qed

theorem append_compares_and_sets_witness:
  "fst (head appended_db ''p'') = 1 \<and>
   read_events appended_db ''p'' = [json_norm (PDict (proposal_to_dict demo_proposal))]"
proof -
  obtain h where "append_event demo_runtime uncontended uncontended 1 1
      (proposal_to_dict demo_proposal) leased_db = (Inr (1, h), appended_db)"
    using demo_append by blast
  from append_compares_and_sets [OF demo_ok(1) this] demo_values(1,2) show ?thesis
    by (simp add: demo_proposal_def del: json_norm.simps)
qed

text \<open>Of two appends based on the same revision of a proof, the one that comes later fails,
  whatever happens between them.\<close>

lemma one_append_per_revision:
  assumes "store_ok rt d0"
    and "append_event rt lk lk2 t1 t2 (proposal_to_dict q) d0 = (Inr a, d1)"
    and "(store_step rt)\<^sup>*\<^sup>* d1 d2"
    and "prop_proof_id q' = prop_proof_id q" "prop_base_revision q' = prop_base_revision q"
    and "prop_base_revision q \<noteq> None"
  shows "\<exists>e. fst (append_event rt lk' lk2' t1' t2' (proposal_to_dict q') d2) = Inl e"
proof (rule ccontr)
  let ?p = "prop_proof_id q"
  assume "\<nexists>e. fst (append_event rt lk' lk2' t1' t2' (proposal_to_dict q') d2) = Inl e"
  then obtain b d3 where b: "append_event rt lk' lk2' t1' t2' (proposal_to_dict q') d2 = (Inr b, d3)"
    by (metis prod.collapse sum.exhaust)
  obtain n h m g where ab: "a = (n, h)" "b = (m, g)" by (cases a, cases b)
  have 1: "store_ok rt d1" using assms(1,2) step_change store_step.append by metis
  then have 2: "store_ok rt d2" by (rule steps_ok [OF assms(3)])
  have "length (read_events d0 ?p) < length (read_events d1 ?p)"
    using appended_payloads(3) [OF assms(1) assms(2) [unfolded ab(1)], of ?p] by simp
  also have "\<dots> \<le> length (read_events d2 ?p)"
    by (rule prefix_length_le [OF grown_events [OF steps_related [OF assms(3) 1]]])
  also have "\<dots> = length (read_events d0 ?p)"
    using appended_payloads(2) [OF assms(1) assms(2) [unfolded ab(1)]]
      appended_payloads(2) [OF 2 b [unfolded ab(2)]] assms(4-6) by auto
  finally show False by simp
qed

lemma one_append_per_revision_witness:
  "\<exists>e. fst (append_event demo_runtime uncontended uncontended 3 3 (proposal_to_dict demo_proposal)
     appended_db) = Inl e"
proof -
  obtain a where "append_event demo_runtime uncontended uncontended 1 1
      (proposal_to_dict demo_proposal) leased_db = (Inr a, appended_db)"
    using demo_append by blast
  from one_append_per_revision [OF demo_ok(1) this rtranclp.rtrancl_refl refl refl] show ?thesis
    by (simp add: demo_proposal_def)
qed

text \<open>C6. Whatever calls are made on it, the journal of a proof only grows at its end, and
  stays a verified hash chain of consecutive revisions.\<close>

theorem journal_is_append_only:
  assumes "store_ok rt d" "(store_step rt)\<^sup>*\<^sup>* d d'"
  shows "prefix (read_events d p) (read_events d' p) \<and>
     verify_chain rt d' p = Inr (length (read_events d' p))"
proof
  show "prefix (read_events d p) (read_events d' p)"
    by (rule grown_events [OF steps_related [OF assms(2,1)]])
  have "journal_ok rt d'" using steps_ok [OF assms(2,1)] by (simp add: store_ok_def)
  then show "verify_chain rt d' p = Inr (length (read_events d' p))"
    by (simp add: journal_ok_verify read_events_def)
qed

theorem journal_is_append_only_witness:
  "prefix (read_events leased_db ''p'') (read_events appended_db ''p'') \<and>
   verify_chain demo_runtime appended_db ''p'' = Inr (length (read_events appended_db ''p''))"
  by (rule journal_is_append_only [OF demo_ok(1) demo_runs(1)])

text \<open>
  What a verified chain binds: the payloads of a journal are determined by the hash at its
  head, up to two entries with different contents on which \<open>chain_hash\<close> gives the same digest.
\<close>

definition collide :: "runtime \<Rightarrow> journal_row \<Rightarrow> journal_row \<Rightarrow> bool" where
  "collide rt r q \<longleftrightarrow>
     (jr_prev r, json_norm (jr_payload r)) \<noteq> (jr_prev q, json_norm (jr_payload q)) \<and>
     (\<exists>h. chain_hash rt (jr_prev r) (jr_payload r) = Inr h \<and> chain_hash rt (jr_prev q) (jr_payload q) = Inr h)"

lemma verify_row_hash: "verify_row rt r = Inr () \<longleftrightarrow> chain_hash rt (jr_prev r) (jr_payload r) = Inr (jr_hash r)"
  by (auto simp: verify_row_def split: sum.splits)

lemma chain_binds:
  assumes "verify_rows rt 1 g rs = Inr ()" "verify_rows rt 1 g qs = Inr ()" "length rs = length qs"
    and "rs \<noteq> [] \<Longrightarrow> jr_hash (last rs) = jr_hash (last qs)"
    and "\<And>r q. r \<in> set rs \<Longrightarrow> q \<in> set qs \<Longrightarrow> \<not> collide rt r q"
  shows "map (\<lambda>r. json_norm (jr_payload r)) rs = map (\<lambda>r. json_norm (jr_payload r)) qs"
  using assms
proof (induction rs arbitrary: qs rule: rev_induct)
  case (snoc r rs)
  then obtain q qs' where qs: "qs = qs' @ [q]" by (cases qs rule: rev_cases) auto
  have "jr_hash r = jr_hash q" "\<not> collide rt r q" using snoc.prems(4,5) unfolding qs by auto
  moreover have "chain_hash rt (jr_prev r) (jr_payload r) = Inr (jr_hash r)"
    "chain_hash rt (jr_prev q) (jr_payload q) = Inr (jr_hash q)"
    using snoc.prems(1,2) unfolding qs verify_rows_snoc verify_row_hash by blast+
  ultimately have same: "jr_prev r = jr_prev q" "json_norm (jr_payload r) = json_norm (jr_payload q)"
    unfolding collide_def by auto
  have "map (\<lambda>r. json_norm (jr_payload r)) rs = map (\<lambda>r. json_norm (jr_payload r)) qs'"
  proof (rule snoc.IH)
    show "verify_rows rt 1 g rs = Inr ()" "verify_rows rt 1 g qs' = Inr ()" "length rs = length qs'"
      using snoc.prems unfolding qs verify_rows_snoc by simp_all
    show "x \<in> set rs \<Longrightarrow> y \<in> set qs' \<Longrightarrow> \<not> collide rt x y" for x y
      using snoc.prems(5) unfolding qs by simp
    assume "rs \<noteq> []"
    moreover from this have "qs' \<noteq> []" using snoc.prems(3) qs by auto
    ultimately show "jr_hash (last rs) = jr_hash (last qs')"
      using snoc.prems(1,2) same(1) unfolding qs verify_rows_snoc by simp
  qed
  then show ?case using same(2) by (simp add: qs)
qed simp

text \<open>C19. Two journals of a proof that both verify, with the same number of events and the
  same hash at the head, hold the same payloads, or there is an entry of each with different
  predecessor or payload on which the chain hash, computed from their contents, collides: no past event
  can be edited, dropped or reordered under the same head without a collision of the digest.\<close>

theorem chain_detects_tampering:
  assumes "verify_chain rt d p = Inr n" "verify_chain rt d' p = Inr n"
    and "snd (head d p) = snd (head d' p)"
  shows "map json_norm (read_events d p) = map json_norm (read_events d' p) \<or>
     (\<exists>r \<in> set (events_of d p). \<exists>q \<in> set (events_of d' p). collide rt r q)"
proof (rule disjCI)
  have v: "verify_rows rt 1 GENESIS_HASH (events_of e p) = Inr () \<and> length (events_of e p) = n"
    if "verify_chain rt e p = Inr n" for e
    using that by (auto simp: verify_chain_def Let_def split: sum.splits)
  have h: "events_of d p \<noteq> [] \<Longrightarrow> jr_hash (last (events_of d p)) = jr_hash (last (events_of d' p))"
    using v [OF assms(1)] v [OF assms(2)] assms(3) by (auto simp: head_def head_row_last)
  assume "\<not> (\<exists>r \<in> set (events_of d p). \<exists>q \<in> set (events_of d' p). collide rt r q)"
  then have "map (\<lambda>r. json_norm (jr_payload r)) (events_of d p) =
      map (\<lambda>r. json_norm (jr_payload r)) (events_of d' p)"
    using v [OF assms(1)] v [OF assms(2)]
    by (intro chain_binds [of rt GENESIS_HASH, OF _ _ _ h]) auto
  then show "map json_norm (read_events d p) = map json_norm (read_events d' p)"
    by (simp add: read_events_def comp_def)
qed

theorem chain_detects_tampering_witness:
  "map json_norm (read_events appended_db ''p'') =
     map json_norm (read_events (appended_db\<lparr>db_leases := []\<rparr>) ''p'') \<and>
   verify_chain demo_runtime appended_db ''p'' = Inr 1"
proof -
  let ?d = "appended_db\<lparr>db_leases := []\<rparr>"
  have same: "events_of ?d ''p'' = events_of appended_db ''p''" "head ?d ''p'' = head appended_db ''p''"
    by (simp_all add: events_of_def head_def head_row_def)
  obtain h where "append_event demo_runtime uncontended uncontended 1 1
      (proposal_to_dict demo_proposal) leased_db = (Inr (1, h), appended_db)"
    using demo_append by blast
  from appended_payloads(3) [OF demo_ok(1) this, of "''p''"]
  have "length (read_events appended_db ''p'') = 1"
    by (simp add: demo_values(1) demo_proposal_def del: json_norm.simps)
  then have "length (events_of appended_db ''p'') = 1" by (simp add: read_events_def)
  then obtain row where row: "events_of appended_db ''p'' = [row]" by (auto simp: length_Suc_conv)
  have ok: "verify_chain demo_runtime appended_db ''p'' = Inr 1"
    using demo_ok(2) row by (simp add: store_ok_def journal_ok_verify)
  then have "verify_chain demo_runtime ?d ''p'' = Inr 1" by (simp add: verify_chain_def same)
  from chain_detects_tampering [OF ok this] same have
    "map json_norm (read_events appended_db ''p'') = map json_norm (read_events ?d ''p'')"
    by (auto simp: row collide_def)
  with ok show ?thesis by blast
qed

section \<open>Leases\<close>

text \<open>A call that grants the lease \<open>lid\<close> on a proof under a fencing token.\<close>

inductive grant :: "runtime \<Rightarrow> string \<Rightarrow> string \<Rightarrow> nat \<Rightarrow> db \<Rightarrow> db \<Rightarrow> bool" for rt where
  acquired: "acquire_lease lk t1 t2 p lid ttl d = (Inr token, d') \<Longrightarrow> grant rt p lid token d d'"
| issued: "issue_lease rt lk t1 t2 p l c move base ttl score d = (Inr row, d') \<Longrightarrow>
    grant rt p (lr_id row) (lr_token row) d d'"
| dispatched: "dispatch_lease rt lk t1 t2 p ranked c ttl d = (Inr (Some row), d') \<Longrightarrow>
    grant rt p (lr_id row) (lr_token row) d d'"

lemma grant_step: "grant rt p lid token d d' \<Longrightarrow> store_step rt d d'"
  by (induction rule: grant.induct) (auto intro: store_step.intros)

lemma acquire_grant:
  assumes "acquire_body t1 t2 p lid ttl d = Inr (token, d')"
  obtains row where "lr_proof row = p" "lr_id row = lid" "lr_token row = token"
    "token = next_token (supersede p (\<lambda>r. lr_id r \<noteq> lid) (\<lambda>r. True) (snd (expire_due_leases p t1 d))) p"
    "db_leases d' = db_leases (upsert_lease row
       (supersede p (\<lambda>r. lr_id r \<noteq> lid) (\<lambda>r. True) (snd (expire_due_leases p t1 d))))"
proof -
  let ?m = "supersede p (\<lambda>r. lr_id r \<noteq> lid) (\<lambda>r. True) (snd (expire_due_leases p t1 d))"
  let ?row = "\<lparr>lr_proof = p, lr_id = lid, lr_class = [], lr_move = None, lr_token = next_token ?m p,
    lr_base = int (fst (head ?m p)), lr_ttl = ttl, lr_issued = t2,
    lr_expires = (if ttl > 0 then Some (t2 + ttl) else None), lr_status = Active\<rparr>"
  have t: "token = next_token ?m p" and d': "d' = (upsert_lease ?row ?m)\<lparr>db_events :=
      db_events (upsert_lease ?row ?m) @ [(plain_event p lid ''issued'')\<lparr>le_token := Some (next_token ?m p)\<rparr>]\<rparr>"
    using assms unfolding acquire_body_def Let_def sum.inject prod.inject by blast+
  show thesis
  proof (rule that [of ?row])
    show "db_leases d' = db_leases (upsert_lease ?row ?m)" unfolding d' by simp
  qed (simp_all add: t)
qed

lemma upsert_member: "row \<in> set (db_leases (upsert_lease row d))"
  by (auto simp: upsert_lease_def image_iff)

text \<open>Each of the three stores its row with the next token after changes that keep the top.\<close>

lemma granted_row:
  assumes "grant rt p lid token d d'"
  obtains row m where "safe_change d m" "lr_proof row = p" "lr_token row = token"
    "token = next_token m p" "row \<in> set (db_leases d')"
  using assms
proof cases
  case (acquired lk t1 t2 ttl)
  then have "acquire_body t1 t2 p lid ttl d = Inr (token, d')"
    by (simp add: acquire_lease_def write_tx_Inr)
  from acquire_grant [OF this] show thesis
    using that [OF safe_trans [OF expire_safe supersede_safe]] upsert_member by metis
next
  case (issued lk t1 t2 l c move base ttl score row)
  from issued have b: "issue_body rt t1 t2 p l c move base ttl score d = Inr (row, d')"
    by (simp add: issue_lease_def write_tx_Inr split: if_splits)
  let ?d1 = "snd (expire_due_leases p t1 d)"
  obtain li d2 where lid: "(case l of None \<Rightarrow> next_lease_id ?d1 p | Some i \<Rightarrow> (i, ?d1)) = (li, d2)"
    by (cases "case l of None \<Rightarrow> next_lease_id ?d1 p | Some i \<Rightarrow> (i, ?d1)") auto
  then have d2: "db_leases d2 = db_leases ?d1" by (cases l) (auto dest: next_lease_id_leases)
  let ?rival = "\<lambda>r. lr_move r = move \<and> lr_id r \<noteq> li"
  let ?m = "if move = None then d2 else supersede p ?rival ?rival d2"
  have r: "lr_proof row = p" "lr_token row = next_token ?m p"
    "record_lease_event rt (upsert_lease row ?m) (issued_event row score) = Inr d'"
    using b lid by (auto simp: issue_body_def Let_def split: sum.splits)
  have "safe_change d d2" by (rule safe_trans [OF expire_safe same_leases(1) [OF d2]])
  moreover have "safe_change d2 ?m" by (simp add: supersede_safe)
  ultimately have safe: "safe_change d ?m" by (rule safe_trans)
  have row: "row \<in> set (db_leases d')"
    unfolding record_lease_event_leases [OF r(3)] by (rule upsert_member)
  have "token = next_token ?m p" using issued(2) r(2) by metis
  then show thesis by (rule that [OF safe r(1) issued(2) [symmetric] _ row])
next
  case (dispatched lk t1 t2 ranked c ttl row)
  from dispatched have "dispatch_body rt t1 t2 p ranked c ttl d = Inr (Some row, d')"
    by (simp add: dispatch_lease_def write_tx_Inr split: if_splits)
  from dispatch_grant [OF this] have g: "lr_proof row = p"
    "lr_token row = next_token (snd (expire_due_leases p t1 d)) p" "row \<in> set (db_leases d')"
    by (metis, metis, metis in_set_conv_decomp)
  show thesis
    by (rule that [OF expire_safe g(1) dispatched(2) [symmetric] _ g(3)])
       (rule trans [OF dispatched(2) g(2)])
qed

lemma granted_token:
  assumes "grant rt p lid token d d'" "leases_ok d"
  shows "top_token d p < token" "token \<le> top_token d' p"
proof -
  obtain row m where r: "safe_change d m" "lr_proof row = p" "lr_token row = token"
    "token = next_token m p" "row \<in> set (db_leases d')"
    using granted_row [OF assms(1)] .
  have "top_token d p \<le> top_token m p" using r(1) assms(2) by (simp add: safe_change_def fenced_def)
  then show "top_token d p < token" using r(4) by (simp add: next_token_def)
  show "token \<le> top_token d' p" using top_token_upper [OF r(5,2)] r(3) by simp
qed

text \<open>C20. Fencing tokens of a proof strictly increase: a later grant has a larger token than
  an earlier one, whatever happens in between.\<close>

theorem tokens_strictly_increase:
  assumes "store_ok rt d" "grant rt p lid token d d1" "(store_step rt)\<^sup>*\<^sup>* d1 d2"
    and "grant rt p lid' token' d2 d3"
  shows "token < token'"
proof -
  have ok: "store_ok rt d1" using step_change grant_step assms(1,2) by metis
  then have "leases_ok d2" "top_token d1 p \<le> top_token d2 p"
    using steps_ok [OF assms(3)] steps_related [OF assms(3)]
    by (simp_all add: store_ok_def store_rel_def fenced_def)
  then show ?thesis
    using granted_token(2) [OF assms(2)] granted_token(1) [OF assms(4)] assms(1)
    by (simp add: store_ok_def)
qed

theorem tokens_strictly_increase_witness: "lr_token demo_lease < 2"
  by (rule tokens_strictly_increase [OF empty_store_ok grant.dispatched [OF demo_dispatch]
        rtranclp.rtrancl_refl grant.acquired [OF demo_acquire]])

lemma unexpired_rows:
  assumes "r \<in> set (db_leases (snd (expire_due_leases p now d)))" "lr_status r = Active" "lr_proof r = p"
  shows "r \<in> set (db_leases d)" "\<not> due p now r"
proof -
  have "r \<in> set (db_leases (mark (\<lambda>r. lr_proof r = p \<and>
      lr_id r \<in> set (map lr_id (filter (due p now) (db_leases d)))) Expired d))"
    using assms(1) by (simp add: expire_due_leases_def Let_def)
  from mark_active [OF _ this assms(2)] show "r \<in> set (db_leases d)" "\<not> due p now r"
    using assms(3) by auto
qed

text \<open>The check of an append accepts exactly a live lease under its token.\<close>

lemma check_lease_live:
  assumes "check_lease t1 p lease_id token d = Inr d'"
  obtains r where "r \<in> set (db_leases d)" "lr_proof r = p" "lease_id = Some (lr_id r)"
    "token = Some (int (lr_token r))" "is_live r t1"
proof -
  let ?d1 = "snd (expire_due_leases p t1 d)"
  obtain lid r where lid: "lease_id = Some lid" and f: "find_lease ?d1 p lid = Some r"
    and a: "lr_status r = Active" "token = Some (int (lr_token r))"
    using assms by (auto simp: check_lease_def Let_def split: option.splits if_splits)
  from f have r: "r \<in> set (db_leases ?d1)" "lr_proof r = p" "lr_id r = lid"
    by (auto simp: find_lease_def find_Some_iff)
  note d = unexpired_rows [OF r(1) a(1) r(2)]
  then have "is_live r t1" using a(1) r(2) by (auto simp: is_live_def due_def split: option.splits)
  then show thesis using that d(1) r lid a(2) by simp
qed

lemma append_checked:
  assumes "append_event rt lk lk2 t1 t2 (proposal_to_dict q) d = (Inr a, d')"
    and "prop_lease_id q \<noteq> None \<or> prop_fencing_token q \<noteq> None"
  obtains d1 where "check_lease t1 (prop_proof_id q) (prop_lease_id q) (prop_fencing_token q) d = Inr d1"
  using assms by (auto simp: append_proposal_Inr append_body_def split: sum.splits if_splits)

text \<open>An append that names a lease or a token succeeds only for a lease of its proof that
  is active and not past its expiry at the time of the check, under that lease's token.\<close>

lemma append_needs_live_lease:
  assumes "append_event rt lk lk2 t1 t2 (proposal_to_dict q) d = (Inr a, d')"
    and "prop_lease_id q \<noteq> None \<or> prop_fencing_token q \<noteq> None"
  shows "\<exists>r \<in> set (db_leases d). lr_proof r = prop_proof_id q \<and> prop_lease_id q = Some (lr_id r) \<and>
     prop_fencing_token q = Some (int (lr_token r)) \<and> is_live r t1"
proof -
  obtain d1 where "check_lease t1 (prop_proof_id q) (prop_lease_id q) (prop_fencing_token q) d = Inr d1"
    using append_checked [OF assms] .
  then show ?thesis by (rule check_lease_live) auto
qed

lemma append_needs_live_lease_witness:
  "\<exists>r \<in> set (db_leases leased_db). Some 1 = Some (int (lr_token r)) \<and> is_live r 1"
proof -
  obtain a where "append_event demo_runtime uncontended uncontended 1 1
      (proposal_to_dict demo_proposal) leased_db = (Inr a, appended_db)"
    using demo_append by blast
  from append_needs_live_lease [OF this] show ?thesis by (auto simp: demo_proposal_def)
qed

lemma dead_lease_refused:
  assumes "store_ok rt d" "\<not> live d p lid token" "token \<le> top_token d p" "(store_step rt)\<^sup>*\<^sup>* d d'"
    and "prop_proof_id q = p" "prop_lease_id q = Some lid" "prop_fencing_token q = Some (int token)"
  shows "\<exists>e. fst (append_event rt lk lk2 t1 t2 (proposal_to_dict q) d') = Inl e"
proof (rule ccontr)
  assume "\<nexists>e. fst (append_event rt lk lk2 t1 t2 (proposal_to_dict q) d') = Inl e"
  then obtain a d'' where "append_event rt lk lk2 t1 t2 (proposal_to_dict q) d' = (Inr a, d'')"
    by (metis prod.collapse sum.exhaust)
  from append_checked [OF this] assms(5-7) obtain d1 where
    "check_lease t1 p (Some lid) (Some (int token)) d' = Inr d1" by auto
  then have "live d' p lid token"
    by (rule check_lease_live) (auto simp: live_def is_live_def)
  then show False
    using steps_related [OF assms(4,1)] assms(2,3) by (simp add: store_rel_def fenced_def)
qed

text \<open>C7. Once a granted lease is no longer live under its token (expired, released,
  superseded or issued again), no later append under that lease and token succeeds.\<close>

theorem dead_leases_stay_dead:
  assumes "store_ok rt d0" "grant rt p lid token d0 d1" "(store_step rt)\<^sup>*\<^sup>* d1 d2"
    and "\<not> live d2 p lid token" "(store_step rt)\<^sup>*\<^sup>* d2 d3"
    and "prop_proof_id q = p" "prop_lease_id q = Some lid" "prop_fencing_token q = Some (int token)"
  shows "\<exists>e. fst (append_event rt lk lk2 t1 t2 (proposal_to_dict q) d3) = Inl e"
proof -
  have 1: "store_ok rt d1" using step_change grant_step assms(1,2) by metis
  have "token \<le> top_token d1 p" using granted_token(2) [OF assms(2)] assms(1) by (simp add: store_ok_def)
  also have "\<dots> \<le> top_token d2 p"
    using steps_related [OF assms(3) 1] by (simp add: store_rel_def fenced_def)
  finally have "token \<le> top_token d2 p" .
  with steps_ok [OF assms(3) 1] assms(4-8) show ?thesis by (intro dead_lease_refused)
qed

theorem dead_leases_stay_dead_witness:
  "\<exists>e. fst (append_event demo_runtime uncontended uncontended 3 3 (proposal_to_dict demo_proposal)
     guarded_db) = Inl e"
proof -
  have "\<not> list_ex (\<lambda>r. lr_id r = ''p/ls-1'' \<and> lr_status r = Active) (db_leases guarded_db)"
    by code_simp
  then have "\<not> live guarded_db ''p'' ''p/ls-1'' 1" by (auto simp: live_def list_ex_iff)
  moreover have "grant demo_runtime ''p'' ''p/ls-1'' 1 empty_db leased_db"
    using grant.dispatched [OF demo_dispatch] by (simp add: demo_lease_def)
  ultimately show ?thesis
    using dead_leases_stay_dead [OF empty_store_ok _ demo_runs(2) _
        rtranclp.rtrancl_refl] by (auto simp: demo_proposal_def)
qed

text \<open>After the write lease of a proof is acquired, every lease of the proof granted before
  is dead: no append under an older token succeeds any more.\<close>

lemma write_lease_excludes_others:
  assumes "store_ok rt d0" "acquire_lease lk t1 t2 p lid ttl d0 = (Inr token, d1)"
    and "(store_step rt)\<^sup>*\<^sup>* d1 d2" "prop_proof_id q = p"
    and "prop_lease_id q = Some lid'" "prop_fencing_token q = Some (int older)" "older < token"
  shows "\<exists>e. fst (append_event rt lk' lk2 t1' t2' (proposal_to_dict q) d2) = Inl e"
proof (rule dead_lease_refused [OF _ _ _ assms(3-6)])
  have g: "grant rt p lid token d0 d1" by (rule grant.acquired) (rule assms(2))
  then show "store_ok rt d1" using step_change grant_step assms(1) by metis
  show "older \<le> top_token d1 p"
    using granted_token(2) [OF g] assms(1,7) by (simp add: store_ok_def)
  have "lr_token r = token" if r: "r \<in> set (db_leases d1)" "lr_proof r = p" "lr_status r = Active" for r
  proof -
    let ?m = "supersede p (\<lambda>r. lr_id r \<noteq> lid) (\<lambda>r. True) (snd (expire_due_leases p t1 d0))"
    from assms(2) have "acquire_body t1 t2 p lid ttl d0 = Inr (token, d1)"
      by (simp add: acquire_lease_def write_tx_Inr)
    from acquire_grant [OF this] obtain row where row: "lr_proof row = p" "lr_id row = lid"
      "lr_token row = token" "db_leases d1 = db_leases (upsert_lease row ?m)" by metis
    show ?thesis
    proof (rule ccontr)
      assume "lr_token r \<noteq> token"
      then have "r \<in> set (db_leases ?m)" "lr_id r \<noteq> lid"
        using r(1,2) row by (auto simp: upsert_lease_def split: if_splits)
      with supersede_active(2) [OF this(1) r(3,2)] show False by simp
    qed
  qed
  then show "\<not> live d1 p lid' older" using assms(7) by (fastforce simp: live_def)
qed

lemma write_lease_excludes_others_witness:
  "\<exists>e. fst (append_event demo_runtime uncontended uncontended 4 4 (proposal_to_dict demo_proposal)
     guarded_db) = Inl e"
  by (rule write_lease_excludes_others [where lid' = "''p/ls-1''" and older = 1,
        OF demo_ok(1) demo_acquire rtranclp.rtrancl_refl])
     (simp_all add: demo_proposal_def)

section \<open>Dispatch\<close>

text \<open>A move is held at a time when a lease of the proof on it is live then.\<close>

definition held :: "db \<Rightarrow> string \<Rightarrow> rat \<Rightarrow> string \<Rightarrow> bool" where
  "held d p now move \<longleftrightarrow>
     (\<exists>r \<in> set (db_leases d). lr_proof r = p \<and> lr_move r = Some move \<and> is_live r now)"

lemma same_key:
  assumes "leases_ok d" "r \<in> set (db_leases d)" "s \<in> set (db_leases d)"
    and "lr_proof s = lr_proof r" "lr_id s = lr_id r"
  shows "s = r"
  using assms inj_onD [of key "set (db_leases d)" s r] by (simp add: leases_ok_def distinct_map)

lemma find_lease_unique:
  assumes "leases_ok d" "r \<in> set (db_leases d)"
  shows "find_lease d (lr_proof r) (lr_id r) = Some r"
proof (cases "find_lease d (lr_proof r) (lr_id r)")
  case None
  then show ?thesis using assms(2) unfolding find_lease_None by blast
next
  case (Some s)
  then have "s \<in> set (db_leases d)" "lr_proof s = lr_proof r" "lr_id s = lr_id r"
    by (auto simp: find_lease_def find_Some_iff)
  then show ?thesis using same_key [OF assms] Some by blast
qed

lemma taken_after_expiry:
  assumes "leases_ok d"
  shows "move \<in> set (taken_moves (snd (expire_due_leases p now d)) p) \<longleftrightarrow> held d p now move"
proof -
  let ?P = "\<lambda>r. lr_proof r = p \<and> lr_id r \<in> set (map lr_id (filter (due p now) (db_leases d)))"
  have rows: "db_leases (snd (expire_due_leases p now d)) = db_leases (mark ?P Expired d)"
    by (simp add: expire_due_leases_def Let_def)
  have live: "is_live r now \<longleftrightarrow> lr_status r = Active \<and> \<not> ?P r"
    if r: "r \<in> set (db_leases d)" "lr_proof r = p" for r
  proof -
    have "s = r" if "s \<in> set (db_leases d)" "lr_proof s = p" "lr_id s = lr_id r" for s
      using same_key [OF assms r(1) that(1)] that r(2) by simp
    then have "?P r \<longleftrightarrow> due p now r" using r unfolding due_def by (simp add: image_iff) metis
    then show ?thesis using r(2) by (auto simp: is_live_def due_def split: option.splits)
  qed
  show ?thesis
  proof
    assume "move \<in> set (taken_moves (snd (expire_due_leases p now d)) p)"
    then obtain r where r: "r \<in> set (db_leases (mark ?P Expired d))" "lr_proof r = p"
      "lr_status r = Active" "lr_move r = Some move" by (auto simp: taken_moves_iff rows)
    with mark_active [OF _ r(1,3)] live show "held d p now move" by (auto simp: held_def)
  next
    assume "held d p now move"
    then obtain r where r: "r \<in> set (db_leases d)" "lr_proof r = p" "lr_move r = Some move"
      "is_live r now" by (auto simp: held_def)
    then have "r \<in> set (db_leases (mark ?P Expired d))" using live by (auto simp: mark_def image_iff)
    then show "move \<in> set (taken_moves (snd (expire_due_leases p now d)) p)"
      using r live by (auto simp: taken_moves_iff rows)
  qed
qed

lemma dispatch_best_free:
  assumes "store_ok rt d" "dispatch_lease rt lk t1 t2 p ranked c ttl d = (Inr granted, d')"
  shows "map_option lr_move granted = map_option Some (List.find (\<lambda>m. \<not> held d p t1 m) (map fst ranked)) \<and>
     (\<forall>row. granted = Some row \<longrightarrow>
        filter (\<lambda>r. lr_proof r = p \<and> lr_status r = Active \<and> lr_move r = lr_move row) (db_leases d') = [row])"
proof -
  have ok: "leases_ok d" using assms(1) by (simp add: store_ok_def)
  let ?d1 = "snd (expire_due_leases p t1 d)"
  have body: "dispatch_body rt t1 t2 p ranked c ttl d = Inr (granted, d')"
    using assms(2) by (simp add: dispatch_lease_def write_tx_Inr split: if_splits)
  have find: "List.find (\<lambda>m. \<not> held d p t1 m) (map fst ranked) =
      map_option fst (List.find (\<lambda>(move, _). move \<notin> set (taken_moves ?d1 p)) ranked)"
    by (induction ranked) (auto simp: taken_after_expiry [OF ok])
  have "map_option lr_move granted =
      map_option Some (map_option fst (List.find (\<lambda>(move, _). move \<notin> set (taken_moves ?d1 p)) ranked))"
    using body by (auto simp: dispatch_body_def Let_def split: option.splits sum.splits prod.splits if_splits)
  moreover have "filter (\<lambda>r. lr_proof r = p \<and> lr_status r = Active \<and> lr_move r = lr_move row) (db_leases d') = [row]"
    if "granted = Some row" for row
  proof -
    from dispatch_grant [OF body [unfolded that]] obtain move where g: "lr_move row = Some move"
      "lr_proof row = p" "lr_status row = Active" "move \<notin> set (taken_moves ?d1 p)"
      "db_leases d' = db_leases ?d1 @ [row]" by metis
    have "filter (\<lambda>r. lr_proof r = p \<and> lr_status r = Active \<and> lr_move r = lr_move row) (db_leases ?d1) = []"
      using g(1,4) by (auto simp: filter_empty_conv taken_moves_iff)
    then show ?thesis using g by simp
  qed
  ultimately show ?thesis unfolding find by blast
qed

text \<open>C18. A dispatch grants the first move of the ranking that no live lease holds, and
  nothing exactly when every ranked move is held; in the state it leaves, its lease is the
  only active one on the move.\<close>

theorem dispatch_grants_best_free_move:
  assumes "store_ok rt d" "dispatch_lease rt lk t1 t2 p ranked c ttl d = (Inr granted, d')"
  shows "map_option lr_move granted = map_option Some (List.find (\<lambda>m. \<not> held d p t1 m) (map fst ranked)) \<and>
     (\<forall>row. granted = Some row \<longrightarrow>
        filter (\<lambda>r. lr_proof r = p \<and> lr_status r = Active \<and> lr_move r = lr_move row) (db_leases d') = [row])"
  using assms by (rule dispatch_best_free)

theorem dispatch_grants_best_free_move_witness:
  "filter (\<lambda>r. lr_proof r = ''p'' \<and> lr_status r = Active \<and> lr_move r = lr_move demo_lease)
     (db_leases leased_db) = [demo_lease]"
  using dispatch_grants_best_free_move [OF empty_store_ok demo_dispatch] by blast

section \<open>Refused work\<close>

lemma expiry_events:
  "db_events (snd (expire_due_leases p now d)) =
     db_events d @ map (\<lambda>lid. plain_event p lid ''expired'') (map lr_id (filter (due p now) (db_leases d)))"
  by (simp add: expire_due_leases_def Let_def log_all_def mark_def)

text \<open>An append refused because its lease is not held leaves no event in any journal, and
  marks and logs the expiry of every lease of the proof that has lapsed.\<close>

lemma refused_append_audits_expiry:
  assumes "append_event rt uncontended uncontended t1 t2 (proposal_to_dict q) d =
      (Inl (ConcurrencyError LEASE_NOT_HELD), d')"
  shows "read_events d' p = read_events d p \<and>
     (\<forall>r \<in> set (db_leases d'). \<not> due (prop_proof_id q) t2 r) \<and>
     (\<forall>r \<in> set (db_leases d). due (prop_proof_id q) t2 r \<longrightarrow>
        plain_event (prop_proof_id q) (lr_id r) ''expired'' \<in> set (read_lease_events d' (prop_proof_id q)))"
proof -
  let ?p = "prop_proof_id q"
  have d': "d' = snd (expire_due_leases ?p t2 d)"
    using assms
    by (auto simp: append_proposal relapse_def write_tx_def uncontended_def
        split: sum.splits prod.splits store_error.splits reason.splits)
  have "\<not> due ?p t2 r" if "r \<in> set (db_leases d')" for r
  proof
    assume due: "due ?p t2 r"
    then have "lr_status r = Active" "lr_proof r = ?p" by (simp_all add: due_def)
    with unexpired_rows(2) that due show False unfolding d' by blast
  qed
  moreover have "plain_event ?p (lr_id r) ''expired'' \<in> set (read_lease_events d' ?p)"
    if "r \<in> set (db_leases d)" "due ?p t2 r" for r
  proof -
    have "lr_id r \<in> lr_id ` set (filter (due ?p t2) (db_leases d))" using that by simp
    then have "plain_event ?p (lr_id r) ''expired'' \<in> set (db_events d')"
      unfolding d' expiry_events set_append set_map by blast
    then show ?thesis by (simp add: read_lease_events_def) (simp add: plain_event_def)
  qed
  moreover have "read_events d' p = read_events d p"
    using same_journal [of d' d p] by (simp add: read_events_def d')
  ultimately show ?thesis by blast
qed

lemma refused_append_audits_expiry_witness:
  "plain_event ''p'' ''p/ls-1'' ''expired'' \<in> set (read_lease_events (snd (append_event demo_runtime
     uncontended uncontended 20 20 (proposal_to_dict demo_proposal) leased_db)) ''p'')"
proof -
  have "case fst (append_event demo_runtime uncontended uncontended 20 20 (proposal_to_dict demo_proposal)
      leased_db) of Inl e \<Rightarrow> e = ConcurrencyError LEASE_NOT_HELD | Inr _ \<Rightarrow> False" by code_simp
  then obtain d' where d': "append_event demo_runtime uncontended uncontended 20 20
      (proposal_to_dict demo_proposal) leased_db = (Inl (ConcurrencyError LEASE_NOT_HELD), d')"
    by (cases "append_event demo_runtime uncontended uncontended 20 20
        (proposal_to_dict demo_proposal) leased_db") (auto split: sum.splits)
  have "due ''p'' 20 demo_lease" "lr_id demo_lease = ''p/ls-1''" by (simp_all add: due_def demo_lease_def)
  then show ?thesis
    using refused_append_audits_expiry [OF d'] demo_values(3) d' by (simp add: demo_proposal_def)
qed

lemma fresh_append:
  assumes "store_ok rt d" "r \<in> set (db_leases d)" "is_live r t1"
    and "lr_proof r = prop_proof_id q" "prop_lease_id q = Some (lr_id r)"
    and "prop_fencing_token q = Some (int (lr_token r))"
    and "prop_base_revision q = Some (int (fst (head d (prop_proof_id q))))"
    and "floats_finite (PDict (proposal_to_dict q))"
    and "\<forall>e \<in> set (db_journal d).
      chain_hash rt (snd (head d (prop_proof_id q))) (PDict (proposal_to_dict q)) \<noteq> Inr (jr_hash e)"
  shows "\<exists>h d'. append_event rt uncontended lk2 t1 t2 (proposal_to_dict q) d =
     (Inr (fst (head d (prop_proof_id q)) + 1, h), d')"
proof -
  let ?p = "prop_proof_id q" and ?h = "snd (head d (prop_proof_id q))"
  have ok: "leases_ok d" "journal_ok rt d" using assms(1) by (simp_all add: store_ok_def)
  let ?P = "\<lambda>s. lr_proof s = ?p \<and> lr_id s \<in> set (map lr_id (filter (due ?p t1) (db_leases d)))"
  let ?d1 = "snd (expire_due_leases ?p t1 d)"
  have key: "s = r" if "s \<in> set (db_leases d)" "lr_proof s = ?p" "lr_id s = lr_id r" for s
    using same_key [OF ok(1) assms(2) that(1)] that assms(4) by simp
  have "\<not> due ?p t1 r" using assms(3) by (auto simp: is_live_def due_def split: option.splits)
  then have "\<not> ?P r" using key by (auto simp: due_def)
  then have r: "r \<in> set (db_leases ?d1)" using assms(2)
    by (auto simp: expire_due_leases_def Let_def mark_def image_iff)
  have "leases_ok ?d1" using expire_safe ok(1) unfolding safe_change_def by blast
  then have "find_lease ?d1 ?p (lr_id r) = Some r"
    using find_lease_unique r assms(4) by metis
  then have lease: "check_lease t1 ?p (prop_lease_id q) (prop_fencing_token q) d = Inr ?d1"
    using assms(3,5,6) by (simp add: check_lease_def Let_def is_live_def)
  obtain h where h: "chain_hash rt ?h (PDict (proposal_to_dict q)) = Inr h"
    using assms(8) chain_hash_Inr by metis
  let ?row = "\<lparr>jr_proof = ?p, jr_revision = fst (head d ?p) + 1, jr_hash = h, jr_prev = ?h,
    jr_actor = prop_actor q, jr_class = prop_worker_class q,
    jr_payload = json_norm (PDict (proposal_to_dict q))\<rparr>"
  have "e \<in> set (db_journal d) \<Longrightarrow> jr_proof e = ?p \<Longrightarrow> jr_revision e \<le> fst (head d ?p)" for e
  proof -
    assume "e \<in> set (db_journal d)" "jr_proof e = ?p"
    then have "e \<in> set (events_of d ?p)" by (simp add: events_of_def)
    then obtain i where i: "i < length (events_of d ?p)" "events_of d ?p ! i = e"
      by (auto simp: in_set_conv_nth)
    have "verify_rows rt 1 GENESIS_HASH (events_of d ?p) = Inr ()" using ok(2) by (simp add: journal_ok_def)
    from verify_rows_revisions [OF this i(1)] i head_revision [OF ok(2)] show ?thesis by simp
  qed
  then have "insert_event ?row ?d1 = Inr (?d1\<lparr>db_journal := db_journal ?d1 @ [?row]\<rparr>)"
    using assms(9) h unfolding insert_event_def by (fastforce simp del: json_norm.simps)
  then have "chain_event rt ?p (fst (head d ?p)) ?h (proposal_to_dict q) ?d1 =
      Inr ((fst (head d ?p) + 1, h), ?d1\<lparr>db_journal := db_journal ?d1 @ [?row]\<rparr>)"
    by (simp add: chain_event_def h del: json_norm.simps)
  then have "append_body rt t1 ?p (prop_base_revision q) (prop_lease_id q) (prop_fencing_token q)
      (proposal_to_dict q) d = Inr ((fst (head d ?p) + 1, h), ?d1\<lparr>db_journal := db_journal ?d1 @ [?row]\<rparr>)"
    using lease checked_head_ok [OF ok(2), of ?p] assms(5,7)
    by (simp add: append_body_def split_beta del: json_norm.simps)
  then show ?thesis by (auto simp: append_proposal_Inr uncontended_def)
qed

text \<open>C21. An append goes through when its base revision is the head, its lease is live under
  its token, its payload has no infinite float and its hash is new.\<close>

theorem fresh_append_succeeds:
  assumes "store_ok rt d" "r \<in> set (db_leases d)" "is_live r t1"
    and "lr_proof r = prop_proof_id q" "prop_lease_id q = Some (lr_id r)"
    and "prop_fencing_token q = Some (int (lr_token r))"
    and "prop_base_revision q = Some (int (fst (head d (prop_proof_id q))))"
    and "floats_finite (PDict (proposal_to_dict q))"
    and "\<forall>e \<in> set (db_journal d).
      chain_hash rt (snd (head d (prop_proof_id q))) (PDict (proposal_to_dict q)) \<noteq> Inr (jr_hash e)"
  shows "\<exists>h d'. append_event rt uncontended lk2 t1 t2 (proposal_to_dict q) d =
     (Inr (fst (head d (prop_proof_id q)) + 1, h), d')"
  using assms by (rule fresh_append)

theorem fresh_append_succeeds_witness:
  "\<exists>h d'. append_event demo_runtime uncontended uncontended 5 5 (proposal_to_dict demo_proposal)
     leased_db = (Inr (1, h), d')"
proof -
  have "floats_finite (PDict (proposal_to_dict demo_proposal))" by code_simp
  then show ?thesis
    using fresh_append_succeeds [OF demo_ok(1), of demo_lease 5 demo_proposal] demo_values(2,3,5)
    by (simp add: demo_proposal_def demo_lease_def is_live_def)
qed

end
