(* ===== verification/Gate.thy ===== *)
theory Gate
  imports StoreSafety GateSafety
begin

text \<open>
  The commit gate, \<^verbatim>\<open>src/src/commit_gate/gate.py\<close>: validation against a view of committed
  state, the append to the journal, and the rejection log. What the database answers
  (locks, clock readings) is an argument, one per transaction.
\<close>

section \<open>Results\<close>

record gate_result =
  gr_accepted :: bool
  gr_rejections :: "rejection list"
  gr_event_hash :: "string option"
  gr_revision :: "nat option"

record gate_env =
  ge_lock :: lock
  ge_relock :: lock
  ge_now :: rat
  ge_later :: rat
  ge_audit :: "nat \<Rightarrow> lock"

section \<open>The rejection log\<close>

fun audit :: "runtime \<Rightarrow> (nat \<Rightarrow> lock) \<Rightarrow> nat \<Rightarrow> proposal \<Rightarrow> rejection list \<Rightarrow> db \<Rightarrow> (store_error + unit) \<times> db" where
  "audit rt locks i q [] d = (Inr (), d)"
| "audit rt locks i q (r # rs) d =
     (case record_rejection rt (locks i) (prop_proof_id q) (rej_reason r) (Some (proposal_to_dict q)) d of
        (Inl (ConcurrencyError why), d') \<Rightarrow> (Inr (), d')
      | (Inl e, d') \<Rightarrow> (Inl e, d')
      | (Inr _, d') \<Rightarrow> audit rt locks (i + 1) q rs d')"

section \<open>Commit\<close>

definition refuse :: "runtime \<Rightarrow> gate_env \<Rightarrow> proposal \<Rightarrow> rejection list \<Rightarrow> db \<Rightarrow> (store_error + gate_result) \<times> db" where
  "refuse rt env q rejections d =
     (case audit rt (ge_audit env) 0 q rejections d of
        (Inl e, d') \<Rightarrow> (Inl e, d')
      | (Inr _, d') \<Rightarrow>
          (Inr \<lparr>gr_accepted = False, gr_rejections = rejections, gr_event_hash = None,
                gr_revision = None\<rparr>, d'))"

definition gate_commit ::
  "runtime \<Rightarrow> gate_env \<Rightarrow> read_view \<Rightarrow> proposal \<Rightarrow> db \<Rightarrow> (store_error + gate_result) \<times> db" where
  "gate_commit rt env view q d =
     (case validate_proposal q (Some view) of
        Inl exc \<Rightarrow> (Inl (PyError exc), d)
      | Inr (r # rs) \<Rightarrow> refuse rt env q (r # rs) d
      | Inr [] \<Rightarrow>
          (case append_event rt (ge_lock env) (ge_relock env) (ge_now env) (ge_later env)
                  (proposal_to_dict q) d of
             (Inl (ConcurrencyError why), d') \<Rightarrow>
               refuse rt env q [\<lparr>rej_reason = why, rej_op_index = None\<rparr>] d'
           | (Inl e, d') \<Rightarrow> (Inl e, d')
           | (Inr (n, h), d') \<Rightarrow>
               (Inr \<lparr>gr_accepted = True, gr_rejections = [], gr_event_hash = Some h,
                     gr_revision = Some n\<rparr>, d')))"

section \<open>What a commit does\<close>

lemma audit_keeps_events:
  "audit rt locks i q rs d = (r, d') \<Longrightarrow> db_journal d' = db_journal d \<and> db_leases d' = db_leases d"
proof (induction rs arbitrary: i d)
  case Nil
  then show ?case by simp
next
  case (Cons x rs)
  obtain out d1 where rec: "record_rejection rt (locks i) (prop_proof_id q) (rej_reason x)
      (Some (proposal_to_dict q)) d = (out, d1)" by (metis surj_pair)
  have d1: "db_journal d1 = db_journal d \<and> db_leases d1 = db_leases d"
    using rec unfolding record_rejection_def
    by (rule write_tx_cases) (auto simp: rejection_body_def Let_def split: sum.splits)
  show ?case
  proof (cases out)
    case (Inl e)
    then have "d' = d1" using Cons.prems rec by (cases e) simp_all
    then show ?thesis using d1 by simp
  next
    case (Inr n)
    then have "audit rt locks (i + 1) q rs d1 = (r, d')" using Cons.prems rec by simp
    from Cons.IH [OF this] d1 show ?thesis by simp
  qed
qed

lemma refuse_result:
  assumes "refuse rt env q rs d = (Inr g, d')"
  shows "gr_accepted g = False" "gr_rejections g = rs" "audit rt (ge_audit env) 0 q rs d = (Inr (), d')"
  using assms by (auto simp: refuse_def split: prod.splits sum.splits)

lemma refuse_keeps_events:
  assumes "refuse rt env q rs d = (r, d')"
  shows "db_journal d' = db_journal d" "db_leases d' = db_leases d"
proof -
  obtain out d1 where "audit rt (ge_audit env) 0 q rs d = (out, d1)" by (metis surj_pair)
  with assms audit_keeps_events [OF this] show "db_journal d' = db_journal d" "db_leases d' = db_leases d"
    by (auto simp: refuse_def split: sum.splits)
qed

text \<open>The three ways a commit that returns can have gone.\<close>

lemma gate_commit_cases:
  assumes "gate_commit rt env view q d = (Inr g, d')"
  obtains (accepted) n h where
      "validate_proposal q (Some view) = Inr []"
      "append_event rt (ge_lock env) (ge_relock env) (ge_now env) (ge_later env) (proposal_to_dict q) d =
         (Inr (n, h), d')"
      "g = \<lparr>gr_accepted = True, gr_rejections = [], gr_event_hash = Some h, gr_revision = Some n\<rparr>"
  | (invalid) r rs where
      "validate_proposal q (Some view) = Inr (r # rs)" "refuse rt env q (r # rs) d = (Inr g, d')"
  | (raced) why d1 where
      "validate_proposal q (Some view) = Inr []"
      "append_event rt (ge_lock env) (ge_relock env) (ge_now env) (ge_later env) (proposal_to_dict q) d =
         (Inl (ConcurrencyError why), d1)"
      "refuse rt env q [\<lparr>rej_reason = why, rej_op_index = None\<rparr>] d1 = (Inr g, d')"
proof (cases "validate_proposal q (Some view)")
  case (Inl exc)
  then show thesis using assms by (simp add: gate_commit_def)
next
  case (Inr rejections)
  show thesis
  proof (cases rejections)
    case (Cons r rs)
    then show thesis using assms Inr invalid by (simp add: gate_commit_def)
  next
    case Nil
    obtain out d1 where out: "append_event rt (ge_lock env) (ge_relock env) (ge_now env) (ge_later env)
        (proposal_to_dict q) d = (out, d1)" by (metis surj_pair)
    show thesis
    proof (cases out)
      case (Inl e)
      then show thesis
        using assms Inr Nil out raced [of _ d1] by (cases e) (simp_all add: gate_commit_def)
    next
      case ok: (Inr nh)
      then show thesis
        using assms Inr Nil out accepted by (cases nh) (simp add: gate_commit_def)
    qed
  qed
qed

lemma append_failed:
  assumes "append_event rt lk lk2 t1 t2 (proposal_to_dict q) d = (Inl e, d')"
  shows "d' = d \<or> d' = snd (expire_due_leases (prop_proof_id q) t2 d)"
proof -
  obtain r0 d0 where tx: "write_tx lk (append_body rt t1 (prop_proof_id q) (prop_base_revision q)
      (prop_lease_id q) (prop_fencing_token q) (proposal_to_dict q)) d = (r0, d0)" by (metis surj_pair)
  have "d0 = d"
  proof (cases r0)
    case (Inl e0)
    then show ?thesis using tx write_tx_Inl by blast
  next
    case (Inr a)
    then show ?thesis using assms tx by (simp add: append_proposal relapse_def)
  qed
  with relapse_cases [of lk2 t2 "prop_proof_id q" r0 d0 "Inl e" d'] assms tx show ?thesis
    by (auto simp: append_proposal)
qed

lemma append_failed_keeps_journal:
  assumes "append_event rt lk lk2 t1 t2 (proposal_to_dict q) d = (Inl e, d')"
  shows "db_journal d' = db_journal d"
  using append_failed [OF assms] by auto

section \<open>A commit\<close>

definition demo_env :: "rat \<Rightarrow> gate_env" where
  "demo_env now =
     \<lparr>ge_lock = uncontended, ge_relock = uncontended, ge_now = now, ge_later = now,
      ge_audit = (\<lambda>i. uncontended)\<rparr>"

definition demo_ops :: "op list \<Rightarrow> proposal" where
  "demo_ops xs = demo_proposal\<lparr>prop_ops := xs\<rparr>"

lemma demo_ops_proof [simp]: "prop_proof_id (demo_ops xs) = ''p''"
  by (simp add: demo_ops_def demo_proposal_def)

lemma demo_commit:
  assumes "validate_proposal (demo_ops xs) (Some view) = Inr []"
    and "floats_finite (PDict (proposal_to_dict (demo_ops xs)))"
  obtains g d' where "gate_commit demo_runtime (demo_env 1) view (demo_ops xs) leased_db = (Inr g, d')"
    "gr_accepted g"
proof -
  have "\<exists>h d'. append_event demo_runtime uncontended uncontended 1 1 (proposal_to_dict (demo_ops xs)) leased_db =
      (Inr (fst (head leased_db (prop_proof_id (demo_ops xs))) + 1, h), d')"
    by (rule fresh_append [OF demo_ok(1), of demo_lease])
       (use demo_values assms(2) in \<open>simp_all add: demo_lease_def is_live_def demo_ops_def demo_proposal_def\<close>)
  then obtain n h d' where "append_event demo_runtime uncontended uncontended 1 1
      (proposal_to_dict (demo_ops xs)) leased_db = (Inr (n, h), d')" by blast
  then show thesis
    using that assms(1) by (simp add: gate_commit_def demo_env_def)
qed

definition claim_creation :: "op list" where
  "claim_creation = [UpsertNode ''Claim'' ''p/c-1'' [(''status'', PStr ''provisional'')]]"

definition claim_closing :: "op list" where
  "claim_closing = [SetField ''Claim'' ''p/c-1'' ''status'' (PStr ''formally-closed'')
     (Some (PStr ''provisional''))]"

definition provisional_view :: mem_view where
  "provisional_view = mem_add_node empty_view ''p/c-1'' ''Claim'' [(''status'', PStr ''provisional'')]"

lemma creation_commit:
  obtains g d' where "gate_commit demo_runtime (demo_env 1) (as_view empty_view) (demo_ops claim_creation)
      leased_db = (Inr g, d')" "gr_accepted g"
proof -
  have "validate_proposal (demo_ops claim_creation) (Some (as_view empty_view)) = Inr []"
    "floats_finite (PDict (proposal_to_dict (demo_ops claim_creation)))" by code_simp+
  then show thesis by (rule demo_commit) (rule that)
qed

lemma closing_commit:
  obtains g d' where "gate_commit demo_runtime (demo_env 1) (as_view provisional_view) (demo_ops claim_closing)
      leased_db = (Inr g, d')" "gr_accepted g"
proof -
  have "validate_proposal (demo_ops claim_closing) (Some (as_view provisional_view)) = Inr []"
    "floats_finite (PDict (proposal_to_dict (demo_ops claim_closing)))" by code_simp+
  then show thesis by (rule demo_commit) (rule that)
qed

section \<open>The gate is the only writer\<close>

text \<open>C10. A commit that reports acceptance had a proposal without findings, based on the head
  of its journal, and appended exactly that proposal, under the revision and hash it reports.\<close>

theorem accepted_commit_is_journalled:
  assumes "store_ok rt d" "gate_commit rt env view q d = (Inr g, d')" "gr_accepted g"
  shows "validate_proposal q (Some view) = Inr [] \<and>
     prop_base_revision q = Some (int (fst (head d (prop_proof_id q)))) \<and>
     (\<exists>n h. gr_revision g = Some n \<and> gr_event_hash g = Some h \<and>
        n = fst (head d (prop_proof_id q)) + 1 \<and> head d' (prop_proof_id q) = (n, h)) \<and>
     (\<forall>p. read_events d' p = read_events d p @
        (if p = prop_proof_id q then [json_norm (PDict (proposal_to_dict q))] else []))"
  using assms(2)
proof (cases rule: gate_commit_cases)
  case (accepted n h)
  have a: "n = length (read_events d (prop_proof_id q)) + 1"
    "prop_base_revision q = None \<or>
      prop_base_revision q = Some (int (length (read_events d (prop_proof_id q))))"
    "head d' (prop_proof_id q) = (n, h)"
    "\<And>p. read_events d' p = read_events d p @
        (if p = prop_proof_id q then [json_norm (PDict (proposal_to_dict q))] else [])"
    using appended_payloads [OF assms(1) accepted(2)] by (simp_all del: json_norm.simps)
  have "prop_base_revision q \<noteq> None"
    using accepted(1) by (auto simp: validate_proposal_clean locally_ok_def check_concurrency_tokens_clean)
  moreover have "fst (head d (prop_proof_id q)) = length (read_events d (prop_proof_id q))"
    using head_revision [of rt d] assms(1) by (simp add: store_ok_def read_events_def)
  ultimately show ?thesis using a accepted(1,3) by (auto simp del: json_norm.simps)
qed (use assms(3) refuse_result(1) in auto)

theorem accepted_commit_is_journalled_witness:
  "\<exists>d'. read_events d' ''p'' = [json_norm (PDict (proposal_to_dict (demo_ops claim_creation)))]"
proof -
  obtain g d' where c: "gate_commit demo_runtime (demo_env 1) (as_view empty_view) (demo_ops claim_creation)
      leased_db = (Inr g, d')" "gr_accepted g" by (rule creation_commit)
  from accepted_commit_is_journalled [OF demo_ok(1) c] have
    "read_events d' ''p'' = read_events leased_db ''p'' @
       [json_norm (PDict (proposal_to_dict (demo_ops claim_creation)))]"
    by (simp del: json_norm.simps)
  then show ?thesis unfolding demo_values(1) append_Nil by blast
qed

text \<open>C11. An accepted proposal with a status change held, when its append was checked, a live
  lease of its proof and presented that lease's fencing token.\<close>

theorem status_commits_are_fenced:
  assumes "gate_commit rt env view q d = (Inr g, d')" "gr_accepted g"
    and "x \<in> set (prop_ops q)" "class_of_op x = ClsStatus"
  shows "\<exists>r \<in> set (db_leases d). lr_proof r = prop_proof_id q \<and> prop_lease_id q = Some (lr_id r) \<and>
     prop_fencing_token q = Some (int (lr_token r)) \<and> is_live r (ge_now env)"
  using assms(1)
proof (cases rule: gate_commit_cases)
  case (accepted n h)
  have "prop_lease_id q \<noteq> None"
    using accepted(1) assms(3,4)
    by (auto simp: validate_proposal_clean locally_ok_def check_concurrency_tokens_clean)
  then obtain d1 where "check_lease (ge_now env) (prop_proof_id q) (prop_lease_id q) (prop_fencing_token q) d = Inr d1"
    using append_checked [OF accepted(2)] by blast
  then show ?thesis by (rule check_lease_live) auto
qed (use assms(2) refuse_result(1) in auto)

theorem status_commits_are_fenced_witness:
  "\<exists>r \<in> set (db_leases leased_db). lr_proof r = ''p'' \<and> lr_id r = ''p/ls-1'' \<and> lr_token r = 1 \<and> is_live r 1"
proof -
  obtain g d' where c: "gate_commit demo_runtime (demo_env 1) (as_view provisional_view) (demo_ops claim_closing)
      leased_db = (Inr g, d')" "gr_accepted g" by (rule closing_commit)
  have op: "hd claim_closing \<in> set (prop_ops (demo_ops claim_closing))" "class_of_op (hd claim_closing) = ClsStatus"
    by code_simp+
  from status_commits_are_fenced [OF c op] show ?thesis
    by (auto simp: demo_ops_def demo_proposal_def demo_env_def)
qed

text \<open>If a proposal names the revision at which its proposer read the journal, its commit
  is accepted only when the journal of its proof has not changed since, however many other
  calls came between.\<close>

lemma accepted_commit_saw_current_history:
  assumes "store_ok rt d0" "(store_step rt)\<^sup>*\<^sup>* d0 d"
    and "prop_base_revision q = Some (int (fst (head d0 (prop_proof_id q))))"
    and "gate_commit rt env view q d = (Inr g, d')" "gr_accepted g"
  shows "read_events d (prop_proof_id q) = read_events d0 (prop_proof_id q)"
proof -
  let ?p = "prop_proof_id q"
  have ok: "store_ok rt d" by (rule steps_ok [OF assms(2,1)])
  have len: "fst (head e ?p) = length (read_events e ?p)" if "store_ok rt e" for e
    using head_revision [of rt e] that by (simp add: store_ok_def read_events_def)
  have "prop_base_revision q = Some (int (fst (head d ?p)))"
    using assms(4)
  proof (cases rule: gate_commit_cases)
    case (accepted n h)
    from appended_payloads(2) [OF ok accepted(2)] assms(3) len [OF ok] show ?thesis by auto
  qed (use assms(5) refuse_result(1) in auto)
  then have "length (read_events d ?p) = length (read_events d0 ?p)"
    using assms(3) len [OF ok] len [OF assms(1)] by simp
  moreover have "prefix (read_events d0 ?p) (read_events d ?p)"
    by (rule grown_events [OF steps_related [OF assms(2,1)]])
  ultimately show ?thesis by (auto simp: prefix_def)
qed

lemma accepted_commit_saw_current_history_witness: "read_events leased_db ''p'' = read_events empty_db ''p''"
proof -
  obtain g d' where c: "gate_commit demo_runtime (demo_env 1) (as_view empty_view) (demo_ops claim_creation)
      leased_db = (Inr g, d')" "gr_accepted g" by (rule creation_commit)
  have "(store_step demo_runtime)\<^sup>*\<^sup>* empty_db leased_db" by (rule r_into_rtranclp) (rule demo_steps)
  moreover have "head empty_db ''p'' = (0, GENESIS_HASH)" by code_simp
  ultimately show ?thesis
    using accepted_commit_saw_current_history [OF empty_store_ok _ _ c]
    by (simp add: demo_ops_def demo_proposal_def)
qed

section \<open>Refusals\<close>

definition rejection_rows :: "proposal \<Rightarrow> rejection list \<Rightarrow> rejection_row list" where
  "rejection_rows q rs =
     map (\<lambda>r. \<lparr>xr_proof = prop_proof_id q, xr_reason = rej_reason r,
                 xr_payload = Some (json_norm (PDict (proposal_to_dict q)))\<rparr>) rs"

lemma proposal_dict_nonempty [simp]: "proposal_to_dict q \<noteq> []"
  by (simp add: proposal_to_dict_def)

lemma audit_complete:
  assumes "\<And>i. lk_begin (locks i) \<and> lk_commit (locks i)"
    and "audit rt locks i q rs d = (Inr (), d')"
  shows "db_rejections d' = db_rejections d @ rejection_rows q rs"
  using assms(2)
proof (induction rs arbitrary: i d)
  case Nil
  then show ?case by (simp add: rejection_rows_def)
next
  case (Cons x rs)
  show ?case
  proof (cases "canonical_json rt (PDict (proposal_to_dict q))")
    case (Inl exc)
    then have False
      using Cons.prems assms(1)
      by (simp add: record_rejection_def write_tx_def rejection_body_def Let_def)
    then show ?thesis ..
  next
    case (Inr body)
    then have "record_rejection rt (locks i) (prop_proof_id q) (rej_reason x) (Some (proposal_to_dict q)) d =
        (Inr (length (db_rejections d) + 1),
         d\<lparr>db_rejections := db_rejections d @ rejection_rows q [x]\<rparr>)"
      using assms(1)
      by (simp add: record_rejection_def write_tx_def rejection_body_def rejection_rows_def Let_def
          del: json_norm.simps)
    then have "audit rt locks (i + 1) q rs (d\<lparr>db_rejections := db_rejections d @ rejection_rows q [x]\<rparr>) =
        (Inr (), d')"
      using Cons.prems by simp
    from Cons.IH [OF this] show ?thesis by (simp add: rejection_rows_def)
  qed
qed

text \<open>A commit that reports a refusal names at least one reason and leaves every journal
  as it was; when the rejection log could be written, it has one new entry per reason, with
  the refused proposal.\<close>

lemma refused_commit_is_logged:
  assumes "gate_commit rt env view q d = (Inr g, d')" "\<not> gr_accepted g"
  shows "gr_rejections g \<noteq> [] \<and> read_events d' p = read_events d p \<and>
     ((\<forall>i. lk_begin (ge_audit env i) \<and> lk_commit (ge_audit env i)) \<longrightarrow>
        read_rejections d' (prop_proof_id q) =
          read_rejections d (prop_proof_id q) @ rejection_rows q (gr_rejections g))"
proof -
  have append_logs: "db_rejections d1 = db_rejections d"
    if "append_event rt lk lk2 t1 t2 (proposal_to_dict q) d = (Inl e, d1)" for lk lk2 t1 t2 e d1
    using that append_failed [OF that] by (auto simp: expire_due_leases_def Let_def log_all_def mark_def)
  have "\<exists>d1. gr_rejections g \<noteq> [] \<and> db_journal d1 = db_journal d \<and> db_rejections d1 = db_rejections d \<and>
      refuse rt env q (gr_rejections g) d1 = (Inr g, d')"
    using assms(1)
  proof (cases rule: gate_commit_cases)
    case (accepted n h)
    then show ?thesis using assms(2) by simp
  next
    case (invalid r rs)
    then show ?thesis using refuse_result(2) [OF invalid(2)] by auto
  next
    case (raced why d1)
    then show ?thesis
      using refuse_result(2) [OF raced(3)] append_failed_keeps_journal [OF raced(2)] append_logs [OF raced(2)]
      by auto
  qed
  then obtain d1 where r: "gr_rejections g \<noteq> []" "db_journal d1 = db_journal d"
    "db_rejections d1 = db_rejections d" "refuse rt env q (gr_rejections g) d1 = (Inr g, d')" by blast
  have "read_events d' p = read_events d p"
    using refuse_keeps_events(1) [OF r(4)] r(2) same_journal [of d' d p] by (simp add: read_events_def)
  moreover have "read_rejections d' (prop_proof_id q) =
      read_rejections d (prop_proof_id q) @ rejection_rows q (gr_rejections g)"
    if "\<forall>i. lk_begin (ge_audit env i) \<and> lk_commit (ge_audit env i)"
  proof -
    have "filter (\<lambda>r. xr_proof r = prop_proof_id q) (rejection_rows q rs) = rejection_rows q rs" for rs
      by (simp add: rejection_rows_def filter_id_conv)
    then show ?thesis
      using audit_complete [OF _ refuse_result(3) [OF r(4)]] that r(3) by (simp add: read_rejections_def)
  qed
  ultimately show ?thesis using r(1) by blast
qed

lemma refused_commit_is_logged_witness:
  "let q = demo_proposal\<lparr>prop_base_revision := Some 7\<rparr>;
       d' = snd (gate_commit demo_runtime (demo_env 1) (as_view empty_view) q leased_db)
   in read_rejections d' ''p'' = read_rejections leased_db ''p'' @
        rejection_rows q [\<lparr>rej_reason = STALE_BASE_REVISION, rej_op_index = None\<rparr>]"
proof -
  let ?q = "demo_proposal\<lparr>prop_base_revision := Some 7\<rparr>"
  let ?g = "\<lparr>gr_accepted = False, gr_rejections = [\<lparr>rej_reason = STALE_BASE_REVISION, rej_op_index = None\<rparr>],
    gr_event_hash = None, gr_revision = None\<rparr>"
  have "case fst (gate_commit demo_runtime (demo_env 1) (as_view empty_view) ?q leased_db) of
      Inl _ \<Rightarrow> False | Inr g \<Rightarrow> g = ?g" by code_simp
  then obtain d' where "gate_commit demo_runtime (demo_env 1) (as_view empty_view) ?q leased_db = (Inr ?g, d')"
    by (cases "gate_commit demo_runtime (demo_env 1) (as_view empty_view) ?q leased_db")
       (auto split: sum.splits)
  from refused_commit_is_logged [OF this] this show ?thesis
    by (simp add: demo_env_def demo_proposal_def uncontended_def)
qed

section \<open>The gate over a projected graph\<close>

text \<open>
  Runs of the whole: the gate validates against the graph of the accepted proposals, each
  accepted proposal is projected onto it with \<open>apply_ops\<close> (\<^verbatim>\<open>src/src/commit_gate/apply.py\<close>; the gate itself
  writes the journal only), and lease calls of other callers come in between. A run ends with a
  proposal that is accepted but raises when it is projected, see \<open>accepted_applies_iff_ordered\<close>.
\<close>

inductive system :: "runtime \<Rightarrow> proposal list \<Rightarrow> mem_view \<Rightarrow> db \<Rightarrow> bool" for rt where
  start: "system rt [] empty_view empty_db"
| accept: "system rt qs v d \<Longrightarrow> gate_commit rt env (as_view v) q d = (Inr g, d') \<Longrightarrow> gr_accepted g \<Longrightarrow>
    apply_ops v (prop_ops q) = Inr w \<Longrightarrow> system rt (qs @ [q]) w d'"
| refuse: "system rt qs v d \<Longrightarrow> gate_commit rt env (as_view v) q d = (Inr g, d') \<Longrightarrow> \<not> gr_accepted g \<Longrightarrow>
    system rt qs v d'"
| lease: "system rt qs v d \<Longrightarrow> store_step rt d d' \<Longrightarrow> db_journal d' = db_journal d \<Longrightarrow> system rt qs v d'"

lemma gate_steps:
  assumes "gate_commit rt env view q d = (Inr g, d')" "store_ok rt d"
  shows "store_ok rt d'"
  using assms(1)
proof (cases rule: gate_commit_cases)
  case (accepted n h)
  then show ?thesis using step_change store_step.append assms(2) by blast
next
  case (invalid r rs)
  from refuse_keeps_events [OF invalid(2)] show ?thesis
    using lease_change [OF same_leases(1)] assms(2) by blast
next
  case (raced why d1)
  have "store_ok rt d1" using step_change store_step.append raced(2) assms(2) by blast
  with refuse_keeps_events [OF raced(3)] show ?thesis
    using lease_change [OF same_leases(1)] by blast
qed

lemma system_ok: "system rt qs v d \<Longrightarrow> store_ok rt d"
proof (induction rule: system.induct)
  case start
  then show ?case by simp
qed (use gate_steps step_change in blast)+

lemma system_reached: "system rt qs v d \<Longrightarrow> reached qs v"
proof (induction rule: system.induct)
  case start
  then show ?case by (rule reached.genesis)
next
  case (accept qs v d env q g d' w)
  have "validate_proposal q (Some (as_view v)) = Inr []"
    using accept(2) by (cases rule: gate_commit_cases) (use accept(3) refuse_result(1) in auto)
  then have "commits q v w" using accept reached_wf [OF accept.IH] by (simp add: commits_def accepted_def)
  with accept.IH show ?case by (rule reached.commit)
qed

definition journalled :: "string \<Rightarrow> proposal list \<Rightarrow> pyval list" where
  "journalled p qs =
     map (\<lambda>q. json_norm (PDict (proposal_to_dict q))) (filter (\<lambda>q. prop_proof_id q = p) qs)"

lemma journalled_append [simp]: "journalled p (qs @ rs) = journalled p qs @ journalled p rs" "journalled p [] = []"
  by (simp_all add: journalled_def)

text \<open>One commit extends the journals by its proposal, if that is accepted, and else leaves them.\<close>

lemma gate_commit_events:
  assumes "store_ok rt d" "gate_commit rt env view q d = (Inr g, d')"
  shows "read_events d' p = read_events d p @ journalled p (if gr_accepted g then [q] else [])"
proof -
  have same: "read_events d' p = read_events d p" if "db_journal d' = db_journal d"
    using same_journal [OF that, of p] by (simp add: read_events_def)
  show ?thesis
    using assms(2)
  proof (cases rule: gate_commit_cases)
    case (accepted n h)
    from appended_payloads(3) [OF assms(1) accepted(2), of p] accepted(3)
    show ?thesis by (simp add: journalled_def del: json_norm.simps)
  next
    case (invalid r rs)
    then show ?thesis using same refuse_keeps_events(1) refuse_result(1) by (metis append_Nil2 journalled_append(2))
  next
    case (raced why d1)
    then have "db_journal d' = db_journal d" using refuse_keeps_events(1) append_failed_keeps_journal by metis
    moreover have "\<not> gr_accepted g" using raced refuse_result(1) by blast
    ultimately show ?thesis using same by simp
  qed
qed

lemma system_journal: "system rt qs v d \<Longrightarrow> read_events d p = journalled p qs"
proof (induction rule: system.induct)
  case start
  then show ?case by (simp add: read_events_def events_of_def empty_db_def)
next
  case (accept qs v d env q g d' w)
  then show ?case using gate_commit_events [OF system_ok [OF accept(1)] accept(2)] by simp
next
  case (refuse qs v d env q g d')
  then show ?case using gate_commit_events [OF system_ok [OF refuse(1)] refuse(2)] by simp
next
  case (lease qs v d d')
  then show ?case using same_journal [of d' d p] by (simp add: read_events_def)
qed

text \<open>C8. In every run of gate, store and projection, with lease calls in between, the journal of each proof
  holds exactly the accepted proposals of that proof in the order of their commits and verifies; the
  graph is what those proposals build from nothing, its indexes agree with its edges, and its edges are
  typed and its replays independent, nodes that a proposal misnamed and content-addressed targets apart.\<close>

theorem journal_is_the_history:
  assumes "system rt qs v d"
  shows "read_events d p = journalled p qs \<and>
     verify_chain rt d p = Inr (length (journalled p qs)) \<and>
     apply_ops empty_view (ops_of qs) = Inr v \<and>
     wf_view v \<and> typed_view (ops_of qs) v \<and> replays_independent (ops_of qs) v"
proof -
  note r = system_reached [OF assms]
  have "verify_chain rt d p = Inr (length (read_events d p))"
    using system_ok [OF assms] by (simp add: store_ok_def journal_ok_verify read_events_def)
  then show ?thesis
    using system_journal [OF assms] reached_graph [OF r] reached_wf [OF r] reached_sound [OF r] by simp
qed

lemma demo_system:
  obtains qs v d where "system demo_runtime qs v d" "qs = [demo_ops claim_creation]"
proof -
  obtain g d' where c: "gate_commit demo_runtime (demo_env 1) (as_view empty_view) (demo_ops claim_creation)
      leased_db = (Inr g, d')" "gr_accepted g" by (rule creation_commit)
  have s: "system demo_runtime [] empty_view leased_db"
    by (rule system.lease [OF system.start demo_steps(1)]) (simp add: demo_values empty_db_def)
  have "case apply_ops empty_view (prop_ops (demo_ops claim_creation)) of Inl _ \<Rightarrow> False | Inr _ \<Rightarrow> True"
    by code_simp
  then obtain w where "apply_ops empty_view (prop_ops (demo_ops claim_creation)) = Inr w"
    by (auto split: sum.splits)
  from system.accept [OF s c this] that show thesis by simp
qed

theorem journal_is_the_history_witness:
  "\<exists>d. verify_chain demo_runtime d ''p'' = Inr 1 \<and> d \<noteq> empty_db"
proof -
  obtain qs v d where s: "system demo_runtime qs v d" "qs = [demo_ops claim_creation]"
    by (rule demo_system)
  from journal_is_the_history [OF s(1), of "''p''"] s(2) show ?thesis
    by (auto simp: journalled_def demo_ops_def demo_proposal_def read_events_def events_of_def empty_db_def)
qed

section \<open>A proposal the gate does not answer\<close>

text \<open>
  A proposal with an infinite float passes every validator; the append then raises instead
  of refusing, and so does the rejection log when the proposal is refused.
\<close>

definition infinite_float :: proposal where
  "infinite_float = demo_ops [UpsertNode ''Proof'' ''p/pf-1'' [(''cost'', PFloat PosInf)]]"

text \<open>The gate finds nothing wrong with a proposal that carries an infinite float, and its
  commit raises a ValueError; so does the commit of the same proposal on a stale revision,
  which is neither refused nor logged.\<close>

lemma infinite_float_raises:
  "validate_proposal infinite_float (Some (as_view empty_view)) = Inr [] \<and>
   fst (gate_commit demo_runtime (demo_env 1) (as_view empty_view) infinite_float leased_db) =
     Inl (PyError ValueError) \<and>
   fst (gate_commit demo_runtime (demo_env 1) (as_view empty_view)
     (infinite_float\<lparr>prop_base_revision := Some 7\<rparr>) leased_db) = Inl (PyError ValueError)"
proof -
  have "validate_proposal infinite_float (Some (as_view empty_view)) = Inr []" by code_simp
  moreover have "fst (gate_commit demo_runtime (demo_env 1) (as_view empty_view) infinite_float leased_db) =
     Inl (PyError ValueError)" by code_simp
  moreover have "fst (gate_commit demo_runtime (demo_env 1) (as_view empty_view)
     (infinite_float\<lparr>prop_base_revision := Some 7\<rparr>) leased_db) = Inl (PyError ValueError)" by code_simp
  ultimately show ?thesis by blast
qed

end
