(* ===== verification/Ids.thy ===== *)
theory Ids
  imports Canon ValidateLocal
begin

text \<open>
  The identifier namespace, \<^verbatim>\<open>src/src/mathproof/ids.py\<close>: the reserved prefixes, local and
  proof-scoped ids, their parser, and the allocator that mints them. The lemmas show that
  ids parse back to what they were made from and that an allocator never repeats itself.
\<close>

section \<open>Prefixes\<close>

datatype id_type =
    RESEARCH_STATE | RESEARCH_MOVE | CLAIM | FORMAL_DECLARATION | FORMAL_RUN | FORMAL_STATE
  | TACTIC_APPLICATION | ALIGNMENT | OBSTRUCTION | CERTIFICATE | LEAN_REPLAY
  | ENVIRONMENT | FORMAL_CHECKPOINT | SPECULATIVE_HYPOTHESIS | ATTEMPT | LEASE

text \<open>The members in declaration order, so that quantifiers over them compute.\<close>

instantiation id_type :: enum
begin

definition enum_id_type :: "id_type list" where
  "enum_id_type =
     [RESEARCH_STATE, RESEARCH_MOVE, CLAIM, FORMAL_DECLARATION, FORMAL_RUN, FORMAL_STATE,
      TACTIC_APPLICATION, ALIGNMENT, OBSTRUCTION, CERTIFICATE, LEAN_REPLAY,
      ENVIRONMENT, FORMAL_CHECKPOINT, SPECULATIVE_HYPOTHESIS, ATTEMPT, LEASE]"

definition enum_all_id_type :: "(id_type \<Rightarrow> bool) \<Rightarrow> bool" where
  "enum_all_id_type P \<longleftrightarrow> list_all P enum_class.enum"

definition enum_ex_id_type :: "(id_type \<Rightarrow> bool) \<Rightarrow> bool" where
  "enum_ex_id_type P \<longleftrightarrow> list_ex P enum_class.enum"

instance
proof
  have every: "t \<in> set enum_class.enum" for t :: id_type
    by (cases t) (simp_all add: enum_id_type_def)
  show "UNIV = set (enum_class.enum :: id_type list)" using every by blast
  show "distinct (enum_class.enum :: id_type list)" by (simp add: enum_id_type_def)
  show "enum_class.enum_all P \<longleftrightarrow> Ball UNIV P" for P :: "id_type \<Rightarrow> bool"
    using every by (auto simp: enum_all_id_type_def list_all_iff)
  show "enum_class.enum_ex P \<longleftrightarrow> Bex UNIV P" for P :: "id_type \<Rightarrow> bool"
    using every by (auto simp: enum_ex_id_type_def list_ex_iff)
qed

end

fun id_value :: "id_type \<Rightarrow> string" where
  "id_value RESEARCH_STATE = ''rs''"
| "id_value RESEARCH_MOVE = ''rm''"
| "id_value CLAIM = ''c''"
| "id_value FORMAL_DECLARATION = ''fd''"
| "id_value FORMAL_RUN = ''fr''"
| "id_value FORMAL_STATE = ''fs''"
| "id_value TACTIC_APPLICATION = ''ta''"
| "id_value ALIGNMENT = ''al''"
| "id_value OBSTRUCTION = ''obs''"
| "id_value CERTIFICATE = ''cert''"
| "id_value LEAN_REPLAY = ''lr''"
| "id_value ENVIRONMENT = ''env''"
| "id_value FORMAL_CHECKPOINT = ''fc''"
| "id_value SPECULATIVE_HYPOTHESIS = ''sh''"
| "id_value ATTEMPT = ''at''"
| "id_value LEASE = ''ls''"

definition ID_PREFIXES :: "id_type list" where
  "ID_PREFIXES =
     [RESEARCH_STATE, RESEARCH_MOVE, CLAIM, FORMAL_DECLARATION, FORMAL_RUN, FORMAL_STATE,
      TACTIC_APPLICATION, ALIGNMENT, OBSTRUCTION, CERTIFICATE, LEAN_REPLAY]"

definition DERIVED_ID_TYPES :: "id_type list" where
  "DERIVED_ID_TYPES = filter (\<lambda>t. t \<notin> set ID_PREFIXES) enum_class.enum"

definition BY_PREFIX :: "(string \<times> id_type) list" where
  "BY_PREFIX = map (\<lambda>t. (id_value t, t)) enum_class.enum"

lemma id_value_inj [simp]: "id_value s = id_value t \<longleftrightarrow> s = t"
  by (cases s; cases t) simp_all

lemma enum_every [simp]: "t \<in> set (enum_class.enum :: id_type list)"
  using enum_UNIV by blast

lemma BY_PREFIX_value [simp]: "map_of BY_PREFIX (id_value t) = Some t"
  unfolding BY_PREFIX_def by (rule map_of_is_SomeI) (auto simp: comp_def distinct_map enum_distinct inj_on_def)

lemma BY_PREFIX_Some: "map_of BY_PREFIX s = Some t \<longleftrightarrow> s = id_value t"
  using BY_PREFIX_value by (auto simp: BY_PREFIX_def dest: map_of_SomeD)

section \<open>The parser\<close>

text \<open>
  The compiled pattern tries the prefixes longest first, then the dash and the serial, and
  its \<^verbatim>\<open>$\<close> accepts the end of the text or a line feed that ends it.
\<close>

definition PATTERN_PREFIXES :: "id_type list" where
  "PATTERN_PREFIXES = rev (sort_key (\<lambda>t. length (id_value t)) (rev enum_class.enum))"

definition is_serial :: "string \<Rightarrow> bool" where
  "is_serial s \<longleftrightarrow> s \<noteq> [] \<and> hd s \<noteq> CHR ''0'' \<and> list_all is_digit s"

definition match_serial :: "string \<Rightarrow> string option" where
  "match_serial s =
     (if is_serial s then Some s
      else if s \<noteq> [] \<and> last s = CHR 0x0A \<and> is_serial (butlast s) then Some (butlast s)
      else None)"

definition match_prefix :: "string \<Rightarrow> id_type \<Rightarrow> (id_type \<times> string) option" where
  "match_prefix raw t =
     (let head = id_value t @ ''-''
      in if take (length head) raw = head
         then map_option (\<lambda>s. (t, s)) (match_serial (drop (length head) raw)) else None)"

definition match_local_id :: "string \<Rightarrow> (id_type \<times> string) option" where
  "match_local_id raw =
     (case List.map_filter (match_prefix raw) PATTERN_PREFIXES of [] \<Rightarrow> None | m # _ \<Rightarrow> Some m)"

definition parse_local_id :: "string \<Rightarrow> py_exc + id_type \<times> nat" where
  "parse_local_id raw =
     (case match_local_id raw of None \<Rightarrow> Inl ValueError | Some (t, s) \<Rightarrow> Inr (t, nat_of_str s))"

definition is_valid_local_id :: "string \<Rightarrow> bool" where
  "is_valid_local_id raw \<longleftrightarrow> match_local_id raw \<noteq> None"

section \<open>Rendering\<close>

text \<open>An \<^verbatim>\<open>IdType | str\<close> argument.\<close>

datatype id_arg = Typed id_type | Named string

fun resolve :: "id_arg \<Rightarrow> py_exc + string" where
  "resolve (Typed t) = Inr (id_value t)"
| "resolve (Named s) =
     (case map_of BY_PREFIX s of None \<Rightarrow> Inl ValueError | Some t \<Rightarrow> Inr (id_value t))"

fun resolve_typed :: "id_arg \<Rightarrow> py_exc + id_type" where
  "resolve_typed (Typed t) = Inr t"
| "resolve_typed (Named s) = (case map_of BY_PREFIX s of None \<Rightarrow> Inl KeyError | Some t \<Rightarrow> Inr t)"

definition local_id :: "id_arg \<Rightarrow> int \<Rightarrow> py_exc + string" where
  "local_id a serial =
     (case resolve a of
        Inl e \<Rightarrow> Inl e
      | Inr prefix \<Rightarrow> if serial < 1 then Inl ValueError else Inr (prefix @ ''-'' @ int_str serial))"

definition full_id :: "string \<Rightarrow> id_arg \<Rightarrow> int \<Rightarrow> py_exc + string" where
  "full_id proof a serial =
     (case local_id a serial of Inl e \<Rightarrow> Inl e | Inr s \<Rightarrow> Inr (proof @ ''/'' @ s))"

section \<open>The allocator\<close>

record allocator =
  al_proof :: string
  al_counters :: "(id_type \<times> int) list"

definition counter :: "allocator \<Rightarrow> id_type \<Rightarrow> int" where
  "counter a t = (case map_of (al_counters a) t of None \<Rightarrow> 0 | Some n \<Rightarrow> n)"

fun load_counters :: "(id_arg \<times> int) list \<Rightarrow> (id_type \<times> int) list \<Rightarrow> py_exc + (id_type \<times> int) list" where
  "load_counters [] cs = Inr cs"
| "load_counters ((a, n) # rest) cs =
     (case resolve_typed a of Inl e \<Rightarrow> Inl e | Inr t \<Rightarrow> load_counters rest (AList.update t n cs))"

definition new_allocator :: "string \<Rightarrow> (id_arg \<times> int) list \<Rightarrow> py_exc + allocator" where
  "new_allocator proof start =
     (case load_counters start [] of
        Inl e \<Rightarrow> Inl e | Inr cs \<Rightarrow> Inr \<lparr>al_proof = proof, al_counters = cs\<rparr>)"

definition next_id :: "id_arg \<Rightarrow> allocator \<Rightarrow> (py_exc + string) \<times> allocator" where
  "next_id arg a =
     (case resolve arg of
        Inl e \<Rightarrow> (Inl e, a)
      | Inr prefix \<Rightarrow>
          (case map_of BY_PREFIX prefix of
             None \<Rightarrow> (Inl KeyError, a)
           | Some t \<Rightarrow>
               let n = counter a t + 1
               in (full_id (al_proof a) (Typed t) n, a\<lparr>al_counters := AList.update t n (al_counters a)\<rparr>)))"

text \<open>Reading a counter of a \<^verbatim>\<open>defaultdict\<close> creates it.\<close>

definition used :: "id_arg \<Rightarrow> allocator \<Rightarrow> (py_exc + int) \<times> allocator" where
  "used arg a =
     (case resolve_typed arg of
        Inl e \<Rightarrow> (Inl e, a)
      | Inr t \<Rightarrow> (Inr (counter a t), a\<lparr>al_counters := setdefault t 0 (al_counters a)\<rparr>))"

definition allocator_state :: "allocator \<Rightarrow> (id_type \<times> int) list" where
  "allocator_state = al_counters"

section \<open>Rendering and parsing\<close>

lemma zero_no_serial [simp]: "\<not> is_serial (nat_str 0)"
  by code_simp

lemma nat_str_nat_of_str: "is_serial s \<Longrightarrow> nat_str (nat_of_str s) = s"
proof (induction s rule: rev_induct)
  case Nil
  then show ?case by (simp add: is_serial_def)
next
  case (snoc c s)
  have c: "is_digit c" "digit_val c < 10" "digit_char (digit_val c) = c"
    using snoc.prems by (auto simp: is_serial_def is_digit_def digit_val_def digit_char_def)
  show ?case
  proof (cases "s = []")
    case True
    then show ?thesis using c by (subst nat_str.simps) (simp add: nat_of_str_def)
  next
    case False
    then have ser: "is_serial s" using snoc.prems by (simp add: is_serial_def)
    then have IH: "nat_str (nat_of_str s) = s" by (rule snoc.IH)
    have "nat_of_str s \<noteq> 0"
    proof
      assume "nat_of_str s = 0"
      then have "s = nat_str 0" using IH by simp
      then show False using ser by simp
    qed
    moreover have "nat_of_str (s @ [c]) = 10 * nat_of_str s + digit_val c"
      by (simp add: nat_of_str_def)
    ultimately show ?thesis using c IH by (subst nat_str.simps) simp
  qed
qed

lemma is_serial_pos: "is_serial s \<Longrightarrow> 0 < nat_of_str s"
proof (rule ccontr)
  assume s: "is_serial s" and "\<not> 0 < nat_of_str s"
  then have "s = nat_str 0" using nat_str_nat_of_str by (metis gr0I)
  then show False using s by simp
qed

lemma is_serial_nat_str: "0 < n \<Longrightarrow> is_serial (nat_str n)"
  using nat_str_digits by (auto simp: is_serial_def list_all_iff hd_nat_str)

lemma split_unique:
  assumes "xs @ c # ys = us @ c # vs" "c \<notin> set xs" "c \<notin> set us"
  shows "xs = us \<and> ys = vs"
proof -
  have "takeWhile (\<lambda>x. x \<noteq> c) (zs @ c # ws) = zs" if "c \<notin> set zs" for zs ws
    using that by (induction zs) auto
  then show ?thesis using assms by (metis append_same_eq list.inject same_append_eq)
qed

lemma no_dash [simp]: "CHR ''-'' \<notin> set (id_value t)"
  by (cases t) simp_all

lemma match_prefix_Some:
  "match_prefix raw t = Some (u, s) \<longleftrightarrow>
     u = t \<and> is_serial s \<and> (\<exists>r. raw = id_value t @ CHR ''-'' # r \<and> (r = s \<or> r = s @ [CHR 0x0A]))"
  (is "?l \<longleftrightarrow> ?r")
proof -
  have serial: "match_serial r = Some s \<longleftrightarrow> is_serial s \<and> (r = s \<or> r = s @ [CHR 0x0A])" for r
  proof -
    have "\<not> is_serial (s @ [CHR 0x0A])" by (simp add: is_serial_def is_digit_def)
    moreover have "r \<noteq> [] \<Longrightarrow> last r = CHR 0x0A \<Longrightarrow> r = butlast r @ [CHR 0x0A]"
      by (metis append_butlast_last_id)
    ultimately show ?thesis unfolding match_serial_def by (auto split: if_splits)
  qed
  let ?n = "length (id_value t @ ''-'')"
  have split: "take ?n raw = id_value t @ ''-'' \<longleftrightarrow> (\<exists>r. raw = id_value t @ CHR ''-'' # r)"
  proof
    assume "take ?n raw = id_value t @ ''-''"
    then have "raw = id_value t @ CHR ''-'' # drop ?n raw"
      by (metis append.assoc append_Cons append_Nil append_take_drop_id)
    then show "\<exists>r. raw = id_value t @ CHR ''-'' # r" ..
  qed auto
  show ?thesis
  proof (cases "\<exists>r. raw = id_value t @ CHR ''-'' # r")
    case True
    then obtain r where r: "raw = id_value t @ CHR ''-'' # r" by blast
    then have "match_prefix raw t = map_option (Pair t) (match_serial r)"
      by (simp add: match_prefix_def Let_def)
    then show ?thesis using serial r by auto
  next
    case False
    then have "match_prefix raw t = None" unfolding match_prefix_def Let_def split by simp
    then show ?thesis using False by auto
  qed
qed

lemma set_PATTERN_PREFIXES: "t \<in> set PATTERN_PREFIXES"
  by (simp add: PATTERN_PREFIXES_def)

lemma match_local_id_Some:
  "match_local_id raw = Some (t, s) \<longleftrightarrow>
     is_serial s \<and> (raw = id_value t @ CHR ''-'' # s \<or> raw = id_value t @ CHR ''-'' # s @ [CHR 0x0A])"
  (is "_ \<longleftrightarrow> ?r")
proof -
  let ?ms = "List.map_filter (match_prefix raw) PATTERN_PREFIXES"
  have member: "(u, w) \<in> set ?ms \<longleftrightarrow> match_prefix raw u = Some (u, w)" for u w
    using set_PATTERN_PREFIXES by (auto simp: map_filter_member match_prefix_Some)
  have unique: "x = y" if "x \<in> set ?ms" "y \<in> set ?ms" for x y
  proof -
    obtain u w u' w' where xy: "x = (u, w)" "y = (u', w')" by (cases x, cases y)
    then have m: "match_prefix raw u = Some (u, w)" "match_prefix raw u' = Some (u', w')"
      using that member by simp_all
    then obtain r r' where "raw = id_value u @ CHR ''-'' # r" "raw = id_value u' @ CHR ''-'' # r'"
      unfolding match_prefix_Some by blast
    then have "id_value u = id_value u'" using split_unique no_dash by metis
    then show ?thesis using m xy by simp
  qed
  have "match_local_id raw = Some (t, s) \<longleftrightarrow> (t, s) \<in> set ?ms"
  proof (cases ?ms)
    case Nil
    then show ?thesis by (simp add: match_local_id_def)
  next
    case (Cons x xs)
    then show ?thesis using unique [of x "(t, s)"] by (auto simp: match_local_id_def)
  qed
  then show ?thesis unfolding member match_prefix_Some by auto
qed

lemma local_id_typed: "1 \<le> n \<Longrightarrow> local_id (Typed t) n = Inr (id_value t @ ''-'' @ nat_str (nat n))"
  by (simp add: local_id_def int_str_def)

lemma local_id_parses: "parse_local_id (id_value t @ CHR ''-'' # nat_str (Suc n)) = Inr (t, Suc n)"
proof -
  have "match_local_id (id_value t @ CHR ''-'' # nat_str (Suc n)) = Some (t, nat_str (Suc n))"
    by (simp add: match_local_id_Some is_serial_nat_str)
  then show ?thesis by (simp add: parse_local_id_def)
qed

text \<open>C22. Every id rendered from a type and a positive serial parses back to them, and nothing
  else parses: a text that parses is the id rendered from the result, or that id followed by
  a line feed.\<close>

theorem ids_round_trip:
  "(\<forall>t n. \<exists>s. local_id (Typed t) (int n + 1) = Inr s \<and> parse_local_id s = Inr (t, n + 1)) \<and>
   (\<forall>raw t n. parse_local_id raw = Inr (t, n) \<longrightarrow>
      1 \<le> n \<and> (\<exists>s. local_id (Typed t) (int n) = Inr s \<and> (raw = s \<or> raw = s @ [CHR 0x0A])))"
proof (intro conjI allI impI)
  fix t n
  have "nat (int n + 1) = Suc n" by simp
  then show "\<exists>s. local_id (Typed t) (int n + 1) = Inr s \<and> parse_local_id s = Inr (t, n + 1)"
    using local_id_typed [of "int n + 1" t] local_id_parses by simp
next
  fix raw t n
  assume "parse_local_id raw = Inr (t, n)"
  then obtain s where m: "match_local_id raw = Some (t, s)" and n: "n = nat_of_str s"
    by (auto simp: parse_local_id_def split: option.splits)
  then have s: "is_serial s" by (simp add: match_local_id_Some)
  show n1: "1 \<le> n" using is_serial_pos [OF s] n by simp
  have "local_id (Typed t) (int n) = Inr (id_value t @ CHR ''-'' # s)"
    using local_id_typed [of "int n" t] n1 n nat_str_nat_of_str [OF s] by simp
  then show "\<exists>s. local_id (Typed t) (int n) = Inr s \<and> (raw = s \<or> raw = s @ [CHR 0x0A])"
    using m by (auto simp: match_local_id_Some)
qed

text \<open>A claim id followed by a line feed is taken for the id itself.\<close>

lemma trailing_line_feed: "parse_local_id (''c-1'' @ [CHR 0x0A]) = Inr (CLAIM, 1)"
  by code_simp

theorem ids_round_trip_witness:
  "\<exists>s. local_id (Typed CLAIM) 1 = Inr s \<and> (''c-1'' @ [CHR 0x0A] = s \<or> ''c-1'' @ [CHR 0x0A] = s @ [CHR 0x0A])"
  using ids_round_trip [THEN conjunct2, rule_format, OF trailing_line_feed] by simp

section \<open>Allocation\<close>

text \<open>A sequence of calls of the allocator.\<close>

fun mint :: "id_type list \<Rightarrow> allocator \<Rightarrow> (py_exc + string) list \<times> allocator" where
  "mint [] a = ([], a)"
| "mint (t # ts) a =
     (let (out, a1) = next_id (Typed t) a; (outs, a2) = mint ts a1 in (out # outs, a2))"

definition scoped_id :: "string \<Rightarrow> id_type \<Rightarrow> nat \<Rightarrow> string" where
  "scoped_id proof t n = proof @ ''/'' @ id_value t @ ''-'' @ nat_str n"

lemma scoped_id_inject:
  assumes "scoped_id p t m = scoped_id p u n"
  shows "t = u" "m = n"
proof -
  have eq: "id_value t @ CHR ''-'' # nat_str m = id_value u @ CHR ''-'' # nat_str n"
    using assms by (simp add: scoped_id_def)
  from split_unique [OF eq no_dash no_dash] show "t = u" "m = n" by simp_all
qed

lemma next_id_typed:
  assumes "0 \<le> counter a t"
  shows "next_id (Typed t) a =
    (Inr (scoped_id (al_proof a) t (nat (counter a t) + 1)),
     a\<lparr>al_counters := AList.update t (counter a t + 1) (al_counters a)\<rparr>)"
proof -
  have "nat (counter a t + 1) = nat (counter a t) + 1" using assms by simp
  then show ?thesis
    using assms by (simp add: next_id_def Let_def full_id_def local_id_typed scoped_id_def)
qed

lemma counter_update:
  "counter (a\<lparr>al_counters := AList.update t n (al_counters a)\<rparr>) u = (if u = t then n else counter a u)"
  by (simp add: counter_def update_conv')

lemma mint_results:
  assumes "\<And>t. 0 \<le> counter a t"
  shows "fst (mint ts a) = map (\<lambda>i. Inr (scoped_id (al_proof a) (ts ! i)
      (nat (counter a (ts ! i)) + count_list (take (Suc i) ts) (ts ! i)))) [0..<length ts]"
  using assms
proof (induction ts arbitrary: a)
  case (Cons t ts)
  let ?a = "a\<lparr>al_counters := AList.update t (counter a t + 1) (al_counters a)\<rparr>"
  have c: "nat (counter ?a u) = nat (counter a u) + (if u = t then 1 else 0)" for u
    using Cons.prems [of t] by (simp add: counter_update nat_add_distrib)
  have pos: "0 \<le> counter ?a u" for u
    using Cons.prems [of t] Cons.prems [of u] by (simp add: counter_update)
  have IH: "fst (mint ts ?a) = map (\<lambda>i. Inr (scoped_id (al_proof a) (ts ! i)
      (nat (counter a (ts ! i)) + count_list (take (Suc (Suc i)) (t # ts)) (ts ! i)))) [0..<length ts]"
    unfolding Cons.IH [OF pos] by (rule map_cong) (auto simp: c)
  have "[0..<length (t # ts)] = 0 # map Suc [0..<length ts]"
    by (simp only: length_Cons upt_conv_Cons [of 0 "Suc (length ts)"] map_Suc_upt)
  then have "map (\<lambda>i. Inr (scoped_id (al_proof a) ((t # ts) ! i)
        (nat (counter a ((t # ts) ! i)) + count_list (take (Suc i) (t # ts)) ((t # ts) ! i)))) [0..<length (t # ts)] =
      Inr (scoped_id (al_proof a) t (nat (counter a t) + 1)) # fst (mint ts ?a)"
    unfolding IH by (simp add: comp_def)
  moreover have "fst (mint (t # ts) a) = Inr (scoped_id (al_proof a) t (nat (counter a t) + 1)) # fst (mint ts ?a)"
    using Cons.prems [of t] by (simp add: next_id_typed split_beta Let_def)
  ultimately show ?case by simp
qed simp

text \<open>A sequence of allocations gives every type consecutive serials from its counter on,
  never gives one id twice, and gives only ids in the namespace the commit gate admits for
  the proof.\<close>

lemma allocations_are_fresh:
  assumes "\<And>t. 0 \<le> counter a t"
  shows "fst (mint ts a) = map (\<lambda>i. Inr (scoped_id (al_proof a) (ts ! i)
       (nat (counter a (ts ! i)) + count_list (take (Suc i) ts) (ts ! i)))) [0..<length ts] \<and>
     distinct (fst (mint ts a)) \<and>
     (\<forall>s. Inr s \<in> set (fst (mint ts a)) \<longrightarrow> in_namespace (al_proof a) s)"
proof (intro conjI allI impI)
  show eq: "fst (mint ts a) = map (\<lambda>i. Inr (scoped_id (al_proof a) (ts ! i)
      (nat (counter a (ts ! i)) + count_list (take (Suc i) ts) (ts ! i)))) [0..<length ts]"
    by (rule mint_results [OF assms])
  have later: "count_list (take (Suc i) ts) (ts ! j) < count_list (take (Suc j) ts) (ts ! j)"
    if "i < j" "j < length ts" for i j
  proof -
    have "take (Suc j) ts = take j ts @ [ts ! j]" by (rule take_Suc_conv_app_nth [OF that(2)])
    moreover have "take j ts = take (Suc i) ts @ drop (Suc i) (take j ts)"
      using that by (metis Suc_leI append_take_drop_id min.absorb1 take_take)
    ultimately have "count_list (take (Suc j) ts) (ts ! j) =
        count_list (take (Suc i) ts) (ts ! j) + count_list (drop (Suc i) (take j ts)) (ts ! j) + 1"
      by (metis count_list_append add.assoc count_list.simps(1,2) add_0)
    then show ?thesis by simp
  qed
  show "distinct (fst (mint ts a))"
    unfolding eq distinct_map
  proof (intro conjI inj_onI distinct_upt)
    fix i j
    assume ij: "i \<in> set [0..<length ts]" "j \<in> set [0..<length ts]"
      and "(Inr (scoped_id (al_proof a) (ts ! i) (nat (counter a (ts ! i)) +
          count_list (take (Suc i) ts) (ts ! i))) :: py_exc + string) =
        Inr (scoped_id (al_proof a) (ts ! j) (nat (counter a (ts ! j)) + count_list (take (Suc j) ts) (ts ! j)))"
    then have "ts ! i = ts ! j" "count_list (take (Suc i) ts) (ts ! j) = count_list (take (Suc j) ts) (ts ! j)"
      using scoped_id_inject by (metis sum.inject(2) add_left_cancel)+
    then show "i = j" using later [of i j] later [of j i] ij by fastforce
  qed
  fix s assume "Inr s \<in> set (fst (mint ts a))"
  then obtain t n where "s = scoped_id (al_proof a) t n" unfolding eq by auto
  then show "in_namespace (al_proof a) s"
    by (simp add: in_namespace_def scoped_id_def startswith_def)
qed

lemma allocations_are_fresh_witness:
  "distinct (fst (mint [CLAIM, FORMAL_STATE, CLAIM] \<lparr>al_proof = ''p'', al_counters = []\<rparr>))"
  by (rule allocations_are_fresh [THEN conjunct2, THEN conjunct1]) (simp add: counter_def)

end
