(* ===== verification/Scheduler.thy ===== *)
theory Scheduler
  imports StoreSafety View "HOL-Library.Product_Lexorder"
begin

text \<open>
  The global scheduler, \<^verbatim>\<open>src/src/mathproof/scheduler.py\<close>: the frontier of committed objects
  that may be worked on, its scoring, the statistics that feed it, and \<^verbatim>\<open>lease_next\<close>, which
  leases the best one through the journal store.

  Floats are the rationals they denote; the rounding of literals and operations is a record
  of functions, \<open>float_ops\<close>, and no lemma assumes more of it than it says.
\<close>

record float_ops =
  fl_lit :: "rat \<Rightarrow> rat"
  fl_mul :: "rat \<Rightarrow> rat \<Rightarrow> rat"
  fl_div :: "rat \<Rightarrow> rat \<Rightarrow> rat"
  fl_sum :: "rat list \<Rightarrow> rat"

text \<open>A view that also lists its node ids, in insertion order (\<^verbatim>\<open>MemoryView.nodes\<close>).\<close>

record graph_view =
  gv_view :: read_view
  gv_ids :: "string list option"

definition as_graph :: "mem_view \<Rightarrow> graph_view" where
  "as_graph v = \<lparr>gv_view = as_view v, gv_ids = Some (map fst (mv_nodes v))\<rparr>"

section \<open>Features and policy\<close>

definition FEATURES :: "string list" where
  "FEATURES =
     [''dependency_centrality'', ''expected_theorem_impact'', ''expected_information_gain'',
      ''novelty_and_mechanism_diversity'', ''verification_value'', ''formalization_readiness'',
      ''estimated_cost'', ''repeated_failure_risk'', ''human_priority'',
      ''availability_of_suitable_worker_or_model_or_tool'']"

definition NEUTRAL_DEFAULTS :: "(string \<times> rat) list" where
  "NEUTRAL_DEFAULTS =
     [(''dependency_centrality'', 1/2), (''expected_theorem_impact'', 1/2),
      (''expected_information_gain'', 1/2), (''novelty_and_mechanism_diversity'', 1/2),
      (''verification_value'', 1/2), (''formalization_readiness'', 1/2), (''estimated_cost'', 1),
      (''repeated_failure_risk'', 1/2), (''human_priority'', 1/2),
      (''availability_of_suitable_worker_or_model_or_tool'', 1)]"

definition CATEGORY_WORKER_CLASS :: "(string \<times> string) list" where
  "CATEGORY_WORKER_CLASS =
     [(''research-move'', ''llm-research''), (''formal-run'', ''formal-atp''),
      (''critic-task'', ''critic'')]"

definition POLICY_NAME :: string where
  "POLICY_NAME = ''global-best-first-v1''"

record policy =
  pol_name :: string
  pol_weights :: "(string \<times> rat) list"

definition default_policy :: "float_ops \<Rightarrow> policy" where
  "default_policy fl =
     \<lparr>pol_name = POLICY_NAME,
      pol_weights =
        [(''expected_theorem_impact'', fl_lit fl (12/10)), (''expected_information_gain'', 1),
         (''verification_value'', 1), (''dependency_centrality'', fl_lit fl (8/10)),
         (''novelty_and_mechanism_diversity'', fl_lit fl (6/10)),
         (''formalization_readiness'', fl_lit fl (6/10)), (''human_priority'', fl_lit fl (8/10)),
         (''availability_of_suitable_worker_or_model_or_tool'', fl_lit fl (7/10)),
         (''estimated_cost'', - fl_lit fl (4/10)), (''repeated_failure_risk'', - fl_lit fl (6/10))]\<rparr>"

definition neutral :: "string \<Rightarrow> py_exc + rat" where
  "neutral name = (case map_of NEUTRAL_DEFAULTS name of None \<Rightarrow> Inl KeyError | Some x \<Rightarrow> Inr x)"

fun snapshot_of :: "(string \<times> rat) list \<Rightarrow> string list \<Rightarrow> py_exc + (string \<times> rat) list" where
  "snapshot_of features [] = Inr []"
| "snapshot_of features (name # names) =
     bind_res (neutral name) (\<lambda>default.
     bind_res (snapshot_of features names) (\<lambda>rest.
       Inr ((name, case map_of features name of None \<Rightarrow> default | Some x \<Rightarrow> x) # rest)))"

fun weighted :: "float_ops \<Rightarrow> policy \<Rightarrow> (string \<times> rat) list \<Rightarrow> py_exc + rat list" where
  "weighted fl pol [] = Inr []"
| "weighted fl pol ((name, x) # rest) =
     (case map_of (pol_weights pol) name of
        None \<Rightarrow> Inl KeyError
      | Some w \<Rightarrow> bind_res (weighted fl pol rest) (\<lambda>xs. Inr (fl_mul fl w x # xs)))"

definition score :: "float_ops \<Rightarrow> policy \<Rightarrow> (string \<times> rat) list \<Rightarrow> py_exc + rat \<times> (string \<times> rat) list" where
  "score fl pol features =
     bind_res (snapshot_of features FEATURES) (\<lambda>snapshot.
     bind_res (weighted fl pol snapshot) (\<lambda>terms. Inr (fl_sum fl terms, snapshot)))"

section \<open>Statistics\<close>

type_synonym statistics = "((string \<times> string) \<times> nat) list"

definition outcome_count :: "statistics \<Rightarrow> string \<Rightarrow> string \<Rightarrow> nat" where
  "outcome_count st category outcome =
     (case map_of st (category, outcome) of None \<Rightarrow> 0 | Some n \<Rightarrow> n)"

definition record_outcome :: "string \<Rightarrow> string \<Rightarrow> statistics \<Rightarrow> statistics" where
  "record_outcome category outcome st =
     AList.update (category, outcome) (outcome_count st category outcome + 1) st"

definition attempts :: "statistics \<Rightarrow> string \<Rightarrow> nat" where
  "attempts st category = sum_list (map snd (filter (\<lambda>e. fst (fst e) = category) st))"

definition failure_risk :: "float_ops \<Rightarrow> statistics \<Rightarrow> string \<Rightarrow> rat" where
  "failure_risk fl st category =
     (if attempts st category = 0 then 1/2
      else fl_div fl (of_nat (outcome_count st category ''failed'')) (of_nat (attempts st category)))"

definition statistics_to_dict :: "statistics \<Rightarrow> (string \<times> nat) list" where
  "statistics_to_dict st =
     foldl (\<lambda>d (k, n). AList.update (fst k @ '':'' @ snd k) n d) [] (sort_key fst st)"

definition update_statistics :: "bool \<Rightarrow> string \<Rightarrow> statistics \<Rightarrow> statistics" where
  "update_statistics accepted category =
     record_outcome category (if accepted then ''succeeded'' else ''failed'')"

section \<open>The frontier\<close>

record candidate =
  cd_move :: string
  cd_category :: string
  cd_detail :: string
  cd_features :: "(string \<times> rat) list"

definition status_in :: "node_rec \<Rightarrow> string list \<Rightarrow> bool" where
  "status_in r ss \<longleftrightarrow> list_ex (\<lambda>s. py_eq (dget (nr_fields r) ''status'') (PStr s)) ss"

definition node_ids :: "graph_view \<Rightarrow> py_exc + string list" where
  "node_ids g = (case gv_ids g of None \<Rightarrow> Inl TypeError | Some ids \<Rightarrow> Inr ids)"

definition scoped_nodes :: "graph_view \<Rightarrow> string \<Rightarrow> string list \<Rightarrow> (string \<times> node_rec) list" where
  "scoped_nodes g proof ids =
     List.map_filter (\<lambda>n. if startswith n (proof @ ''/'')
       then map_option (\<lambda>r. (n, r)) (rv_node (gv_view g) n) else None) ids"

definition has_favorable_verdict :: "read_view \<Rightarrow> string \<Rightarrow> bool" where
  "has_favorable_verdict v claim =
     list_ex (\<lambda>e. case rv_node v (er_src e) of
        None \<Rightarrow> False
      | Some attempt \<Rightarrow>
          nr_label attempt = ''Attempt'' \<and>
          py_eq (dget (nr_fields attempt) ''worker_class'') (PStr ''critic'') \<and>
          status_in attempt [''supported'', ''critic-accepted''])
       (rv_to v claim ''REVIEWS_CLAIM'')"

definition run_has_open_checkpoint :: "read_view \<Rightarrow> string \<Rightarrow> bool" where
  "run_has_open_checkpoint v run_id =
     list_ex (\<lambda>e. case rv_node v (er_dst e) of
        None \<Rightarrow> False
      | Some checkpoint \<Rightarrow>
          list_ex (\<lambda>f. case rv_node v (er_dst f) of
             None \<Rightarrow> False | Some state \<Rightarrow> status_in state [''open'', ''expanded''])
            (rv_from v (er_dst e) ''CHECKPOINT_FRONTIER''))
       (rv_from v run_id ''HAS_CHECKPOINT'')"

definition research_candidates ::
  "float_ops \<Rightarrow> read_view \<Rightarrow> (string \<times> node_rec) list \<Rightarrow> string \<times> node_rec \<Rightarrow> candidate list" where
  "research_candidates fl v nodes = (\<lambda>(state_id, state).
     if nr_label state \<noteq> ''ResearchState'' then []
     else if status_in state [''superseded'', ''refuted'', ''stale''] then []
     else List.map_filter (\<lambda>e.
       case (case map_of nodes (er_dst e) of None \<Rightarrow> rv_node v (er_dst e) | Some r \<Rightarrow> Some r) of
         None \<Rightarrow> None
       | Some move \<Rightarrow>
           if nr_label move = ''ResearchMove'' \<and> status_in move [''queued'', ''open'']
           then Some \<lparr>cd_move = er_dst e, cd_category = ''research-move'',
                      cd_detail = ''proposed by '' @ state_id,
                      cd_features = [(''expected_information_gain'', fl_lit fl (6/10)),
                        (''formalization_readiness'', fl_lit fl (3/10)), (''estimated_cost'', 1)]\<rparr>
           else None)
       (rv_from v state_id ''PROPOSES''))"

definition target_candidates ::
  "float_ops \<Rightarrow> read_view \<Rightarrow> string \<times> node_rec \<Rightarrow> candidate list" where
  "target_candidates fl v = (\<lambda>(n, r).
     if nr_label r = ''FormalDeclaration'' \<and> status_in r [''aligned'', ''searching''] then
       [\<lparr>cd_move = n, cd_category = ''formal-run'',
         cd_detail = ''declaration ready for formal search'',
         cd_features = [(''formalization_readiness'', 1), (''expected_theorem_impact'', fl_lit fl (8/10)),
           (''verification_value'', fl_lit fl (7/10)), (''estimated_cost'', 3)]\<rparr>]
     else if nr_label r = ''FormalRun'' then
       (if \<not> status_in r [''searching''] then []
        else if run_has_open_checkpoint v n then
          [\<lparr>cd_move = n, cd_category = ''formal-run'',
            cd_detail = ''searching run with an outstanding checkpoint'',
            cd_features = [(''formalization_readiness'', fl_lit fl (9/10)),
              (''expected_theorem_impact'', fl_lit fl (8/10)),
              (''verification_value'', fl_lit fl (7/10)), (''estimated_cost'', 2)]\<rparr>]
        else [])
     else if nr_label r = ''Claim'' then
       (if \<not> status_in r [''provisional''] then []
        else if has_favorable_verdict v n then []
        else
          [\<lparr>cd_move = n, cd_category = ''critic-task'',
            cd_detail = ''provisional claim awaiting a critic verdict'',
            cd_features = [(''verification_value'', fl_lit fl (9/10)),
              (''dependency_centrality'',
                 min 1 (fl_mul fl (1/4) (of_nat (length (rv_from v n ''DEPENDS_ON'') + 1)))),
              (''estimated_cost'', fl_lit fl (15/10))]\<rparr>])
     else [])"

definition build_frontier :: "float_ops \<Rightarrow> graph_view \<Rightarrow> string \<Rightarrow> py_exc + candidate list" where
  "build_frontier fl g proof =
     bind_res (node_ids g) (\<lambda>ids.
       let nodes = scoped_nodes g proof ids; v = gv_view g
       in Inr (concat (map (research_candidates fl v nodes) nodes) @
               concat (map (target_candidates fl v) nodes)))"

section \<open>Scoring and leasing\<close>

definition feature_vector ::
  "float_ops \<Rightarrow> statistics \<Rightarrow> candidate \<Rightarrow> string \<Rightarrow> (string \<times> rat) list" where
  "feature_vector fl st c requested =
     (let base = foldl (\<lambda>d (k, x). AList.update k x d) NEUTRAL_DEFAULTS (cd_features c);
          risk = AList.update ''repeated_failure_risk'' (failure_risk fl st (cd_category c)) base;
          natural = (case map_of CATEGORY_WORKER_CLASS (cd_category c) of None \<Rightarrow> requested | Some w \<Rightarrow> w)
      in AList.update ''availability_of_suitable_worker_or_model_or_tool''
           (if requested = natural then 1 else fl_lit fl (3/10)) risk)"

record scheduler =
  sc_floats :: float_ops
  sc_view :: graph_view
  sc_policy :: policy
  sc_stats :: statistics

fun score_all ::
  "scheduler \<Rightarrow> string \<Rightarrow> candidate list \<Rightarrow> py_exc + (rat \<times> string \<times> (string \<times> rat) list) list" where
  "score_all s requested [] = Inr []"
| "score_all s requested (c # cs) =
     bind_res (score (sc_floats s) (sc_policy s) (feature_vector (sc_floats s) (sc_stats s) c requested))
       (\<lambda>(priority, snapshot). bind_res (score_all s requested cs)
          (\<lambda>rest. Inr ((priority, cd_move c, snapshot) # rest)))"

text \<open>\<^verbatim>\<open>sort(reverse=True)\<close> keeps the order of equal keys.\<close>

definition ranking :: "(rat \<times> string \<times> 'a) list \<Rightarrow> (string \<times> 'a) list" where
  "ranking scored = map snd (rev (sort_key fst (rev scored)))"

definition snapshot_dict :: "(string \<times> rat) list \<Rightarrow> pyval" where
  "snapshot_dict snapshot = PDict (map (\<lambda>(k, x). (k, PFloat (Finite x))) snapshot)"

record lease =
  ls_row :: lease_row
  ls_move :: string
  ls_snapshot :: "(string \<times> rat) list"
  ls_policy :: string

definition lease_from_row :: "lease_row \<Rightarrow> (string \<times> rat) list \<Rightarrow> string \<Rightarrow> lease" where
  "lease_from_row row snapshot name =
     \<lparr>ls_row = row, ls_move = (case lr_move row of None \<Rightarrow> [] | Some m \<Rightarrow> m),
      ls_snapshot = snapshot, ls_policy = name\<rparr>"

text \<open>
  \<^verbatim>\<open>lease_next\<close> runs two transactions on the store, each with a lock outcome and its clock
  readings: the sweep of the active leases (at \<open>t0\<close>) and the dispatch (at \<open>t1\<close>, \<open>t2\<close>).
\<close>

definition eligible_ranking ::
  "scheduler \<Rightarrow> string \<Rightarrow> string \<Rightarrow> lease_row list \<Rightarrow> py_exc + (string \<times> (string \<times> rat) list) list" where
  "eligible_ranking s proof worker_class rows =
     bind_res (build_frontier (sc_floats s) (sc_view s) proof) (\<lambda>frontier.
     bind_res (score_all s worker_class
         (filter (\<lambda>c. Some (cd_move c) \<notin> set (map lr_move rows)) frontier)) (\<lambda>scored.
       Inr (ranking scored)))"

definition lease_next ::
  "runtime \<Rightarrow> lock \<Rightarrow> rat \<Rightarrow> lock \<Rightarrow> rat \<Rightarrow> rat \<Rightarrow> scheduler \<Rightarrow> string \<Rightarrow> string \<Rightarrow> rat \<Rightarrow>
     db \<Rightarrow> (store_error + lease option) \<times> db" where
  "lease_next rt lk0 t0 lk t1 t2 s proof worker_class ttl d =
     (case active_leases lk0 t0 proof d of
        (Inl e, d1) \<Rightarrow> (Inl e, d1)
      | (Inr rows, d1) \<Rightarrow>
          (case eligible_ranking s proof worker_class rows of
             Inl exc \<Rightarrow> (Inl (PyError exc), d1)
           | Inr ranked \<Rightarrow>
               (case dispatch_lease rt lk t1 t2 proof
                       (map (\<lambda>(m, snapshot). (m, Some (snapshot_dict snapshot))) ranked)
                       worker_class ttl d1 of
                  (Inl e, d2) \<Rightarrow> (Inl e, d2)
                | (Inr None, d2) \<Rightarrow> (Inr None, d2)
                | (Inr (Some row), d2) \<Rightarrow>
                    (case List.find (\<lambda>(m, _). Some m = lr_move row) ranked of
                       None \<Rightarrow> (Inl (PyError OutOfModel), d2)
                     | Some (_, snapshot) \<Rightarrow>
                         (Inr (Some (lease_from_row row snapshot (pol_name (sc_policy s)))), d2)))))"

definition release :: "lock \<Rightarrow> string \<Rightarrow> string \<Rightarrow> db \<Rightarrow> (store_error + bool) \<times> db" where
  "release = release_lease"

section \<open>What a lease is\<close>

lemma snapshot_of_keys: "snapshot_of features names = Inr snapshot \<Longrightarrow> map fst snapshot = names"
  by (induction names arbitrary: snapshot) (auto simp: bind_res_def split: sum.splits)

lemma score_all_Inr:
  "score_all s w cs = Inr scored \<longleftrightarrow>
     list_all2 (\<lambda>c (priority, move, snapshot). move = cd_move c \<and>
       score (sc_floats s) (sc_policy s) (feature_vector (sc_floats s) (sc_stats s) c w) = Inr (priority, snapshot))
       cs scored"
proof (induction cs arbitrary: scored)
  case Nil
  then show ?case by auto
next
  case (Cons c cs)
  show ?case
  proof (cases "score (sc_floats s) (sc_policy s) (feature_vector (sc_floats s) (sc_stats s) c w)")
    case (Inl e)
    then show ?thesis by (auto simp: list_all2_Cons1)
  next
    case (Inr x)
    then show ?thesis
      using Cons.IH by (cases x; cases "score_all s w cs") (auto simp: list_all2_Cons1)
  qed
qed

lemma ranking_set: "set (ranking scored) = snd ` set scored"
  by (simp add: ranking_def)

lemma ranking_Nil [simp]: "ranking scored = [] \<longleftrightarrow> scored = []"
proof -
  have "length (ranking scored) = length scored" by (simp add: ranking_def)
  then show ?thesis by (metis length_0_conv)
qed

lemma ranking_first:
  assumes "ranking scored = x # xs"
  obtains priority where "(priority, x) \<in> set scored" "\<And>q y. (q, y) \<in> set scored \<Longrightarrow> q \<le> priority"
proof -
  let ?l = "sort_key fst (rev scored)"
  have ne: "?l \<noteq> []" using assms by (auto simp: ranking_def)
  have "hd (map snd (rev ?l)) = x" using assms unfolding ranking_def by (metis list.sel(1))
  then have l: "snd (last ?l) = x" using ne by (simp add: hd_map hd_rev)
  have m: "last ?l \<in> set scored" using last_in_set [OF ne] by simp
  have "q \<le> fst (last ?l)" if "(q, y) \<in> set scored" for q y
  proof -
    have "(q, y) \<in> set ?l" using that by simp
    then obtain i where i: "i < length ?l" "?l ! i = (q, y)" by (meson in_set_conv_nth)
    have "sorted (map fst ?l)" by simp
    then have "map fst ?l ! i \<le> map fst ?l ! (length ?l - 1)"
      using i by (intro sorted_nth_mono) auto
    then show ?thesis using i ne by (simp add: last_conv_nth)
  qed
  then show thesis using that [of "fst (last ?l)"] l m by (metis prod.collapse)
qed

lemma active_rows:
  assumes "store_ok rt d" "active_leases lk0 t0 p d = (Inr rows, d1)"
  shows "store_ok rt d1" "db_journal d1 = db_journal d"
    "Some m \<in> set (map lr_move rows) \<longleftrightarrow> held d p t0 m" "held d1 p t1 m \<Longrightarrow> held d p t0 m"
proof -
  have b: "rows = filter (\<lambda>r. lr_status r = Active) (leases_of d1 p)" and d1: "d1 = snd (expire_due_leases p t0 d)"
    using assms(2) by (auto simp: active_leases_def write_tx_Inr active_body_def Let_def)
  show "store_ok rt d1" using step_change store_step.active assms by blast
  show "db_journal d1 = db_journal d" by (simp add: d1)
  have "Some m \<in> set (map lr_move rows) \<longleftrightarrow> m \<in> set (taken_moves d1 p)"
    unfolding b taken_moves_iff by (auto simp: leases_of_def image_iff)
  then show "Some m \<in> set (map lr_move rows) \<longleftrightarrow> held d p t0 m"
    using taken_after_expiry assms(1) by (simp add: d1 store_ok_def)
  assume "held d1 p t1 m"
  then obtain r where r: "r \<in> set (db_leases d1)" "lr_proof r = p" "lr_move r = Some m" "is_live r t1"
    by (auto simp: held_def)
  then have "lr_status r = Active" by (simp add: is_live_def)
  from unexpired_rows [OF r(1) [unfolded d1] this r(2)] have "r \<in> set (db_leases d)" "is_live r t0"
    using r(2,4) by (auto simp: is_live_def due_def split: option.splits)
  then show "held d p t0 m" using r(2,3) by (auto simp: held_def)
qed

text \<open>Calls of \<^verbatim>\<open>lease_next\<close> that return, opened up.\<close>

lemma lease_next_Inr:
  assumes "lease_next rt lk0 t0 lk t1 t2 s p w ttl d = (Inr out, d')"
  obtains rows d1 ranked granted where
    "active_leases lk0 t0 p d = (Inr rows, d1)" "eligible_ranking s p w rows = Inr ranked"
    "dispatch_lease rt lk t1 t2 p (map (\<lambda>(m, snapshot). (m, Some (snapshot_dict snapshot))) ranked) w ttl d1 =
       (Inr granted, d')"
    "out = None \<longleftrightarrow> granted = None"
    "\<forall>row. granted = Some row \<longrightarrow> (\<exists>m snapshot. List.find (\<lambda>(m, _). Some m = lr_move row) ranked = Some (m, snapshot) \<and>
       out = Some (lease_from_row row snapshot (pol_name (sc_policy s))))"
proof -
  obtain o1 d1 where 1: "active_leases lk0 t0 p d = (o1, d1)" by (metis surj_pair)
  then obtain rows where rows: "o1 = Inr rows"
    using assms by (cases o1) (auto simp: lease_next_def)
  then obtain ranked where 2: "eligible_ranking s p w rows = Inr ranked"
    using assms 1 by (cases "eligible_ranking s p w rows") (auto simp: lease_next_def)
  obtain o2 d2 where 3: "dispatch_lease rt lk t1 t2 p
      (map (\<lambda>(m, snapshot). (m, Some (snapshot_dict snapshot))) ranked) w ttl d1 = (o2, d2)" by (metis surj_pair)
  then obtain granted where g: "o2 = Inr granted"
    using assms 1 2 rows by (cases o2) (auto simp: lease_next_def)
  show thesis
  proof (cases granted)
    case None
    then show thesis using that [OF _ 2, of d1 None] assms 1 2 3 g rows by (auto simp: lease_next_def)
  next
    case (Some row)
    then have "(case List.find (\<lambda>(m, _). Some m = lr_move row) ranked of
        None \<Rightarrow> (Inl (PyError OutOfModel), d2)
      | Some (_, snapshot) \<Rightarrow> (Inr (Some (lease_from_row row snapshot (pol_name (sc_policy s)))), d2)) = (Inr out, d')"
      using assms 1 2 3 g rows by (simp add: lease_next_def)
    then obtain m snapshot where f: "List.find (\<lambda>(m, _). Some m = lr_move row) ranked = Some (m, snapshot)"
      "out = Some (lease_from_row row snapshot (pol_name (sc_policy s)))" "d' = d2"
      by (auto split: option.splits)
    then show thesis using that [OF _ 2, of d1 granted] 1 3 g rows Some by auto
  qed
qed

text \<open>The candidates that no live lease holds, with their scores.\<close>

definition free_candidates :: "scheduler \<Rightarrow> db \<Rightarrow> string \<Rightarrow> rat \<Rightarrow> candidate list \<Rightarrow> candidate list" where
  "free_candidates s d p now frontier = filter (\<lambda>c. \<not> held d p now (cd_move c)) frontier"

definition score_of :: "scheduler \<Rightarrow> string \<Rightarrow> candidate \<Rightarrow> py_exc + rat \<times> (string \<times> rat) list" where
  "score_of s w c =
     score (sc_floats s) (sc_policy s) (feature_vector (sc_floats s) (sc_stats s) c w)"

lemma eligible_ranking_Inr:
  assumes "eligible_ranking s p w rows = Inr ranked" "build_frontier (sc_floats s) (sc_view s) p = Inr frontier"
    and "\<And>m. Some m \<in> set (map lr_move rows) \<longleftrightarrow> held d p t0 m"
  obtains scored where "ranked = ranking scored"
    "list_all2 (\<lambda>c (priority, move, snapshot). move = cd_move c \<and> score_of s w c = Inr (priority, snapshot))
       (free_candidates s d p t0 frontier) scored"
proof -
  have f: "filter (\<lambda>c. Some (cd_move c) \<notin> set (map lr_move rows)) frontier = free_candidates s d p t0 frontier"
    unfolding free_candidates_def assms(3) ..
  obtain scored where "score_all s w (free_candidates s d p t0 frontier) = Inr scored" "ranked = ranking scored"
    using assms(1,2) f by (auto simp: eligible_ranking_def bind_res_def split: sum.splits)
  then show thesis using that unfolding score_all_Inr score_of_def by blast
qed

text \<open>C23. A call of lease-next returns nothing exactly when every candidate of the frontier is
  held by a live lease; otherwise it leases a free candidate with the highest score, in a
  row of the store for that move, with the snapshot of that score. It writes no event to any
  journal.\<close>

theorem lease_next_takes_best:
  assumes "store_ok rt d" "build_frontier (sc_floats s) (sc_view s) p = Inr frontier"
    and "lease_next rt lk0 t0 lk t1 t2 s p w ttl d = (Inr out, d')"
  shows "(out = None \<longleftrightarrow> free_candidates s d p t0 frontier = []) \<and>
     (\<forall>l. out = Some l \<longrightarrow>
        (\<exists>c \<in> set (free_candidates s d p t0 frontier). \<exists>priority.
           ls_move l = cd_move c \<and> score_of s w c = Inr (priority, ls_snapshot l) \<and>
           (\<forall>b \<in> set (free_candidates s d p t0 frontier). \<exists>q snap. score_of s w b = Inr (q, snap) \<and> q \<le> priority)) \<and>
        filter (\<lambda>r. lr_proof r = p \<and> lr_status r = Active \<and> lr_move r = Some (ls_move l)) (db_leases d') =
          [ls_row l]) \<and>
     read_events d' q = read_events d q"
proof -
  let ?free = "free_candidates s d p t0 frontier"
  obtain rows d1 ranked granted where
    a: "active_leases lk0 t0 p d = (Inr rows, d1)" and r: "eligible_ranking s p w rows = Inr ranked" and
    g: "dispatch_lease rt lk t1 t2 p (map (\<lambda>(m, snapshot). (m, Some (snapshot_dict snapshot))) ranked) w ttl d1 =
       (Inr granted, d')" and
    out: "out = None \<longleftrightarrow> granted = None" and
    row: "\<forall>row. granted = Some row \<longrightarrow> (\<exists>m snapshot. List.find (\<lambda>(m, _). Some m = lr_move row) ranked = Some (m, snapshot) \<and>
       out = Some (lease_from_row row snapshot (pol_name (sc_policy s))))"
    by (rule lease_next_Inr [OF assms(3)])
  note ar = active_rows [OF assms(1) a]
  obtain scored where sc: "ranked = ranking scored"
    "list_all2 (\<lambda>c (priority, move, snapshot). move = cd_move c \<and> score_of s w c = Inr (priority, snapshot)) ?free scored"
    by (rule eligible_ranking_Inr [OF r assms(2) ar(3)])
  have scored: "\<exists>c \<in> set ?free. m = cd_move c \<and> score_of s w c = Inr (q, snap)"
    if "(q, m, snap) \<in> set scored" for q m snap
    using sc(2) that by (fastforce simp: list_all2_conv_all_nth in_set_conv_nth)
  have free: "\<exists>q m snap. (q, m, snap) \<in> set scored \<and> score_of s w c = Inr (q, snap)" if "c \<in> set ?free" for c
    using sc(2) that by (fastforce simp: list_all2_conv_all_nth in_set_conv_nth)
  have unheld: "\<not> held d1 p t1 m" if "m \<in> fst ` set ranked" for m
  proof -
    from that obtain q snap where "(q, m, snap) \<in> set scored" by (auto simp: sc(1) ranking_set)
    then have "\<not> held d p t0 m" using scored by (auto simp: free_candidates_def)
    then show ?thesis using ar(4) by blast
  qed
  have moves: "map fst (map (\<lambda>(m, snapshot). (m, Some (snapshot_dict snapshot))) ranked) = map fst ranked"
    by (simp add: comp_def split_beta)
  have best: "map_option lr_move granted = map_option Some (List.find (\<lambda>m. \<not> held d1 p t1 m) (map fst ranked))"
    and only: "\<And>row. granted = Some row \<Longrightarrow>
      filter (\<lambda>r. lr_proof r = p \<and> lr_status r = Active \<and> lr_move r = lr_move row) (db_leases d') = [row]"
    using dispatch_best_free [OF ar(1) g] unfolding moves by blast+
  have first: "List.find (\<lambda>m. \<not> held d1 p t1 m) (map fst ranked) =
      (case ranked of [] \<Rightarrow> None | x # _ \<Rightarrow> Some (fst x))"
    using unheld by (cases ranked) auto
  have "granted = None \<longleftrightarrow> ranked = []" using best unfolding first by (cases ranked) auto
  also have "\<dots> \<longleftrightarrow> ?free = []" using sc(2) by (auto simp: sc(1))
  finally have none: "out = None \<longleftrightarrow> ?free = []" using out by simp
  have some: "(\<exists>c \<in> set ?free. \<exists>priority. ls_move l = cd_move c \<and> score_of s w c = Inr (priority, ls_snapshot l) \<and>
         (\<forall>b \<in> set ?free. \<exists>q snap. score_of s w b = Inr (q, snap) \<and> q \<le> priority)) \<and>
      filter (\<lambda>r. lr_proof r = p \<and> lr_status r = Active \<and> lr_move r = Some (ls_move l)) (db_leases d') = [ls_row l]"
    if l: "out = Some l" for l
  proof -
    obtain lr where lr: "granted = Some lr" using l out by (cases granted) auto
    then obtain x xs where x: "ranked = x # xs" using best unfolding first by (cases ranked) auto
    then have mv: "lr_move lr = Some (fst x)" using best lr unfolding first by simp
    then have "List.find (\<lambda>(m, _). Some m = lr_move lr) ranked = Some x" using x by (cases x) simp
    then have l': "l = lease_from_row lr (snd x) (pol_name (sc_policy s))" using row lr l by auto
    from x sc(1) have "ranking scored = x # xs" by simp
    then obtain priority where pr: "(priority, x) \<in> set scored" "\<And>q y. (q, y) \<in> set scored \<Longrightarrow> q \<le> priority"
      by (rule ranking_first) blast
    obtain c where c: "c \<in> set ?free" "fst x = cd_move c" "score_of s w c = Inr (priority, snd x)"
      using scored [of priority "fst x" "snd x"] pr(1) by auto
    have "\<exists>q snap. score_of s w b = Inr (q, snap) \<and> q \<le> priority" if "b \<in> set ?free" for b
      using free [OF that] pr(2) by blast
    moreover have "ls_move l = fst x" "ls_snapshot l = snd x" "ls_row l = lr"
      using mv by (simp_all add: l' lease_from_row_def)
    ultimately show ?thesis using c only [OF lr] mv by auto
  qed
  have "db_journal d' = db_journal d1"
  proof -
    from g have "dispatch_body rt t1 t2 p (map (\<lambda>(m, snapshot). (m, Some (snapshot_dict snapshot))) ranked) w ttl d1 =
        Inr (granted, d')" by (simp add: dispatch_lease_def write_tx_Inr split: if_splits)
    then show ?thesis by (rule dispatch_keeps_journal)
  qed
  then have "read_events d' q = read_events d q" using same_journal [of d' d q] ar(2) by (simp add: read_events_def)
  then show ?thesis using none some by blast
qed

section \<open>Statistics\<close>

lemma attempts_update:
  assumes "distinct (map fst st)"
  shows "attempts (record_outcome c out st) c' = attempts st c' + (if c' = c then 1 else 0)"
proof -
  let ?sum = "\<lambda>xs. sum_list (map snd (filter (\<lambda>e. fst (fst e) = c') xs))"
  have "?sum (AList.update (c, out) (n + 1) xs) = ?sum xs + (if c' = c then 1 else 0)"
    if "(case map_of xs (c, out) of None \<Rightarrow> 0 | Some m \<Rightarrow> m) = n" "distinct (map fst xs)" for xs :: statistics and n
    using that
  proof (induction xs)
    case (Cons x xs)
    show ?case
    proof (cases "fst x = (c, out)")
      case True
      then show ?thesis using Cons.prems by (cases x) auto
    next
      case False
      then show ?thesis using Cons by (cases x) auto
    qed
  qed auto
  from this [OF refl assms] show ?thesis
    by (simp add: attempts_def record_outcome_def outcome_count_def)
qed

lemma count_update:
  "outcome_count (record_outcome c out st) c' out' =
     outcome_count st c' out' + (if (c', out') = (c, out) then 1 else 0)"
  by (simp add: outcome_count_def record_outcome_def update_conv')

lemma distinct_record: "distinct (map fst st) \<Longrightarrow> distinct (map fst (record_outcome c out st))"
  by (simp add: record_outcome_def distinct_update)

text \<open>The statistics after a history of cycles: category and whether the commit was accepted.\<close>

definition statistics_after :: "(string \<times> bool) list \<Rightarrow> statistics" where
  "statistics_after hist = fold (\<lambda>(category, accepted). update_statistics accepted category) hist []"

lemma statistics_after_snoc:
  "statistics_after (hist @ [x]) = update_statistics (snd x) (fst x) (statistics_after hist)"
  by (simp add: statistics_after_def split_beta)

lemma statistics_counts:
  "distinct (map fst (statistics_after hist)) \<and>
   attempts (statistics_after hist) c = length (filter (\<lambda>x. fst x = c) hist) \<and>
   outcome_count (statistics_after hist) c ''failed'' = length (filter (\<lambda>x. x = (c, False)) hist)"
proof (induction hist rule: rev_induct)
  case Nil
  then show ?case by (simp add: statistics_after_def attempts_def outcome_count_def)
next
  case (snoc x hist)
  then show ?case
    by (cases x) (auto simp: statistics_after_snoc update_statistics_def attempts_update count_update
        intro: distinct_record)
qed

text \<open>The failure risk of a category is the midpoint while nothing is recorded for it, and
  then the quotient of the failed by all recorded attempts; with a division that rounds
  quotients of numbers up to the divisor into the unit interval it is always a probability.\<close>

lemma failure_risk_is_failure_rate:
  assumes "\<And>a b. 0 \<le> a \<Longrightarrow> a \<le> b \<Longrightarrow> 0 < b \<Longrightarrow> 0 \<le> fl_div fl a b \<and> fl_div fl a b \<le> 1"
  shows "failure_risk fl (statistics_after hist) c =
      (if \<forall>x \<in> set hist. fst x \<noteq> c then 1/2
       else fl_div fl (of_nat (length (filter (\<lambda>x. x = (c, False)) hist)))
              (of_nat (length (filter (\<lambda>x. fst x = c) hist)))) \<and>
    0 \<le> failure_risk fl (statistics_after hist) c \<and> failure_risk fl (statistics_after hist) c \<le> 1"
proof -
  let ?failed = "filter (\<lambda>x. x = (c, False)) hist" and ?all = "filter (\<lambda>x. fst x = c) hist"
  have "?failed = filter (\<lambda>x. \<not> snd x) ?all" by (induction hist) auto
  then have le: "length ?failed \<le> length ?all" by (metis length_filter_le)
  have none: "(\<forall>x \<in> set hist. fst x \<noteq> c) \<longleftrightarrow> length ?all = 0" by (simp add: filter_empty_conv)
  show ?thesis
    using assms [of "of_nat (length ?failed)" "of_nat (length ?all)"] le
    unfolding none by (simp add: failure_risk_def statistics_counts)
qed

section \<open>A scheduled run\<close>

definition exact_floats :: float_ops where
  "exact_floats = \<lparr>fl_lit = (\<lambda>x. x), fl_mul = (*), fl_div = (/), fl_sum = sum_list\<rparr>"

definition frontier_view :: mem_view where
  "frontier_view =
     mem_add_node (mem_add_node empty_view ''p/c-1'' ''Claim'' [(''status'', PStr ''provisional'')])
       ''p/fd-1'' ''FormalDeclaration'' [(''status'', PStr ''aligned'')]"

definition demo_scheduler :: scheduler where
  "demo_scheduler =
     \<lparr>sc_floats = exact_floats, sc_view = as_graph frontier_view,
      sc_policy = default_policy exact_floats, sc_stats = []\<rparr>"

lemma demo_lease_next:
  "case fst (lease_next demo_runtime uncontended 0 uncontended 0 0 demo_scheduler ''p'' ''critic'' 60 empty_db) of
     Inr (Some l) \<Rightarrow> ls_move l = ''p/c-1'' | _ \<Rightarrow> False"
  by code_simp

theorem lease_next_takes_best_witness:
  "free_candidates demo_scheduler empty_db ''p'' 0
     (projr (build_frontier exact_floats (as_graph frontier_view) ''p'')) \<noteq> []"
proof -
  obtain frontier where f: "build_frontier (sc_floats demo_scheduler) (sc_view demo_scheduler) ''p'' = Inr frontier"
    by (simp add: demo_scheduler_def build_frontier_def node_ids_def as_graph_def Let_def)
  obtain l d' where "lease_next demo_runtime uncontended 0 uncontended 0 0 demo_scheduler ''p'' ''critic'' 60
      empty_db = (Inr (Some l), d')"
    using demo_lease_next
    by (cases "lease_next demo_runtime uncontended 0 uncontended 0 0 demo_scheduler ''p'' ''critic'' 60 empty_db")
       (auto split: sum.splits option.splits)
  from lease_next_takes_best [OF empty_store_ok f this] f show ?thesis by (simp add: demo_scheduler_def)
qed

lemma failure_risk_is_failure_rate_witness:
  "failure_risk exact_floats (statistics_after [(''critic-task'', False), (''critic-task'', True)]) ''critic-task'' \<le> 1"
proof -
  have "0 \<le> fl_div exact_floats a b \<and> fl_div exact_floats a b \<le> 1" if "0 \<le> a" "a \<le> b" "0 < b" for a b
    using that by (simp add: exact_floats_def)
  from failure_risk_is_failure_rate [OF this] show ?thesis by blast
qed

end
