(* ===== verification/PropertyGraph.thy ===== *)
theory PropertyGraph
  imports Prelude "HOL-Library.AList"
begin

text \<open>
  The property graph that \<^verbatim>\<open>src/neo4j_adapter/\<close> writes with Cypher statements, and the
  transactions of \<^verbatim>\<open>session.py\<close>. The database is no part of the repository; of Cypher this
  theory has the three statement forms the adapter is written in, with their documented
  reading: \<open>MERGE\<close> of a node by its composite key, \<open>MATCH ... SET\<close>, and \<open>MATCH ... MERGE\<close>
  of a relationship between matched nodes, each with its \<open>ON CREATE\<close> part. Setting a property
  to null removes it, and a map is no property value.

  Whether the driver fails an operation, and in which order the rows of a query come that
  does not order them, are arguments (\<open>driver\<close>).
\<close>

section \<open>The graph\<close>

type_synonym node_key = "string \<times> string \<times> string"

record gnode =
  gn_key :: node_key
  gn_props :: fields

record gedge =
  ge_rel :: string
  ge_src :: node_key
  ge_dst :: node_key
  ge_id :: string
  ge_props :: fields

record graph =
  gr_nodes :: "gnode list"
  gr_edges :: "gedge list"

abbreviation gn_label :: "gnode \<Rightarrow> string" where "gn_label n \<equiv> fst (gn_key n)"
abbreviation gn_proof :: "gnode \<Rightarrow> string" where "gn_proof n \<equiv> fst (snd (gn_key n))"
abbreviation gn_id :: "gnode \<Rightarrow> string" where "gn_id n \<equiv> snd (snd (gn_key n))"

definition empty_graph :: graph where
  "empty_graph = \<lparr>gr_nodes = [], gr_edges = []\<rparr>"

definition prop_of :: "gnode \<Rightarrow> string \<Rightarrow> pyval" where
  "prop_of n k = dget (gn_props n) k"

text \<open>Comparison with null is null, which a \<open>WHERE\<close> takes for false.\<close>

definition prop_is :: "gnode \<Rightarrow> string \<Rightarrow> string \<Rightarrow> bool" where
  "prop_is n k s \<longleftrightarrow> prop_of n k = PStr s"

definition prop_differs :: "gnode \<Rightarrow> string \<Rightarrow> string \<Rightarrow> bool" where
  "prop_differs n k s \<longleftrightarrow> prop_of n k \<noteq> PNone \<and> prop_of n k \<noteq> PStr s"

definition find_node :: "graph \<Rightarrow> node_key \<Rightarrow> gnode option" where
  "find_node g k = List.find (\<lambda>n. gn_key n = k) (gr_nodes g)"

definition has_edge :: "graph \<Rightarrow> string \<Rightarrow> node_key \<Rightarrow> node_key \<Rightarrow> string \<Rightarrow> bool" where
  "has_edge g rel a b eid \<longleftrightarrow>
     list_ex (\<lambda>e. ge_rel e = rel \<and> ge_src e = a \<and> ge_dst e = b \<and> ge_id e = eid) (gr_edges g)"

section \<open>Statements\<close>

text \<open>
  A node pattern: an optional label, an optional proof (none where the source asks
  \<^verbatim>\<open>$pid = '' OR n.proof_id = $pid\<close> with an empty \<^verbatim>\<open>$pid\<close>) and an id.
\<close>

record pattern =
  np_label :: "string option"
  np_proof :: "string option"
  np_id :: string

definition matches :: "pattern \<Rightarrow> node_key \<Rightarrow> bool" where
  "matches p k \<longleftrightarrow>
     (case np_label p of None \<Rightarrow> True | Some l \<Rightarrow> fst k = l) \<and>
     (case np_proof p of None \<Rightarrow> True | Some q \<Rightarrow> fst (snd k) = q) \<and> snd (snd k) = np_id p"

definition node_pat :: "string \<Rightarrow> string \<Rightarrow> string \<Rightarrow> pattern" where
  "node_pat label proof i = \<lparr>np_label = Some label, np_proof = Some proof, np_id = i\<rparr>"

definition any_proof_pat :: "string \<Rightarrow> string \<Rightarrow> string \<Rightarrow> pattern" where
  "any_proof_pat label proof i =
     \<lparr>np_label = Some label, np_proof = (if proof = '''' then None else Some proof), np_id = i\<rparr>"

definition any_label_pat :: "string \<Rightarrow> string \<Rightarrow> pattern" where
  "any_label_pat proof i = \<lparr>np_label = None, np_proof = Some proof, np_id = i\<rparr>"

datatype stmt =
    MergeNode node_key fields fields
  | SetNodes pattern fields
  | MergeEdge pattern string string pattern fields fields fields

definition put_props :: "fields \<Rightarrow> fields \<Rightarrow> fields" where
  "put_props sets d =
     foldl (\<lambda>d (k, v). if v = PNone then AList.delete k d else AList.update k v d) d sets"

definition update_node :: "(node_key \<Rightarrow> bool) \<Rightarrow> fields \<Rightarrow> graph \<Rightarrow> graph" where
  "update_node P sets g =
     g\<lparr>gr_nodes := map (\<lambda>n. if P (gn_key n) then n\<lparr>gn_props := put_props sets (gn_props n)\<rparr> else n) (gr_nodes g)\<rparr>"

definition new_node :: "node_key \<Rightarrow> fields \<Rightarrow> gnode" where
  "new_node k sets = \<lparr>gn_key = k, gn_props = put_props sets []\<rparr>"

definition pairs :: "pattern \<Rightarrow> pattern \<Rightarrow> graph \<Rightarrow> (node_key \<times> node_key) list" where
  "pairs p q g =
     List.product (filter (matches p) (map gn_key (gr_nodes g))) (filter (matches q) (map gn_key (gr_nodes g)))"

definition add_edge :: "string \<Rightarrow> node_key \<Rightarrow> node_key \<Rightarrow> string \<Rightarrow> graph \<Rightarrow> graph" where
  "add_edge rel a b eid g =
     g\<lparr>gr_edges := gr_edges g @ [\<lparr>ge_rel = rel, ge_src = a, ge_dst = b, ge_id = eid, ge_props = []\<rparr>]\<rparr>"

definition set_edge :: "string \<Rightarrow> node_key \<Rightarrow> node_key \<Rightarrow> string \<Rightarrow> fields \<Rightarrow> graph \<Rightarrow> graph" where
  "set_edge rel a b eid sets g =
     g\<lparr>gr_edges := map (\<lambda>e. if ge_rel e = rel \<and> ge_src e = a \<and> ge_dst e = b \<and> ge_id e = eid
        then e\<lparr>ge_props := put_props sets (ge_props e)\<rparr> else e) (gr_edges g)\<rparr>"

definition merge_edge ::
  "string \<Rightarrow> string \<Rightarrow> fields \<Rightarrow> fields \<Rightarrow> fields \<Rightarrow> graph \<Rightarrow> node_key \<times> node_key \<Rightarrow> graph" where
  "merge_edge rel eid src_sets dst_sets edge_sets g ab =
     (let (a, b) = ab
      in set_edge rel a b eid edge_sets
           (if has_edge g rel a b eid then g
            else update_node (\<lambda>k. k = b) dst_sets
                   (update_node (\<lambda>k. k = a) src_sets (add_edge rel a b eid g))))"

fun apply_stmt :: "stmt \<Rightarrow> graph \<Rightarrow> graph" where
  "apply_stmt (MergeNode k on_create on_match) g =
     (if find_node g k = None then g\<lparr>gr_nodes := gr_nodes g @ [new_node k on_create]\<rparr>
      else update_node (\<lambda>k'. k' = k) on_match g)"
| "apply_stmt (SetNodes p sets) g = update_node (matches p) sets g"
| "apply_stmt (MergeEdge p rel eid q src_sets dst_sets edge_sets) g =
     foldl (merge_edge rel eid src_sets dst_sets edge_sets) g (pairs p q g)"

lemma dget_delete: "dget (AList.delete k d) k' = (if k = k' then PNone else dget d k')"
  by (simp add: dget_def delete_conv' split: option.split)

lemma put_props_Nil [simp]: "put_props [] d = d"
  by (simp add: put_props_def)

lemma dget_put_props_Cons:
  "dget (put_props ((k, v) # sets) d) k' =
     dget (put_props sets (if v = PNone then AList.delete k d else AList.update k v d)) k'"
  by (simp add: put_props_def)

lemmas props_after = dget_put_props_Cons put_props_Nil dget_update dget_delete

lemma nodes_update_node [simp]:
  "gr_nodes (update_node P sets g) =
     map (\<lambda>n. if P (gn_key n) then n\<lparr>gn_props := put_props sets (gn_props n)\<rparr> else n) (gr_nodes g)"
  by (simp add: update_node_def)

lemma edges_update_node [simp]: "gr_edges (update_node P sets g) = gr_edges g"
  by (simp add: update_node_def)

text \<open>The assignments a statement carries out; a map among their values makes it fail.\<close>

fun assigned :: "stmt \<Rightarrow> graph \<Rightarrow> fields" where
  "assigned (MergeNode k on_create on_match) g = (if find_node g k = None then on_create else on_match)"
| "assigned (SetNodes p sets) g = (if list_ex (\<lambda>n. matches p (gn_key n)) (gr_nodes g) then sets else [])"
| "assigned (MergeEdge p rel eid q src_sets dst_sets edge_sets) g =
     (if list_ex (\<lambda>(a, b). \<not> has_edge g rel a b eid) (pairs p q g) then src_sets @ dst_sets else []) @
     (if pairs p q g = [] then [] else edge_sets)"

section \<open>Transactions\<close>

datatype driver_exc =
    ServiceUnavailable | SessionExpired | AuthError | ConfigurationError
  | ConstraintError | Neo4jError | DriverError

datatype graph_exc = GraphUnavailable | GraphConstraintViolation | GraphQueryError | Raised py_exc

fun translate_errors :: "driver_exc \<Rightarrow> graph_exc" where
  "translate_errors ServiceUnavailable = GraphUnavailable"
| "translate_errors SessionExpired = GraphUnavailable"
| "translate_errors AuthError = GraphUnavailable"
| "translate_errors ConfigurationError = GraphUnavailable"
| "translate_errors ConstraintError = GraphConstraintViolation"
| "translate_errors Neo4jError = GraphQueryError"
| "translate_errors DriverError = GraphQueryError"

text \<open>Lists and integers beyond 64 bits are not followed into the driver's encoding.\<close>

fun storable :: "pyval \<Rightarrow> graph_exc option" where
  "storable (PDict _) = Some (translate_errors Neo4jError)"
| "storable (PList _) = Some (Raised OutOfModel)"
| "storable (PInt n) = (if - (2 ^ 63) \<le> n \<and> n < 2 ^ 63 then None else Some (Raised OutOfModel))"
| "storable _ = None"

fun refused :: "fields \<Rightarrow> graph_exc option" where
  "refused [] = None"
| "refused ((k, v) # sets) = (case storable v of Some e \<Rightarrow> Some e | None \<Rightarrow> refused sets)"

definition exec :: "graph \<Rightarrow> stmt \<Rightarrow> graph_exc + graph" where
  "exec g s = (case refused (assigned s g) of Some e \<Rightarrow> Inl e | None \<Rightarrow> Inr (apply_stmt s g))"

definition run_all :: "stmt list \<Rightarrow> graph \<Rightarrow> graph_exc + graph" where
  "run_all stmts g = run exec g stmts"

record driver =
  dr_failure :: "driver_exc option"
  dr_order :: "gnode list \<Rightarrow> gnode list"

type_synonym 'a graph_op = "graph \<Rightarrow> (graph_exc + 'a) \<times> graph"

definition write_work :: "driver \<Rightarrow> (graph \<Rightarrow> graph_exc + 'a \<times> graph) \<Rightarrow> 'a graph_op" where
  "write_work dr work g =
     (case dr_failure dr of
        Some e \<Rightarrow> (Inl (translate_errors e), g)
      | None \<Rightarrow> (case work g of Inl e \<Rightarrow> (Inl e, g) | Inr (x, g') \<Rightarrow> (Inr x, g')))"

definition write_all :: "driver \<Rightarrow> stmt list \<Rightarrow> unit graph_op" where
  "write_all dr stmts =
     write_work dr (\<lambda>g. case run_all stmts g of Inl e \<Rightarrow> Inl e | Inr g' \<Rightarrow> Inr ((), g'))"

definition read_work :: "driver \<Rightarrow> (graph \<Rightarrow> 'a) \<Rightarrow> graph \<Rightarrow> graph_exc + 'a" where
  "read_work dr query g =
     (case dr_failure dr of Some e \<Rightarrow> Inl (translate_errors e) | None \<Rightarrow> Inr (query g))"

text \<open>A record's node as a dictionary.\<close>

definition node_dict :: "gnode \<Rightarrow> fields" where
  "node_dict n = (''proof_id'', PStr (gn_proof n)) # (''id'', PStr (gn_id n)) # gn_props n"

definition read_one :: "driver \<Rightarrow> (graph \<Rightarrow> gnode list) \<Rightarrow> graph \<Rightarrow> graph_exc + fields option" where
  "read_one dr rows =
     read_work dr (\<lambda>g. case dr_order dr (rows g) of [] \<Rightarrow> None | n # _ \<Rightarrow> Some (node_dict n))"

definition read_many :: "driver \<Rightarrow> (gnode list \<Rightarrow> gnode list) \<Rightarrow> (graph \<Rightarrow> gnode list) \<Rightarrow> graph \<Rightarrow> graph_exc + fields list" where
  "read_many dr order_by rows = read_work dr (\<lambda>g. map node_dict (order_by (dr_order dr (rows g))))"

text \<open>\<^verbatim>\<open>MATCH (n) WHERE n.proof_id = $pid DETACH DELETE n\<close>.\<close>

definition detach_delete :: "string \<Rightarrow> graph \<Rightarrow> graph" where
  "detach_delete proof g =
     \<lparr>gr_nodes = filter (\<lambda>n. gn_proof n \<noteq> proof) (gr_nodes g),
      gr_edges = filter (\<lambda>e. fst (snd (ge_src e)) \<noteq> proof \<and> fst (snd (ge_dst e)) \<noteq> proof) (gr_edges g)\<rparr>"

section \<open>Variable-length paths\<close>

text \<open>The ends of the paths of one or more steps from given nodes.\<close>

fun reach :: "nat \<Rightarrow> ('k \<times> 'k) list \<Rightarrow> 'k list \<Rightarrow> 'k list" where
  "reach 0 steps ks = ks"
| "reach (Suc n) steps ks =
     (let found = filter (\<lambda>k. k \<notin> set ks) (remdups (map snd (filter (\<lambda>s. fst s \<in> set ks) steps)))
      in if found = [] then ks else reach n steps (ks @ found))"

definition path_ends :: "('k \<times> 'k) list \<Rightarrow> 'k \<Rightarrow> 'k list" where
  "path_ends steps k =
     reach (length steps) steps (remdups (map snd (filter (\<lambda>s. fst s = k) steps)))"

definition rel_steps :: "graph \<Rightarrow> string \<Rightarrow> (node_key \<times> node_key) list" where
  "rel_steps g rel = map (\<lambda>e. (ge_src e, ge_dst e)) (filter (\<lambda>e. ge_rel e = rel) (gr_edges g))"

lemma reach_extends: "set ks \<subseteq> set (reach n steps ks)"
  by (induction n steps ks rule: reach.induct) (auto simp: Let_def)

lemma reach_sound: "set (reach n steps ks) \<subseteq> (set steps)\<^sup>* `` set ks"
proof (induction n steps ks rule: reach.induct)
  case (2 n steps ks)
  let ?found = "filter (\<lambda>k. k \<notin> set ks) (remdups (map snd (filter (\<lambda>s. fst s \<in> set ks) steps)))"
  have step: "set ?found \<subseteq> (set steps)\<^sup>* `` set ks"
    by (auto intro: ImageI [OF r_into_rtrancl])
  have "(set steps)\<^sup>* `` set (ks @ ?found) \<subseteq> (set steps)\<^sup>* `` set ks"
    using Image_mono [OF subset_refl step, of "(set steps)\<^sup>*"]
    by (simp add: Image_Un flip: relcomp_Image)
  then show ?case using "2.IH" [OF refl] by (cases "?found = []") (auto simp: Let_def)
qed auto

text \<open>Every round adds an end of some step, so as many rounds as there are steps are enough.\<close>

lemma reach_closed:
  assumes "card (snd ` set steps - set ks) \<le> n" "s \<in> set steps" "fst s \<in> set (reach n steps ks)"
  shows "snd s \<in> set (reach n steps ks)"
  using assms
proof (induction n steps ks rule: reach.induct)
  case (1 steps ks)
  then have "snd ` set steps \<subseteq> set ks" by simp
  then show ?case using "1.prems" by auto
next
  case (2 n steps ks)
  let ?found = "filter (\<lambda>k. k \<notin> set ks) (remdups (map snd (filter (\<lambda>s. fst s \<in> set ks) steps)))"
  show ?case
  proof (cases "?found = []")
    case True
    then have "snd s \<in> set ks" if "fst s \<in> set ks"
      using that "2.prems"(2) by (cases s) (auto simp: filter_empty_conv)
    then show ?thesis using True "2.prems"(3) by simp
  next
    case False
    then have "hd ?found \<in> set ?found" by (rule hd_in_set)
    then obtain k where k: "k \<in> set ?found" ..
    have "card (snd ` set steps - set (ks @ ?found)) < card (snd ` set steps - set ks)"
      by (rule psubset_card_mono) (use k in auto)
    then have "card (snd ` set steps - set (ks @ ?found)) \<le> n" using "2.prems"(1) by linarith
    from "2.IH" [OF refl False this "2.prems"(2)] show ?thesis
      using False "2.prems"(3) by (simp add: Let_def)
  qed
qed

lemma set_path_ends: "set (path_ends steps k) = {x. (k, x) \<in> (set steps)\<^sup>+}"
proof -
  let ?ks = "remdups (map snd (filter (\<lambda>s. fst s = k) steps))"
  let ?r = "set (path_ends steps k)"
  have base: "set ?ks = {x. (k, x) \<in> set steps}" by force
  have "card (snd ` set steps - set ?ks) \<le> card (snd ` set steps)" by (intro card_mono) auto
  also have "\<dots> \<le> length steps" by (meson card_image_le card_length le_trans finite_set)
  finally have n: "card (snd ` set steps - set ?ks) \<le> length steps" .
  have closed: "y \<in> ?r" if "(x, y) \<in> set steps" "x \<in> ?r" for x y
    using reach_closed [OF n that(1)] that(2) by (simp add: path_ends_def)
  have "x \<in> ?r" if "(k, x) \<in> (set steps)\<^sup>+" for x
    using that
  proof (induction rule: trancl_induct)
    case (base y)
    then show ?case using reach_extends [of ?ks "length steps" steps] \<open>set ?ks = _\<close> by (auto simp: path_ends_def)
  next
    case (step y z)
    then show ?case using closed by blast
  qed
  moreover have "(k, x) \<in> (set steps)\<^sup>+" if "x \<in> ?r" for x
  proof -
    have "x \<in> (set steps)\<^sup>* `` set ?ks"
      using that reach_sound [of "length steps" steps ?ks] unfolding path_ends_def by (rule subsetD [rotated])
    then obtain y where "(k, y) \<in> set steps" "(y, x) \<in> (set steps)\<^sup>*" unfolding base by blast
    then show ?thesis by (rule rtrancl_into_trancl2)
  qed
  ultimately show ?thesis by blast
qed

end
