(* ===== verification/Adapter.thy ===== *)
theory Adapter
  imports PropertyGraph Vocab "HOL-Library.List_Lexorder" "HOL-Library.Char_ord" "HOL-Library.Product_Lexorder"
begin

text \<open>
  The operations of \<^verbatim>\<open>src/neo4j_adapter/adapter.py\<close> over the property graph, one definition per
  method, each the list of statements it runs in one transaction. Ids are strings; payload
  values that the adapter only stores are arbitrary values. \<open>constants.py\<close> and the relationship
  whitelist of \<open>schema.py\<close> come first.
\<close>

section \<open>Constants\<close>

definition STATE_OPEN :: string where "STATE_OPEN = ''open''"
definition STATE_CLOSED :: string where "STATE_CLOSED = ''formally-closed''"
definition STATE_TAINTED :: string where "STATE_TAINTED = ''tainted''"
definition STATE_REOPENED :: string where "STATE_REOPENED = ''reopened''"
definition MOVE_OPEN :: string where "MOVE_OPEN = ''open''"
definition MOVE_QUEUED :: string where "MOVE_QUEUED = ''queued''"
definition MOVE_CLOSED :: string where "MOVE_CLOSED = ''closed''"
definition MOVE_LEASED :: string where "MOVE_LEASED = ''leased''"
definition MOVE_REFUTED :: string where "MOVE_REFUTED = ''refuted''"
definition MOVE_DOMINATED :: string where "MOVE_DOMINATED = ''dominated''"
definition MOVE_EXHAUSTED :: string where "MOVE_EXHAUSTED = ''exhausted''"
definition MOVE_REOPENED :: string where "MOVE_REOPENED = ''reopened''"
definition CLAIM_CONJECTURAL :: string where "CLAIM_CONJECTURAL = ''conjectural''"
definition CLAIM_REFUTED :: string where "CLAIM_REFUTED = ''refuted''"
definition CLAIM_TAINTED :: string where "CLAIM_TAINTED = ''tainted''"
definition ATTEMPT_PENDING :: string where "ATTEMPT_PENDING = ''pending''"
definition STATE_KIND_OR :: string where "STATE_KIND_OR = ''or''"
definition STATE_KIND_AND :: string where "STATE_KIND_AND = ''and''"

lemmas graph_constants =
  STATE_OPEN_def STATE_CLOSED_def STATE_TAINTED_def STATE_REOPENED_def MOVE_OPEN_def
  MOVE_QUEUED_def MOVE_CLOSED_def MOVE_LEASED_def MOVE_REFUTED_def MOVE_DOMINATED_def
  MOVE_EXHAUSTED_def MOVE_REOPENED_def CLAIM_CONJECTURAL_def CLAIM_REFUTED_def
  CLAIM_TAINTED_def ATTEMPT_PENDING_def STATE_KIND_OR_def STATE_KIND_AND_def

definition check_status :: "string \<Rightarrow> string list \<Rightarrow> (string \<Rightarrow> 'a graph_op) \<Rightarrow> 'a graph_op" where
  "check_status raw allowed body g =
     (case canonical_status raw allowed of Inl e \<Rightarrow> (Inl (Raised e), g) | Inr s \<Rightarrow> body s g)"

definition edge_id :: "string \<Rightarrow> string \<Rightarrow> string" where
  "edge_id event_id kind = (if kind \<noteq> '''' then event_id @ ''-'' @ kind else event_id)"

definition REL_WHITELIST :: "string list" where
  "REL_WHITELIST =
     [''SUPERSEDES'', ''ALTERNATIVE_TO'', ''GENERALIZES'', ''REFORMULATES'', ''FORMALIZES'',
      ''CONTRADICTS'', ''STRENGTHENS_ROUTE'', ''LEAVES_OPEN'', ''REDUCES_TARGET'',
      ''EXPOSES_BARRIER'', ''BYPASSES'', ''SUPPORTED_BY'', ''PROVED_BY'', ''CONTRADICTED_BY'',
      ''VERIFIED_BY'', ''VERIFIED_BY_EXPERIMENT'', ''INVALIDATES'', ''USES_CLAIM'', ''SUGGESTS'',
      ''EXPECTS'', ''SOURCE_CONCEPT'', ''RELATED_TO'', ''FALSIFIED_BY'', ''ELABORATED_INTO'']"

text \<open>\<^verbatim>\<open>MATCH (a ...), (b ...) MERGE (a)-[r:REL {edge_id: $eid}]->(b) SET r.event_id = $evt\<close>,
  with the assignments of its \<open>ON CREATE\<close> to the two ends.\<close>

definition link_sets ::
  "string \<Rightarrow> string \<Rightarrow> string \<times> string \<Rightarrow> fields \<Rightarrow> string \<times> string \<Rightarrow> fields \<Rightarrow> string \<Rightarrow> stmt" where
  "link_sets proof rel src src_sets dst dst_sets evt =
     MergeEdge (node_pat (fst src) proof (snd src)) rel (edge_id evt rel) (node_pat (fst dst) proof (snd dst))
       src_sets dst_sets [(''event_id'', PStr evt)]"

definition link :: "string \<Rightarrow> string \<Rightarrow> string \<times> string \<Rightarrow> string \<times> string \<Rightarrow> string \<Rightarrow> stmt" where
  "link proof rel src dst evt = link_sets proof rel src [] dst [] evt"

definition given :: "string option \<Rightarrow> bool" where
  "given s \<longleftrightarrow> s \<noteq> None \<and> s \<noteq> Some ''''"

section \<open>Proofs and states\<close>

definition init_proof :: "driver \<Rightarrow> string \<Rightarrow> pyval \<Rightarrow> pyval \<Rightarrow> string \<Rightarrow> unit graph_op" where
  "init_proof dr proof theorem_kernel theorem_hash evt =
     write_all dr
       [MergeNode (''Proof'', proof, proof)
          [(''theorem_kernel'', theorem_kernel), (''theorem_hash'', theorem_hash),
           (''active_revision'', PInt 0), (''created_in_event'', PStr evt)]
          [(''theorem_kernel'', theorem_kernel), (''theorem_hash'', theorem_hash)]]"

definition state_created :: "pyval \<Rightarrow> string \<Rightarrow> fields" where
  "state_created description evt =
     [(''description'', description), (''status'', PStr STATE_OPEN), (''created_in_event'', PStr evt)]"

definition add_state ::
  "driver \<Rightarrow> string \<Rightarrow> string \<Rightarrow> pyval \<Rightarrow> string option \<Rightarrow> string \<Rightarrow> pyval \<Rightarrow> string \<Rightarrow> unit graph_op" where
  "add_state dr proof state_id description parent_id kind assumptions evt =
     check_status kind StateKind (\<lambda>kind. write_all dr (
       [MergeNode (''State'', proof, state_id)
          [(''description'', description), (''status'', PStr STATE_OPEN), (''kind'', PStr kind),
           (''assumptions'', assumptions), (''created_in_event'', PStr evt)]
          [(''description'', description), (''kind'', PStr kind)],
        link_sets proof ''HAS_STATE'' (''Proof'', proof) [] (''State'', state_id) (state_created description evt) evt] @
       (if given parent_id
        then [link_sets proof ''CHILD_OF'' (''State'', state_id)
                [(''status'', PStr STATE_OPEN), (''created_in_event'', PStr evt)] (''State'', the parent_id) [] evt]
        else [])))"

definition update_state_status :: "driver \<Rightarrow> string \<Rightarrow> string \<Rightarrow> string \<Rightarrow> pyval \<Rightarrow> string \<Rightarrow> unit graph_op" where
  "update_state_status dr proof state_id status reason evt =
     check_status status FormalStateStatus (\<lambda>status. write_all dr
       [SetNodes (node_pat ''State'' proof state_id)
          [(''status'', PStr status), (''status_updated_in_event'', PStr evt), (''closed_reason'', reason)]])"

text \<open>Rows of the nodes that match a pattern, and of the pairs of nodes an edge joins.\<close>

definition nodes_at :: "pattern \<Rightarrow> graph \<Rightarrow> gnode list" where
  "nodes_at p g = filter (\<lambda>n. matches p (gn_key n)) (gr_nodes g)"

definition joined :: "graph \<Rightarrow> string \<Rightarrow> (gnode \<times> gnode) list" where
  "joined g rel = List.map_filter (\<lambda>e.
     if ge_rel e = rel
     then (case find_node g (ge_src e) of None \<Rightarrow> None
           | Some a \<Rightarrow> (case find_node g (ge_dst e) of None \<Rightarrow> None | Some b \<Rightarrow> Some (a, b)))
     else None) (gr_edges g)"

definition in_proof :: "string \<Rightarrow> gnode \<Rightarrow> bool" where
  "in_proof proof n \<longleftrightarrow> proof = '''' \<or> gn_proof n = proof"

definition get_state :: "driver \<Rightarrow> string \<Rightarrow> string \<Rightarrow> graph \<Rightarrow> graph_exc + fields option" where
  "get_state dr state_id proof = read_one dr (nodes_at (any_proof_pat ''State'' proof state_id))"

section \<open>Claims\<close>

definition add_claim ::
  "driver \<Rightarrow> string \<Rightarrow> string \<Rightarrow> pyval \<Rightarrow> string \<Rightarrow> pyval \<Rightarrow> string \<Rightarrow> unit graph_op" where
  "add_claim dr proof claim_id statement status blob evt =
     check_status status ClaimStatus (\<lambda>status. write_all dr
       [MergeNode (''Claim'', proof, claim_id)
          [(''statement'', statement), (''status'', PStr status), (''statement_blob'', blob),
           (''created_in_event'', PStr evt)]
          [(''statement'', statement), (''status'', PStr status)],
        link_sets proof ''HAS_CLAIM'' (''Proof'', proof) [] (''Claim'', claim_id)
          [(''statement'', statement), (''status'', PStr status), (''created_in_event'', PStr evt)] evt])"

text \<open>\<^verbatim>\<open>CASE WHEN $reason <> '' THEN $reason ELSE c.status_reason END\<close>; a null reason keeps it.\<close>

definition reason_sets :: "pyval \<Rightarrow> fields" where
  "reason_sets reason = (if reason = PStr '''' \<or> reason = PNone then [] else [(''status_reason'', reason)])"

definition update_claim_status :: "driver \<Rightarrow> string \<Rightarrow> string \<Rightarrow> string \<Rightarrow> string \<Rightarrow> pyval \<Rightarrow> unit graph_op" where
  "update_claim_status dr claim_id status proof evt reason =
     check_status status ClaimStatus (\<lambda>status. write_all dr
       [SetNodes (any_proof_pat ''Claim'' proof claim_id)
          ([(''status'', PStr status), (''status_updated_in_event'', PStr evt)] @ reason_sets reason)])"

definition get_all_claims :: "driver \<Rightarrow> string \<Rightarrow> graph \<Rightarrow> graph_exc + fields list" where
  "get_all_claims dr proof = read_many dr id (\<lambda>g. map snd (filter (\<lambda>(p, c).
     gn_key p = (''Proof'', proof, proof) \<and> gn_label c = ''Claim'') (joined g ''HAS_CLAIM'')))"

definition cycle_exists :: "graph \<Rightarrow> string \<Rightarrow> string \<Rightarrow> string \<Rightarrow> bool" where
  "cycle_exists g claim depends_on proof \<longleftrightarrow>
     find_node g (''Claim'', proof, depends_on) \<noteq> None \<and> find_node g (''Claim'', proof, claim) \<noteq> None \<and>
     (''Claim'', proof, claim) \<in> set (path_ends (rel_steps g ''DEPENDS_ON'') (''Claim'', proof, depends_on))"

definition dependency_stmt :: "string \<Rightarrow> string \<Rightarrow> string \<Rightarrow> string \<Rightarrow> stmt" where
  "dependency_stmt claim depends_on proof evt =
     MergeEdge (any_proof_pat ''Claim'' proof claim) ''DEPENDS_ON'' (edge_id evt ''DEPENDS_ON'')
       (any_proof_pat ''Claim'' proof depends_on) [] [] [(''event_id'', PStr evt)]"

definition add_claim_dependency :: "driver \<Rightarrow> string \<Rightarrow> string \<Rightarrow> string \<Rightarrow> string \<Rightarrow> unit graph_op" where
  "add_claim_dependency dr claim depends_on proof evt =
     write_work dr (\<lambda>g.
       if proof \<noteq> '''' \<and> cycle_exists g claim depends_on proof then Inl (Raised ValueError)
       else case exec g (dependency_stmt claim depends_on proof evt) of
              Inl e \<Rightarrow> Inl e | Inr g' \<Rightarrow> Inr ((), g'))"

definition link_state_claim :: "driver \<Rightarrow> string \<Rightarrow> string \<Rightarrow> string \<Rightarrow> string \<Rightarrow> unit graph_op" where
  "link_state_claim dr proof state_id claim_id evt =
     write_all dr [link_sets proof ''USES_CLAIM'' (''State'', state_id) [(''created_in_event'', PStr evt)]
       (''Claim'', claim_id) [] evt]"

section \<open>Moves\<close>

definition add_move ::
  "driver \<Rightarrow> string \<Rightarrow> string \<Rightarrow> string \<Rightarrow> pyval \<Rightarrow> pyval \<Rightarrow> pyval \<Rightarrow> string \<Rightarrow> pyval \<Rightarrow> pyval \<Rightarrow> string \<Rightarrow> unit graph_op" where
  "add_move dr proof move_id state_id summary kind note evt score cost status =
     check_status status TacticStatus (\<lambda>status. write_all dr
       [MergeNode (''Move'', proof, move_id)
          [(''move_summary'', summary), (''kind'', kind), (''note'', note), (''status'', PStr status),
           (''score'', score), (''cost_estimate'', cost), (''repeated_failure_count'', PInt 0),
           (''created_in_event'', PStr evt)]
          [(''move_summary'', summary), (''kind'', kind), (''note'', note)],
        link_sets proof ''PROPOSES'' (''State'', state_id) [] (''Move'', move_id)
          [(''status'', PStr status), (''created_in_event'', PStr evt)] evt])"

definition add_required_subgoal ::
  "driver \<Rightarrow> string \<Rightarrow> string \<Rightarrow> string \<Rightarrow> pyval \<Rightarrow> string option \<Rightarrow> string \<Rightarrow> unit graph_op" where
  "add_required_subgoal dr proof move_id subgoal_id description parent_id evt =
     write_all dr (
       [MergeNode (''State'', proof, subgoal_id)
          [(''description'', description), (''status'', PStr STATE_OPEN), (''kind'', PStr STATE_KIND_AND),
           (''created_in_event'', PStr evt)] [],
        link_sets proof ''HAS_STATE'' (''Proof'', proof) [] (''State'', subgoal_id) (state_created description evt) evt,
        link_sets proof ''REQUIRES'' (''Move'', move_id) [] (''State'', subgoal_id)
          [(''status'', PStr STATE_OPEN), (''created_in_event'', PStr evt)] evt] @
       (if given parent_id
        then [link proof ''CHILD_OF'' (''State'', subgoal_id) (''State'', the parent_id) evt] else []))"

definition update_move_status :: "driver \<Rightarrow> string \<Rightarrow> string \<Rightarrow> string \<Rightarrow> string \<Rightarrow> unit graph_op" where
  "update_move_status dr move_id status proof evt =
     check_status status TacticStatus (\<lambda>status. write_all dr
       [SetNodes (any_proof_pat ''Move'' proof move_id)
          [(''status'', PStr status), (''status_updated_in_event'', PStr evt)]])"

definition get_moves_for_state :: "driver \<Rightarrow> string \<Rightarrow> string \<Rightarrow> graph \<Rightarrow> graph_exc + fields list" where
  "get_moves_for_state dr state_id proof =
     read_many dr (sort_key (\<lambda>n. gn_id n)) (\<lambda>g. map snd (filter (\<lambda>(st, m).
       gn_label st = ''State'' \<and> gn_id st = state_id \<and> gn_label m = ''Move'' \<and> in_proof proof m) (joined g ''PROPOSES'')))"

definition get_subgoals_for_move :: "driver \<Rightarrow> string \<Rightarrow> string \<Rightarrow> graph \<Rightarrow> graph_exc + fields list" where
  "get_subgoals_for_move dr move_id proof =
     read_many dr (sort_key (\<lambda>n. gn_id n)) (\<lambda>g. map snd (filter (\<lambda>(m, st).
       gn_label m = ''Move'' \<and> gn_id m = move_id \<and> gn_label st = ''State'' \<and> in_proof proof st) (joined g ''REQUIRES'')))"

end
