(* ===== verification/Rules.thy ===== *)
theory Rules
  imports Adapter
begin

text \<open>
  The graph semantics of \<^verbatim>\<open>src/neo4j_adapter/rules.py\<close>: AND/OR closure, taint propagation, cycle
  checks and the eligible frontier, and \<^verbatim>\<open>context_for\<close> of the adapter, which reads them together.
\<close>

section \<open>Reading the rules\<close>

definition is_node :: "string \<Rightarrow> string \<Rightarrow> gnode \<Rightarrow> bool" where
  "is_node label proof n \<longleftrightarrow> gn_label n = label \<and> gn_proof n = proof"

definition would_create_cycle :: "driver \<Rightarrow> string \<Rightarrow> string \<Rightarrow> string \<Rightarrow> graph \<Rightarrow> graph_exc + bool" where
  "would_create_cycle dr claim depends_on proof = read_work dr (\<lambda>g. cycle_exists g claim depends_on proof)"

definition state_is_solved :: "driver \<Rightarrow> string \<Rightarrow> string \<Rightarrow> graph \<Rightarrow> graph_exc + bool" where
  "state_is_solved dr proof state_id = read_work dr (\<lambda>g. list_ex (\<lambda>(st, m).
     gn_key st = (''State'', proof, state_id) \<and> is_node ''Move'' proof m \<and> prop_is m ''status'' MOVE_CLOSED)
     (joined g ''PROPOSES''))"

definition move_is_complete :: "driver \<Rightarrow> string \<Rightarrow> string \<Rightarrow> graph \<Rightarrow> graph_exc + bool" where
  "move_is_complete dr proof move_id = read_work dr (\<lambda>g. \<not> list_ex (\<lambda>(m, sg).
     gn_key m = (''Move'', proof, move_id) \<and> is_node ''State'' proof sg \<and> prop_differs sg ''status'' STATE_CLOSED)
     (joined g ''REQUIRES''))"

section \<open>Closure\<close>

definition and_ready :: "graph \<Rightarrow> string \<Rightarrow> gnode \<Rightarrow> bool" where
  "and_ready g proof m \<longleftrightarrow>
     is_node ''Move'' proof m \<and> prop_differs m ''status'' MOVE_CLOSED \<and>
     \<not> list_ex (\<lambda>(m', sg). gn_key m' = gn_key m \<and> is_node ''State'' proof sg \<and>
          prop_differs sg ''status'' STATE_CLOSED \<and> prop_differs sg ''status'' STATE_REOPENED)
        (joined g ''REQUIRES'')"

definition or_ready :: "graph \<Rightarrow> string \<Rightarrow> gnode \<Rightarrow> bool" where
  "or_ready g proof st \<longleftrightarrow>
     is_node ''State'' proof st \<and>
     prop_differs st ''status'' STATE_CLOSED \<and> prop_differs st ''status'' STATE_REOPENED \<and>
     list_ex (\<lambda>(st', m). gn_key st' = gn_key st \<and> is_node ''Move'' proof m \<and> prop_is m ''status'' MOVE_CLOSED)
        (joined g ''PROPOSES'')"

definition set_status :: "(node_key \<Rightarrow> bool) \<Rightarrow> string \<Rightarrow> string \<Rightarrow> graph \<Rightarrow> graph" where
  "set_status P status evt =
     update_node P [(''status'', PStr status), (''status_updated_in_event'', PStr evt)]"

definition and_step :: "string \<Rightarrow> string \<Rightarrow> graph \<Rightarrow> graph \<times> nat" where
  "and_step proof evt g =
     (let ready = map gn_key (filter (and_ready g proof) (gr_nodes g))
      in (set_status (\<lambda>k. k \<in> set ready) MOVE_CLOSED evt g, length ready))"

definition or_step :: "string \<Rightarrow> string \<Rightarrow> graph \<Rightarrow> graph \<times> nat" where
  "or_step proof evt g =
     (let ready = map gn_key (filter (or_ready g proof) (gr_nodes g))
      in (set_status (\<lambda>k. k \<in> set ready) STATE_CLOSED evt g, length ready))"

fun propagate_closures_tx :: "nat \<Rightarrow> string \<Rightarrow> string \<Rightarrow> graph \<Rightarrow> graph" where
  "propagate_closures_tx 0 proof evt g = g"
| "propagate_closures_tx (Suc n) proof evt g =
     (let (g1, r1) = and_step proof evt g; (g2, r2) = or_step proof evt g1
      in if r1 = 0 \<and> r2 = 0 then g2 else propagate_closures_tx n proof evt g2)"

definition MAX_ITER :: nat where
  "MAX_ITER = 64"

definition propagate_closures :: "driver \<Rightarrow> string \<Rightarrow> string \<Rightarrow> nat \<Rightarrow> unit graph_op" where
  "propagate_closures dr proof evt max_iter =
     write_work dr (\<lambda>g. Inr ((), propagate_closures_tx max_iter proof evt g))"

definition proposed_by :: "graph \<Rightarrow> string \<Rightarrow> string \<Rightarrow> node_key list" where
  "proposed_by g proof state_id = map (\<lambda>(st, m). gn_key m) (filter (\<lambda>(st, m).
     gn_key st = (''State'', proof, state_id) \<and> is_node ''Move'' proof m) (joined g ''PROPOSES''))"

definition closed_once :: "string \<Rightarrow> string \<Rightarrow> pyval \<Rightarrow> string \<Rightarrow> graph \<Rightarrow> graph_exc + graph" where
  "closed_once state_id proof reason evt g =
     (case exec g (SetNodes (node_pat ''State'' proof state_id)
         [(''status'', PStr STATE_CLOSED), (''status_updated_in_event'', PStr evt), (''closed_reason'', reason)]) of
        Inl e \<Rightarrow> Inl e
      | Inr g1 \<Rightarrow> Inr (set_status (\<lambda>k. k \<in> set (proposed_by g1 proof state_id)) MOVE_CLOSED evt g1))"

definition close_state :: "driver \<Rightarrow> string \<Rightarrow> string \<Rightarrow> pyval \<Rightarrow> string \<Rightarrow> unit graph_op" where
  "close_state dr state_id proof reason evt =
     write_work dr (\<lambda>g. case closed_once state_id proof reason evt g of
       Inl e \<Rightarrow> Inl e | Inr g1 \<Rightarrow> Inr ((), propagate_closures_tx MAX_ITER proof evt g1))"

definition reopen_state :: "driver \<Rightarrow> string \<Rightarrow> string \<Rightarrow> pyval \<Rightarrow> string \<Rightarrow> unit graph_op" where
  "reopen_state dr proof state_id reason evt = update_state_status dr proof state_id STATE_REOPENED reason evt"

section \<open>Taint\<close>

definition cone :: "graph \<Rightarrow> string \<Rightarrow> string \<Rightarrow> gnode list" where
  "cone g proof claim_id =
     (let root = (''Claim'', proof, claim_id);
          above = path_ends (map (\<lambda>(a, b). (b, a)) (rel_steps g ''DEPENDS_ON'')) root
      in if find_node g root = None then []
         else filter (\<lambda>n. is_node ''Claim'' proof n \<and> gn_key n \<in> set above) (gr_nodes g))"

definition taint_cone :: "driver \<Rightarrow> string \<Rightarrow> string \<Rightarrow> graph \<Rightarrow> graph_exc + string list" where
  "taint_cone dr proof claim_id = read_work dr (\<lambda>g. map gn_id (dr_order dr (cone g proof claim_id)))"

definition relying :: "graph \<Rightarrow> string \<Rightarrow> string list \<Rightarrow> gnode list" where
  "relying g proof tainted = remdups (map fst (filter (\<lambda>(st, c).
     is_node ''State'' proof st \<and> is_node ''Claim'' proof c \<and> gn_id c \<in> set tainted \<and>
     prop_is st ''status'' STATE_CLOSED) (joined g ''USES_CLAIM'')))"

record taint_summary =
  ts_refuted :: string
  ts_tainted :: "string list"
  ts_reopened :: "string list"

text \<open>The three writes of the cascade.\<close>

definition refute_stmt :: "string \<Rightarrow> string \<Rightarrow> string \<Rightarrow> pyval \<Rightarrow> stmt" where
  "refute_stmt proof claim_id evt reason =
     SetNodes (node_pat ''Claim'' proof claim_id)
       ([(''status'', PStr CLAIM_REFUTED), (''status_updated_in_event'', PStr evt)] @ reason_sets reason)"

definition taint_nodes :: "node_key set \<Rightarrow> string \<Rightarrow> string \<Rightarrow> graph \<Rightarrow> graph" where
  "taint_nodes K claim_id evt =
     update_node (\<lambda>k. k \<in> K)
       [(''status'', PStr CLAIM_TAINTED), (''taint_source'', PStr claim_id), (''status_updated_in_event'', PStr evt)]"

definition reopen_nodes :: "node_key set \<Rightarrow> string \<Rightarrow> string \<Rightarrow> graph \<Rightarrow> graph" where
  "reopen_nodes K claim_id evt =
     update_node (\<lambda>k. k \<in> K)
       [(''status'', PStr STATE_REOPENED), (''closed_reason'', PStr (''taint: '' @ claim_id)),
        (''status_updated_in_event'', PStr evt)]"

definition propagate_taint :: "driver \<Rightarrow> string \<Rightarrow> string \<Rightarrow> string \<Rightarrow> pyval \<Rightarrow> taint_summary graph_op" where
  "propagate_taint dr proof claim_id evt reason =
     write_work dr (\<lambda>g.
       case exec g (refute_stmt proof claim_id evt reason) of
         Inl e \<Rightarrow> Inl e
       | Inr g1 \<Rightarrow>
           let hit = cone g1 proof claim_id;
               tainted = map gn_id (dr_order dr hit);
               g2 = taint_nodes (gn_key ` set hit) claim_id evt g1;
               states = relying g2 proof tainted
           in if tainted = [] then Inr (\<lparr>ts_refuted = claim_id, ts_tainted = [], ts_reopened = []\<rparr>, g2)
              else Inr (\<lparr>ts_refuted = claim_id, ts_tainted = tainted, ts_reopened = map gn_id (dr_order dr states)\<rparr>,
                reopen_nodes (gn_key ` set states) claim_id evt g2))"

section \<open>Eligible frontier\<close>

definition eligible_rows :: "graph \<Rightarrow> string \<Rightarrow> gnode list" where
  "eligible_rows g proof = map snd (filter (\<lambda>(st, m).
     is_node ''State'' proof st \<and> is_node ''Move'' proof m \<and>
     list_ex (prop_is m ''status'') [MOVE_OPEN, MOVE_REOPENED] \<and>
     prop_differs m ''status'' MOVE_LEASED \<and> prop_differs m ''status'' MOVE_REFUTED \<and>
     prop_differs m ''status'' MOVE_DOMINATED \<and> prop_differs m ''status'' MOVE_EXHAUSTED \<and>
     prop_differs st ''status'' STATE_TAINTED \<and> prop_differs st ''status'' STATE_CLOSED)
     (joined g ''PROPOSES''))"

definition eligible_frontier :: "driver \<Rightarrow> string \<Rightarrow> graph \<Rightarrow> graph_exc + fields list" where
  "eligible_frontier dr proof =
     read_many dr (sort_key (\<lambda>m. (str_of (prop_of m ''status''), gn_id m))) (\<lambda>g. eligible_rows g proof)"

section \<open>Context query\<close>

record context_reply =
  cx_state :: "fields option"
  cx_moves :: "fields list"
  cx_attempts :: "fields list"
  cx_claims :: "fields list"
  cx_subgoals :: "fields list"
  cx_frontier :: "fields list"

fun collect_subgoals :: "driver \<Rightarrow> string \<Rightarrow> fields list \<Rightarrow> graph \<Rightarrow> graph_exc + fields list" where
  "collect_subgoals dr proof [] g = Inr []"
| "collect_subgoals dr proof (m # ms) g =
     (case get_subgoals_for_move dr (str_of (dget m ''id'')) proof g of
        Inl e \<Rightarrow> Inl e
      | Inr found \<Rightarrow> (case collect_subgoals dr proof ms g of Inl e \<Rightarrow> Inl e | Inr rest \<Rightarrow> Inr (found @ rest)))"

end
