(* ===== verification/Provenance.thy ===== *)
theory Provenance
  imports Adapter
begin

text \<open>
  The provenance half of \<^verbatim>\<open>src/neo4j_adapter/adapter.py\<close>: attempts, routes, artifacts, contexts,
  independent checks, the speculative layer and the generic relationship linker.
\<close>

section \<open>Attempts\<close>

definition add_attempt ::
  "driver \<Rightarrow> string \<Rightarrow> string \<Rightarrow> string \<Rightarrow> pyval \<Rightarrow> pyval \<Rightarrow> pyval \<Rightarrow> string option \<Rightarrow> string \<Rightarrow>
     string option \<Rightarrow> pyval \<Rightarrow> pyval \<Rightarrow> pyval \<Rightarrow> unit graph_op" where
  "add_attempt dr proof attempt_id state_id summary worker note move_id evt route_id persona disposition result_relation =
     write_all dr (
       [MergeNode (''Attempt'', proof, attempt_id)
          [(''move_summary'', summary), (''worker'', worker), (''note'', note),
           (''status'', PStr ATTEMPT_PENDING), (''model_persona'', persona), (''disposition'', disposition),
           (''result_relation'', result_relation), (''created_in_event'', PStr evt)]
          [(''move_summary'', summary), (''worker'', worker), (''note'', note)],
        link proof ''ON_STATE'' (''Attempt'', attempt_id) (''State'', state_id) evt] @
       (if given move_id then [link proof ''ON_MOVE'' (''Attempt'', attempt_id) (''Move'', the move_id) evt] else []) @
       (if given route_id then [link proof ''VIA_ROUTE'' (''Attempt'', attempt_id) (''Route'', the route_id) evt] else []))"

definition update_attempt :: "driver \<Rightarrow> string \<Rightarrow> string \<Rightarrow> pyval \<Rightarrow> string \<Rightarrow> string \<Rightarrow> unit graph_op" where
  "update_attempt dr attempt_id status evidence proof evt =
     check_status status AttemptStatus (\<lambda>status. write_all dr
       [SetNodes (any_proof_pat ''Attempt'' proof attempt_id)
          [(''status'', PStr status), (''evidence'', evidence), (''status_updated_in_event'', PStr evt)]])"

definition get_attempts_for_state :: "driver \<Rightarrow> string \<Rightarrow> string \<Rightarrow> graph \<Rightarrow> graph_exc + fields list" where
  "get_attempts_for_state dr state_id proof =
     read_many dr id (\<lambda>g. map fst (filter (\<lambda>(a, st).
       gn_label a = ''Attempt'' \<and> in_proof proof a \<and> gn_label st = ''State'' \<and> gn_id st = state_id) (joined g ''ON_STATE'')))"

definition get_attempts_for_move :: "driver \<Rightarrow> string \<Rightarrow> string \<Rightarrow> graph \<Rightarrow> graph_exc + fields list" where
  "get_attempts_for_move dr move_id proof =
     read_many dr id (\<lambda>g. map fst (filter (\<lambda>(a, m).
       gn_label a = ''Attempt'' \<and> in_proof proof a \<and> gn_label m = ''Move'' \<and> gn_id m = move_id) (joined g ''ON_MOVE'')))"

definition link_attempt_route :: "driver \<Rightarrow> string \<Rightarrow> string \<Rightarrow> string \<Rightarrow> string \<Rightarrow> unit graph_op" where
  "link_attempt_route dr proof attempt_id route_id evt =
     write_all dr [link proof ''VIA_ROUTE'' (''Attempt'', attempt_id) (''Route'', route_id) evt]"

definition link_attempt_context :: "driver \<Rightarrow> string \<Rightarrow> string \<Rightarrow> string \<Rightarrow> string \<Rightarrow> unit graph_op" where
  "link_attempt_context dr proof attempt_id context_id evt =
     write_all dr [link proof ''USED_CONTEXT'' (''Attempt'', attempt_id) (''Context'', context_id) evt]"

definition link_produced_claim :: "driver \<Rightarrow> string \<Rightarrow> string \<Rightarrow> string \<Rightarrow> string \<Rightarrow> unit graph_op" where
  "link_produced_claim dr proof attempt_id claim_id evt =
     write_all dr [link proof ''PRODUCED_CLAIM'' (''Attempt'', attempt_id) (''Claim'', claim_id) evt]"

section \<open>Routes, artifacts, contexts\<close>

definition add_route :: "driver \<Rightarrow> string \<Rightarrow> string \<Rightarrow> pyval \<Rightarrow> string \<Rightarrow> unit graph_op" where
  "add_route dr proof route_id display_path evt =
     write_all dr [MergeNode (''Route'', proof, route_id)
       [(''display_path'', display_path), (''created_in_event'', PStr evt)] []]"

definition add_artifact ::
  "driver \<Rightarrow> string \<Rightarrow> string \<Rightarrow> pyval \<Rightarrow> pyval \<Rightarrow> pyval \<Rightarrow> pyval \<Rightarrow> string \<Rightarrow> unit graph_op" where
  "add_artifact dr proof artifact_id kind media_type sha256 filename evt =
     write_all dr [MergeNode (''Artifact'', proof, artifact_id)
       [(''kind'', kind), (''media_type'', media_type), (''sha256'', sha256), (''filename'', filename),
        (''created_in_event'', PStr evt)] []]"

definition link_artifact :: "driver \<Rightarrow> string \<Rightarrow> string \<Rightarrow> string \<Rightarrow> string \<Rightarrow> unit graph_op" where
  "link_artifact dr proof attempt_id artifact_id evt =
     write_all dr [link proof ''PRODUCED_ARTIFACT'' (''Attempt'', attempt_id) (''Artifact'', artifact_id) evt]"

definition add_context ::
  "driver \<Rightarrow> string \<Rightarrow> string \<Rightarrow> pyval \<Rightarrow> pyval \<Rightarrow> pyval \<Rightarrow> pyval \<Rightarrow> string \<Rightarrow> unit graph_op" where
  "add_context dr proof context_id packet_hash compiler_version token_budget token_count evt =
     write_all dr [MergeNode (''Context'', proof, context_id)
       [(''packet_hash'', packet_hash), (''compiler_version'', compiler_version),
        (''token_budget'', token_budget), (''token_count'', token_count), (''created_in_event'', PStr evt)] []]"

section \<open>Independent checks\<close>

definition add_critique ::
  "driver \<Rightarrow> string \<Rightarrow> string \<Rightarrow> string \<Rightarrow> pyval \<Rightarrow> pyval \<Rightarrow> pyval \<Rightarrow> string \<Rightarrow> unit graph_op" where
  "add_critique dr proof critique_id attempt_id verdict reason critic_worker evt =
     write_all dr
       [MergeNode (''Critique'', proof, critique_id)
          [(''verdict'', verdict), (''reason'', reason), (''critic_worker'', critic_worker),
           (''created_in_event'', PStr evt)] [],
        link proof ''HAD_CRITIQUE'' (''Attempt'', attempt_id) (''Critique'', critique_id) evt]"

definition add_experiment ::
  "driver \<Rightarrow> string \<Rightarrow> string \<Rightarrow> string \<Rightarrow> pyval \<Rightarrow> pyval \<Rightarrow> string \<Rightarrow> unit graph_op" where
  "add_experiment dr proof experiment_id attempt_id question status evt =
     write_all dr
       [MergeNode (''Experiment'', proof, experiment_id)
          [(''question'', question), (''status'', status), (''created_in_event'', PStr evt)] [],
        link proof ''RAN'' (''Attempt'', attempt_id) (''Experiment'', experiment_id) evt]"

definition add_verification ::
  "driver \<Rightarrow> string \<Rightarrow> string \<Rightarrow> string \<Rightarrow> string \<Rightarrow> pyval \<Rightarrow> pyval \<Rightarrow> pyval \<Rightarrow> pyval \<Rightarrow> string \<Rightarrow> unit graph_op" where
  "add_verification dr proof verification_id attempt_id claim_id kind status lean_name toolchain_hash evt =
     write_all dr
       [MergeNode (''Verification'', proof, verification_id)
          [(''kind'', kind), (''status'', status), (''lean_name'', lean_name),
           (''toolchain_hash'', toolchain_hash), (''created_in_event'', PStr evt)] [],
        link proof ''HAD_VERIFICATION'' (''Attempt'', attempt_id) (''Verification'', verification_id) evt,
        link proof ''OF'' (''Verification'', verification_id) (''Claim'', claim_id) evt]"

section \<open>Concepts, hypotheses, relations\<close>

definition add_concept :: "driver \<Rightarrow> string \<Rightarrow> string \<Rightarrow> pyval \<Rightarrow> pyval \<Rightarrow> string \<Rightarrow> unit graph_op" where
  "add_concept dr proof concept_id name mechanism_tags evt =
     write_all dr [MergeNode (''Concept'', proof, concept_id)
       [(''name'', name), (''mechanism_tags'', mechanism_tags), (''created_in_event'', PStr evt)] []]"

definition add_hypothesis ::
  "driver \<Rightarrow> string \<Rightarrow> string \<Rightarrow> pyval \<Rightarrow> string \<Rightarrow> pyval \<Rightarrow> pyval \<Rightarrow> pyval \<Rightarrow> pyval \<Rightarrow> pyval \<Rightarrow> pyval \<Rightarrow>
     string \<Rightarrow> unit graph_op" where
  "add_hypothesis dr proof hypothesis_id kind target_state_id falsification_test novelty abductive_strength
       cost risk lifecycle_status evt =
     write_all dr
       [MergeNode (''Hypothesis'', proof, hypothesis_id)
          [(''kind'', kind), (''layer'', PStr ''speculative''), (''falsification_test'', falsification_test),
           (''novelty'', novelty), (''abductive_strength'', abductive_strength), (''cost'', cost),
           (''risk'', risk), (''lifecycle_status'', lifecycle_status), (''created_in_event'', PStr evt)] [],
        link proof ''TARGETS'' (''Hypothesis'', hypothesis_id) (''State'', target_state_id) evt]"

definition add_relation :: "driver \<Rightarrow> string \<Rightarrow> string \<Rightarrow> string \<Rightarrow> string \<Rightarrow> string \<Rightarrow> pyval \<Rightarrow> unit graph_op" where
  "add_relation dr proof rel source_id target_id evt route_id g =
     (if rel \<notin> set REL_WHITELIST then (Inl (Raised ValueError), g)
      else write_all dr
        [MergeEdge (any_label_pat proof source_id) rel (edge_id evt rel) (any_label_pat proof target_id) [] []
           [(''event_id'', PStr evt), (''route_id'', route_id)]] g)"

end
