(* ===== verification/Replay.thy ===== *)
theory Replay
  imports Rules Provenance Ops
begin

text \<open>
  \<^verbatim>\<open>src/neo4j_adapter/replay.py\<close>: the graph operation each journal event stands for, and
  \<open>wipe_and_rebuild\<close>, which deletes a proof's projection and replays its events. The driver
  outcome of each operation is an argument.
\<close>

definition no_text :: pyval where
  "no_text = PStr ''''"

section \<open>The operation of an event\<close>

definition search_event :: "driver \<Rightarrow> string \<Rightarrow> string \<Rightarrow> fields \<Rightarrow> string \<Rightarrow> py_exc + unit graph_op" where
  "search_event dr proof t p evt =
     (if t = ''project_init'' then Inr (init_proof dr proof (get_or p ''theorem_kernel'' no_text) no_text evt)
      else if t = ''state_added'' then
        bind_res (obj p ''state'') (\<lambda>st. bind_res (key_str st ''id'') (\<lambda>i.
        bind_res (key_val st ''description'') (\<lambda>description. bind_res (get_opt st ''parent'') (\<lambda>parent.
        bind_res (get_str st ''kind'' STATE_KIND_OR) (\<lambda>kind.
          Inr (add_state dr proof i description parent kind (get_or st ''assumptions'' no_text) evt))))))
      else if t = ''claim_added'' then
        bind_res (obj p ''claim'') (\<lambda>c. bind_res (key_str c ''id'') (\<lambda>i.
        bind_res (key_val c ''statement'') (\<lambda>statement. bind_res (get_str c ''status'' CLAIM_CONJECTURAL) (\<lambda>status.
          Inr (add_claim dr proof i statement status no_text evt)))))
      else if t = ''claim_dependency_added'' then
        bind_res (key_str p ''dependent_claim_id'') (\<lambda>a. bind_res (key_str p ''depends_on_claim_id'') (\<lambda>b.
          Inr (add_claim_dependency dr a b proof evt)))
      else if t = ''move_added'' then
        bind_res (obj p ''move'') (\<lambda>mv. bind_res (key_str mv ''id'') (\<lambda>i. bind_res (key_str mv ''state_id'') (\<lambda>s.
        bind_res (key_val mv ''move_summary'') (\<lambda>summary. bind_res (get_str mv ''status'' MOVE_OPEN) (\<lambda>status.
          Inr (add_move dr proof i s summary (get_or mv ''kind'' (PStr ''reduction'')) (get_or mv ''note'' no_text) evt
                 PNone PNone status))))))
      else if t = ''subgoal_added'' then
        bind_res (obj p ''subgoal'') (\<lambda>sg. bind_res (key_str p ''move_id'') (\<lambda>m. bind_res (key_str sg ''id'') (\<lambda>i.
        bind_res (key_val sg ''description'') (\<lambda>description. bind_res (get_opt sg ''parent'') (\<lambda>parent.
          Inr (add_required_subgoal dr proof m i description parent evt))))))
      else if t = ''move_updated'' then
        bind_res (obj p ''move'') (\<lambda>mv. bind_res (key_str mv ''id'') (\<lambda>i. bind_res (key_str mv ''status'') (\<lambda>status.
          Inr (update_move_status dr i status proof evt))))
      else if t = ''state_closed'' then
        bind_res (key_str p ''state_id'') (\<lambda>s. Inr (close_state dr s proof (get_or p ''reason'' no_text) evt))
      else if t = ''state_reopened'' then
        bind_res (key_str p ''state_id'') (\<lambda>s. Inr (reopen_state dr proof s (get_or p ''reason'' no_text) evt))
      else if t = ''claim_updated'' then
        bind_res (key_str p ''claim_id'') (\<lambda>c. bind_res (key_str p ''status'') (\<lambda>status.
          Inr (update_claim_status dr c status proof evt (get_or p ''reason'' no_text))))
      else if t = ''taint_propagated'' then
        bind_res (key_str p ''claim_id'') (\<lambda>c. Inr (\<lambda>g.
          (case propagate_taint dr proof c evt (get_or p ''reason'' no_text) g of
             (Inl e, g') \<Rightarrow> (Inl e, g') | (Inr _, g') \<Rightarrow> (Inr (), g'))))
      else if t = ''state_claim_link_added'' then
        bind_res (key_str p ''state_id'') (\<lambda>s. bind_res (key_str p ''claim_id'') (\<lambda>c.
          Inr (link_state_claim dr proof s c evt)))
      else Inr (\<lambda>g. (Inr (), g)))"

definition provenance_event :: "driver \<Rightarrow> string \<Rightarrow> string \<Rightarrow> fields \<Rightarrow> string \<Rightarrow> py_exc + unit graph_op" where
  "provenance_event dr proof t p evt =
     (if t = ''attempt_recorded'' then
        bind_res (obj p ''attempt'') (\<lambda>a. bind_res (key_str a ''id'') (\<lambda>i. bind_res (key_str a ''state_id'') (\<lambda>s.
        bind_res (key_val a ''move_summary'') (\<lambda>summary. bind_res (get_opt a ''move_id'') (\<lambda>m.
        bind_res (get_opt a ''route_id'') (\<lambda>r.
          Inr (add_attempt dr proof i s summary (get_or a ''worker'' (PStr ''explorer'')) (get_or a ''note'' no_text) m evt r
                 (get_or a ''model_persona'' no_text) (get_or a ''disposition'' no_text)
                 (get_or a ''result_relation'' no_text))))))))
      else if t = ''attempt_updated'' then
        bind_res (obj p ''attempt'') (\<lambda>a. bind_res (key_str a ''id'') (\<lambda>i. bind_res (key_str a ''status'') (\<lambda>status.
          Inr (update_attempt dr i status (get_or a ''evidence'' no_text) proof evt))))
      else if t = ''route_added'' then
        bind_res (obj p ''route'') (\<lambda>r. bind_res (key_str r ''id'') (\<lambda>i. bind_res (key_val r ''display_path'') (\<lambda>path.
          Inr (add_route dr proof i path evt))))
      else if t = ''context_added'' then
        bind_res (obj p ''context'') (\<lambda>c. bind_res (key_str c ''id'') (\<lambda>i.
          Inr (add_context dr proof i (get_or c ''packet_hash'' no_text) (get_or c ''compiler_version'' no_text)
                 (get_or c ''token_budget'' (PInt 0)) (get_or c ''token_count'' (PInt 0)) evt)))
      else if t = ''artifact_added'' then
        bind_res (obj p ''artifact'') (\<lambda>a. bind_res (key_str a ''id'') (\<lambda>i.
          Inr (add_artifact dr proof i (get_or a ''kind'' (PStr ''note'')) (get_or a ''media_type'' no_text)
                 (get_or a ''sha256'' no_text) (get_or a ''filename'' no_text) evt)))
      else if t = ''artifact_linked'' then
        bind_res (key_str p ''attempt_id'') (\<lambda>a. bind_res (key_str p ''artifact_id'') (\<lambda>b. Inr (link_artifact dr proof a b evt)))
      else if t = ''attempt_route_linked'' then
        bind_res (key_str p ''attempt_id'') (\<lambda>a. bind_res (key_str p ''route_id'') (\<lambda>b. Inr (link_attempt_route dr proof a b evt)))
      else if t = ''attempt_context_linked'' then
        bind_res (key_str p ''attempt_id'') (\<lambda>a. bind_res (key_str p ''context_id'') (\<lambda>b. Inr (link_attempt_context dr proof a b evt)))
      else if t = ''claim_produced'' then
        bind_res (key_str p ''attempt_id'') (\<lambda>a. bind_res (key_str p ''claim_id'') (\<lambda>b. Inr (link_produced_claim dr proof a b evt)))
      else Inr (\<lambda>g. (Inr (), g)))"

definition check_event :: "driver \<Rightarrow> string \<Rightarrow> string \<Rightarrow> fields \<Rightarrow> string \<Rightarrow> py_exc + unit graph_op" where
  "check_event dr proof t p evt =
     (if t = ''critique_added'' then
        bind_res (obj p ''critique'') (\<lambda>c. bind_res (key_str c ''id'') (\<lambda>i. bind_res (key_str p ''attempt_id'') (\<lambda>a.
        bind_res (key_val c ''verdict'') (\<lambda>verdict.
          Inr (add_critique dr proof i a verdict (get_or c ''reason'' no_text) (get_or c ''critic_worker'' (PStr ''critic'')) evt)))))
      else if t = ''experiment_added'' then
        bind_res (obj p ''experiment'') (\<lambda>e. bind_res (key_str e ''id'') (\<lambda>i. bind_res (key_str p ''attempt_id'') (\<lambda>a.
        bind_res (key_val e ''question'') (\<lambda>question.
          Inr (add_experiment dr proof i a question (get_or e ''status'' (PStr ''ran'')) evt)))))
      else if t = ''verification_added'' then
        bind_res (obj p ''verification'') (\<lambda>v. bind_res (key_str v ''id'') (\<lambda>i. bind_res (key_str p ''attempt_id'') (\<lambda>a.
        bind_res (key_str p ''claim_id'') (\<lambda>c.
          Inr (add_verification dr proof i a c (get_or v ''kind'' (PStr ''lean'')) (get_or v ''status'' (PStr ''pending''))
                 (get_or v ''lean_name'' no_text) (get_or v ''toolchain_hash'' no_text) evt)))))
      else if t = ''bypass_added'' then
        bind_res (key_str p ''move_id'') (\<lambda>a. bind_res (key_str p ''state_id'') (\<lambda>b.
          Inr (add_relation dr proof ''BYPASSES'' a b evt (get_or p ''route_id'' no_text))))
      else if t = ''relation_added'' then
        bind_res (key_str p ''rel'') (\<lambda>rel. bind_res (key_str p ''from_id'') (\<lambda>a. bind_res (key_str p ''to_id'') (\<lambda>b.
          Inr (add_relation dr proof rel a b evt (get_or p ''route_id'' no_text)))))
      else if t = ''concept_added'' then
        bind_res (obj p ''concept'') (\<lambda>c. bind_res (key_str c ''id'') (\<lambda>i. bind_res (key_val c ''name'') (\<lambda>name.
          Inr (add_concept dr proof i name (get_or c ''mechanism_tags'' no_text) evt))))
      else if t = ''hypothesis_added'' then
        bind_res (obj p ''hypothesis'') (\<lambda>h. bind_res (key_str h ''id'') (\<lambda>i. bind_res (key_val h ''kind'') (\<lambda>kind.
        bind_res (key_str h ''target_state_id'') (\<lambda>s.
          Inr (add_hypothesis dr proof i kind s (get_or h ''falsification_test'' no_text)
                 (get_or h ''novelty'' (PFloat (Finite 0))) (get_or h ''abductive_strength'' (PFloat (Finite 0)))
                 (get_or h ''cost'' (PFloat (Finite 0))) (get_or h ''risk'' (PFloat (Finite 0)))
                 (get_or h ''lifecycle_status'' (PStr ''queued'')) evt)))))
      else Inr (\<lambda>g. (Inr (), g)))"

definition PROVENANCE_EVENTS :: "string list" where
  "PROVENANCE_EVENTS =
     [''attempt_recorded'', ''attempt_updated'', ''route_added'', ''context_added'', ''artifact_added'',
      ''artifact_linked'', ''attempt_route_linked'', ''attempt_context_linked'', ''claim_produced'']"

definition CHECK_EVENTS :: "string list" where
  "CHECK_EVENTS =
     [''critique_added'', ''experiment_added'', ''verification_added'', ''bypass_added'', ''relation_added'',
      ''concept_added'', ''hypothesis_added'']"

definition SEARCH_EVENTS :: "string list" where
  "SEARCH_EVENTS =
     [''project_init'', ''state_added'', ''claim_added'', ''claim_dependency_added'', ''move_added'',
      ''subgoal_added'', ''move_updated'', ''state_closed'', ''state_reopened'', ''claim_updated'',
      ''taint_propagated'', ''state_claim_link_added'']"

text \<open>An event of a type that no branch names does nothing, whatever its payload.\<close>

definition event_op :: "driver \<Rightarrow> string \<Rightarrow> fields \<Rightarrow> py_exc + unit graph_op" where
  "event_op dr proof event =
     (case dget event ''type'' of
        PStr t \<Rightarrow>
          if t \<notin> set (SEARCH_EVENTS @ PROVENANCE_EVENTS @ CHECK_EVENTS) then Inr (\<lambda>g. (Inr (), g))
          else bind_res (get_str event ''id'' '''') (\<lambda>evt.
               bind_res (case map_of event ''payload'' of None \<Rightarrow> Inr [] | Some (PDict p) \<Rightarrow> Inr p | Some _ \<Rightarrow> Inl OutOfModel)
                 (\<lambda>p. if t \<in> set SEARCH_EVENTS then search_event dr proof t p evt
                      else if t \<in> set PROVENANCE_EVENTS then provenance_event dr proof t p evt
                      else check_event dr proof t p evt))
      | _ \<Rightarrow> Inr (\<lambda>g. (Inr (), g)))"

definition replay_event :: "driver \<Rightarrow> string \<Rightarrow> fields \<Rightarrow> unit graph_op" where
  "replay_event dr proof event g =
     (case event_op dr proof event of Inl e \<Rightarrow> (Inl (Raised e), g) | Inr f \<Rightarrow> f g)"

fun replay_events :: "(nat \<Rightarrow> driver) \<Rightarrow> nat \<Rightarrow> string \<Rightarrow> fields list \<Rightarrow> unit graph_op" where
  "replay_events drs i proof [] g = (Inr (), g)"
| "replay_events drs i proof (event # events) g =
     (case replay_event (drs i) proof event g of
        (Inl e, g') \<Rightarrow> (Inl e, g')
      | (Inr _, g') \<Rightarrow> replay_events drs (Suc i) proof events g')"

definition wipe_and_rebuild :: "(nat \<Rightarrow> driver) \<Rightarrow> string \<Rightarrow> fields list \<Rightarrow> unit graph_op" where
  "wipe_and_rebuild drs proof events g =
     (case write_work (drs 0) (\<lambda>g. Inr ((), detach_delete proof g)) g of
        (Inl e, g') \<Rightarrow> (Inl e, g')
      | (Inr _, g') \<Rightarrow> replay_events drs 1 proof events g')"

section \<open>Context query\<close>

text \<open>\<^verbatim>\<open>context_for\<close> of the adapter: six reads, each its own transaction.\<close>

definition context_for :: "driver \<Rightarrow> string \<Rightarrow> string \<Rightarrow> graph \<Rightarrow> graph_exc + context_reply" where
  "context_for dr proof state_id g =
     (case get_moves_for_state dr state_id proof g of Inl e \<Rightarrow> Inl e | Inr moves \<Rightarrow>
     (case get_state dr state_id proof g of Inl e \<Rightarrow> Inl e | Inr state \<Rightarrow>
     (case get_attempts_for_state dr state_id proof g of Inl e \<Rightarrow> Inl e | Inr attempts \<Rightarrow>
     (case get_all_claims dr proof g of Inl e \<Rightarrow> Inl e | Inr claims \<Rightarrow>
     (case collect_subgoals dr proof moves g of Inl e \<Rightarrow> Inl e | Inr subgoals \<Rightarrow>
     (case eligible_frontier dr proof g of Inl e \<Rightarrow> Inl e | Inr frontier \<Rightarrow>
        Inr \<lparr>cx_state = state, cx_moves = moves, cx_attempts = attempts, cx_claims = claims,
             cx_subgoals = subgoals, cx_frontier = frontier\<rparr>))))))"

end
