(* ===== verification/Closure.thy ===== *)
theory Closure
  imports Rules
begin

text \<open>
  What the AND/OR propagation of \<^verbatim>\<open>rules.py\<close> computes. The keys it closes are the least set under
  the two rules (\<open>closes\<close>); the loop of \<open>propagate_closures_tx\<close> reaches it as soon as its
  iteration bound is at least the number of open moves and states of the proof, since every
  round but the last closes one of them.
\<close>

section \<open>Updates that keep keys\<close>

lemma find_node_map:
  assumes "\<And>n. gn_key (f n) = gn_key n" "gr_nodes g' = map f (gr_nodes g)"
  shows "find_node g' k = map_option f (find_node g k)"
proof -
  have "List.find (\<lambda>n. gn_key n = k) (map f ns) = map_option f (List.find (\<lambda>n. gn_key n = k) ns)" for ns
    by (induction ns) (simp_all add: assms(1))
  then show ?thesis by (simp add: find_node_def assms(2))
qed

lemma joined_map:
  assumes "\<And>n. gn_key (f n) = gn_key n" "gr_nodes g' = map f (gr_nodes g)" "gr_edges g' = gr_edges g"
  shows "joined g' rel = map (\<lambda>(a, b). (f a, f b)) (joined g rel)"
  unfolding joined_def assms(3) find_node_map [OF assms(1,2)]
  by (induction "gr_edges g") (auto simp: List.map_filter_def split: option.splits)

lemma find_node_Some: "find_node g k = Some n \<Longrightarrow> n \<in> set (gr_nodes g) \<and> gn_key n = k"
  by (auto simp: find_node_def find_Some_iff)

lemma find_node_None: "find_node g k = None \<longleftrightarrow> k \<notin> gn_key ` set (gr_nodes g)"
  by (auto simp: find_node_def find_None_iff)

lemma joined_iff:
  "(a, b) \<in> set (joined g rel) \<longleftrightarrow>
     (\<exists>e \<in> set (gr_edges g). ge_rel e = rel \<and> find_node g (ge_src e) = Some a \<and> find_node g (ge_dst e) = Some b)"
proof -
  have "(if ge_rel e = rel then (case find_node g (ge_src e) of None \<Rightarrow> None
      | Some a \<Rightarrow> (case find_node g (ge_dst e) of None \<Rightarrow> None | Some b \<Rightarrow> Some (a, b))) else None) = Some (a, b)
    \<longleftrightarrow> ge_rel e = rel \<and> find_node g (ge_src e) = Some a \<and> find_node g (ge_dst e) = Some b" for e
    by (simp split: option.split)
  then show ?thesis unfolding joined_def map_filter_member by (intro bex_cong refl)
qed

lemma list_ex_map_pairs:
  "list_ex P (map f xs) \<longleftrightarrow> (\<exists>a b. (a, b) \<in> set xs \<and> P (f (a, b)))"
  by (auto simp: list_ex_iff)

lemma joined_nodes:
  "(a, b) \<in> set (joined g rel) \<Longrightarrow> a \<in> set (gr_nodes g) \<and> b \<in> set (gr_nodes g)"
  unfolding joined_iff by (blast dest: find_node_Some)

section \<open>Closing a set of keys\<close>

definition closed_literal :: "gnode \<Rightarrow> string" where
  "closed_literal n = (if gn_label n = ''Move'' then MOVE_CLOSED else STATE_CLOSED)"

definition close_node :: "string \<Rightarrow> gnode \<Rightarrow> gnode" where
  "close_node evt n = n\<lparr>gn_props := put_props
     [(''status'', PStr (closed_literal n)), (''status_updated_in_event'', PStr evt)] (gn_props n)\<rparr>"

definition close_in :: "node_key set \<Rightarrow> string \<Rightarrow> gnode \<Rightarrow> gnode" where
  "close_in K evt n = (if gn_key n \<in> K then close_node evt n else n)"

definition closing :: "node_key set \<Rightarrow> string \<Rightarrow> graph \<Rightarrow> graph" where
  "closing K evt g = g\<lparr>gr_nodes := map (close_in K evt) (gr_nodes g)\<rparr>"

text \<open>A node that no rule closes any more: of unknown status, closed or reopened.\<close>

definition settled :: "gnode \<Rightarrow> bool" where
  "settled n \<longleftrightarrow> \<not> (prop_differs n ''status'' STATE_CLOSED \<and> prop_differs n ''status'' STATE_REOPENED)"

inductive closes :: "graph \<Rightarrow> string \<Rightarrow> node_key \<Rightarrow> bool" for g :: graph and p :: string where
  and_rule: "m \<in> set (gr_nodes g) \<Longrightarrow> is_node ''Move'' p m \<Longrightarrow> prop_differs m ''status'' MOVE_CLOSED \<Longrightarrow>
    (\<forall>m' sg. (m', sg) \<in> set (joined g ''REQUIRES'') \<longrightarrow> gn_key m' = gn_key m \<longrightarrow> is_node ''State'' p sg \<longrightarrow>
       settled sg \<or> closes g p (gn_key sg)) \<Longrightarrow>
    closes g p (gn_key m)"
| or_rule: "st \<in> set (gr_nodes g) \<Longrightarrow> is_node ''State'' p st \<Longrightarrow> \<not> settled st \<Longrightarrow>
    (st', m) \<in> set (joined g ''PROPOSES'') \<Longrightarrow> gn_key st' = gn_key st \<Longrightarrow> is_node ''Move'' p m \<Longrightarrow>
    prop_is m ''status'' MOVE_CLOSED \<or> closes g p (gn_key m) \<Longrightarrow>
    closes g p (gn_key st)"

definition openable :: "string \<Rightarrow> gnode \<Rightarrow> bool" where
  "openable proof n \<longleftrightarrow>
     is_node ''Move'' proof n \<and> prop_differs n ''status'' MOVE_CLOSED \<or> is_node ''State'' proof n \<and> \<not> settled n"

definition open_count :: "string \<Rightarrow> graph \<Rightarrow> nat" where
  "open_count proof g = length (filter (openable proof) (gr_nodes g))"

definition unique_keys :: "graph \<Rightarrow> bool" where
  "unique_keys g \<longleftrightarrow> distinct (map gn_key (gr_nodes g))"

text \<open>The two rules over a graph in which the keys of \<open>K\<close> are closed.\<close>

definition and_can :: "graph \<Rightarrow> string \<Rightarrow> node_key set \<Rightarrow> gnode \<Rightarrow> bool" where
  "and_can g proof K m \<longleftrightarrow>
     is_node ''Move'' proof m \<and> prop_differs m ''status'' MOVE_CLOSED \<and> gn_key m \<notin> K \<and>
     (\<forall>m' sg. (m', sg) \<in> set (joined g ''REQUIRES'') \<longrightarrow> gn_key m' = gn_key m \<longrightarrow> is_node ''State'' proof sg \<longrightarrow>
        settled sg \<or> gn_key sg \<in> K)"

definition or_can :: "graph \<Rightarrow> string \<Rightarrow> node_key set \<Rightarrow> gnode \<Rightarrow> bool" where
  "or_can g proof K st \<longleftrightarrow>
     is_node ''State'' proof st \<and> \<not> settled st \<and> gn_key st \<notin> K \<and>
     (\<exists>st' m. (st', m) \<in> set (joined g ''PROPOSES'') \<and> gn_key st' = gn_key st \<and> is_node ''Move'' proof m \<and>
        (prop_is m ''status'' MOVE_CLOSED \<or> gn_key m \<in> K))"

lemma key_close_node [simp]: "gn_key (close_node evt n) = gn_key n"
  by (simp add: close_node_def)

lemma key_close_in [simp]: "gn_key (close_in K evt n) = gn_key n"
  by (simp add: close_in_def close_node_def)

lemma is_node_close_in [simp]: "is_node l p (close_in K evt n) = is_node l p n"
  by (simp add: is_node_def)

lemma status_close_in:
  "prop_of (close_in K evt n) ''status'' = (if gn_key n \<in> K then PStr (closed_literal n) else prop_of n ''status'')"
  by (simp add: close_in_def close_node_def prop_of_def put_props_def dget_update)

lemma joined_closing: "joined (closing K evt g) rel = map (\<lambda>(a, b). (close_in K evt a, close_in K evt b)) (joined g rel)"
  by (rule joined_map) (simp_all add: closing_def)

lemma settled_close_in:
  "is_node ''State'' p n \<Longrightarrow> settled (close_in K evt n) \<longleftrightarrow> settled n \<or> gn_key n \<in> K"
  by (auto simp: settled_def prop_differs_def status_close_in is_node_def closed_literal_def)

lemma move_closed_close_in:
  "is_node ''Move'' p n \<Longrightarrow> prop_is (close_in K evt n) ''status'' MOVE_CLOSED \<longleftrightarrow> prop_is n ''status'' MOVE_CLOSED \<or> gn_key n \<in> K"
  by (auto simp: prop_is_def status_close_in is_node_def closed_literal_def)

lemma and_ready_closing: "and_ready (closing K evt g) p (close_in K evt m) \<longleftrightarrow> and_can g p K m"
proof -
  have "list_ex (\<lambda>(m', sg). gn_key m' = gn_key (close_in K evt m) \<and> is_node ''State'' p sg \<and>
      prop_differs sg ''status'' STATE_CLOSED \<and> prop_differs sg ''status'' STATE_REOPENED)
      (joined (closing K evt g) ''REQUIRES'') \<longleftrightarrow>
    (\<exists>m' sg. (m', sg) \<in> set (joined g ''REQUIRES'') \<and> gn_key m' = gn_key m \<and> is_node ''State'' p sg \<and>
       \<not> settled (close_in K evt sg))"
    by (simp add: joined_closing list_ex_map_pairs settled_def)
  moreover have "prop_differs (close_in K evt m) ''status'' MOVE_CLOSED \<longleftrightarrow>
      prop_differs m ''status'' MOVE_CLOSED \<and> gn_key m \<notin> K" if "is_node ''Move'' p m"
    using that by (auto simp: prop_differs_def status_close_in is_node_def closed_literal_def)
  ultimately show ?thesis
    unfolding and_ready_def and_can_def by (simp add: settled_close_in [of p] cong: conj_cong) blast
qed

lemma or_ready_closing: "or_ready (closing K evt g) p (close_in K evt st) \<longleftrightarrow> or_can g p K st"
proof -
  have "list_ex (\<lambda>(st', m). gn_key st' = gn_key (close_in K evt st) \<and> is_node ''Move'' p m \<and> prop_is m ''status'' MOVE_CLOSED)
      (joined (closing K evt g) ''PROPOSES'') \<longleftrightarrow>
    (\<exists>st' m. (st', m) \<in> set (joined g ''PROPOSES'') \<and> gn_key st' = gn_key st \<and> is_node ''Move'' p m \<and>
       prop_is (close_in K evt m) ''status'' MOVE_CLOSED)"
    by (simp add: joined_closing list_ex_map_pairs)
  moreover have "(prop_differs (close_in K evt st) ''status'' STATE_CLOSED \<and>
      prop_differs (close_in K evt st) ''status'' STATE_REOPENED) = (\<not> settled st \<and> gn_key st \<notin> K)"
    if "is_node ''State'' p st"
    using settled_close_in [OF that, of K evt] by (auto simp: settled_def)
  ultimately show ?thesis
    unfolding or_ready_def or_can_def by (simp add: move_closed_close_in [of p] cong: conj_cong) blast
qed

section \<open>The loop\<close>

lemma closing_Un:
  assumes "R \<inter> K = {}" "\<And>n. n \<in> set (gr_nodes g) \<Longrightarrow> gn_key n \<in> R \<Longrightarrow> closed_literal n = lit"
  shows "set_status (\<lambda>k. k \<in> R) lit evt (closing K evt g) = closing (K \<union> R) evt g"
proof -
  have "(if gn_key (close_in K evt n) \<in> R
      then close_in K evt n\<lparr>gn_props := put_props [(''status'', PStr lit), (''status_updated_in_event'', PStr evt)]
        (gn_props (close_in K evt n))\<rparr> else close_in K evt n) = close_in (K \<union> R) evt n"
    if n: "n \<in> set (gr_nodes g)" for n
  proof (cases "gn_key n \<in> R")
    case True
    then have "gn_key n \<notin> K" "closed_literal n = lit" using assms n by auto
    with True show ?thesis by (simp add: close_in_def close_node_def)
  qed (simp add: close_in_def)
  then show ?thesis by (simp add: set_status_def update_node_def closing_def)
qed

definition and_keys :: "graph \<Rightarrow> string \<Rightarrow> node_key set \<Rightarrow> node_key set" where
  "and_keys g proof K = gn_key ` {m \<in> set (gr_nodes g). and_can g proof K m}"

definition or_keys :: "graph \<Rightarrow> string \<Rightarrow> node_key set \<Rightarrow> node_key set" where
  "or_keys g proof K = gn_key ` {st \<in> set (gr_nodes g). or_can g proof K st}"

lemma nodes_closing: "gr_nodes (closing K evt g) = map (close_in K evt) (gr_nodes g)"
  by (simp add: closing_def)

lemma and_step_closing:
  "and_step p evt (closing K evt g) =
     (closing (K \<union> and_keys g p K) evt g, length (filter (and_can g p K) (gr_nodes g)))"
proof -
  let ?ready = "map gn_key (filter (and_ready (closing K evt g) p) (gr_nodes (closing K evt g)))"
  have ready: "?ready = map gn_key (filter (and_can g p K) (gr_nodes g))"
    by (simp add: nodes_closing filter_map comp_def and_ready_closing)
  have "set_status (\<lambda>k. k \<in> and_keys g p K) MOVE_CLOSED evt (closing K evt g) = closing (K \<union> and_keys g p K) evt g"
    by (rule closing_Un) (auto simp: and_keys_def and_can_def is_node_def closed_literal_def)
  then show ?thesis unfolding and_step_def ready by (simp add: and_keys_def)
qed

lemma or_step_closing:
  "or_step p evt (closing K evt g) =
     (closing (K \<union> or_keys g p K) evt g, length (filter (or_can g p K) (gr_nodes g)))"
proof -
  let ?ready = "map gn_key (filter (or_ready (closing K evt g) p) (gr_nodes (closing K evt g)))"
  have ready: "?ready = map gn_key (filter (or_can g p K) (gr_nodes g))"
    by (simp add: nodes_closing filter_map comp_def or_ready_closing)
  have "set_status (\<lambda>k. k \<in> or_keys g p K) STATE_CLOSED evt (closing K evt g) = closing (K \<union> or_keys g p K) evt g"
    by (rule closing_Un) (auto simp: or_keys_def or_can_def is_node_def closed_literal_def)
  then show ?thesis unfolding or_step_def ready by (simp add: or_keys_def)
qed


text \<open>Every key a rule fires on belongs to the least set, and closing them shrinks the rest.\<close>

lemma fired_closes:
  assumes "K \<subseteq> {k. closes g p k}"
  shows "and_keys g p K \<subseteq> {k. closes g p k}" and "or_keys g p K \<subseteq> {k. closes g p k}"
proof -
  show "and_keys g p K \<subseteq> {k. closes g p k}"
  proof
    fix k
    assume "k \<in> and_keys g p K"
    then obtain m where m: "m \<in> set (gr_nodes g)" "and_can g p K m" "k = gn_key m" by (auto simp: and_keys_def)
    have "closes g p (gn_key m)"
      by (rule closes.and_rule [OF m(1)]) (use m(2) assms in \<open>auto simp: and_can_def\<close>)
    then show "k \<in> {k. closes g p k}" using m(3) by simp
  qed
  show "or_keys g p K \<subseteq> {k. closes g p k}"
  proof
    fix k
    assume "k \<in> or_keys g p K"
    then obtain st where st: "st \<in> set (gr_nodes g)" "or_can g p K st" "k = gn_key st" by (auto simp: or_keys_def)
    then obtain st' m where m: "(st', m) \<in> set (joined g ''PROPOSES'')" "gn_key st' = gn_key st" "is_node ''Move'' p m"
      "prop_is m ''status'' MOVE_CLOSED \<or> gn_key m \<in> K" by (auto simp: or_can_def)
    have "closes g p (gn_key st)"
      by (rule closes.or_rule [OF st(1) _ _ m(1-3)]) (use st(2) m(4) assms in \<open>auto simp: or_can_def\<close>)
    then show "k \<in> {k. closes g p k}" using st(3) by simp
  qed
qed

definition still_open :: "graph \<Rightarrow> string \<Rightarrow> node_key set \<Rightarrow> nat" where
  "still_open g proof K = length (filter (\<lambda>n. openable proof n \<and> gn_key n \<notin> K) (gr_nodes g))"

lemma length_filter_split:
  assumes "\<And>x. x \<in> set xs \<Longrightarrow> A x \<Longrightarrow> B x" "\<And>x. x \<in> set xs \<Longrightarrow> C x \<Longrightarrow> B x \<and> \<not> A x"
  shows "length (filter C xs) + length (filter A xs) \<le> length (filter B xs)"
  using assms by (induction xs) force+

lemma still_open_and:
  "still_open g p (K \<union> and_keys g p K) + length (filter (and_can g p K) (gr_nodes g)) \<le> still_open g p K"
proof -
  have "openable p n \<and> gn_key n \<notin> K" if "and_can g p K n" for n
    using that by (simp add: and_can_def openable_def)
  moreover have "gn_key n \<in> and_keys g p K" if "and_can g p K n" "n \<in> set (gr_nodes g)" for n
    using that by (simp add: and_keys_def)
  ultimately show ?thesis unfolding still_open_def by (intro length_filter_split) auto
qed

lemma still_open_or:
  "still_open g p (K \<union> or_keys g p K) + length (filter (or_can g p K) (gr_nodes g)) \<le> still_open g p K"
proof -
  have "openable p n \<and> gn_key n \<notin> K" if "or_can g p K n" for n
    using that by (simp add: or_can_def openable_def)
  moreover have "gn_key n \<in> or_keys g p K" if "or_can g p K n" "n \<in> set (gr_nodes g)" for n
    using that by (simp add: or_keys_def)
  ultimately show ?thesis unfolding still_open_def by (intro length_filter_split) auto
qed

definition fixed :: "graph \<Rightarrow> string \<Rightarrow> node_key set \<Rightarrow> bool" where
  "fixed g proof K \<longleftrightarrow> and_keys g proof K = {} \<and> or_keys g proof K = {}"

lemma no_keys:
  "length (filter (and_can g p K) (gr_nodes g)) = 0 \<longleftrightarrow> and_keys g p K = {}"
  "length (filter (or_can g p K) (gr_nodes g)) = 0 \<longleftrightarrow> or_keys g p K = {}"
  by (auto simp: and_keys_def or_keys_def filter_empty_conv)

lemma nothing_open_fixed: "still_open g p K = 0 \<Longrightarrow> fixed g p K"
  using still_open_and [of g p K] still_open_or [of g p K] no_keys [of g p K] by (simp add: fixed_def)

lemma propagate_closing:
  assumes "K \<subseteq> {k. closes g p k}"
  shows "\<exists>L. propagate_closures_tx n p evt (closing K evt g) = closing L evt g \<and> L \<subseteq> {k. closes g p k} \<and>
    (still_open g p K \<le> n \<longrightarrow> fixed g p L)"
  using assms
proof (induction n arbitrary: K)
  case 0
  then show ?case using nothing_open_fixed by (intro exI [of _ K]) simp
next
  case (Suc n)
  let ?A = "K \<union> and_keys g p K"
  let ?B = "?A \<union> or_keys g p ?A"
  let ?r1 = "length (filter (and_can g p K) (gr_nodes g))"
  let ?r2 = "length (filter (or_can g p ?A) (gr_nodes g))"
  have A: "?A \<subseteq> {k. closes g p k}" using Suc.prems fired_closes(1) [OF Suc.prems] by blast
  have B: "?B \<subseteq> {k. closes g p k}" using A fired_closes(2) [OF A] by blast
  have step: "propagate_closures_tx (Suc n) p evt (closing K evt g) =
      (if ?r1 = 0 \<and> ?r2 = 0 then closing ?B evt g else propagate_closures_tx n p evt (closing ?B evt g))"
    by (simp only: propagate_closures_tx.simps and_step_closing or_step_closing Let_def prod.case)
  show ?case
  proof (cases "?r1 = 0 \<and> ?r2 = 0")
    case True
    then have a: "and_keys g p K = {}" and b: "or_keys g p ?A = {}"
      using no_keys(1) [of g p K] no_keys(2) [of g p ?A] by blast+
    then have "fixed g p ?B" by (simp add: fixed_def)
    then show ?thesis using True B unfolding step by (intro exI [of _ ?B]) simp
  next
    case False
    have "still_open g p ?B + ?r1 + ?r2 \<le> still_open g p K"
      using still_open_and [of g p K] still_open_or [of g p ?A] by linarith
    then have fewer: "still_open g p K \<le> Suc n \<Longrightarrow> still_open g p ?B \<le> n" using False by linarith
    from Suc.IH [OF B] obtain L where L: "propagate_closures_tx n p evt (closing ?B evt g) = closing L evt g"
      "L \<subseteq> {k. closes g p k}" "still_open g p ?B \<le> n \<longrightarrow> fixed g p L" by blast
    show ?thesis
      unfolding step if_not_P [OF False] using L fewer by (intro exI [of _ L]) blast
  qed
qed

lemma fixed_contains:
  assumes "fixed g p K" "closes g p k"
  shows "k \<in> K"
  using assms(2)
proof induction
  case (and_rule m)
  then have "gn_key m \<notin> K \<Longrightarrow> and_can g p K m" by (simp add: and_can_def) blast
  then show ?case using assms(1) and_rule.hyps(1) by (auto simp: fixed_def and_keys_def)
next
  case (or_rule st st' m)
  then have "gn_key st \<notin> K \<Longrightarrow> or_can g p K st" by (simp add: or_can_def) blast
  then show ?case using assms(1) or_rule.hyps(1) by (auto simp: fixed_def or_keys_def)
qed

lemma still_open_empty: "still_open g p {} = open_count p g"
  by (simp add: still_open_def open_count_def)

lemma closing_empty [simp]: "closing {} evt g = g"
proof -
  have "close_in {} evt = (\<lambda>n. n)" by (rule ext) (simp add: close_in_def)
  then show ?thesis by (simp add: closing_def)
qed

lemma propagate_closures_least:
  assumes "open_count p g \<le> n"
  shows "propagate_closures_tx n p evt g = closing {k. closes g p k} evt g"
proof -
  obtain L where L: "propagate_closures_tx n p evt g = closing L evt g" "L \<subseteq> {k. closes g p k}" "fixed g p L"
    using propagate_closing [of "{}" g p n evt] assms by (auto simp: still_open_empty)
  from fixed_contains [OF L(3)] L(2) have "L = {k. closes g p k}" by blast
  with L(1) show ?thesis by simp
qed

text \<open>C25. When a proof has no more open moves and states than the iteration bound, the propagation
  changes exactly the nodes in the least set closed under the AND and OR rules, and of these only
  status and event: it computes the fixpoint the loop is meant to reach. Whatever the bound, it
  closes no node outside that set.\<close>

theorem closure_is_least_fixpoint:
  "(open_count p g \<le> n \<longrightarrow> propagate_closures_tx n p evt g = closing {k. closes g p k} evt g) \<and>
   (\<exists>L \<subseteq> {k. closes g p k}. propagate_closures_tx n p evt g = closing L evt g)"
  using propagate_closures_least [of p g n evt] propagate_closing [of "{}" g p n evt] by auto

section \<open>Closing a state\<close>

lemma fixed_spelled_out:
  "fixed g p {} \<longleftrightarrow>
     (\<forall>m \<in> set (gr_nodes g). is_node ''Move'' p m \<and> prop_differs m ''status'' MOVE_CLOSED \<longrightarrow>
        (\<exists>m' sg. (m', sg) \<in> set (joined g ''REQUIRES'') \<and> gn_key m' = gn_key m \<and> is_node ''State'' p sg \<and> \<not> settled sg)) \<and>
     (\<forall>st \<in> set (gr_nodes g). is_node ''State'' p st \<and> \<not> settled st \<longrightarrow>
        \<not> (\<exists>st' m. (st', m) \<in> set (joined g ''PROPOSES'') \<and> gn_key st' = gn_key st \<and> is_node ''Move'' p m \<and>
              prop_is m ''status'' MOVE_CLOSED))"
  by (auto simp: fixed_def and_keys_def or_keys_def and_can_def or_can_def)

lemma fixed_closing:
  assumes "fixed g p L"
  shows "fixed (closing L evt g) p {}"
proof -
  have "and_can (closing L evt g) p {} (close_in L evt m) = and_can g p L m" for m
    using and_ready_closing [of L evt g p m] and_ready_closing [of "{}" evt "closing L evt g" p "close_in L evt m"]
    by (simp add: close_in_def)
  moreover have "or_can (closing L evt g) p {} (close_in L evt m) = or_can g p L m" for m
    using or_ready_closing [of L evt g p m] or_ready_closing [of "{}" evt "closing L evt g" p "close_in L evt m"]
    by (simp add: close_in_def)
  ultimately show ?thesis
    using assms by (auto simp: fixed_def and_keys_def or_keys_def nodes_closing)
qed

lemma open_count_map:
  assumes "gr_nodes g' = map f (gr_nodes g)" "\<And>n. openable p (f n) \<Longrightarrow> openable p n"
  shows "open_count p g' \<le> open_count p g"
proof -
  have "length (filter (openable p) (map f ns)) \<le> length (filter (openable p) ns)" for ns
    using assms(2) by (induction ns) auto
  then show ?thesis by (simp add: open_count_def assms(1))
qed

lemma exec_Inr: "exec g s = Inr g' \<longleftrightarrow> refused (assigned s g) = None \<and> g' = apply_stmt s g"
  by (auto simp: exec_def split: option.splits)

lemma matches_node_pat [simp]: "matches (node_pat l p i) k \<longleftrightarrow> k = (l, p, i)"
  by (cases k) (auto simp: matches_def node_pat_def)

lemma closed_once_nodes:
  assumes "closed_once sid p reason evt g = Inr g1"
  obtains f where "gr_nodes g1 = map f (gr_nodes g)" "gr_edges g1 = gr_edges g" "\<forall>n. gn_key (f n) = gn_key n"
    "\<forall>n. prop_of (f n) ''status'' =
       (if gn_key n = (''State'', p, sid) \<or> gn_key n \<in> set (proposed_by g p sid)
        then PStr (closed_literal n) else prop_of n ''status'')"
proof -
  let ?sets = "[(''status'', PStr STATE_CLOSED), (''status_updated_in_event'', PStr evt), (''closed_reason'', reason)]"
  let ?u = "\<lambda>n. if gn_key n = (''State'', p, sid) then n\<lparr>gn_props := put_props ?sets (gn_props n)\<rparr> else n"
  let ?g0 = "update_node (matches (node_pat ''State'' p sid)) ?sets g"
  let ?w = "\<lambda>n. if gn_key n \<in> set (proposed_by g p sid)
     then n\<lparr>gn_props := put_props [(''status'', PStr MOVE_CLOSED), (''status_updated_in_event'', PStr evt)] (gn_props n)\<rparr> else n"
  have g0: "gr_nodes ?g0 = map ?u (gr_nodes g)" "gr_edges ?g0 = gr_edges g" by simp_all
  have key_u: "gn_key (?u n) = gn_key n" for n by simp
  have "joined ?g0 ''PROPOSES'' = map (\<lambda>(a, b). (?u a, ?u b)) (joined g ''PROPOSES'')"
    by (rule joined_map [OF key_u g0])
  then have proposed: "proposed_by ?g0 p sid = proposed_by g p sid"
    by (simp add: proposed_by_def filter_map comp_def case_prod_unfold is_node_def key_u)
  have "g1 = set_status (\<lambda>k. k \<in> set (proposed_by ?g0 p sid)) MOVE_CLOSED evt ?g0"
    using assms by (auto simp: closed_once_def exec_Inr split: sum.splits)
  then have nodes: "gr_nodes g1 = map (\<lambda>n. ?w (?u n)) (gr_nodes g)" "gr_edges g1 = gr_edges g"
    by (simp_all add: set_status_def proposed comp_def)
  have moves: "fst k = ''Move''" if "k \<in> set (proposed_by g p sid)" for k
    using that by (auto simp: proposed_by_def is_node_def)
  have status: "prop_of (?w (?u n)) ''status'' =
      (if gn_key n = (''State'', p, sid) \<or> gn_key n \<in> set (proposed_by g p sid)
       then PStr (closed_literal n) else prop_of n ''status'')" for n
  proof (cases "gn_key n \<in> set (proposed_by g p sid)")
    case True
    then have "gn_key n \<noteq> (''State'', p, sid)" using moves [OF True] by auto
    then show ?thesis using moves [OF True] True by (simp add: prop_of_def props_after closed_literal_def)
  next
    case False
    then show ?thesis by (auto simp: prop_of_def props_after closed_literal_def)
  qed
  show thesis
    by (rule that [of "\<lambda>n. ?w (?u n)"]) (rule nodes, rule nodes, simp, intro allI status)
qed

lemma openable_status:
  "openable p n \<Longrightarrow> prop_of n ''status'' \<noteq> PStr (closed_literal n)"
  by (auto simp: openable_def is_node_def closed_literal_def prop_differs_def settled_def)

lemma openable_cong:
  "gn_key m = gn_key n \<Longrightarrow> prop_of m ''status'' = prop_of n ''status'' \<Longrightarrow> openable p m = openable p n"
  by (simp add: openable_def is_node_def prop_differs_def settled_def)

lemma closed_once_open_count:
  assumes "closed_once sid p reason evt g = Inr g1"
  shows "open_count p g1 \<le> open_count p g"
proof -
  obtain f where f: "gr_nodes g1 = map f (gr_nodes g)" "gr_edges g1 = gr_edges g" "\<forall>n. gn_key (f n) = gn_key n"
    "\<forall>n. prop_of (f n) ''status'' =
       (if gn_key n = (''State'', p, sid) \<or> gn_key n \<in> set (proposed_by g p sid)
        then PStr (closed_literal n) else prop_of n ''status'')"
    by (rule closed_once_nodes [OF assms])
  have lit: "closed_literal (f n) = closed_literal n" for n by (simp add: closed_literal_def f(3))
  show ?thesis
  proof (rule open_count_map [OF f(1)])
    fix n
    assume o: "openable p (f n)"
    then have "prop_of (f n) ''status'' = prop_of n ''status''"
      using openable_status [OF o] f(4) [rule_format, of n] lit by (auto split: if_splits)
    then show "openable p n" using o openable_cong [of "f n" n p] f(3) by simp
  qed
qed

lemma close_state_fixpoint:
  assumes "close_state dr sid p reason evt g = (Inr (), g')" "open_count p g \<le> MAX_ITER"
  shows "(\<forall>n \<in> set (gr_nodes g').
        gn_key n = (''State'', p, sid) \<or> gn_key n \<in> set (proposed_by g p sid) \<longrightarrow>
        prop_is n ''status'' (closed_literal n)) \<and>
     (\<forall>m \<in> set (gr_nodes g'). is_node ''Move'' p m \<and> prop_differs m ''status'' MOVE_CLOSED \<longrightarrow>
        (\<exists>m' sg. (m', sg) \<in> set (joined g' ''REQUIRES'') \<and> gn_key m' = gn_key m \<and> is_node ''State'' p sg \<and>
           prop_differs sg ''status'' STATE_CLOSED \<and> prop_differs sg ''status'' STATE_REOPENED)) \<and>
     (\<forall>st \<in> set (gr_nodes g'). is_node ''State'' p st \<and>
        prop_differs st ''status'' STATE_CLOSED \<and> prop_differs st ''status'' STATE_REOPENED \<longrightarrow>
        \<not> (\<exists>st' m. (st', m) \<in> set (joined g' ''PROPOSES'') \<and> gn_key st' = gn_key st \<and> is_node ''Move'' p m \<and>
              prop_is m ''status'' MOVE_CLOSED))"
proof -
  obtain g1 where g1: "closed_once sid p reason evt g = Inr g1" and
    g': "g' = propagate_closures_tx MAX_ITER p evt g1"
    using assms(1) by (auto simp: close_state_def write_work_def split: option.splits sum.splits)
  obtain f where f: "gr_nodes g1 = map f (gr_nodes g)" "gr_edges g1 = gr_edges g" "\<forall>n. gn_key (f n) = gn_key n"
    "\<forall>n. prop_of (f n) ''status'' =
       (if gn_key n = (''State'', p, sid) \<or> gn_key n \<in> set (proposed_by g p sid)
        then PStr (closed_literal n) else prop_of n ''status'')"
    by (rule closed_once_nodes [OF g1])
  let ?L = "{k. closes g1 p k}"
  have "open_count p g1 \<le> MAX_ITER" using closed_once_open_count [OF g1] assms(2) by simp
  then have least: "g' = closing ?L evt g1" unfolding g' by (rule propagate_closures_least)
  obtain L where L: "propagate_closures_tx MAX_ITER p evt g1 = closing L evt g1" "L \<subseteq> ?L" "fixed g1 p L"
    using propagate_closing [of "{}" g1 p MAX_ITER evt] \<open>open_count p g1 \<le> MAX_ITER\<close>
    by (auto simp: still_open_empty)
  then have "?L = L" using fixed_contains by blast
  then have "fixed g' p {}" unfolding least using L(3) fixed_closing by simp
  note rules = this [unfolded fixed_spelled_out settled_def not_not]
  have "prop_is n ''status'' (closed_literal n)"
    if n: "n \<in> set (gr_nodes g')" "gn_key n = (''State'', p, sid) \<or> gn_key n \<in> set (proposed_by g p sid)" for n
  proof -
    obtain o1 where o1: "n = close_in ?L evt (f o1)" using n(1) by (auto simp: least nodes_closing f(1))
    have lit: "closed_literal n = closed_literal o1" by (simp add: o1 closed_literal_def f(3))
    have "prop_of (f o1) ''status'' = PStr (closed_literal o1)" using n(2) f(3,4) by (simp add: o1)
    then show ?thesis unfolding prop_is_def lit by (simp add: o1 status_close_in closed_literal_def f(3))
  qed
  with rules show ?thesis by blast
qed

text \<open>C26. A successful close of a state in a proof with at most 64 open moves and states leaves the
  state closed and every move it proposes closed, and leaves the two rules nothing to do: a move
  that is not closed still requires a state that is neither closed nor reopened, and no state that
  is neither closed nor reopened proposes a closed move.\<close>

theorem close_state_reaches_fixpoint:
  assumes "close_state dr sid p reason evt g = (Inr (), g')" "open_count p g \<le> MAX_ITER"
  shows "(\<forall>n \<in> set (gr_nodes g').
        gn_key n = (''State'', p, sid) \<or> gn_key n \<in> set (proposed_by g p sid) \<longrightarrow>
        prop_is n ''status'' (closed_literal n)) \<and>
     (\<forall>m \<in> set (gr_nodes g'). is_node ''Move'' p m \<and> prop_differs m ''status'' MOVE_CLOSED \<longrightarrow>
        (\<exists>m' sg. (m', sg) \<in> set (joined g' ''REQUIRES'') \<and> gn_key m' = gn_key m \<and> is_node ''State'' p sg \<and>
           prop_differs sg ''status'' STATE_CLOSED \<and> prop_differs sg ''status'' STATE_REOPENED)) \<and>
     (\<forall>st \<in> set (gr_nodes g'). is_node ''State'' p st \<and>
        prop_differs st ''status'' STATE_CLOSED \<and> prop_differs st ''status'' STATE_REOPENED \<longrightarrow>
        \<not> (\<exists>st' m. (st', m) \<in> set (joined g' ''PROPOSES'') \<and> gn_key st' = gn_key st \<and> is_node ''Move'' p m \<and>
              prop_is m ''status'' MOVE_CLOSED))"
  using assms by (rule close_state_fixpoint)

lemma close_state_map:
  assumes "close_state dr sid p reason evt g = (Inr (), g')"
  obtains h where "gr_nodes g' = map h (gr_nodes g)" "gr_edges g' = gr_edges g" "\<forall>n. gn_key (h n) = gn_key n"
    "\<forall>n. prop_of (h n) ''status'' \<in> {PStr (closed_literal n), prop_of n ''status''}"
proof -
  obtain g1 where g1: "closed_once sid p reason evt g = Inr g1" and
    g': "g' = propagate_closures_tx MAX_ITER p evt g1"
    using assms by (auto simp: close_state_def write_work_def split: option.splits sum.splits)
  obtain f where f: "gr_nodes g1 = map f (gr_nodes g)" "gr_edges g1 = gr_edges g" "\<forall>n. gn_key (f n) = gn_key n"
    "\<forall>n. prop_of (f n) ''status'' =
       (if gn_key n = (''State'', p, sid) \<or> gn_key n \<in> set (proposed_by g p sid)
        then PStr (closed_literal n) else prop_of n ''status'')"
    by (rule closed_once_nodes [OF g1])
  obtain L where "propagate_closures_tx MAX_ITER p evt g1 = closing L evt g1"
    using propagate_closing [of "{}" g1 p MAX_ITER evt] by auto
  then have nodes: "gr_nodes g' = map (\<lambda>n. close_in L evt (f n)) (gr_nodes g)" "gr_edges g' = gr_edges g"
    using f by (simp_all add: g' closing_def)
  have "closed_literal (f n) = closed_literal n" for n using f(3) by (simp add: closed_literal_def)
  then have "prop_of (close_in L evt (f n)) ''status'' \<in> {PStr (closed_literal n), prop_of n ''status''}" for n
    using f(4) by (simp add: status_close_in)
  then show thesis using f(3) by (intro that [of "\<lambda>n. close_in L evt (f n)"]) (simp_all add: nodes)
qed

text \<open>Closing any state of a proof with at most 64 open moves and states also closes every move
  of that proof that has no required subgoals yet, whatever its status, and with it every state
  that proposes such a move, unless that state is reopened: a move that nobody has expanded counts
  as done.\<close>

lemma unexpanded_moves_get_closed:
  assumes "close_state dr sid p reason evt g = (Inr (), g')" "open_count p g \<le> MAX_ITER"
    and "(st, m) \<in> set (joined g ''PROPOSES'')" "is_node ''State'' p st" "is_node ''Move'' p m"
    and "prop_of m ''status'' \<noteq> PNone" "prop_of st ''status'' \<noteq> PNone"
    and "\<forall>m' sg. (m', sg) \<in> set (joined g ''REQUIRES'') \<longrightarrow> gn_key m' \<noteq> gn_key m"
  shows "\<exists>st' m'. (st', m') \<in> set (joined g' ''PROPOSES'') \<and> gn_key st' = gn_key st \<and> gn_key m' = gn_key m \<and>
    prop_is m' ''status'' MOVE_CLOSED \<and> (prop_is st' ''status'' STATE_CLOSED \<or> prop_is st' ''status'' STATE_REOPENED)"
proof -
  obtain h where h: "gr_nodes g' = map h (gr_nodes g)" "gr_edges g' = gr_edges g" "\<forall>n. gn_key (h n) = gn_key n"
    "\<forall>n. prop_of (h n) ''status'' \<in> {PStr (closed_literal n), prop_of n ''status''}"
    by (rule close_state_map [OF assms(1)])
  have j: "joined g' rel = map (\<lambda>(a, b). (h a, h b)) (joined g rel)" for rel
    using joined_map [of h g' g] h(1-3) by simp
  have edge: "(h st, h m) \<in> set (joined g' ''PROPOSES'')" using assms(3) by (force simp: j)
  have nodes: "h m \<in> set (gr_nodes g')" "h st \<in> set (gr_nodes g')"
    using joined_nodes [OF edge] by simp_all
  have kinds: "is_node ''State'' p (h st)" "is_node ''Move'' p (h m)"
    using assms(4,5) h(3) by (simp_all add: is_node_def)
  have known: "prop_of (h m) ''status'' \<noteq> PNone" "prop_of (h st) ''status'' \<noteq> PNone"
    using h(4) [rule_format, of m] h(4) [rule_format, of st] assms(6,7) by auto
  note rules = close_state_fixpoint [OF assms(1,2)]
  have "\<nexists>m' sg. (m', sg) \<in> set (joined g' ''REQUIRES'') \<and> gn_key m' = gn_key (h m)"
    using assms(8) h(3) by (auto simp: j)
  then have "\<not> prop_differs (h m) ''status'' MOVE_CLOSED" using rules nodes(1) kinds(2) by blast
  then have m: "prop_is (h m) ''status'' MOVE_CLOSED" using known(1) by (simp add: prop_differs_def prop_is_def)
  then have "\<not> (prop_differs (h st) ''status'' STATE_CLOSED \<and> prop_differs (h st) ''status'' STATE_REOPENED)"
    using rules nodes(2) kinds edge by blast
  then have "prop_is (h st) ''status'' STATE_CLOSED \<or> prop_is (h st) ''status'' STATE_REOPENED"
    using known(2) by (auto simp: prop_differs_def prop_is_def)
  with m edge h(3) show ?thesis by blast
qed

section \<open>A small search graph\<close>

definition demo_driver :: driver where
  "demo_driver = \<lparr>dr_failure = None, dr_order = (\<lambda>ns. ns)\<rparr>"

definition then_op :: "unit graph_op \<Rightarrow> graph \<Rightarrow> graph" where
  "then_op f g = snd (f g)"

text \<open>A root whose one move requires a subgoal, and another state with an unexpanded move.\<close>

definition demo_graph :: graph where
  "demo_graph =
     then_op (add_move demo_driver ''p'' ''m2'' ''other'' (PStr ''idea'') (PStr ''reduction'') (PStr '''') ''e5'' PNone PNone MOVE_QUEUED)
    (then_op (add_state demo_driver ''p'' ''other'' (PStr ''goal'') None STATE_KIND_OR (PStr '''') ''e4'')
    (then_op (add_required_subgoal demo_driver ''p'' ''m1'' ''sg1'' (PStr ''case'') None ''e3'')
    (then_op (add_move demo_driver ''p'' ''m1'' ''root'' (PStr ''split'') (PStr ''reduction'') (PStr '''') ''e2'' PNone PNone MOVE_QUEUED)
    (then_op (add_state demo_driver ''p'' ''root'' (PStr ''goal'') None STATE_KIND_OR (PStr '''') ''e1'')
    (then_op (init_proof demo_driver ''p'' (PStr ''kernel'') (PStr '''') ''e0'') empty_graph)))))"

definition status_of :: "graph \<Rightarrow> node_key \<Rightarrow> pyval" where
  "status_of g k = (case find_node g k of None \<Rightarrow> PNone | Some n \<Rightarrow> prop_of n ''status'')"

definition closed_demo :: graph where
  "closed_demo = snd (close_state demo_driver ''sg1'' ''p'' (PStr ''proved'') ''e6'' demo_graph)"

lemma closed_demo_run:
  "close_state demo_driver ''sg1'' ''p'' (PStr ''proved'') ''e6'' demo_graph = (Inr (), closed_demo)"
proof -
  have "fst (close_state demo_driver ''sg1'' ''p'' (PStr ''proved'') ''e6'' demo_graph) = Inr ()" by code_simp
  then show ?thesis by (simp add: closed_demo_def prod_eq_iff)
qed

lemma demo_open_count: "open_count ''p'' demo_graph = 5"
  by code_simp

lemma demo_bound: "open_count ''p'' demo_graph \<le> MAX_ITER"
  by (simp add: demo_open_count MAX_ITER_def)

text \<open>The root closes with its subgoal.\<close>

lemma demo_root_closed: "status_of closed_demo (''State'', ''p'', ''root'') = PStr STATE_CLOSED"
  by code_simp

theorem closure_is_least_fixpoint_witness:
  "propagate_closures_tx 5 ''p'' ''e6'' demo_graph = closing {k. closes demo_graph ''p'' k} ''e6'' demo_graph"
  using closure_is_least_fixpoint [of "''p''" demo_graph 5 "''e6''"] by (simp add: demo_open_count)

theorem close_state_reaches_fixpoint_witness:
  "\<exists>n \<in> set (gr_nodes closed_demo). gn_key n = (''State'', ''p'', ''sg1'') \<and> prop_is n ''status'' STATE_CLOSED"
proof -
  have "find_node closed_demo (''State'', ''p'', ''sg1'') \<noteq> None" by code_simp
  then obtain n where "find_node closed_demo (''State'', ''p'', ''sg1'') = Some n" by auto
  then have n: "n \<in> set (gr_nodes closed_demo)" "gn_key n = (''State'', ''p'', ''sg1'')"
    by (auto dest: find_node_Some)
  then have "prop_is n ''status'' (closed_literal n)"
    using close_state_reaches_fixpoint [OF closed_demo_run demo_bound, THEN conjunct1] by blast
  then show ?thesis using n by (intro bexI [OF _ n(1)]) (simp add: closed_literal_def)
qed

lemma unexpanded_moves_get_closed_witness:
  "\<exists>st m. (st, m) \<in> set (joined closed_demo ''PROPOSES'') \<and> gn_key st = (''State'', ''p'', ''other'') \<and>
     prop_is m ''status'' MOVE_CLOSED"
proof -
  let ?st = "fst (joined demo_graph ''PROPOSES'' ! 1)" and ?m = "snd (joined demo_graph ''PROPOSES'' ! 1)"
  have len: "1 < length (joined demo_graph ''PROPOSES'')" by code_simp
  have edge: "(?st, ?m) \<in> set (joined demo_graph ''PROPOSES'')" using nth_mem [OF len] by simp
  have st: "is_node ''State'' ''p'' ?st" "prop_of ?st ''status'' \<noteq> PNone" by code_simp+
  have m: "is_node ''Move'' ''p'' ?m" "prop_of ?m ''status'' \<noteq> PNone" by code_simp+
  have "list_all (\<lambda>(m', sg). gn_key m' \<noteq> gn_key ?m) (joined demo_graph ''REQUIRES'')" by code_simp
  then have unexpanded: "\<forall>m' sg. (m', sg) \<in> set (joined demo_graph ''REQUIRES'') \<longrightarrow> gn_key m' \<noteq> gn_key ?m"
    by (auto simp: list_all_iff)
  have key: "gn_key ?st = (''State'', ''p'', ''other'')" by code_simp
  from unexpanded_moves_get_closed [OF closed_demo_run demo_bound edge st(1) m st(2) unexpanded] key
  show ?thesis by metis
qed

end
