(* ===== verification/Taint.thy ===== *)
theory Taint
  imports Closure
begin

text \<open>
  What \<^verbatim>\<open>propagate_taint\<close> and \<^verbatim>\<open>taint_cone\<close> of \<open>rules.py\<close> do to a graph: the cone is the set of
  claims that reach the root by \<open>DEPENDS_ON\<close> edges, and every status after the cascade is a
  function of the graph before it.
\<close>

section \<open>The cone\<close>

abbreviation depends :: "graph \<Rightarrow> (node_key \<times> node_key) set" where
  "depends g \<equiv> set (rel_steps g ''DEPENDS_ON'')"

abbreviation uses_claim :: "graph \<Rightarrow> (node_key \<times> node_key) set" where
  "uses_claim g \<equiv> set (rel_steps g ''USES_CLAIM'')"

definition cone_keys :: "graph \<Rightarrow> string \<Rightarrow> string \<Rightarrow> node_key set" where
  "cone_keys g p cid =
     {k. find_node g (''Claim'', p, cid) \<noteq> None \<and> find_node g k \<noteq> None \<and> fst k = ''Claim'' \<and> fst (snd k) = p \<and>
         (k, (''Claim'', p, cid)) \<in> (depends g)\<^sup>+}"

definition relying_keys :: "graph \<Rightarrow> string \<Rightarrow> string \<Rightarrow> node_key set" where
  "relying_keys g p cid =
     {k. fst k = ''State'' \<and> fst (snd k) = p \<and> status_of g k = PStr STATE_CLOSED \<and>
         (\<exists>c \<in> cone_keys g p cid. (k, c) \<in> uses_claim g)}"

text \<open>Row orders of the database are permutations.\<close>

definition permutes_rows :: "driver \<Rightarrow> bool" where
  "permutes_rows dr \<longleftrightarrow> (\<forall>ns. mset (dr_order dr ns) = mset ns)"

lemma set_order: "permutes_rows dr \<Longrightarrow> set (dr_order dr ns) = set ns"
  by (metis permutes_rows_def mset_eq_setD)

lemma set_converse_steps: "set (map (\<lambda>(a, b). (b, a)) steps) = (set steps)\<inverse>"
  by auto

lemma cone_gives_keys: "gn_key ` set (cone g p cid) = cone_keys g p cid"
proof (cases "find_node g (''Claim'', p, cid) = None")
  case False
  have "set (path_ends (map (\<lambda>(a, b). (b, a)) (rel_steps g ''DEPENDS_ON'')) (''Claim'', p, cid)) =
      {k. (k, (''Claim'', p, cid)) \<in> (depends g)\<^sup>+}"
    by (simp add: set_path_ends set_converse_steps trancl_converse del: set_map)
  then have "cone g p cid = filter (\<lambda>n. is_node ''Claim'' p n \<and> (gn_key n, (''Claim'', p, cid)) \<in> (depends g)\<^sup>+) (gr_nodes g)"
    using False by (auto simp: cone_def Let_def)
  then show ?thesis
    using False by (auto simp: cone_keys_def is_node_def find_node_None image_iff)
qed (simp add: cone_def cone_keys_def Let_def)

lemma rel_steps_update [simp]: "rel_steps (update_node P sets g) rel = rel_steps g rel"
  by (simp add: rel_steps_def)

lemma find_node_update_node:
  "find_node (update_node P sets g) k =
     map_option (\<lambda>n. if P (gn_key n) then n\<lparr>gn_props := put_props sets (gn_props n)\<rparr> else n) (find_node g k)"
  by (rule find_node_map) simp_all

lemma cone_keys_update [simp]: "cone_keys (update_node P sets g) p cid = cone_keys g p cid"
  by (simp add: cone_keys_def find_node_update_node)

lemma status_of_update:
  "status_of (update_node P sets g) k =
     (if P k \<and> find_node g k \<noteq> None
      then dget (put_props sets (gn_props (the (find_node g k)))) ''status'' else status_of g k)"
  by (auto simp: status_of_def find_node_update_node prop_of_def dest: find_node_Some split: option.split)

section \<open>The cascade\<close>

lemma dget_reason_sets [simp]: "dget (put_props (reason_sets r) d) ''status'' = dget d ''status''"
  by (simp add: reason_sets_def props_after)

lemma relying_gives_keys:
  assumes "\<And>i. i \<in> set tainted \<longleftrightarrow> (''Claim'', p, i) \<in> cone_keys g p cid"
  shows "gn_key ` set (relying g p tainted) = relying_keys g p cid"
proof -
  have claim: "(is_node ''Claim'' p c \<and> gn_id c \<in> set tainted) = (gn_key c \<in> cone_keys g p cid)" for c
  proof -
    have "gn_key c \<in> cone_keys g p cid \<Longrightarrow> is_node ''Claim'' p c" by (simp add: cone_keys_def is_node_def)
    moreover have "is_node ''Claim'' p c \<Longrightarrow> gn_key c = (''Claim'', p, gn_id c)" by (simp add: is_node_def prod_eq_iff)
    ultimately show ?thesis using assms [of "gn_id c"] by metis
  qed
  have rows: "k \<in> gn_key ` set (relying g p tainted) \<longleftrightarrow>
      (\<exists>st c. (st, c) \<in> set (joined g ''USES_CLAIM'') \<and> gn_key st = k \<and> is_node ''State'' p st \<and>
         prop_is st ''status'' STATE_CLOSED \<and> gn_key c \<in> cone_keys g p cid)" for k
    unfolding relying_def set_remdups set_map set_filter claim [symmetric] by force
  have found: "find_node g c \<noteq> None" if "c \<in> cone_keys g p cid" for c
    using that by (simp add: cone_keys_def)
  show ?thesis
  proof (rule set_eqI)
    fix k
    show "k \<in> gn_key ` set (relying g p tainted) \<longleftrightarrow> k \<in> relying_keys g p cid" (is "?l \<longleftrightarrow> ?r")
    proof
      assume ?l
      then obtain st c e where "e \<in> set (gr_edges g)" "ge_rel e = ''USES_CLAIM''" and
        ends: "find_node g (ge_src e) = Some st" "find_node g (ge_dst e) = Some c" and
        st: "gn_key st = k" "is_node ''State'' p st" "prop_is st ''status'' STATE_CLOSED" "gn_key c \<in> cone_keys g p cid"
        unfolding rows joined_iff by blast
      then have "(ge_src e, ge_dst e) \<in> uses_claim g" by (auto simp: rel_steps_def)
      moreover have "ge_src e = k" "ge_dst e = gn_key c"
        using find_node_Some [OF ends(1)] find_node_Some [OF ends(2)] st(1) by simp_all
      ultimately show ?r using st ends
        by (auto simp: relying_keys_def status_of_def is_node_def prop_is_def)
    next
      assume r: ?r
      then obtain c where c: "c \<in> cone_keys g p cid" "(k, c) \<in> uses_claim g" by (auto simp: relying_keys_def)
      obtain e where e: "e \<in> set (gr_edges g)" "ge_rel e = ''USES_CLAIM''" "ge_src e = k" "ge_dst e = c"
        using c(2) by (auto simp: rel_steps_def)
      obtain cn where cn: "find_node g c = Some cn" "gn_key cn = c"
        using found [OF c(1)] find_node_Some by (cases "find_node g c") auto
      obtain st where st: "find_node g k = Some st" "prop_of st ''status'' = PStr STATE_CLOSED"
        using r by (auto simp: relying_keys_def status_of_def split: option.splits)
      then have "gn_key st = k" using find_node_Some [OF st(1)] by simp
      then show ?l unfolding rows joined_iff
        using e cn st c(1) r by (intro exI [of _ st] exI [of _ cn]) (auto simp: relying_keys_def is_node_def prop_is_def)
    qed
  qed
qed

definition status_after_taint :: "graph \<Rightarrow> string \<Rightarrow> string \<Rightarrow> node_key \<Rightarrow> pyval" where
  "status_after_taint g p cid k =
     (if k \<in> cone_keys g p cid then PStr CLAIM_TAINTED
      else if k = (''Claim'', p, cid) \<and> find_node g k \<noteq> None then PStr CLAIM_REFUTED
      else if k \<in> relying_keys g p cid then PStr STATE_REOPENED
      else status_of g k)"

lemma relying_keys_update:
  assumes "\<And>k. fst k = ''State'' \<Longrightarrow> \<not> P k"
  shows "relying_keys (update_node P sets g) p cid = relying_keys g p cid"
  using assms by (auto simp: relying_keys_def status_of_update)

lemma image_ids:
  assumes "\<forall>n \<in> set ns. is_node l p n"
  shows "(\<lambda>i. (l, p, i)) ` gn_id ` set ns = gn_key ` set ns"
proof -
  have "gn_key n = (l, p, gn_id n)" if "n \<in> set ns" for n
    using assms that by (simp add: is_node_def prod_eq_iff)
  then show ?thesis by (auto simp: image_image intro!: image_cong)
qed

lemma write_work_Inr: "write_work dr work g = (Inr x, g') \<longleftrightarrow> dr_failure dr = None \<and> work g = Inr (x, g')"
  by (auto simp: write_work_def split: option.splits sum.splits)

lemma case_Inr: "(case r of Inl e \<Rightarrow> Inl e | Inr x \<Rightarrow> f x) = Inr y \<longleftrightarrow> (\<exists>x. r = Inr x \<and> f x = Inr y)"
  by (simp split: sum.split)

lemma status_refuted:
  "status_of (apply_stmt (refute_stmt p cid evt reason) g) k =
     (if k = (''Claim'', p, cid) \<and> find_node g k \<noteq> None then PStr CLAIM_REFUTED else status_of g k)"
  by (auto simp: refute_stmt_def status_of_update props_after)

lemma status_tainted:
  "status_of (taint_nodes K cid evt g) k =
     (if k \<in> K \<and> find_node g k \<noteq> None then PStr CLAIM_TAINTED else status_of g k)"
  by (auto simp: taint_nodes_def status_of_update props_after)

lemma status_reopened:
  "status_of (reopen_nodes K cid evt g) k =
     (if k \<in> K \<and> find_node g k \<noteq> None then PStr STATE_REOPENED else status_of g k)"
  by (auto simp: reopen_nodes_def status_of_update props_after)

lemma cascade_keeps:
  "cone_keys (apply_stmt (refute_stmt p cid evt reason) g) q i = cone_keys g q i"
  "cone_keys (taint_nodes K cid evt g) q i = cone_keys g q i"
  "find_node (apply_stmt (refute_stmt p cid evt reason) g) k = None \<longleftrightarrow> find_node g k = None"
  "find_node (taint_nodes K cid evt g) k = None \<longleftrightarrow> find_node g k = None"
  "map gn_key (gr_nodes (reopen_nodes L cid evt (taint_nodes K cid evt (apply_stmt (refute_stmt p cid evt reason) g)))) =
     map gn_key (gr_nodes g)"
  "gr_edges (reopen_nodes L cid evt (taint_nodes K cid evt (apply_stmt (refute_stmt p cid evt reason) g))) = gr_edges g"
  by (simp_all add: refute_stmt_def taint_nodes_def reopen_nodes_def find_node_update_node comp_def if_distrib [of gn_key])

lemma relying_keys_cascade:
  assumes "\<And>k. k \<in> K \<Longrightarrow> fst k = ''Claim''"
  shows "relying_keys (taint_nodes K cid evt (apply_stmt (refute_stmt p cid evt reason) g)) p cid = relying_keys g p cid"
proof -
  have "relying_keys (update_node P sets h) p cid = relying_keys h p cid" if "\<And>k. P k \<Longrightarrow> fst k = ''Claim''" for P sets h
    using that by (intro relying_keys_update) force
  note keep = this
  have "relying_keys (apply_stmt (refute_stmt p cid evt reason) g) p cid = relying_keys g p cid"
    unfolding refute_stmt_def apply_stmt.simps by (rule keep) simp
  then show ?thesis unfolding taint_nodes_def by (subst keep [OF assms])
qed

lemma propagate_taint_Inr:
  assumes "propagate_taint dr p cid evt reason g = (Inr summary, g')" "permutes_rows dr"
  obtains tainted states where "(\<lambda>i. (''Claim'', p, i)) ` set tainted = cone_keys g p cid"
    "states = relying (taint_nodes (cone_keys g p cid) cid evt (apply_stmt (refute_stmt p cid evt reason) g)) p tainted"
    "g' = reopen_nodes (gn_key ` set states) cid evt
       (taint_nodes (cone_keys g p cid) cid evt (apply_stmt (refute_stmt p cid evt reason) g))"
    "ts_refuted summary = cid" "ts_tainted summary = tainted" "set (ts_reopened summary) = gn_id ` set states"
proof -
  let ?g1 = "apply_stmt (refute_stmt p cid evt reason) g"
  let ?hit = "cone ?g1 p cid"
  let ?tainted = "map gn_id (dr_order dr ?hit)"
  let ?g2 = "taint_nodes (cone_keys g p cid) cid evt ?g1"
  let ?states = "relying ?g2 p ?tainted"
  have "\<forall>n \<in> set ?hit. is_node ''Claim'' p n" by (simp add: cone_def Let_def)
  then have ids: "(\<lambda>i. (''Claim'', p, i)) ` set ?tainted = cone_keys g p cid"
    using image_ids [of ?hit "''Claim''" p] set_order [OF assms(2)] by (simp add: cone_gives_keys cascade_keeps)
  have run: "(if ?tainted = [] then Inr (\<lparr>ts_refuted = cid, ts_tainted = [], ts_reopened = []\<rparr>, ?g2)
      else Inr (\<lparr>ts_refuted = cid, ts_tainted = ?tainted, ts_reopened = map gn_id (dr_order dr ?states)\<rparr>,
        reopen_nodes (gn_key ` set ?states) cid evt ?g2)) =
    (Inr (summary, g') :: graph_exc + taint_summary \<times> graph)"
    using assms(1)
    unfolding propagate_taint_def write_work_Inr case_Inr exec_Inr Let_def cone_gives_keys
    by (elim conjE exE, hypsubst) (simp only: cascade_keeps)
  show thesis
  proof (cases "?tainted = []")
    case True
    then have none: "?states = []" by (simp add: relying_def)
    have "reopen_nodes {} cid evt ?g2 = ?g2" by (simp add: reopen_nodes_def update_node_def)
    moreover have "summary = \<lparr>ts_refuted = cid, ts_tainted = [], ts_reopened = []\<rparr>" "g' = ?g2"
      using run unfolding if_P [OF True] by blast+
    ultimately show thesis using none True by (intro that [OF ids refl]) simp_all
  next
    case False
    then have "summary = \<lparr>ts_refuted = cid, ts_tainted = ?tainted, ts_reopened = map gn_id (dr_order dr ?states)\<rparr>"
      "g' = reopen_nodes (gn_key ` set ?states) cid evt ?g2"
      using run unfolding if_not_P [OF False] by blast+
    then show thesis using set_order [OF assms(2), of ?states] by (intro that [OF ids refl]) simp_all
  qed
qed

lemma taint_effect:
  assumes "propagate_taint dr p cid evt reason g = (Inr summary, g')" "permutes_rows dr"
  shows "(\<lambda>i. (''Claim'', p, i)) ` set (ts_tainted summary) = cone_keys g p cid \<and>
    (\<lambda>i. (''State'', p, i)) ` set (ts_reopened summary) = relying_keys g p cid \<and>
    (\<forall>k. status_of g' k = status_after_taint g p cid k) \<and>
    map gn_key (gr_nodes g') = map gn_key (gr_nodes g) \<and> gr_edges g' = gr_edges g"
proof -
  let ?K = "cone_keys g p cid"
  let ?g2 = "taint_nodes ?K cid evt (apply_stmt (refute_stmt p cid evt reason) g)"
  obtain tainted states where
    tainted: "(\<lambda>i. (''Claim'', p, i)) ` set tainted = ?K" and
    states: "states = relying ?g2 p tainted" and g': "g' = reopen_nodes (gn_key ` set states) cid evt ?g2" and
    sum: "ts_refuted summary = cid" "ts_tainted summary = tainted" "set (ts_reopened summary) = gn_id ` set states"
    by (rule propagate_taint_Inr [OF assms])
  have claims: "fst k = ''Claim''" if "k \<in> ?K" for k using that by (simp add: cone_keys_def)
  have "i \<in> set tainted \<longleftrightarrow> (''Claim'', p, i) \<in> cone_keys ?g2 p cid" for i
    unfolding cascade_keeps tainted [symmetric] by blast
  then have "gn_key ` set states = relying_keys ?g2 p cid" unfolding states by (rule relying_gives_keys)
  then have keys: "gn_key ` set states = relying_keys g p cid" using relying_keys_cascade claims by simp
  have found: "find_node g k \<noteq> None" if "k \<in> ?K \<or> k \<in> relying_keys g p cid" for k
    using that by (auto simp: cone_keys_def relying_keys_def status_of_def split: option.splits)
  have apart: "k \<notin> ?K \<and> k \<noteq> (''Claim'', p, cid)" if "k \<in> relying_keys g p cid" for k
  proof -
    have "fst k = ''State''" using that by (simp add: relying_keys_def)
    then show ?thesis using claims [of k] by auto
  qed
  have "status_of g' k = status_after_taint g p cid k" for k
    unfolding g' keys status_reopened status_tainted status_refuted status_after_taint_def cascade_keeps
    using found [of k] apart [of k] by (auto simp only: split: if_split)
  moreover have "(\<lambda>i. (''State'', p, i)) ` set (ts_reopened summary) = relying_keys g p cid"
  proof -
    have "\<forall>n \<in> set states. is_node ''State'' p n" unfolding states relying_def by auto
    then show ?thesis unfolding sum(3) keys [symmetric] by (rule image_ids)
  qed
  ultimately show ?thesis using sum(2) tainted unfolding g' cascade_keeps by blast
qed

text \<open>C33. A successful cascade from a claim reports as tainted exactly the claims of the proof
  that reach it by dependency edges, and as reopened exactly the closed states that use one of
  these; afterwards the former are tainted, the root, unless it depends on itself, is refuted,
  the latter are reopened, every other status is what it was, and no node or edge is added.\<close>

theorem taint_reaches_exactly_the_cone:
  assumes "propagate_taint dr p cid evt reason g = (Inr summary, g')" "permutes_rows dr"
  shows "(\<lambda>i. (''Claim'', p, i)) ` set (ts_tainted summary) = cone_keys g p cid \<and>
    (\<lambda>i. (''State'', p, i)) ` set (ts_reopened summary) = relying_keys g p cid \<and>
    (\<forall>k. status_of g' k =
       (if k \<in> cone_keys g p cid then PStr CLAIM_TAINTED
        else if k = (''Claim'', p, cid) \<and> find_node g k \<noteq> None then PStr CLAIM_REFUTED
        else if k \<in> relying_keys g p cid then PStr STATE_REOPENED
        else status_of g k)) \<and>
    map gn_key (gr_nodes g') = map gn_key (gr_nodes g) \<and> gr_edges g' = gr_edges g"
  using taint_effect [OF assms] unfolding status_after_taint_def by simp

text \<open>A closed state that rests on the refuted claim itself, and on no other claim, stays
  closed: only users of its dependents are reopened.\<close>

lemma direct_users_stay_closed:
  assumes "propagate_taint dr p cid evt reason g = (Inr summary, g')" "permutes_rows dr"
    and "status_of g (''State'', p, sid) = PStr STATE_CLOSED" "(''Claim'', p, cid) \<notin> cone_keys g p cid"
    and "\<forall>c. ((''State'', p, sid), c) \<in> uses_claim g \<longrightarrow> c = (''Claim'', p, cid)"
  shows "status_of g' (''State'', p, sid) = PStr STATE_CLOSED \<and>
    (find_node g (''Claim'', p, cid) \<noteq> None \<longrightarrow> status_of g' (''Claim'', p, cid) = PStr CLAIM_REFUTED)"
proof -
  have "(''State'', p, sid) \<notin> cone_keys g p cid" by (simp add: cone_keys_def)
  moreover have "(''State'', p, sid) \<notin> relying_keys g p cid"
    using assms(4,5) unfolding relying_keys_def by blast
  ultimately show ?thesis
    using taint_effect [OF assms(1,2)] assms(3,4) by (simp add: status_after_taint_def)
qed

section \<open>A cascade\<close>

text \<open>\<open>c2\<close> depends on \<open>c1\<close>; the closed state \<open>s1\<close> uses \<open>c2\<close> and the closed state \<open>s2\<close> uses \<open>c1\<close>.\<close>

definition claim_graph :: graph where
  "claim_graph =
     foldl (\<lambda>g f. then_op f g) empty_graph
       [init_proof demo_driver ''p'' (PStr ''k'') (PStr '''') ''e0'',
        add_claim demo_driver ''p'' ''c1'' (PStr ''base'') CLAIM_CONJECTURAL (PStr '''') ''e1'',
        add_claim demo_driver ''p'' ''c2'' (PStr ''top'') CLAIM_CONJECTURAL (PStr '''') ''e2'',
        add_claim_dependency demo_driver ''c2'' ''c1'' ''p'' ''e3'',
        add_state demo_driver ''p'' ''s1'' (PStr ''goal'') None STATE_KIND_OR (PStr '''') ''e4'',
        add_state demo_driver ''p'' ''s2'' (PStr ''goal'') None STATE_KIND_OR (PStr '''') ''e5'',
        link_state_claim demo_driver ''p'' ''s1'' ''c2'' ''e6'',
        link_state_claim demo_driver ''p'' ''s2'' ''c1'' ''e7'',
        close_state demo_driver ''s1'' ''p'' (PStr '''') ''e8'',
        close_state demo_driver ''s2'' ''p'' (PStr '''') ''e9'']"

definition taint_run :: "(graph_exc + taint_summary) \<times> graph" where
  "taint_run = propagate_taint demo_driver ''p'' ''c1'' ''e10'' (PStr ''counterexample'') claim_graph"

lemma taint_run_summary:
  "fst taint_run = Inr \<lparr>ts_refuted = ''c1'', ts_tainted = [''c2''], ts_reopened = [''s1'']\<rparr>"
  by code_simp

lemma taint_run_eq:
  "propagate_taint demo_driver ''p'' ''c1'' ''e10'' (PStr ''counterexample'') claim_graph =
     (Inr \<lparr>ts_refuted = ''c1'', ts_tainted = [''c2''], ts_reopened = [''s1'']\<rparr>, snd taint_run)"
  using taint_run_summary by (simp add: taint_run_def prod_eq_iff)

lemma demo_permutes: "permutes_rows demo_driver"
  by (simp add: permutes_rows_def demo_driver_def)

theorem taint_reaches_exactly_the_cone_witness:
  "cone_keys claim_graph ''p'' ''c1'' = {(''Claim'', ''p'', ''c2'')} \<and>
   status_of (snd taint_run) (''Claim'', ''p'', ''c2'') = PStr CLAIM_TAINTED"
proof -
  note effect = taint_reaches_exactly_the_cone [OF taint_run_eq demo_permutes]
  have "cone_keys claim_graph ''p'' ''c1'' = {(''Claim'', ''p'', ''c2'')}" using effect by auto
  with effect show ?thesis by simp
qed

lemma direct_users_stay_closed_witness:
  "status_of (snd taint_run) (''State'', ''p'', ''s2'') = PStr STATE_CLOSED"
proof -
  have closed: "status_of claim_graph (''State'', ''p'', ''s2'') = PStr STATE_CLOSED" by code_simp
  have "list_all (\<lambda>s. fst s = (''State'', ''p'', ''s2'') \<longrightarrow> snd s = (''Claim'', ''p'', ''c1'')) (rel_steps claim_graph ''USES_CLAIM'')"
    by code_simp
  then have only: "\<forall>c. ((''State'', ''p'', ''s2''), c) \<in> uses_claim claim_graph \<longrightarrow> c = (''Claim'', ''p'', ''c1'')"
    by (auto simp: list_all_iff)
  have "(''Claim'', ''p'', ''c1'') \<notin> gn_key ` set (cone claim_graph ''p'' ''c1'')" by code_simp
  then have root: "(''Claim'', ''p'', ''c1'') \<notin> cone_keys claim_graph ''p'' ''c1''" by (simp only: cone_gives_keys not_False_eq_True)
  from direct_users_stay_closed [OF taint_run_eq demo_permutes closed root only] show ?thesis by blast
qed

end
