(* ===== verification/Rebuild.thy ===== *)
theory Rebuild
  imports Replay Taint
begin

text \<open>
  Rebuilding a proof's projection. Every replayed operation reads and writes the nodes of its
  own proof only, so it runs on a graph with the nodes of other proofs in front (\<open>combine\<close>) as
  on the proof's own part. A rebuild therefore depends on the events alone.
\<close>

section \<open>A graph beside another\<close>

abbreviation key_proof :: "node_key \<Rightarrow> string" where
  "key_proof k \<equiv> fst (snd k)"

definition combine :: "graph \<Rightarrow> graph \<Rightarrow> graph" where
  "combine f h = \<lparr>gr_nodes = gr_nodes f @ gr_nodes h, gr_edges = gr_edges f @ gr_edges h\<rparr>"

definition own :: "string \<Rightarrow> graph \<Rightarrow> bool" where
  "own p h \<longleftrightarrow> (\<forall>n \<in> set (gr_nodes h). gn_proof n = p) \<and>
     (\<forall>e \<in> set (gr_edges h). key_proof (ge_src e) = p \<and> key_proof (ge_dst e) = p)"

definition foreign :: "string \<Rightarrow> graph \<Rightarrow> bool" where
  "foreign p f \<longleftrightarrow> (\<forall>n \<in> set (gr_nodes f). gn_proof n \<noteq> p) \<and>
     (\<forall>e \<in> set (gr_edges f). key_proof (ge_src e) \<noteq> p \<and> key_proof (ge_dst e) \<noteq> p)"

definition framed :: "string \<Rightarrow> 'a graph_op \<Rightarrow> bool" where
  "framed p op' \<longleftrightarrow> (\<forall>f h. foreign p f \<longrightarrow> own p h \<longrightarrow>
     op' (combine f h) = (fst (op' h), combine f (snd (op' h))) \<and> own p (snd (op' h)))"

lemma combine_sel [simp]:
  "gr_nodes (combine f h) = gr_nodes f @ gr_nodes h" "gr_edges (combine f h) = gr_edges f @ gr_edges h"
  by (simp_all add: combine_def)

lemma find_node_append:
  "find_node (combine f h) k = (case find_node f k of None \<Rightarrow> find_node h k | Some n \<Rightarrow> Some n)"
proof -
  have "List.find P (xs @ ys) = (case List.find P xs of None \<Rightarrow> List.find P ys | Some x \<Rightarrow> Some x)" for P :: "gnode \<Rightarrow> bool" and xs ys
    by (induction xs) simp_all
  then show ?thesis unfolding find_node_def combine_sel by this
qed

lemma find_foreign: "foreign p f \<Longrightarrow> key_proof k = p \<Longrightarrow> find_node f k = None"
  unfolding find_node_None foreign_def by auto

lemma find_own: "own p h \<Longrightarrow> key_proof k \<noteq> p \<Longrightarrow> find_node h k = None"
  unfolding find_node_None own_def by auto

lemma find_combine:
  assumes "foreign p f" "own p h"
  shows "find_node (combine f h) k = (if key_proof k = p then find_node h k else find_node f k)"
  using find_foreign [OF assms(1)] find_own [OF assms(2)] by (simp add: find_node_append split: option.split)

lemma update_combine:
  assumes "foreign p f" "\<And>k. P k \<Longrightarrow> key_proof k = p"
  shows "update_node P sets (combine f h) = combine f (update_node P sets h)"
proof -
  have "map (\<lambda>n. if P (gn_key n) then n\<lparr>gn_props := put_props sets (gn_props n)\<rparr> else n) (gr_nodes f) = gr_nodes f"
  proof (rule map_idI)
    fix n
    assume "n \<in> set (gr_nodes f)"
    then have "\<not> P (gn_key n)" using assms(1) assms(2) [of "gn_key n"] by (auto simp: foreign_def)
    then show "(if P (gn_key n) then n\<lparr>gn_props := put_props sets (gn_props n)\<rparr> else n) = n" by simp
  qed
  then show ?thesis by (simp add: update_node_def combine_def)
qed

lemma own_keys:
  "own p h \<longleftrightarrow> (\<forall>k \<in> set (map gn_key (gr_nodes h)). key_proof k = p) \<and>
     (\<forall>e \<in> set (gr_edges h). key_proof (ge_src e) = p \<and> key_proof (ge_dst e) = p)"
  by (simp add: own_def)

lemma own_update [simp]: "own p (update_node P sets h) \<longleftrightarrow> own p h"
proof -
  have "map gn_key (gr_nodes (update_node P sets h)) = map gn_key (gr_nodes h)" by simp
  then show ?thesis unfolding own_keys edges_update_node by (simp only:)
qed

lemma joined_combine:
  assumes "foreign p f" "own p h"
  shows "joined (combine f h) rel = joined f rel @ joined h rel"
proof -
  have f: "find_node (combine f h) k = find_node f k" if "key_proof k \<noteq> p" for k
    using find_combine [OF assms] that by simp
  have h: "find_node (combine f h) k = find_node h k" if "key_proof k = p" for k
    using find_combine [OF assms] that by simp
  have app: "List.map_filter q (xs @ ys) = List.map_filter q xs @ List.map_filter q ys" for q :: "gedge \<Rightarrow> (gnode \<times> gnode) option" and xs ys
    by (simp add: List.map_filter_def)
  have "List.map_filter q xs = List.map_filter r xs" if "\<And>x. x \<in> set xs \<Longrightarrow> q x = r x"
    for q r :: "gedge \<Rightarrow> (gnode \<times> gnode) option" and xs
    using that by (induction xs) (simp_all add: List.map_filter_def)
  note cong = this
  have "List.map_filter (\<lambda>e. if ge_rel e = rel
      then (case find_node (combine f h) (ge_src e) of None \<Rightarrow> None
            | Some a \<Rightarrow> (case find_node (combine f h) (ge_dst e) of None \<Rightarrow> None | Some b \<Rightarrow> Some (a, b)))
      else None) (gr_edges f) = joined f rel"
    unfolding joined_def by (rule cong) (use assms(1) in \<open>simp add: foreign_def f cong: option.case_cong\<close>)
  moreover have "List.map_filter (\<lambda>e. if ge_rel e = rel
      then (case find_node (combine f h) (ge_src e) of None \<Rightarrow> None
            | Some a \<Rightarrow> (case find_node (combine f h) (ge_dst e) of None \<Rightarrow> None | Some b \<Rightarrow> Some (a, b)))
      else None) (gr_edges h) = joined h rel"
    unfolding joined_def by (rule cong) (use assms(2) in \<open>simp add: own_def h cong: option.case_cong\<close>)
  ultimately show ?thesis unfolding joined_def [of "combine f h"] combine_sel app by simp
qed

lemma joined_foreign: "foreign p f \<Longrightarrow> (a, b) \<in> set (joined f rel) \<Longrightarrow> gn_proof a \<noteq> p \<and> gn_proof b \<noteq> p"
  using joined_nodes [of a b f rel] by (auto simp: foreign_def)

lemma rel_steps_combine [simp]: "rel_steps (combine f h) rel = rel_steps f rel @ rel_steps h rel"
  by (simp add: rel_steps_def)

section \<open>Statements\<close>

fun local_stmt :: "string \<Rightarrow> stmt \<Rightarrow> bool" where
  "local_stmt p (MergeNode k _ _) \<longleftrightarrow> key_proof k = p"
| "local_stmt p (SetNodes pat _) \<longleftrightarrow> np_proof pat = Some p"
| "local_stmt p (MergeEdge pat _ _ pat' _ _ _) \<longleftrightarrow> np_proof pat = Some p \<and> np_proof pat' = Some p"

lemma matches_proof: "np_proof pat = Some p \<Longrightarrow> matches pat k \<Longrightarrow> key_proof k = p"
  by (simp add: matches_def)

lemma filter_local:
  assumes "foreign p f" "\<And>k. P k \<Longrightarrow> key_proof k = p"
  shows "filter P (map gn_key (gr_nodes (combine f h))) = filter P (map gn_key (gr_nodes h))"
proof -
  have "filter P (map gn_key (gr_nodes f)) = []"
    unfolding filter_empty_conv set_map
  proof
    fix k
    assume "k \<in> gn_key ` set (gr_nodes f)"
    then show "\<not> P k" using assms(1) assms(2) [of k] by (auto simp: foreign_def)
  qed
  then show ?thesis by simp
qed

lemma pairs_combine:
  assumes "foreign p f" "np_proof pat = Some p" "np_proof pat' = Some p"
  shows "pairs pat pat' (combine f h) = pairs pat pat' h"
  unfolding pairs_def
  by (simp only: filter_local [OF assms(1) matches_proof [OF assms(2)]] filter_local [OF assms(1) matches_proof [OF assms(3)]])

lemma pairs_proof:
  assumes "np_proof pat = Some p" "np_proof pat' = Some p"
  shows "\<forall>x \<in> set (pairs pat pat' h). key_proof (fst x) = p \<and> key_proof (snd x) = p"
proof
  fix x
  assume "x \<in> set (pairs pat pat' h)"
  then have "matches pat (fst x)" "matches pat' (snd x)" unfolding pairs_def set_product by auto
  then show "key_proof (fst x) = p \<and> key_proof (snd x) = p" using assms by (simp add: matches_def)
qed

lemma has_edge_combine:
  assumes "foreign p f" "key_proof a = p"
  shows "has_edge (combine f h) rel a b eid = has_edge h rel a b eid"
  using assms by (auto simp: has_edge_def list_ex_iff foreign_def)

lemma set_edge_combine:
  assumes "foreign p f" "key_proof a = p"
  shows "set_edge rel a b eid sets (combine f h) = combine f (set_edge rel a b eid sets h)"
proof -
  have "map (\<lambda>e. if ge_rel e = rel \<and> ge_src e = a \<and> ge_dst e = b \<and> ge_id e = eid
      then e\<lparr>ge_props := put_props sets (ge_props e)\<rparr> else e) (gr_edges f) = gr_edges f"
    using assms by (intro map_idI) (auto simp: foreign_def)
  then show ?thesis by (simp add: set_edge_def combine_def)
qed

lemma own_set_edge: "own p h \<Longrightarrow> own p (set_edge rel a b eid sets h)"
  by (auto simp: own_def set_edge_def)

lemma add_edge_combine: "add_edge rel a b eid (combine f h) = combine f (add_edge rel a b eid h)"
  by (simp add: add_edge_def combine_def)

lemma own_add_edge [simp]: "key_proof a = p \<Longrightarrow> key_proof b = p \<Longrightarrow> own p (add_edge rel a b eid h) \<longleftrightarrow> own p h"
  by (auto simp: own_def add_edge_def)

lemma merge_edge_combine:
  assumes "foreign p f" "key_proof (fst x) = p \<and> key_proof (snd x) = p"
  shows "merge_edge rel eid s t u (combine f h) x = combine f (merge_edge rel eid s t u h x)"
proof -
  have "update_node (\<lambda>k. k = a) w (combine f g) = combine f (update_node (\<lambda>k. k = a) w g)" if "key_proof a = p" for g w a
    using assms(1) that by (intro update_combine) simp_all
  then show ?thesis
    using assms by (simp add: merge_edge_def case_prod_unfold has_edge_combine set_edge_combine add_edge_combine)
qed

lemma own_merge_edge:
  "key_proof (fst x) = p \<and> key_proof (snd x) = p \<Longrightarrow> own p h \<Longrightarrow> own p (merge_edge rel eid s t u h x)"
  by (simp add: merge_edge_def case_prod_unfold own_set_edge)

lemma merge_edges_combine:
  assumes "foreign p f" "\<forall>x \<in> set ps. key_proof (fst x) = p \<and> key_proof (snd x) = p"
  shows "foldl (merge_edge rel eid s t u) (combine f h) ps = combine f (foldl (merge_edge rel eid s t u) h ps)"
  using assms(2)
proof (induction ps arbitrary: h)
  case (Cons x ps)
  then show ?case using merge_edge_combine [OF assms(1), of x] by simp
qed simp

lemma own_merge_edges:
  assumes "\<forall>x \<in> set ps. key_proof (fst x) = p \<and> key_proof (snd x) = p" "own p h"
  shows "own p (foldl (merge_edge rel eid s t u) h ps)"
  using assms
proof (induction ps arbitrary: h)
  case (Cons x ps)
  then show ?case using own_merge_edge [of x p h] by simp
qed simp

lemma apply_combine:
  assumes "foreign p f" "own p h" "local_stmt p st"
  shows "apply_stmt st (combine f h) = combine f (apply_stmt st h) \<and> own p (apply_stmt st h) \<and>
    assigned st (combine f h) = assigned st h"
proof (cases st)
  case (MergeNode k c m)
  then have k: "key_proof k = p" using assms(3) by simp
  then have "find_node (combine f h) k = find_node h k" by (simp add: find_combine [OF assms(1,2)])
  moreover have "update_node (\<lambda>k'. k' = k) m (combine f h) = combine f (update_node (\<lambda>k'. k' = k) m h)"
    using k assms(1) by (auto intro: update_combine)
  moreover have "own p (h\<lparr>gr_nodes := gr_nodes h @ [new_node k c]\<rparr>)"
    using k assms(2) by (auto simp: own_def new_node_def)
  ultimately show ?thesis using assms(2) unfolding MergeNode by (simp add: combine_def)
next
  case (SetNodes pat sets)
  then have pat: "np_proof pat = Some p" using assms(3) by simp
  then have "\<not> list_ex (\<lambda>n. matches pat (gn_key n)) (gr_nodes f)"
    using assms(1) matches_proof [OF pat] unfolding list_ex_iff foreign_def by blast
  then show ?thesis
    unfolding SetNodes using update_combine [OF assms(1) matches_proof [OF pat]] assms(2) by simp
next
  case (MergeEdge pat rel eid pat' s t u)
  then have pat: "np_proof pat = Some p" "np_proof pat' = Some p" using assms(3) by simp_all
  note ps = pairs_combine [OF assms(1) pat, of h] and ends = pairs_proof [OF pat, of h]
  have "list_ex (\<lambda>(a, b). \<not> has_edge (combine f h) rel a b eid) (pairs pat pat' h) =
      list_ex (\<lambda>(a, b). \<not> has_edge h rel a b eid) (pairs pat pat' h)"
    unfolding list_ex_iff case_prod_unfold using has_edge_combine [OF assms(1)] ends by (intro bex_cong) simp_all
  then show ?thesis
    unfolding MergeEdge apply_stmt.simps assigned.simps ps
    using merge_edges_combine [OF assms(1) ends] own_merge_edges [OF ends assms(2)] by simp
qed

lemma exec_combine:
  assumes "foreign p f" "own p h" "local_stmt p st"
  shows "exec (combine f h) st = map_sum id (combine f) (exec h st)"
    and "exec h st = Inr h' \<Longrightarrow> own p h'"
  using apply_combine [OF assms] by (auto simp: exec_def split: option.splits)

lemma run_all_combine:
  assumes "foreign p f" "own p h" "\<forall>st \<in> set stmts. local_stmt p st"
  shows "run_all stmts (combine f h) = map_sum id (combine f) (run_all stmts h) \<and>
    (\<forall>h'. run_all stmts h = Inr h' \<longrightarrow> own p h')"
  using assms(2,3)
proof (induction stmts arbitrary: h)
  case (Cons st stmts)
  then show ?case
    using exec_combine [OF assms(1) Cons.prems(1), of st]
    by (cases "exec h st") (auto simp: run_all_def)
qed (simp add: run_all_def)

section \<open>Operations\<close>

lemma framed_write_work:
  assumes "\<And>f h. foreign p f \<Longrightarrow> own p h \<Longrightarrow>
    work (combine f h) = map_sum id (\<lambda>(x, h'). (x, combine f h')) (work h) \<and> (\<forall>x h'. work h = Inr (x, h') \<longrightarrow> own p h')"
  shows "framed p (write_work dr work)"
  unfolding framed_def
proof (intro allI impI)
  fix f h
  assume "foreign p f" "own p h"
  note w = assms [OF this] and h = \<open>own p h\<close>
  show "write_work dr work (combine f h) = (fst (write_work dr work h), combine f (snd (write_work dr work h))) \<and>
    own p (snd (write_work dr work h))"
    using w h by (cases "work h") (auto simp: write_work_def split: option.splits)
qed

lemma framed_write_all [intro]:
  assumes "\<forall>st \<in> set stmts. local_stmt p st"
  shows "framed p (write_all dr stmts)"
  unfolding write_all_def
proof (rule framed_write_work)
  fix f h
  assume "foreign p f" "own p h"
  from run_all_combine [OF this assms]
  show "(case run_all stmts (combine f h) of Inl e \<Rightarrow> Inl e | Inr g' \<Rightarrow> Inr ((), g')) =
      map_sum id (\<lambda>(x, h'). (x, combine f h')) (case run_all stmts h of Inl e \<Rightarrow> Inl e | Inr g' \<Rightarrow> Inr ((), g')) \<and>
    (\<forall>x h'. (case run_all stmts h of Inl e \<Rightarrow> Inl e | Inr g' \<Rightarrow> Inr ((), g')) = Inr (x, h') \<longrightarrow> own p h')"
    by (cases "run_all stmts h") auto
qed

lemma framed_check_status [intro]: "(\<And>s. framed p (body s)) \<Longrightarrow> framed p (check_status raw allowed body)"
  by (auto simp: framed_def check_status_def split: sum.split)

lemma framed_nothing [intro]: "framed p (\<lambda>g. (r, g))"
  by (simp add: framed_def)

text \<open>Reading the rules beside another proof.\<close>

lemma trancl_own_part:
  assumes "\<And>a b. (a, b) \<in> F \<Longrightarrow> key_proof a \<noteq> p" "\<And>a b. (a, b) \<in> H \<Longrightarrow> key_proof b = p" "key_proof k = p"
  shows "(k, x) \<in> (F \<union> H)\<^sup>+ \<longleftrightarrow> (k, x) \<in> H\<^sup>+"
proof
  assume "(k, x) \<in> (F \<union> H)\<^sup>+"
  then have "(k, x) \<in> H\<^sup>+ \<and> key_proof x = p"
  proof (induction rule: trancl_induct)
    case (base y)
    then have "(k, y) \<in> H" using assms(1) [of k y] assms(3) by auto
    then show ?case using assms(2) by blast
  next
    case (step y z)
    then have "(y, z) \<in> H" using assms(1) [of y z] by auto
    then show ?case using step.IH assms(2) by (blast intro: trancl_into_trancl)
  qed
  then show "(k, x) \<in> H\<^sup>+" ..
qed (auto elim: trancl_mono)

lemma path_combine:
  assumes "foreign p f" "own p h" "key_proof k = p"
  shows "(k, x) \<in> (set (rel_steps (combine f h) rel))\<^sup>+ \<longleftrightarrow> (k, x) \<in> (set (rel_steps h rel))\<^sup>+"
  unfolding rel_steps_combine set_append
  by (rule trancl_own_part [of _ p]) (use assms in \<open>auto simp: rel_steps_def foreign_def own_def\<close>)

lemma path_back_combine:
  assumes "foreign p f" "own p h" "key_proof k = p"
  shows "(x, k) \<in> (set (rel_steps (combine f h) rel))\<^sup>+ \<longleftrightarrow> (x, k) \<in> (set (rel_steps h rel))\<^sup>+"
proof -
  have "(k, x) \<in> ((set (rel_steps f rel))\<inverse> \<union> (set (rel_steps h rel))\<inverse>)\<^sup>+ \<longleftrightarrow> (k, x) \<in> ((set (rel_steps h rel))\<inverse>)\<^sup>+"
    by (rule trancl_own_part [of _ p]) (use assms in \<open>auto simp: rel_steps_def foreign_def own_def\<close>)
  then show ?thesis by (simp add: trancl_converse flip: converse_Un)
qed

lemma cycle_exists_combine:
  assumes "foreign p f" "own p h"
  shows "cycle_exists (combine f h) a b p = cycle_exists h a b p"
  unfolding cycle_exists_def set_path_ends mem_Collect_eq
  using find_combine [OF assms] path_combine [OF assms, of "(''Claim'', p, b)"] by simp

lemma framed_add_claim_dependency:
  assumes "p \<noteq> ''''"
  shows "framed p (add_claim_dependency dr a b p evt)"
  unfolding add_claim_dependency_def
proof (rule framed_write_work)
  fix f h
  assume fh: "foreign p f" "own p h"
  have "local_stmt p (dependency_stmt a b p evt)" using assms by (simp add: dependency_stmt_def any_proof_pat_def)
  note ex = exec_combine [OF fh this]
  show "(if p \<noteq> '''' \<and> cycle_exists (combine f h) a b p then Inl (Raised ValueError)
      else case exec (combine f h) (dependency_stmt a b p evt) of Inl e \<Rightarrow> Inl e | Inr g' \<Rightarrow> Inr ((), g')) =
    map_sum id (\<lambda>(x, h'). (x, combine f h'))
      (if p \<noteq> '''' \<and> cycle_exists h a b p then Inl (Raised ValueError)
       else case exec h (dependency_stmt a b p evt) of Inl e \<Rightarrow> Inl e | Inr g' \<Rightarrow> Inr ((), g')) \<and>
    (\<forall>x h'. (if p \<noteq> '''' \<and> cycle_exists h a b p then Inl (Raised ValueError)
       else case exec h (dependency_stmt a b p evt) of Inl e \<Rightarrow> Inl e | Inr g' \<Rightarrow> Inr ((), g')) = Inr (x, h') \<longrightarrow> own p h')"
    using ex by (cases "exec h (dependency_stmt a b p evt)") (auto simp: cycle_exists_combine [OF fh])
qed

lemma filter_joined_combine:
  assumes "foreign p f" "own p h" "\<And>a b. P (a, b) \<Longrightarrow> gn_proof a = p \<or> gn_proof b = p"
  shows "filter P (joined (combine f h) rel) = filter P (joined h rel)"
proof -
  have "filter P (joined f rel) = []"
    using joined_foreign [OF assms(1)] assms(3) by (fastforce simp: filter_empty_conv)
  then show ?thesis by (simp add: joined_combine [OF assms(1,2)])
qed

lemma list_ex_joined_combine:
  assumes "foreign p f" "own p h" "\<And>a b. P (a, b) \<Longrightarrow> gn_proof a = p \<or> gn_proof b = p"
  shows "list_ex P (joined (combine f h) rel) = list_ex P (joined h rel)"
proof -
  have "list_ex P xs \<longleftrightarrow> filter P xs \<noteq> []" for xs by (simp add: list_ex_iff filter_empty_conv)
  then show ?thesis using filter_joined_combine [OF assms] by simp
qed

lemma filter_nodes_combine:
  assumes "foreign p f" "\<And>n. P n \<Longrightarrow> gn_proof n = p"
  shows "filter P (gr_nodes (combine f h)) = filter P (gr_nodes h)"
proof -
  have "filter P (gr_nodes f) = []" using assms by (auto simp: foreign_def filter_empty_conv)
  then show ?thesis by simp
qed

lemma and_ready_combine:
  assumes "foreign p f" "own p h"
  shows "and_ready (combine f h) p m = and_ready h p m"
  unfolding and_ready_def
  by (subst list_ex_joined_combine [OF assms]) (auto simp: is_node_def)

lemma or_ready_combine:
  assumes "foreign p f" "own p h"
  shows "or_ready (combine f h) p st = or_ready h p st"
  unfolding or_ready_def
  by (subst list_ex_joined_combine [OF assms]) (auto simp: is_node_def)

lemma set_status_combine:
  assumes "foreign p f" "\<And>k. k \<in> set ks \<Longrightarrow> key_proof k = p"
  shows "set_status (\<lambda>k. k \<in> set ks) s evt (combine f h) = combine f (set_status (\<lambda>k. k \<in> set ks) s evt h)"
  unfolding set_status_def using assms by (intro update_combine)

lemma own_set_status [simp]: "own p (set_status P s evt h) \<longleftrightarrow> own p h"
  by (simp add: set_status_def)

lemma and_step_combine:
  assumes "foreign p f" "own p h"
  shows "and_step p evt (combine f h) = (combine f (fst (and_step p evt h)), snd (and_step p evt h))"
proof -
  have "filter (and_ready (combine f h) p) (gr_nodes (combine f h)) = filter (and_ready h p) (gr_nodes h)"
    unfolding and_ready_combine [OF assms]
    by (rule filter_nodes_combine [OF assms(1)]) (simp add: and_ready_def is_node_def)
  then show ?thesis
    unfolding and_step_def
    by (simp only: Let_def fst_conv snd_conv)
       (subst set_status_combine [OF assms(1)], auto simp: and_ready_def is_node_def)
qed

lemma or_step_combine:
  assumes "foreign p f" "own p h"
  shows "or_step p evt (combine f h) = (combine f (fst (or_step p evt h)), snd (or_step p evt h))"
proof -
  have "filter (or_ready (combine f h) p) (gr_nodes (combine f h)) = filter (or_ready h p) (gr_nodes h)"
    unfolding or_ready_combine [OF assms]
    by (rule filter_nodes_combine [OF assms(1)]) (simp add: or_ready_def is_node_def)
  then show ?thesis
    unfolding or_step_def
    by (simp only: Let_def fst_conv snd_conv)
       (subst set_status_combine [OF assms(1)], auto simp: or_ready_def is_node_def)
qed

lemma own_steps [simp]:
  "own p (fst (and_step q evt h)) \<longleftrightarrow> own p h" "own p (fst (or_step q evt h)) \<longleftrightarrow> own p h"
  by (simp_all add: and_step_def or_step_def Let_def)

lemma propagate_combine:
  assumes "foreign p f" "own p h"
  shows "propagate_closures_tx n p evt (combine f h) = combine f (propagate_closures_tx n p evt h) \<and>
    own p (propagate_closures_tx n p evt h)"
  using assms(2)
proof (induction n arbitrary: h)
  case (Suc n)
  let ?h1 = "fst (and_step p evt h)"
  let ?h2 = "fst (or_step p evt ?h1)"
  have o1: "own p ?h1" using Suc.prems by simp
  have o2: "own p ?h2" using o1 by simp
  show ?case
    using Suc.IH [OF o2] o2
    by (simp add: split_beta Let_def and_step_combine [OF assms(1) Suc.prems] or_step_combine [OF assms(1) o1])
qed simp

lemma proposed_by_combine:
  assumes "foreign p f" "own p h"
  shows "proposed_by (combine f h) p sid = proposed_by h p sid"
  unfolding proposed_by_def by (subst filter_joined_combine [OF assms]) auto

lemma closed_once_combine:
  assumes "foreign p f" "own p h"
  shows "closed_once sid p reason evt (combine f h) = map_sum id (combine f) (closed_once sid p reason evt h) \<and>
    (\<forall>h'. closed_once sid p reason evt h = Inr h' \<longrightarrow> own p h')"
proof -
  let ?st = "SetNodes (node_pat ''State'' p sid)
     [(''status'', PStr STATE_CLOSED), (''status_updated_in_event'', PStr evt), (''closed_reason'', reason)]"
  have "local_stmt p ?st" by (simp add: node_pat_def)
  note ex = exec_combine [OF assms this]
  show ?thesis
  proof (cases "exec h ?st")
    case (Inl e)
    then show ?thesis using ex(1) by (simp add: closed_once_def)
  next
    case (Inr h1)
    then have h1: "own p h1" by (rule ex(2))
    have "key_proof k = p" if "k \<in> set (proposed_by h1 p sid)" for k
      using that by (auto simp: proposed_by_def is_node_def)
    then show ?thesis
      using ex(1) Inr h1
      by (simp add: closed_once_def proposed_by_combine [OF assms(1) h1] set_status_combine [OF assms(1)])
  qed
qed

lemma framed_close_state: "framed p (close_state dr sid p reason evt)"
  unfolding close_state_def
proof (rule framed_write_work)
  fix f h
  assume fh: "foreign p f" "own p h"
  show "(case closed_once sid p reason evt (combine f h) of Inl e \<Rightarrow> Inl e
      | Inr g1 \<Rightarrow> Inr ((), propagate_closures_tx MAX_ITER p evt g1)) =
    map_sum id (\<lambda>(x, h'). (x, combine f h'))
      (case closed_once sid p reason evt h of Inl e \<Rightarrow> Inl e
       | Inr g1 \<Rightarrow> Inr ((), propagate_closures_tx MAX_ITER p evt g1)) \<and>
    (\<forall>x h'. (case closed_once sid p reason evt h of Inl e \<Rightarrow> Inl e
       | Inr g1 \<Rightarrow> Inr ((), propagate_closures_tx MAX_ITER p evt g1)) = Inr (x, h') \<longrightarrow> own p h')"
    using closed_once_combine [OF fh, of sid reason evt] propagate_combine [OF fh(1)]
    by (cases "closed_once sid p reason evt h") auto
qed

lemma cone_filter:
  "cone g p cid = (if find_node g (''Claim'', p, cid) = None then []
     else filter (\<lambda>n. is_node ''Claim'' p n \<and> (gn_key n, (''Claim'', p, cid)) \<in> (depends g)\<^sup>+) (gr_nodes g))"
proof -
  have "set (path_ends (map (\<lambda>(a, b). (b, a)) (rel_steps g ''DEPENDS_ON'')) (''Claim'', p, cid)) =
      {k. (k, (''Claim'', p, cid)) \<in> (depends g)\<^sup>+}"
    by (simp add: set_path_ends set_converse_steps trancl_converse del: set_map)
  then show ?thesis by (simp add: cone_def Let_def)
qed

lemma cone_combine:
  assumes "foreign p f" "own p h"
  shows "cone (combine f h) p cid = cone h p cid"
proof -
  have "find_node (combine f h) (''Claim'', p, cid) = find_node h (''Claim'', p, cid)"
    by (simp add: find_combine [OF assms])
  moreover have "filter (\<lambda>n. is_node ''Claim'' p n \<and> (gn_key n, (''Claim'', p, cid)) \<in> (depends h)\<^sup>+) (gr_nodes (combine f h)) =
      filter (\<lambda>n. is_node ''Claim'' p n \<and> (gn_key n, (''Claim'', p, cid)) \<in> (depends h)\<^sup>+) (gr_nodes h)"
    by (rule filter_nodes_combine [OF assms(1)]) (simp add: is_node_def)
  ultimately show ?thesis
    unfolding cone_filter using path_back_combine [OF assms, of "(''Claim'', p, cid)"] by simp
qed

lemma relying_combine:
  assumes "foreign p f" "own p h"
  shows "relying (combine f h) p tainted = relying h p tainted"
  unfolding relying_def by (subst filter_joined_combine [OF assms]) (auto simp: is_node_def)

lemma taint_nodes_combine:
  assumes "foreign p f" "\<And>k. k \<in> K \<Longrightarrow> key_proof k = p"
  shows "taint_nodes K cid evt (combine f h) = combine f (taint_nodes K cid evt h)"
    and "reopen_nodes K cid evt (combine f h) = combine f (reopen_nodes K cid evt h)"
  unfolding taint_nodes_def reopen_nodes_def using assms by (simp_all add: update_combine)

lemma framed_propagate_taint: "framed p (propagate_taint dr p cid evt reason)"
  unfolding propagate_taint_def
proof (rule framed_write_work)
  fix f h
  assume fh: "foreign p f" "own p h"
  let ?B = "\<lambda>g1. let hit = cone g1 p cid; tainted = map gn_id (dr_order dr hit);
      g2 = taint_nodes (gn_key ` set hit) cid evt g1; states = relying g2 p tainted
    in if tainted = [] then Inr (\<lparr>ts_refuted = cid, ts_tainted = [], ts_reopened = []\<rparr>, g2)
       else Inr (\<lparr>ts_refuted = cid, ts_tainted = tainted, ts_reopened = map gn_id (dr_order dr states)\<rparr>,
              reopen_nodes (gn_key ` set states) cid evt g2)"
  have "local_stmt p (refute_stmt p cid evt reason)" by (simp add: refute_stmt_def node_pat_def)
  note ex = exec_combine [OF fh this]
  have body: "?B (combine f h1) = map_sum id (\<lambda>(x, h'). (x, combine f h')) (?B h1) \<and>
      (\<forall>x h'. ?B h1 = Inr (x, h') \<longrightarrow> own p h')" if h1: "own p h1" for h1
  proof -
    let ?K = "gn_key ` set (cone h1 p cid)"
    let ?h2 = "taint_nodes ?K cid evt h1"
    let ?S = "gn_key ` set (relying ?h2 p (map gn_id (dr_order dr (cone h1 p cid))))"
    have K: "key_proof k = p" if "k \<in> ?K" for k using that by (auto simp: cone_def Let_def is_node_def split: if_splits)
    have h2: "own p ?h2" using h1 by (simp add: taint_nodes_def)
    have S: "key_proof k = p" if "k \<in> ?S" for k using that by (auto simp: relying_def is_node_def)
    have t: "taint_nodes ?K cid evt (combine f h1) = combine f ?h2" by (rule taint_nodes_combine(1) [OF fh(1) K])
    have r: "reopen_nodes ?S cid evt (combine f ?h2) = combine f (reopen_nodes ?S cid evt ?h2)"
      by (rule taint_nodes_combine(2) [OF fh(1) S])
    have o: "own p (reopen_nodes ?S cid evt ?h2)" using h2 by (simp add: reopen_nodes_def)
    show ?thesis
      unfolding Let_def cone_combine [OF fh(1) h1] t relying_combine [OF fh(1) h2] r using h2 o by simp
  qed
  show "(case exec (combine f h) (refute_stmt p cid evt reason) of Inl e \<Rightarrow> Inl e | Inr g1 \<Rightarrow> ?B g1) =
    map_sum id (\<lambda>(x, h'). (x, combine f h')) (case exec h (refute_stmt p cid evt reason) of Inl e \<Rightarrow> Inl e | Inr g1 \<Rightarrow> ?B g1) \<and>
    (\<forall>x h'. (case exec h (refute_stmt p cid evt reason) of Inl e \<Rightarrow> Inl e | Inr g1 \<Rightarrow> ?B g1) = Inr (x, h') \<longrightarrow> own p h')"
  proof (cases "exec h (refute_stmt p cid evt reason)")
    case (Inr h1)
    then show ?thesis using ex(1) body [OF ex(2) [OF Inr]] by (simp only: map_sum.simps sum.case id_apply)
  qed (use ex(1) in simp)
qed

section \<open>Events\<close>

lemma local_patterns [simp]:
  "np_proof (node_pat l p i) = Some p" "np_proof (any_label_pat p i) = Some p"
  "p \<noteq> '''' \<Longrightarrow> np_proof (any_proof_pat l p i) = Some p"
  by (simp_all add: node_pat_def any_label_pat_def any_proof_pat_def)

lemma local_links [simp]:
  "local_stmt p (link p rel a b evt)" "local_stmt p (link_sets p rel a s b t evt)"
  by (simp_all add: link_def link_sets_def)

named_theorems framed_ops "operations that stay in their proof"

lemma framed_search [framed_ops]:
  "framed p (init_proof dr p k h evt)"
  "framed p (add_state dr p i d parent kind ass evt)"
  "framed p (update_state_status dr p i s r evt)"
  "framed p (add_claim dr p i stm s blob evt)"
  "framed p (link_state_claim dr p i c evt)"
  "framed p (add_move dr p i st summary mk n evt sc cost s)"
  "framed p (add_required_subgoal dr p m i d parent evt)"
  "framed p (reopen_state dr p i r evt)"
  unfolding init_proof_def add_state_def update_state_status_def add_claim_def link_state_claim_def
    add_move_def add_required_subgoal_def reopen_state_def
  by (intro framed_check_status framed_write_all; simp)+

lemma framed_any_proof [framed_ops]:
  assumes "p \<noteq> ''''"
  shows "framed p (update_claim_status dr i s p evt r)" "framed p (update_move_status dr i s p evt)"
    "framed p (update_attempt dr i s e p evt)"
  unfolding update_claim_status_def update_move_status_def update_attempt_def
  using assms by (intro framed_check_status framed_write_all; simp)+

lemma framed_provenance [framed_ops]:
  "framed p (add_attempt dr p i st summary w n m evt r persona disp rel)"
  "framed p (link_attempt_route dr p a b evt)" "framed p (link_attempt_context dr p a b evt)"
  "framed p (link_produced_claim dr p a b evt)" "framed p (link_artifact dr p a b evt)"
  "framed p (add_route dr p i d evt)" "framed p (add_artifact dr p i k mt sh fn evt)"
  "framed p (add_context dr p i h v bud cnt evt)" "framed p (add_critique dr p i a v cr w evt)"
  "framed p (add_experiment dr p i a q s evt)" "framed p (add_verification dr p i a c k s l t evt)"
  "framed p (add_concept dr p i nm tags evt)" "framed p (add_hypothesis dr p i k st ft nov ab cost risk lc evt)"
  unfolding add_attempt_def link_attempt_route_def link_attempt_context_def link_produced_claim_def
    link_artifact_def add_route_def add_artifact_def add_context_def add_critique_def add_experiment_def
    add_verification_def add_concept_def add_hypothesis_def
  by (intro framed_write_all; auto split: if_splits)+

lemma framed_add_relation [framed_ops]: "framed p (add_relation dr p rel a b evt r)"
proof -
  have "framed p (write_all dr [MergeEdge (any_label_pat p a) rel (edge_id evt rel) (any_label_pat p b) [] []
      [(''event_id'', PStr evt), (''route_id'', r)]])"
    by (rule framed_write_all) simp
  then show ?thesis by (simp add: framed_def add_relation_def)
qed

lemma framed_taint_event:
  "framed p (\<lambda>g. case propagate_taint dr p c evt r g of (Inl e, g') \<Rightarrow> (Inl e, g') | (Inr x, g') \<Rightarrow> (Inr (), g'))"
  unfolding framed_def
proof (intro allI impI)
  fix f h
  assume "foreign p f" "own p h"
  with framed_propagate_taint [of p dr c evt r]
  have "propagate_taint dr p c evt r (combine f h) =
      (fst (propagate_taint dr p c evt r h), combine f (snd (propagate_taint dr p c evt r h))) \<and>
    own p (snd (propagate_taint dr p c evt r h))" unfolding framed_def by blast
  then show "(case propagate_taint dr p c evt r (combine f h) of (Inl e, g') \<Rightarrow> (Inl e, g') | (Inr x, g') \<Rightarrow> (Inr (), g')) =
      (fst (case propagate_taint dr p c evt r h of (Inl e, g') \<Rightarrow> (Inl e, g') | (Inr x, g') \<Rightarrow> (Inr (), g')),
       combine f (snd (case propagate_taint dr p c evt r h of (Inl e, g') \<Rightarrow> (Inl e, g') | (Inr x, g') \<Rightarrow> (Inr (), g')))) \<and>
    own p (snd (case propagate_taint dr p c evt r h of (Inl e, g') \<Rightarrow> (Inl e, g') | (Inr x, g') \<Rightarrow> (Inr (), g')))"
    by (cases "propagate_taint dr p c evt r h") (simp split: sum.split)
qed

lemma framed_event:
  assumes "p \<noteq> ''''" "event_op dr p event = Inr f"
  shows "framed p f"
proof -
  note ops = framed_ops framed_any_proof [OF assms(1)] framed_close_state framed_taint_event framed_nothing
    framed_add_claim_dependency [OF assms(1)]
  have Inr: "bind_res r k = Inr y \<Longrightarrow> \<exists>x. k x = Inr y" for r :: "py_exc + 'x" and k and y :: "unit graph_op"
    by (cases r) auto
  have "framed p g" if "search_event dr p t d evt = Inr g" for t d evt g
    using that unfolding search_event_def by (auto split: if_splits dest!: Inr intro: ops)
  moreover have "framed p g" if "provenance_event dr p t d evt = Inr g" for t d evt g
    using that unfolding provenance_event_def by (auto split: if_splits dest!: Inr intro: ops)
  moreover have "framed p g" if "check_event dr p t d evt = Inr g" for t d evt g
    using that unfolding check_event_def by (auto split: if_splits dest!: Inr intro: ops)
  ultimately show ?thesis
    using assms(2) unfolding event_op_def by (auto split: pyval.splits if_splits dest!: Inr intro: ops)
qed

section \<open>Rebuilding\<close>

lemma framed_replay_event:
  assumes "p \<noteq> ''''"
  shows "framed p (replay_event dr p event)"
proof (cases "event_op dr p event")
  case (Inr f)
  then show ?thesis using framed_event [OF assms Inr] by (simp add: framed_def replay_event_def)
qed (simp add: framed_def replay_event_def)

lemma framed_replay_events:
  assumes "p \<noteq> ''''"
  shows "framed p (replay_events drs i p events)"
proof (induction events arbitrary: i)
  case (Cons event events)
  show ?case
    unfolding framed_def
  proof (intro allI impI)
    fix f h
    assume fh: "foreign p f" "own p h"
    have step: "replay_event (drs i) p event (combine f h) =
        (fst (replay_event (drs i) p event h), combine f (snd (replay_event (drs i) p event h))) \<and>
      own p (snd (replay_event (drs i) p event h))"
      using framed_replay_event [OF assms] fh unfolding framed_def by blast
    have rest: "replay_events drs (Suc i) p events (combine f h') =
        (fst (replay_events drs (Suc i) p events h'), combine f (snd (replay_events drs (Suc i) p events h'))) \<and>
      own p (snd (replay_events drs (Suc i) p events h'))" if "own p h'" for h'
      using Cons.IH fh(1) that unfolding framed_def by blast
    show "replay_events drs i p (event # events) (combine f h) =
        (fst (replay_events drs i p (event # events) h), combine f (snd (replay_events drs i p (event # events) h))) \<and>
      own p (snd (replay_events drs i p (event # events) h))"
      using step rest by (cases "replay_event (drs i) p event h") (auto split: sum.split)
  qed
qed (simp add: framed_def)

lemma foreign_detached: "foreign p (detach_delete p g)"
  by (simp add: foreign_def detach_delete_def)

lemma detach_combine: "foreign p f \<Longrightarrow> own p h \<Longrightarrow> detach_delete p (combine f h) = f"
  by (auto simp: detach_delete_def foreign_def own_def filter_empty_conv filter_id_conv)

lemma own_empty [simp]: "own p empty_graph" and combine_empty [simp]: "combine f empty_graph = f"
  and detach_empty [simp]: "detach_delete p empty_graph = empty_graph"
  by (simp_all add: own_def empty_graph_def combine_def detach_delete_def)

lemma rebuild_combine:
  assumes "p \<noteq> ''''" "dr_failure (drs 0) = None"
  shows "wipe_and_rebuild drs p events g =
      (fst (wipe_and_rebuild drs p events empty_graph),
       combine (detach_delete p g) (snd (wipe_and_rebuild drs p events empty_graph))) \<and>
    own p (snd (wipe_and_rebuild drs p events empty_graph))"
proof -
  have wipe: "wipe_and_rebuild drs p events g' = replay_events drs 1 p events (detach_delete p g')" for g'
    using assms(2) by (simp add: wipe_and_rebuild_def write_work_def)
  have "replay_events drs 1 p events (combine (detach_delete p g) empty_graph) =
      (fst (replay_events drs 1 p events empty_graph), combine (detach_delete p g) (snd (replay_events drs 1 p events empty_graph))) \<and>
    own p (snd (replay_events drs 1 p events empty_graph))"
    using framed_replay_events [OF assms(1)] foreign_detached own_empty unfolding framed_def by blast
  then show ?thesis by (simp add: wipe)
qed

text \<open>C27. Once the old projection is deleted, a rebuild of a named proof gives the outcome and the
  projection that the same events give in an empty database, whatever the graph held for that
  proof, and leaves the nodes and edges of every other proof as they were, but for edges into the
  deleted projection; rebuilding again from the same events changes nothing.\<close>

theorem rebuild_depends_on_events_only:
  assumes "p \<noteq> ''''" "dr_failure (drs 0) = None"
    and "wipe_and_rebuild drs p events empty_graph = (r, h)" "wipe_and_rebuild drs p events g = (r', g')"
  shows "r' = r \<and>
    gr_nodes g' = filter (\<lambda>n. gn_proof n \<noteq> p) (gr_nodes g) @ gr_nodes h \<and>
    gr_edges g' = filter (\<lambda>e. key_proof (ge_src e) \<noteq> p \<and> key_proof (ge_dst e) \<noteq> p) (gr_edges g) @ gr_edges h \<and>
    (\<forall>n \<in> set (gr_nodes h). gn_proof n = p) \<and>
    wipe_and_rebuild drs p events g' = (r', g')"
proof -
  note first = rebuild_combine [of p drs events g, OF assms(1,2)] and again = rebuild_combine [of p drs events g', OF assms(1,2)]
  have g': "g' = combine (detach_delete p g) h" "r' = r" "own p h" using first assms(3,4) by simp_all
  then have "detach_delete p g' = detach_delete p g" using detach_combine [OF foreign_detached] by simp
  then have "wipe_and_rebuild drs p events g' = (r', g')" using again assms(3) g' by simp
  moreover have "gr_nodes g' = filter (\<lambda>n. gn_proof n \<noteq> p) (gr_nodes g) @ gr_nodes h"
    "gr_edges g' = filter (\<lambda>e. key_proof (ge_src e) \<noteq> p \<and> key_proof (ge_dst e) \<noteq> p) (gr_edges g) @ gr_edges h"
    by (simp_all add: g'(1) detach_delete_def)
  moreover have "\<forall>n \<in> set (gr_nodes h). gn_proof n = p" using g'(3) by (simp add: own_def)
  ultimately show ?thesis using g'(2) by blast
qed

end
