(* ===== verification/Dependencies.thy ===== *)
theory Dependencies
  imports Rebuild
begin

text \<open>
  The claim dependency graph. Of all operations only \<open>add_claim_dependency\<close> adds a
  \<open>DEPENDS_ON\<close> edge; its check in the same transaction keeps the graph free of cycles of
  distinct claims, and lets a claim depend on itself.
\<close>

section \<open>Operations that leave the dependencies alone\<close>

fun adds_no_dependency :: "stmt \<Rightarrow> bool" where
  "adds_no_dependency (MergeEdge _ rel _ _ _ _ _) \<longleftrightarrow> rel \<noteq> ''DEPENDS_ON''"
| "adds_no_dependency _ \<longleftrightarrow> True"

definition keeps_deps :: "'a graph_op \<Rightarrow> bool" where
  "keeps_deps op' \<longleftrightarrow> (\<forall>g. depends (snd (op' g)) = depends g)"

lemma rel_steps_set_edge [simp]: "rel_steps (set_edge r a b eid sets g) rel = rel_steps g rel"
proof -
  have "map (\<lambda>e. (ge_src e, ge_dst e)) (filter (\<lambda>e. ge_rel e = rel)
      (map (\<lambda>e. if ge_rel e = r \<and> ge_src e = a \<and> ge_dst e = b \<and> ge_id e = eid
         then e\<lparr>ge_props := put_props sets (ge_props e)\<rparr> else e) es)) =
    map (\<lambda>e. (ge_src e, ge_dst e)) (filter (\<lambda>e. ge_rel e = rel) es)" for es
    by (induction es) auto
  then show ?thesis by (simp add: rel_steps_def set_edge_def)
qed

lemma rel_steps_add_edge [simp]:
  "rel_steps (add_edge r a b eid g) rel = rel_steps g rel @ (if r = rel then [(a, b)] else [])"
  by (simp add: rel_steps_def add_edge_def)

lemma rel_steps_merge_edge:
  "set (rel_steps (merge_edge r eid s t u g x) rel) =
     set (rel_steps g rel) \<union> (if r = rel \<and> \<not> has_edge g r (fst x) (snd x) eid then {x} else {})"
  by (cases x) (auto simp: merge_edge_def)

lemma rel_steps_merge_edges:
  "set (rel_steps (foldl (merge_edge r eid s t u) g ps) rel) \<subseteq>
     set (rel_steps g rel) \<union> (if r = rel then set ps else {})"
proof (induction ps arbitrary: g)
  case (Cons x ps)
  let ?g = "merge_edge r eid s t u g x"
  have "set (rel_steps ?g rel) \<subseteq> set (rel_steps g rel) \<union> (if r = rel then {x} else {})"
    by (subst rel_steps_merge_edge) simp
  then have "set (rel_steps ?g rel) \<union> (if r = rel then set ps else {}) \<subseteq>
      set (rel_steps g rel) \<union> (if r = rel then set (x # ps) else {})"
    by (cases "r = rel") (simp, blast, simp)
  from order_trans [OF Cons [of ?g] this] show ?case by (simp only: foldl_Cons)
qed simp

lemma rel_steps_merge_edges_mono:
  "set (rel_steps g rel) \<subseteq> set (rel_steps (foldl (merge_edge r eid s t u) g ps) rel)"
proof (induction ps arbitrary: g)
  case (Cons x ps)
  have "set (rel_steps g rel) \<subseteq> set (rel_steps (merge_edge r eid s t u g x) rel)"
    by (subst rel_steps_merge_edge) simp
  then show ?case using Cons [of "merge_edge r eid s t u g x"] by simp
qed simp

lemma deps_apply_stmt: "adds_no_dependency st \<Longrightarrow> depends (apply_stmt st g) = depends g"
proof (cases st)
  case (MergeEdge p r eid q s t u)
  moreover assume "adds_no_dependency st"
  ultimately show ?thesis
    using rel_steps_merge_edges [of r eid s t u g "pairs p q g" "''DEPENDS_ON''"]
      rel_steps_merge_edges_mono [of g "''DEPENDS_ON''" r eid s t u "pairs p q g"] by auto
qed (simp_all add: rel_steps_def)

lemma deps_run_all:
  "\<forall>st \<in> set stmts. adds_no_dependency st \<Longrightarrow> run_all stmts g = Inr g' \<Longrightarrow> depends g' = depends g"
proof (induction stmts arbitrary: g)
  case (Cons st stmts)
  then obtain g1 where "exec g st = Inr g1" "run_all stmts g1 = Inr g'"
    by (auto simp: run_all_def split: sum.splits)
  then show ?case using Cons.IH [of g1] Cons.prems(1) deps_apply_stmt [of st g] by (simp add: exec_Inr)
qed (simp add: run_all_def)

lemma keeps_write_work:
  assumes "\<And>g x g'. work g = Inr (x, g') \<Longrightarrow> depends g' = depends g"
  shows "keeps_deps (write_work dr work)"
  using assms by (auto simp: keeps_deps_def write_work_def split: option.split sum.split)

lemma keeps_write_all: "\<forall>st \<in> set stmts. adds_no_dependency st \<Longrightarrow> keeps_deps (write_all dr stmts)"
  unfolding write_all_def
proof (rule keeps_write_work)
  fix g :: graph and x g'
  assume "\<forall>st \<in> set stmts. adds_no_dependency st"
    and "(case run_all stmts g of Inl err \<Rightarrow> Inl err | Inr g' \<Rightarrow> Inr ((), g')) = Inr (x, g')"
  then show "depends g' = depends g" using deps_run_all [of stmts g g'] by (simp split: sum.splits)
qed

lemma keeps_check_status: "(\<And>s. keeps_deps (body s)) \<Longrightarrow> keeps_deps (check_status raw allowed body)"
  by (auto simp: keeps_deps_def check_status_def split: sum.split)

lemma keeps_nothing: "keeps_deps (\<lambda>g. (r, g))"
  by (simp add: keeps_deps_def)

lemma no_dependency_link [simp]:
  "adds_no_dependency (link p rel a b evt) \<longleftrightarrow> rel \<noteq> ''DEPENDS_ON''"
  "adds_no_dependency (link_sets p rel a s b t evt) \<longleftrightarrow> rel \<noteq> ''DEPENDS_ON''"
  by (simp_all add: link_def link_sets_def)

lemma keeps_search:
  "keeps_deps (init_proof dr p k h evt)"
  "keeps_deps (add_state dr p i d parent kind ass evt)"
  "keeps_deps (update_state_status dr p i s r evt)"
  "keeps_deps (add_claim dr p i stm s blob evt)"
  "keeps_deps (update_claim_status dr i s p evt r)"
  "keeps_deps (link_state_claim dr p i c evt)"
  "keeps_deps (add_move dr p i st summary mk n evt sc cost s)"
  "keeps_deps (update_move_status dr i s p evt)"
  "keeps_deps (add_required_subgoal dr p m i d parent evt)"
  "keeps_deps (reopen_state dr p i r evt)"
  "keeps_deps (update_attempt dr i s e p evt)"
  unfolding init_proof_def add_state_def update_state_status_def add_claim_def link_state_claim_def
    add_move_def add_required_subgoal_def reopen_state_def update_claim_status_def
    update_move_status_def update_attempt_def
  by (intro keeps_check_status keeps_write_all; simp)+

lemma keeps_provenance:
  "keeps_deps (add_attempt dr p i st summary w n m evt r persona disp rel)"
  "keeps_deps (link_attempt_route dr p a b evt)" "keeps_deps (link_attempt_context dr p a b evt)"
  "keeps_deps (link_produced_claim dr p a b evt)" "keeps_deps (link_artifact dr p a b evt)"
  "keeps_deps (add_route dr p i d evt)" "keeps_deps (add_artifact dr p i k mt sh fn evt)"
  "keeps_deps (add_context dr p i h v bud cnt evt)" "keeps_deps (add_critique dr p i a v cr w evt)"
  "keeps_deps (add_experiment dr p i a q s evt)" "keeps_deps (add_verification dr p i a c k s l t evt)"
  "keeps_deps (add_concept dr p i nm tags evt)" "keeps_deps (add_hypothesis dr p i k st ft nov ab cost risk lc evt)"
  unfolding add_attempt_def link_attempt_route_def link_attempt_context_def link_produced_claim_def
    link_artifact_def add_route_def add_artifact_def add_context_def add_critique_def add_experiment_def
    add_verification_def add_concept_def add_hypothesis_def
  by (intro keeps_write_all; auto split: if_splits)+

lemma keeps_add_relation: "keeps_deps (add_relation dr p rel a b evt r)"
proof (cases "rel \<in> set REL_WHITELIST")
  case True
  then have "rel \<noteq> ''DEPENDS_ON''" by (auto simp: REL_WHITELIST_def)
  then have "keeps_deps (write_all dr [MergeEdge (any_label_pat p a) rel (edge_id evt rel) (any_label_pat p b) [] []
      [(''event_id'', PStr evt), (''route_id'', r)]])"
    by (intro keeps_write_all) simp
  then show ?thesis using True by (simp add: keeps_deps_def add_relation_def)
qed (simp add: keeps_deps_def add_relation_def)

lemma keeps_set_status [simp]: "depends (set_status P s evt g) = depends g"
  by (simp add: set_status_def)

lemma keeps_steps [simp]:
  "depends (fst (and_step p evt g)) = depends g" "depends (fst (or_step p evt g)) = depends g"
  by (simp_all add: and_step_def or_step_def Let_def)

lemma keeps_closures: "depends (propagate_closures_tx n p evt g) = depends g"
proof (induction n arbitrary: g)
  case (Suc n)
  obtain g1 r1 where 1: "and_step p evt g = (g1, r1)" by (cases "and_step p evt g")
  obtain g2 r2 where 2: "or_step p evt g1 = (g2, r2)" by (cases "or_step p evt g1")
  have "depends g1 = depends g" "depends g2 = depends g1"
    using keeps_steps(1) [of p evt g] keeps_steps(2) [of p evt g1] by (simp_all only: 1 2 fst_conv)
  then show ?case by (simp add: 1 2 Suc)
qed simp

lemma keeps_close_state: "keeps_deps (close_state dr i p r evt)"
  unfolding close_state_def
proof (rule keeps_write_work)
  fix g x g'
  assume "(case closed_once i p r evt g of Inl e \<Rightarrow> Inl e
    | Inr g1 \<Rightarrow> Inr ((), propagate_closures_tx MAX_ITER p evt g1)) = Inr (x, g')"
  then show "depends g' = depends g"
    by (auto simp: keeps_closures closed_once_def set_status_def exec_Inr split: sum.splits)
qed

lemma keeps_propagate_taint: "keeps_deps (propagate_taint dr p c evt r)"
  unfolding propagate_taint_def
proof (rule keeps_write_work)
  fix g x g'
  assume "(case exec g (refute_stmt p c evt r) of Inl e \<Rightarrow> Inl e
    | Inr g1 \<Rightarrow> let hit = cone g1 p c; tainted = map gn_id (dr_order dr hit);
        g2 = taint_nodes (gn_key ` set hit) c evt g1; states = relying g2 p tainted
      in if tainted = [] then Inr (\<lparr>ts_refuted = c, ts_tainted = [], ts_reopened = []\<rparr>, g2)
         else Inr (\<lparr>ts_refuted = c, ts_tainted = tainted, ts_reopened = map gn_id (dr_order dr states)\<rparr>,
                reopen_nodes (gn_key ` set states) c evt g2)) = Inr (x, g')"
  then show "depends g' = depends g"
    by (auto simp: exec_Inr refute_stmt_def taint_nodes_def reopen_nodes_def Let_def split: sum.splits if_splits)
qed

lemma keeps_taint_event:
  "keeps_deps (\<lambda>g. case propagate_taint dr p c evt r g of (Inl e, g') \<Rightarrow> (Inl e, g') | (Inr x, g') \<Rightarrow> (Inr (), g'))"
  unfolding keeps_deps_def
proof
  fix g
  show "depends (snd (case propagate_taint dr p c evt r g of (Inl e, g') \<Rightarrow> (Inl e, g') | (Inr x, g') \<Rightarrow> (Inr (), g'))) = depends g"
    using keeps_propagate_taint [of dr p c evt r, unfolded keeps_deps_def, rule_format, of g]
    by (cases "propagate_taint dr p c evt r g") (simp split: sum.split)
qed

section \<open>The operation that adds one\<close>

definition dag_safe :: "'a graph_op \<Rightarrow> bool" where
  "dag_safe op' \<longleftrightarrow> (\<forall>g. acyclic (depends g - Id) \<longrightarrow> acyclic (depends (snd (op' g)) - Id))"

lemma keeps_dag: "keeps_deps op' \<Longrightarrow> dag_safe op'"
  by (simp add: keeps_deps_def dag_safe_def)

lemma acyclic_extend:
  assumes "acyclic (r - Id)" "s \<subseteq> insert (a, b) r" "(b, a) \<notin> r\<^sup>+"
  shows "acyclic (s - Id)"
proof (cases "a = b")
  case True
  then have "s - Id \<subseteq> r - Id" using assms(2) by auto
  then show ?thesis using assms(1) by (rule acyclic_subset [rotated])
next
  case False
  have "(b, a) \<notin> (r - Id)\<^sup>*"
    using assms(3) False by (metis rtranclD rtrancl_r_diff_Id)
  then have "acyclic (insert (a, b) (r - Id))" using assms(1) by (simp add: acyclic_insert)
  moreover have "s - Id \<subseteq> insert (a, b) (r - Id)" using assms(2) by auto
  ultimately show ?thesis by (rule acyclic_subset)
qed

text \<open>With a proof named, both patterns of the statement match one key.\<close>

lemma dependency_ends:
  assumes "p \<noteq> ''''" "xy \<in> set (pairs (any_proof_pat ''Claim'' p a) (any_proof_pat ''Claim'' p b) g)"
  shows "xy = ((''Claim'', p, a), (''Claim'', p, b))"
    and "find_node g (''Claim'', p, a) \<noteq> None" "find_node g (''Claim'', p, b) \<noteq> None"
proof -
  have key: "matches (any_proof_pat ''Claim'' p i) k \<longleftrightarrow> k = (''Claim'', p, i)" for i k
    using assms(1) by (cases k) (auto simp: any_proof_pat_def matches_def)
  show "xy = ((''Claim'', p, a), (''Claim'', p, b))"
    and "find_node g (''Claim'', p, a) \<noteq> None" "find_node g (''Claim'', p, b) \<noteq> None"
    unfolding find_node_None not_not using assms(2) by (auto simp: pairs_def key)
qed

lemma dag_add_claim_dependency:
  assumes "p \<noteq> ''''"
  shows "dag_safe (add_claim_dependency dr a b p evt)"
  unfolding dag_safe_def
proof (intro allI impI)
  fix g
  assume dag: "acyclic (depends g - Id)"
  let ?P = "pairs (any_proof_pat ''Claim'' p a) (any_proof_pat ''Claim'' p b) g"
  let ?a = "(''Claim'', p, a)" and ?b = "(''Claim'', p, b)"
  show "acyclic (depends (snd (add_claim_dependency dr a b p evt g)) - Id)"
  proof (cases "snd (add_claim_dependency dr a b p evt g) = g")
    case False
    let ?g = "apply_stmt (dependency_stmt a b p evt) g"
    have g: "snd (add_claim_dependency dr a b p evt g) = ?g" "\<not> cycle_exists g a b p"
      using False assms by (auto simp: add_claim_dependency_def write_work_def exec_def split: option.splits if_splits)
    have P: "set ?P \<subseteq> {(?a, ?b)}" using dependency_ends(1) [OF assms] by auto
    have "depends ?g \<subseteq> depends g \<union> set ?P"
      using rel_steps_merge_edges [of "''DEPENDS_ON''" _ _ _ _ g ?P "''DEPENDS_ON''"] by (simp add: dependency_stmt_def)
    then have sub: "depends ?g \<subseteq> insert (?a, ?b) (depends g)" using P by blast
    show ?thesis
    proof (cases "?P = []")
      case True
      then show ?thesis using dag by (simp add: g(1) dependency_stmt_def)
    next
      case False
      then have "hd ?P \<in> set ?P" by simp
      from dependency_ends(2,3) [OF assms this] have "(?b, ?a) \<notin> (depends g)\<^sup>+"
        using g(2) by (simp add: cycle_exists_def set_path_ends)
      then show ?thesis using acyclic_extend [OF dag sub] by (simp add: g(1))
    qed
  qed (use dag in simp)
qed

section \<open>Replaying\<close>

lemma dag_event:
  assumes "p \<noteq> ''''" "event_op dr p event = Inr f"
  shows "dag_safe f"
proof -
  note ops = keeps_search [THEN keeps_dag] keeps_provenance [THEN keeps_dag] keeps_add_relation [THEN keeps_dag]
    keeps_close_state [THEN keeps_dag] keeps_taint_event [THEN keeps_dag] keeps_nothing [THEN keeps_dag]
    dag_add_claim_dependency [OF assms(1)]
  have Inr: "bind_res r k = Inr y \<Longrightarrow> \<exists>x. k x = Inr y" for r :: "py_exc + 'x" and k and y :: "unit graph_op"
    by (cases r) auto
  have "dag_safe g" if "search_event dr p t d evt = Inr g" for t d evt g
    using that unfolding search_event_def by (auto split: if_splits dest!: Inr intro: ops)
  moreover have "dag_safe g" if "provenance_event dr p t d evt = Inr g" for t d evt g
    using that unfolding provenance_event_def by (auto split: if_splits dest!: Inr intro: ops)
  moreover have "dag_safe g" if "check_event dr p t d evt = Inr g" for t d evt g
    using that unfolding check_event_def by (auto split: if_splits dest!: Inr intro: ops)
  ultimately show ?thesis
    using assms(2) unfolding event_op_def by (auto split: pyval.splits if_splits dest!: Inr intro: ops)
qed

lemma dag_replay_event: "p \<noteq> '''' \<Longrightarrow> dag_safe (replay_event dr p event)"
  using dag_event [of p dr event] by (cases "event_op dr p event") (simp_all add: dag_safe_def replay_event_def)

lemma dag_replay_events: "p \<noteq> '''' \<Longrightarrow> dag_safe (replay_events drs i p events)"
proof (induction events arbitrary: i)
  case (Cons event events)
  show ?case
    unfolding dag_safe_def
  proof (intro allI impI)
    fix g
    assume "acyclic (depends g - Id)"
    then have "acyclic (depends (snd (replay_event (drs i) p event g)) - Id)"
      using dag_replay_event [OF Cons.prems] unfolding dag_safe_def by blast
    then show "acyclic (depends (snd (replay_events drs i p (event # events) g)) - Id)"
      using Cons.IH [OF Cons.prems] unfolding dag_safe_def
      by (cases "replay_event (drs i) p event g") (auto split: sum.split)
  qed
qed (simp add: dag_safe_def)

lemma depends_detach: "depends (detach_delete p g) \<subseteq> depends g"
  by (auto simp: rel_steps_def detach_delete_def)

lemma dag_wipe_and_rebuild:
  assumes "p \<noteq> ''''" "acyclic (depends g - Id)"
  shows "acyclic (depends (snd (wipe_and_rebuild drs p events g)) - Id)"
proof -
  have "acyclic (depends (detach_delete p g) - Id)"
    using assms(2) by (rule acyclic_subset) (use depends_detach [of p g] in blast)
  then show ?thesis
    using assms(2) dag_replay_events [OF assms(1), of drs 1 events]
    by (simp add: wipe_and_rebuild_def write_work_def dag_safe_def split: option.split)
qed

text \<open>C28. No sequence of replayed events, however it ends, and no rebuild makes a cycle of two or
  more claims in the dependency graph: if no claim depends on a different claim that depends on it,
  this still holds afterwards, for a named proof.\<close>

theorem dependencies_stay_acyclic:
  assumes "p \<noteq> ''''" "acyclic (depends g - Id)"
  shows "acyclic (depends (snd (replay_events drs i p events g)) - Id) \<and>
    acyclic (depends (snd (wipe_and_rebuild drs p events g)) - Id)"
  using dag_replay_events [OF assms(1), of drs i events] dag_wipe_and_rebuild [OF assms] assms(2)
  by (simp add: dag_safe_def)

definition claim_event :: "string \<Rightarrow> string \<Rightarrow> fields" where
  "claim_event evt i = [(''type'', PStr ''claim_added''), (''id'', PStr evt),
     (''payload'', PDict [(''claim'', PDict [(''id'', PStr i), (''statement'', PStr ''x'')])])]"

definition needs_event :: "string \<Rightarrow> string \<Rightarrow> string \<Rightarrow> fields" where
  "needs_event evt a b = [(''type'', PStr ''claim_dependency_added''), (''id'', PStr evt),
     (''payload'', PDict [(''dependent_claim_id'', PStr a), (''depends_on_claim_id'', PStr b)])]"

definition demo_drivers :: "nat \<Rightarrow> driver" where
  "demo_drivers i = demo_driver"

definition cyclic_events :: "fields list" where
  "cyclic_events = [claim_event ''e1'' ''a'', claim_event ''e2'' ''b'', needs_event ''e3'' ''a'' ''b'', needs_event ''e4'' ''b'' ''a'']"

text \<open>The last event of \<open>cyclic_events\<close> is refused.\<close>

theorem dependencies_stay_acyclic_witness:
  "fst (wipe_and_rebuild demo_drivers ''p'' cyclic_events empty_graph) = Inl (Raised ValueError) \<and>
   rel_steps (snd (wipe_and_rebuild demo_drivers ''p'' cyclic_events empty_graph)) ''DEPENDS_ON'' =
     [((''Claim'', ''p'', ''a''), (''Claim'', ''p'', ''b''))] \<and>
   acyclic (depends (snd (wipe_and_rebuild demo_drivers ''p'' cyclic_events empty_graph)) - Id)"
proof (intro conjI)
  show "fst (wipe_and_rebuild demo_drivers ''p'' cyclic_events empty_graph) = Inl (Raised ValueError)" by code_simp
  show "rel_steps (snd (wipe_and_rebuild demo_drivers ''p'' cyclic_events empty_graph)) ''DEPENDS_ON'' =
     [((''Claim'', ''p'', ''a''), (''Claim'', ''p'', ''b''))]" by code_simp
  have "acyclic (depends empty_graph - Id)" by (simp add: rel_steps_def empty_graph_def acyclic_def)
  then show "acyclic (depends (snd (wipe_and_rebuild demo_drivers ''p'' cyclic_events empty_graph)) - Id)"
    using dependencies_stay_acyclic [of "''p''"] by simp
qed

text \<open>A claim may depend on itself: the check looks for a path of existing edges only.\<close>

lemma self_dependency_accepted:
  "replay_events demo_drivers 0 ''p'' [claim_event ''e1'' ''a'', needs_event ''e2'' ''a'' ''a''] empty_graph =
     (Inr (), snd (replay_events demo_drivers 0 ''p'' [claim_event ''e1'' ''a'', needs_event ''e2'' ''a'' ''a''] empty_graph)) \<and>
   rel_steps (snd (replay_events demo_drivers 0 ''p'' [claim_event ''e1'' ''a'', needs_event ''e2'' ''a'' ''a''] empty_graph))
     ''DEPENDS_ON'' = [((''Claim'', ''p'', ''a''), (''Claim'', ''p'', ''a''))]"
  by code_simp

text \<open>The rebuild theorem at the same events.\<close>

theorem rebuild_depends_on_events_only_witness:
  "wipe_and_rebuild demo_drivers ''p'' cyclic_events
       (snd (wipe_and_rebuild demo_drivers ''p'' cyclic_events claim_graph)) =
     wipe_and_rebuild demo_drivers ''p'' cyclic_events claim_graph \<and>
   gr_nodes (snd (wipe_and_rebuild demo_drivers ''p'' cyclic_events claim_graph)) =
     gr_nodes (snd (wipe_and_rebuild demo_drivers ''p'' cyclic_events empty_graph))"
proof -
  have "dr_failure (demo_drivers 0) = None" by (simp add: demo_drivers_def demo_driver_def)
  moreover have "filter (\<lambda>n. gn_proof n \<noteq> ''p'') (gr_nodes claim_graph) = []" by code_simp
  ultimately show ?thesis
    using rebuild_depends_on_events_only [of "''p''" demo_drivers cyclic_events
      "fst (wipe_and_rebuild demo_drivers ''p'' cyclic_events empty_graph)"
      "snd (wipe_and_rebuild demo_drivers ''p'' cyclic_events empty_graph)" claim_graph
      "fst (wipe_and_rebuild demo_drivers ''p'' cyclic_events claim_graph)"
      "snd (wipe_and_rebuild demo_drivers ''p'' cyclic_events claim_graph)"]
    by simp
qed

end
