(* ===== verification/Projector.thy ===== *)
theory Projector
  imports View Canon
begin

text \<open>
  The projection of a journal to atoms of the reasoning engine: \<^verbatim>\<open>src/mork/projector/core.py\<close> and
  \<^verbatim>\<open>src/mork/projector/writer.py\<close>.

  \<^item> \<open>sanitize_value\<close>, \<open>extract_proof_id\<close>, \<open>extract_local_id\<close>: the text of a value and the two
    halves of a node id.
  \<^item> \<open>collect_operation\<close>, \<open>infer_state_references\<close>, \<open>node_to_atoms\<close>, \<open>edge_to_atoms\<close>: the
    methods of the projector over its four fields; \<open>process_event_journal\<close>: its three passes.
  \<^item> \<open>safe_filename\<close>, \<open>journal_proof_id\<close>, \<open>project_journal_to_file\<close>: the writer; the file it writes
    is returned as a name and a text.

  \<^item> \<open>committed_fact\<close>: what the atoms of a committed graph should say, specified apart from the
    projector.

  The messages printed for ignored operations are left out. The text of a finite float is
  \<open>rt_float\<close> of the runtime; the text of a list or dictionary is outside the model.
\<close>

section \<open>Text\<close>

abbreviation quote_char :: char where
  "quote_char \<equiv> CHR 0x22"

definition quoted :: "string \<Rightarrow> string" where
  "quoted s = quote_char # s @ [quote_char]"

fun sanitize_value :: "runtime \<Rightarrow> pyval \<Rightarrow> py_exc + string" where
  "sanitize_value rt PNone = Inr (quoted [])"
| "sanitize_value rt (PBool b) = Inr (if b then ''true'' else ''false'')"
| "sanitize_value rt (PInt i) = Inr (int_str i)"
| "sanitize_value rt (PFloat f) = Inr (case f of
     Finite r \<Rightarrow> rt_float rt r | PosInf \<Rightarrow> ''inf'' | NegInf \<Rightarrow> ''-inf'' | NotANumber \<Rightarrow> ''nan'')"
| "sanitize_value rt (PStr s) =
     Inr (quoted (concat (map (\<lambda>c. if c = quote_char then [CHR 0x5C, quote_char] else [c]) s)))"
| "sanitize_value rt _ = Inl OutOfModel"

definition extract_proof_id :: "string \<Rightarrow> string" where
  "extract_proof_id node_id = (if CHR ''/'' \<in> set node_id then takeWhile (\<lambda>c. c \<noteq> CHR ''/'') node_id else node_id)"

definition extract_local_id :: "string \<Rightarrow> string" where
  "extract_local_id node_id = (if CHR ''/'' \<in> set node_id then tl (dropWhile (\<lambda>c. c \<noteq> CHR ''/'') node_id) else node_id)"

text \<open>\<^verbatim>\<open>!(add-atom &mork (name arg ...))\<close>\<close>

definition add_atom :: "string \<Rightarrow> string list \<Rightarrow> string" where
  "add_atom name args = ''!(add-atom &mork ('' @ name @ concat (map (\<lambda>a. '' '' @ a) args) @ ''))''"

section \<open>The projector\<close>

record proj_node =
  pn_label :: pyval
  pn_fields :: fields

record proj_edge =
  pe_rel :: pyval
  pe_src :: string
  pe_dst :: string
  pe_id :: string
  pe_fields :: fields

record projector =
  pj_nodes :: "(string \<times> proj_node) list"
  pj_edges :: "proj_edge list"
  pj_states :: "(string \<times> string) list"
  pj_removed :: "string set"

definition new_projector :: projector where
  "new_projector = \<lparr>pj_nodes = [], pj_edges = [], pj_states = [], pj_removed = {}\<rparr>"

definition collect_upsert :: "projector \<Rightarrow> fields \<Rightarrow> py_exc + projector" where
  "collect_upsert p raw =
     bind_res (get_str raw ''id'' '''') (\<lambda>n. bind_res (get_dict raw ''fields'') (\<lambda>fs.
       Inr (p\<lparr>pj_nodes := AList.update n \<lparr>pn_label = get_or raw ''label'' (PStr ''Node''), pn_fields = fs\<rparr> (pj_nodes p)\<rparr>)))"

definition collect_set_field :: "projector \<Rightarrow> fields \<Rightarrow> py_exc + projector" where
  "collect_set_field p raw =
     bind_res (get_str raw ''id'' '''') (\<lambda>n.
       case map_of (pj_nodes p) n of
         None \<Rightarrow> Inr p
       | Some nd \<Rightarrow> bind_res (get_str raw ''field'' '''') (\<lambda>k.
           Inr (p\<lparr>pj_nodes := AList.update n (nd\<lparr>pn_fields := AList.update k (dget raw ''value'') (pn_fields nd)\<rparr>) (pj_nodes p)\<rparr>)))"

definition collect_add_edge :: "projector \<Rightarrow> fields \<Rightarrow> py_exc + projector" where
  "collect_add_edge p raw =
     bind_res (get_str raw ''src'' '''') (\<lambda>s. bind_res (get_str raw ''dst'' '''') (\<lambda>d.
     bind_res (get_str raw ''edge_id'' '''') (\<lambda>e. bind_res (get_fields raw) (\<lambda>fs.
       Inr (p\<lparr>pj_edges := pj_edges p @
         [\<lparr>pe_rel = get_or raw ''rel'' (PStr ''RELATED''), pe_src = s, pe_dst = d, pe_id = e, pe_fields = fs\<rparr>]\<rparr>)))))"

definition collect_operation :: "projector \<Rightarrow> pyval \<Rightarrow> py_exc + projector" where
  "collect_operation p op' =
     bind_res (as_dict op') (\<lambda>raw.
       let t = get_or raw ''op'' (PStr '''') in
       if t = PStr ''upsert_node'' then collect_upsert p raw
       else if t = PStr ''set_field'' then collect_set_field p raw
       else if t = PStr ''add_edge'' then collect_add_edge p raw
       else if t = PStr ''remove_edge'' then
         bind_res (get_str raw ''edge_id'' '''') (\<lambda>e. Inr (p\<lparr>pj_removed := insert e (pj_removed p)\<rparr>))
       else Inr p)"

definition infer_edge :: "(string \<times> string) list \<Rightarrow> proj_edge \<Rightarrow> (string \<times> string) list" where
  "infer_edge m e =
     (if pe_rel e = PStr ''PROPOSES'' then AList.update (pe_dst e) (extract_local_id (pe_src e)) m
      else if pe_rel e = PStr ''ON_STATE'' then AList.update (pe_src e) (extract_local_id (pe_dst e)) m
      else m)"

definition infer_state_references :: "projector \<Rightarrow> projector" where
  "infer_state_references p = p\<lparr>pj_states := foldl infer_edge (pj_states p) (pj_edges p)\<rparr>"

definition field_atoms :: "runtime \<Rightarrow> string \<Rightarrow> string \<Rightarrow> string \<Rightarrow> fields \<Rightarrow> py_exc + string list" where
  "field_atoms rt name proof entity = collect (\<lambda>x.
     bind_res (sanitize_value rt (PStr (fst x))) (\<lambda>k. bind_res (sanitize_value rt (snd x)) (\<lambda>v.
       Inr [add_atom name [quoted proof, quoted entity, k, v]])))"

definition node_to_atoms :: "runtime \<Rightarrow> (string \<times> string) list \<Rightarrow> string \<Rightarrow> proj_node \<Rightarrow> py_exc + string list" where
  "node_to_atoms rt states n nd =
     (let proof = extract_proof_id n; loc = extract_local_id n in
      bind_res (sanitize_value rt (pn_label nd)) (\<lambda>label.
      bind_res (field_atoms rt ''field'' proof loc (pn_fields nd)) (\<lambda>fs.
        Inr ([add_atom ''node'' [quoted proof, quoted loc, label],
              add_atom ''layer'' [quoted proof, quoted loc, quoted ''committed'']] @
             (case map_of states n of None \<Rightarrow> []
              | Some s \<Rightarrow> [add_atom ''field'' [quoted proof, quoted loc, quoted ''state_id'', quoted s]]) @ fs))))"

definition edge_to_atoms :: "runtime \<Rightarrow> proj_edge \<Rightarrow> py_exc + string list" where
  "edge_to_atoms rt e =
     (let proof = extract_proof_id (pe_id e); loc = extract_local_id (pe_id e);
          src = extract_local_id (pe_src e); dst = extract_local_id (pe_dst e) in
      bind_res (sanitize_value rt (pe_rel e)) (\<lambda>rel.
      bind_res (field_atoms rt ''efield'' proof loc (pe_fields e)) (\<lambda>fs.
        Inr ([add_atom ''edge'' [quoted proof, quoted loc, rel, quoted src, quoted dst],
              add_atom ''rev-edge'' [quoted proof, quoted dst, rel, quoted src, quoted loc],
              add_atom ''layer'' [quoted proof, quoted (''edge:'' @ loc), quoted ''committed'']] @ fs))))"

text \<open>The events with their revisions, and the operations of one event.\<close>

definition event_revision :: "pyval \<Rightarrow> py_exc + (int \<times> fields) list" where
  "event_revision event =
     bind_res (as_dict event) (\<lambda>d. case get_or d ''revision'' (PInt 0) of
       PInt r \<Rightarrow> Inr [(r, d)] | _ \<Rightarrow> Inl OutOfModel)"

definition event_ops :: "fields \<Rightarrow> py_exc + pyval list" where
  "event_ops event = bind_res (as_dict (get_or event ''payload'' (PDict []))) (\<lambda>payload. get_list payload ''ops'')"

definition collect_event :: "projector \<Rightarrow> fields \<Rightarrow> py_exc + projector" where
  "collect_event p event = bind_res (event_ops event) (run collect_operation p)"

definition collect_journal :: "fields \<Rightarrow> py_exc + projector" where
  "collect_journal journal =
     bind_res (get_list journal ''events'') (\<lambda>events.
     bind_res (collect event_revision events) (\<lambda>keyed.
       run collect_event new_projector (map snd (sort_key fst keyed))))"

definition process_event_journal :: "runtime \<Rightarrow> fields \<Rightarrow> py_exc + string list" where
  "process_event_journal rt journal =
     bind_res (collect_journal journal) (\<lambda>q. let p = infer_state_references q in
       gen_append (collect (\<lambda>(n, nd). node_to_atoms rt (pj_states p) n nd) (pj_nodes p))
         (collect (\<lambda>e. if pe_id e \<in> pj_removed p then Inr [] else edge_to_atoms rt e) (pj_edges p)))"

definition project_event_journal :: "runtime \<Rightarrow> fields \<Rightarrow> py_exc + string list" where
  "project_event_journal rt journal = process_event_journal rt journal"

section \<open>The writer\<close>

fun join_lines :: "string list \<Rightarrow> string" where
  "join_lines [] = []"
| "join_lines [s] = s"
| "join_lines (s # ss) = s @ CHR 0x0A # join_lines ss"

definition generate_metta_file :: "string list \<Rightarrow> string" where
  "generate_metta_file commands = join_lines (
     ['';; Auto-generated MORK atoms from event journal'', '';;'', '';; Schema:'',
      '';;   (node <proof> <id> <label>)'',
      '';;   (field <proof> <id> <name> <value>)'',
      '';;   (edge <proof> <eid> <rel> <src> <dst>)'',
      '';;   (rev-edge <proof> <dst> <rel> <src> <eid>)'',
      '';;   (efield <proof> <eid> <name> <value>)'',
      '';;   (layer <proof> <entity> <kind>)'',
      [], ''!(mm2-exec &mork 1)'', []] @ commands)"

definition filename_char :: "char \<Rightarrow> bool" where
  "filename_char c \<longleftrightarrow>
     (let n = of_char c :: nat in
      65 \<le> n \<and> n \<le> 90 \<or> 97 \<le> n \<and> n \<le> 122 \<or> 48 \<le> n \<and> n \<le> 57) \<or> c \<in> {CHR ''.'', CHR ''_'', CHR ''-''}"

text \<open>\<^verbatim>\<open>re.sub(r"[^A-Za-z0-9._-]+", "_", name)\<close>\<close>

function squash :: "string \<Rightarrow> string" where
  "squash [] = []"
| "squash (c # cs) =
     (if filename_char c then c # squash cs else CHR ''_'' # squash (dropWhile (\<lambda>c. \<not> filename_char c) cs))"
  by pat_completeness auto

termination by (relation "measure length") (auto simp: le_imp_less_Suc length_dropWhile_le)

definition strip_char :: "char \<Rightarrow> string \<Rightarrow> string" where
  "strip_char x s = rev (dropWhile (\<lambda>c. c = x) (rev (dropWhile (\<lambda>c. c = x) s)))"

definition safe_filename :: "string \<Rightarrow> string" where
  "safe_filename name = (let s = strip_char (CHR ''_'') (squash name) in if s = [] then ''proof'' else s)"

definition first_truthy :: "pyval list \<Rightarrow> pyval" where
  "first_truthy vs = (case filter truthy vs of [] \<Rightarrow> PStr [] | v # _ \<Rightarrow> v)"

text \<open>The loops that look for a proof id in the operations; an empty one does not end the outer loop.\<close>

fun ops_proof_id :: "pyval list \<Rightarrow> py_exc + string" where
  "ops_proof_id [] = Inr []"
| "ops_proof_id (op' # ops') =
     bind_res (as_dict op') (\<lambda>raw. case first_truthy [dget raw ''id'', dget raw ''src'', dget raw ''dst''] of
       PStr n \<Rightarrow> if CHR ''/'' \<in> set n then Inr (extract_proof_id n) else ops_proof_id ops'
     | _ \<Rightarrow> Inl OutOfModel)"

fun events_proof_id :: "pyval list \<Rightarrow> py_exc + string" where
  "events_proof_id [] = Inl ValueError"
| "events_proof_id (event # events) =
     bind_res (as_dict event) (\<lambda>d. bind_res (event_ops d) (\<lambda>ops'. bind_res (ops_proof_id ops') (\<lambda>p.
       if p = [] then events_proof_id events else Inr p)))"

definition journal_proof_id :: "fields \<Rightarrow> py_exc + string" where
  "journal_proof_id journal =
     (if truthy (dget journal ''proof_id'')
      then (case dget journal ''proof_id'' of PStr p \<Rightarrow> Inr p | _ \<Rightarrow> Inl OutOfModel)
      else bind_res (get_list journal ''events'') events_proof_id)"

text \<open>The name and the text of the file.\<close>

definition project_journal_to_file :: "runtime \<Rightarrow> fields \<Rightarrow> py_exc + string \<times> string" where
  "project_journal_to_file rt journal =
     bind_res (journal_proof_id journal) (\<lambda>p.
     bind_res (project_event_journal rt journal) (\<lambda>commands.
       Inr (safe_filename p @ ''.metta'', generate_metta_file commands)))"

section \<open>Projecting a history of proposals\<close>

text \<open>The effect of a typed operation, and the journal of a list of accepted proposals.\<close>

definition node_of_rec :: "node_rec \<Rightarrow> proj_node" where
  "node_of_rec r = \<lparr>pn_label = PStr (nr_label r), pn_fields = nr_fields r\<rparr>"

definition edge_of_rec :: "edge_rec \<Rightarrow> proj_edge" where
  "edge_of_rec r = \<lparr>pe_rel = PStr (er_rel r), pe_src = er_src r, pe_dst = er_dst r, pe_id = er_id r, pe_fields = er_fields r\<rparr>"

fun collect_op :: "projector \<Rightarrow> op \<Rightarrow> projector" where
  "collect_op p (UpsertNode label n fs) =
     p\<lparr>pj_nodes := AList.update n \<lparr>pn_label = PStr label, pn_fields = fs\<rparr> (pj_nodes p)\<rparr>"
| "collect_op p (SetField label n field value prior) =
     (case map_of (pj_nodes p) n of None \<Rightarrow> p
      | Some nd \<Rightarrow> p\<lparr>pj_nodes := AList.update n (nd\<lparr>pn_fields := AList.update field value (pn_fields nd)\<rparr>) (pj_nodes p)\<rparr>)"
| "collect_op p (AddEdge rel src dst e fs) =
     p\<lparr>pj_edges := pj_edges p @ [\<lparr>pe_rel = PStr rel, pe_src = src, pe_dst = dst, pe_id = e, pe_fields = fs\<rparr>]\<rparr>"
| "collect_op p (RemoveEdge rel e) = p\<lparr>pj_removed := insert e (pj_removed p)\<rparr>"

definition event_of :: "int \<times> proposal \<Rightarrow> fields" where
  "event_of e = [(''revision'', PInt (fst e)), (''payload'', PDict (proposal_to_dict (snd e)))]"

definition journal_of :: "(int \<times> proposal) list \<Rightarrow> fields" where
  "journal_of es = [(''events'', PList (map (PDict \<circ> event_of) es))]"

definition history_ops :: "(int \<times> proposal) list \<Rightarrow> op list" where
  "history_ops es = concat (map (prop_ops \<circ> snd) (sort_key fst es))"

lemma collect_operation_op: "collect_operation p (PDict (op_to_dict x)) = Inr (collect_op p x)"
  by (cases x) (auto simp: collect_operation_def collect_upsert_def collect_set_field_def collect_add_edge_def
      get_or_def get_str_def get_dict_def get_fields_def Let_def dget_def split: option.split)

lemma run_collect_ops: "run collect_operation p (map (PDict \<circ> op_to_dict) xs) = Inr (foldl collect_op p xs)"
  by (induction xs arbitrary: p) (simp_all add: collect_operation_op)

lemma collect_event_of: "collect_event p (event_of e) = Inr (foldl collect_op p (prop_ops (snd e)))"
proof -
  have "event_ops (event_of e) = Inr (map (PDict \<circ> op_to_dict) (prop_ops (snd e)))"
    by (simp add: event_ops_def event_of_def get_or_def get_list_def proposal_to_dict_def)
  then show ?thesis by (simp add: collect_event_def run_collect_ops)
qed

lemma run_collect_events: "run collect_event p (map event_of es) = Inr (foldl collect_op p (concat (map (prop_ops \<circ> snd) es)))"
  by (induction es arbitrary: p) (simp_all add: collect_event_of)

lemma collect_revisions:
  "collect event_revision (map (PDict \<circ> event_of) es) = Inr (map (\<lambda>e. (fst e, event_of e)) es)"
  by (induction es) (simp_all add: event_revision_def event_of_def get_or_def gen_append_def)

lemma collect_journal_of: "collect_journal (journal_of es) = Inr (foldl collect_op new_projector (history_ops es))"
proof -
  have "map snd (sort_key fst (map (\<lambda>e. (fst e, event_of e)) es)) = map event_of (sort_key fst es)"
    by (simp add: sort_key_image comp_def)
  then show ?thesis
    using collect_revisions [of es]
    by (simp add: collect_journal_def journal_of_def get_list_def run_collect_events history_ops_def comp_def)
qed

text \<open>
  A history that creates every node and adds every edge id at most once, and adds no edge id after
  removing it; the sets are the nodes created and the edge ids named so far.
\<close>

fun fresh_ops :: "string set \<Rightarrow> string set \<Rightarrow> op list \<Rightarrow> bool" where
  "fresh_ops N E [] \<longleftrightarrow> True"
| "fresh_ops N E (UpsertNode label n fs # xs) \<longleftrightarrow> n \<notin> N \<and> fresh_ops (insert n N) E xs"
| "fresh_ops N E (SetField label n field value prior # xs) \<longleftrightarrow> fresh_ops N E xs"
| "fresh_ops N E (AddEdge rel src dst e fs # xs) \<longleftrightarrow> e \<notin> E \<and> fresh_ops N (insert e E) xs"
| "fresh_ops N E (RemoveEdge rel e # xs) \<longleftrightarrow> fresh_ops N (insert e E) xs"

definition live_edges :: "projector \<Rightarrow> proj_edge list" where
  "live_edges p = filter (\<lambda>e. pe_id e \<notin> pj_removed p) (pj_edges p)"

text \<open>The projector beside the committed view, nodes and edges.\<close>

definition node_map :: "(string \<times> node_rec) list \<Rightarrow> (string \<times> proj_node) list" where
  "node_map xs = map (\<lambda>x. (fst x, node_of_rec (snd x))) xs"

definition nodes_mirror :: "string set \<Rightarrow> mem_view \<Rightarrow> projector \<Rightarrow> bool" where
  "nodes_mirror N v p \<longleftrightarrow> pj_nodes p = node_map (mv_nodes v) \<and> fst ` set (mv_nodes v) \<subseteq> N"

definition edges_mirror :: "string set \<Rightarrow> mem_view \<Rightarrow> projector \<Rightarrow> bool" where
  "edges_mirror E v p \<longleftrightarrow>
     (\<exists>rs. pj_edges p = map edge_of_rec rs \<and> distinct (map er_id rs) \<and>
        er_id ` set rs \<union> pj_removed p \<subseteq> E \<and>
        mv_edges v = map_of (map (\<lambda>r. (er_id r, r)) (filter (\<lambda>r. er_id r \<notin> pj_removed p) rs)))"

lemma node_map_update: "node_map (AList.update n r xs) = AList.update n (node_of_rec r) (node_map xs)"
  by (induction xs) (auto simp: node_map_def)

lemma map_of_node_map: "map_of (node_map xs) n = map_option node_of_rec (map_of xs n)"
  by (induction xs) (auto simp: node_map_def)

lemma id_edge_of_rec [simp]: "pe_id (edge_of_rec r) = er_id r"
  by (simp add: edge_of_rec_def)

lemma mirror_upsert:
  assumes "nodes_mirror N v p" "apply_op v (UpsertNode label n fs) = Inr w" "n \<notin> N"
  shows "nodes_mirror (insert n N) w (collect_op p (UpsertNode label n fs))" "mv_edges w = mv_edges v"
proof -
  have "mem_node v n = None"
    using assms(1,3) unfolding nodes_mirror_def mem_node_def map_of_eq_None_iff by blast
  then have w: "w = mem_add_node v n label fs" using assms(2) by simp
  show "nodes_mirror (insert n N) w (collect_op p (UpsertNode label n fs))" "mv_edges w = mv_edges v"
    using assms(1) by (auto simp: nodes_mirror_def w mem_add_node_def node_map_update node_of_rec_def dom_update)
qed

lemma mirror_set_field:
  assumes "nodes_mirror N v p" "apply_op v (SetField label n field value prior) = Inr w"
  shows "nodes_mirror N w (collect_op p (SetField label n field value prior))" "mv_edges w = mv_edges v"
proof -
  from assms(2) obtain r where r: "mem_node v n = Some r"
    and w: "w = mem_add_node v n (nr_label r) (AList.update field value (nr_fields r))"
    by (auto simp: mem_set_field_Inr split: option.splits)
  then have "n \<in> fst ` set (mv_nodes v)" by (simp add: mem_node_def map_of_SomeD weak_map_of_SomeI domI flip: dom_map_of_conv_image_fst)
  then show "nodes_mirror N w (collect_op p (SetField label n field value prior))" "mv_edges w = mv_edges v"
    using assms(1) r by (auto simp: nodes_mirror_def w mem_add_node_def node_map_update node_of_rec_def dom_update
        map_of_node_map mem_node_def)
qed

lemma mirror_add_edge:
  assumes "edges_mirror E v p" "apply_op v (AddEdge rel src dst e fs) = Inr w" "e \<notin> E"
  shows "edges_mirror (insert e E) w (collect_op p (AddEdge rel src dst e fs))" "mv_nodes w = mv_nodes v"
proof -
  let ?r = "\<lparr>er_id = e, er_rel = rel, er_src = src, er_dst = dst, er_fields = fs\<rparr>"
  from assms(1) obtain rs where rs: "pj_edges p = map edge_of_rec rs" "distinct (map er_id rs)"
    "er_id ` set rs \<union> pj_removed p \<subseteq> E"
    "mv_edges v = map_of (map (\<lambda>r. (er_id r, r)) (filter (\<lambda>r. er_id r \<notin> pj_removed p) rs))"
    by (auto simp: edges_mirror_def)
  have "mv_edges v e = None" using rs(3) assms(3) by (auto simp: rs(4) map_of_eq_None_iff)
  then have w: "w = mem_add_edge v rel src dst e fs" using assms(2) by (simp add: mem_edge_def)
  have "map_of (xs @ [(e, ?r)]) = (map_of xs)(e \<mapsto> ?r)" if "map_of xs e = None" for xs
    using that by (auto simp: fun_eq_iff map_add_def split: option.split)
  then have "mv_edges w = map_of (map (\<lambda>r. (er_id r, r)) (filter (\<lambda>r. er_id r \<notin> pj_removed p) (rs @ [?r])))"
    using rs(3) assms(3) \<open>mv_edges v e = None\<close> by (auto simp: w mem_add_edge_def rs(4))
  then show "edges_mirror (insert e E) w (collect_op p (AddEdge rel src dst e fs))"
    unfolding edges_mirror_def using rs(1-3) assms(3)
    by (intro exI [of _ "rs @ [?r]"]) (auto simp: edge_of_rec_def)
  show "mv_nodes w = mv_nodes v" by (simp add: w mem_add_edge_def)
qed

lemma mirror_remove_edge:
  assumes "edges_mirror E v p" "apply_op v (RemoveEdge rel e) = Inr w"
  shows "edges_mirror (insert e E) w (collect_op p (RemoveEdge rel e))" "mv_nodes w = mv_nodes v"
proof -
  from assms(1) obtain rs where rs: "pj_edges p = map edge_of_rec rs" "distinct (map er_id rs)"
    "er_id ` set rs \<union> pj_removed p \<subseteq> E"
    "mv_edges v = map_of (map (\<lambda>r. (er_id r, r)) (filter (\<lambda>r. er_id r \<notin> pj_removed p) rs))"
    by (auto simp: edges_mirror_def)
  have w: "mv_edges w = (mv_edges v)(e := None)" "mv_nodes w = mv_nodes v"
    using assms(2) by (auto simp: mem_remove_edge_def fun_eq_iff split: option.splits if_splits)
  have "map_of (map (\<lambda>r. (er_id r, r)) (filter (\<lambda>r. er_id r \<notin> insert e R) qs)) =
      (map_of (map (\<lambda>r. (er_id r, r)) (filter (\<lambda>r. er_id r \<notin> R) qs)))(e := None)" for R and qs :: "edge_rec list"
    by (induction qs) (auto simp: fun_eq_iff)
  then show "edges_mirror (insert e E) w (collect_op p (RemoveEdge rel e))"
    unfolding edges_mirror_def using rs(1-3) by (intro exI [of _ rs]) (auto simp: w(1) rs(4))
  show "mv_nodes w = mv_nodes v" by (rule w)
qed

lemma mirror_ops:
  assumes "nodes_mirror N v p" "edges_mirror E v p" "fresh_ops N E xs" "apply_ops v xs = Inr w"
  shows "\<exists>N' E'. nodes_mirror N' w (foldl collect_op p xs) \<and> edges_mirror E' w (foldl collect_op p xs)"
  using assms
proof (induction N E xs arbitrary: v p rule: fresh_ops.induct)
  case (2 N E label n fs xs)
  then obtain u where u: "apply_op v (UpsertNode label n fs) = Inr u" "apply_ops u xs = Inr w"
    by (auto split: sum.splits)
  have n: "n \<notin> N" "fresh_ops (insert n N) E xs" using "2.prems"(3) by simp_all
  note added = mirror_upsert [OF "2.prems"(1) u(1) n(1)]
  have "edges_mirror E u (collect_op p (UpsertNode label n fs))"
    using "2.prems"(2) added(2) by (simp add: edges_mirror_def)
  from "2.IH" [OF added(1) this n(2) u(2)] show ?case by simp
next
  case (3 N E label n field y prior xs)
  then obtain u where u: "apply_op v (SetField label n field y prior) = Inr u" "apply_ops u xs = Inr w"
    by (auto split: sum.splits)
  have "edges_mirror E u (collect_op p (SetField label n field y prior))"
    using 3 mirror_set_field(2) [OF "3.prems"(1) u(1)] by (simp add: edges_mirror_def split: option.split)
  with 3 u mirror_set_field(1) [OF "3.prems"(1) u(1)] show ?case by simp
next
  case (4 N E rel src dst e fs xs)
  then obtain u where u: "apply_op v (AddEdge rel src dst e fs) = Inr u" "apply_ops u xs = Inr w"
    by (auto split: sum.splits)
  have e: "e \<notin> E" "fresh_ops N (insert e E) xs" using "4.prems"(3) by simp_all
  note added = mirror_add_edge [OF "4.prems"(2) u(1) e(1)]
  have "nodes_mirror N u (collect_op p (AddEdge rel src dst e fs))"
    using "4.prems"(1) added(2) by (simp add: nodes_mirror_def)
  from "4.IH" [OF this added(1) e(2) u(2)] show ?case by simp
next
  case (5 N E rel e xs)
  then obtain u where u: "apply_op v (RemoveEdge rel e) = Inr u" "apply_ops u xs = Inr w"
    by (auto split: sum.splits)
  note removed = mirror_remove_edge [OF "5.prems"(2) u(1)]
  have "nodes_mirror N u (collect_op p (RemoveEdge rel e))"
    using "5.prems"(1) removed(2) by (simp add: nodes_mirror_def)
  from "5.IH" [OF this removed(1) _ u(2)] "5.prems"(3) show ?case by simp
qed auto

lemma collect_map: "collect f (map g xs) = collect (\<lambda>x. f (g x)) xs"
  by (induction xs) simp_all

lemma collect_skip: "collect (\<lambda>x. if P x then Inr [] else f x) xs = collect f (filter (\<lambda>x. \<not> P x) xs)"
  by (induction xs) (auto simp: gen_append_def split: sum.split)

text \<open>The state references of a history: from every edge it ever added.\<close>

definition states_of :: "op list \<Rightarrow> (string \<times> string) list" where
  "states_of xs = pj_states (infer_state_references (foldl collect_op new_projector xs))"

text \<open>The lists of atoms, up to the order of the edges.\<close>

lemma projection_lists:
  assumes "apply_ops empty_view (history_ops es) = Inr v" "fresh_ops {} {} (history_ops es)"
  shows "\<exists>rs. distinct (map er_id rs) \<and> (\<forall>r. r \<in> set rs \<longleftrightarrow> mv_edges v (er_id r) = Some r) \<and>
    project_event_journal rt (journal_of es) =
      gen_append (collect (\<lambda>x. node_to_atoms rt (states_of (history_ops es)) (fst x) (node_of_rec (snd x))) (mv_nodes v))
        (collect (\<lambda>r. edge_to_atoms rt (edge_of_rec r)) rs)"
proof -
  let ?p = "foldl collect_op new_projector (history_ops es)"
  have "nodes_mirror {} empty_view new_projector" "edges_mirror {} empty_view new_projector"
    by (simp_all add: nodes_mirror_def edges_mirror_def empty_view_def new_projector_def node_map_def)
  from mirror_ops [OF this assms(2,1)] obtain N E where "nodes_mirror N v ?p" "edges_mirror E v ?p" by blast
  then obtain rs where rs: "pj_nodes ?p = node_map (mv_nodes v)" "pj_edges ?p = map edge_of_rec rs"
      "distinct (map er_id rs)"
      "mv_edges v = map_of (map (\<lambda>r. (er_id r, r)) (filter (\<lambda>r. er_id r \<notin> pj_removed ?p) rs))"
    by (auto simp: nodes_mirror_def edges_mirror_def)
  let ?live = "filter (\<lambda>r. er_id r \<notin> pj_removed ?p) rs"
  have live: "distinct (map er_id ?live)" using rs(3) by (rule distinct_map_filter)
  have "distinct (map fst (map (\<lambda>r. (er_id r, r)) ?live))" using live by (simp add: comp_def)
  then have "r \<in> set ?live \<longleftrightarrow> mv_edges v (er_id r) = Some r" for r
    unfolding rs(4) by (subst map_of_eq_Some_iff) auto
  moreover have "project_event_journal rt (journal_of es) =
      gen_append (collect (\<lambda>x. node_to_atoms rt (states_of (history_ops es)) (fst x) (node_of_rec (snd x))) (mv_nodes v))
        (collect (\<lambda>r. edge_to_atoms rt (edge_of_rec r)) ?live)"
    by (simp add: project_event_journal_def process_event_journal_def collect_journal_of states_of_def
        infer_state_references_def rs(1,2) node_map_def collect_map collect_skip filter_map comp_def case_prod_unfold Let_def)
  ultimately show ?thesis using live by blast
qed

subsection \<open>What the atoms should say\<close>

text \<open>
  The specification, apart from the projector: the text of a value, the two halves of an id, the
  state a node refers to in a history, and the facts a committed graph gives. A removed edge still
  counts as a state reference (see \<open>stale_state_reference\<close>): the reference is the one of the last
  edge added that gives one.
\<close>

inductive escaped :: "string \<Rightarrow> string \<Rightarrow> bool" where
  "escaped [] []"
| "escaped s t \<Longrightarrow> escaped (quote_char # s) (CHR 0x5C # quote_char # t)"
| "escaped s t \<Longrightarrow> c \<noteq> quote_char \<Longrightarrow> escaped (c # s) (c # t)"

inductive shown :: "runtime \<Rightarrow> pyval \<Rightarrow> string \<Rightarrow> bool" for rt where
  "shown rt PNone [quote_char, quote_char]"
| "shown rt (PBool True) ''true''"
| "shown rt (PBool False) ''false''"
| "shown rt (PInt i) (int_str i)"
| "shown rt (PFloat (Finite r)) (rt_float rt r)"
| "shown rt (PFloat PosInf) ''inf''"
| "shown rt (PFloat NegInf) ''-inf''"
| "shown rt (PFloat NotANumber) ''nan''"
| "escaped s t \<Longrightarrow> shown rt (PStr s) (quote_char # t @ [quote_char])"

definition halves :: "string \<Rightarrow> string \<Rightarrow> string \<Rightarrow> bool" where
  "halves n p l \<longleftrightarrow> CHR ''/'' \<notin> set p \<and> (n = p @ CHR ''/'' # l \<or> n = p \<and> n = l)"

inductive refers_to_state :: "op \<Rightarrow> string \<Rightarrow> string \<Rightarrow> bool" where
  "refers_to_state (AddEdge ''PROPOSES'' s n e fs) n s"
| "refers_to_state (AddEdge ''ON_STATE'' n s e fs) n s"

definition state_reference :: "op list \<Rightarrow> string \<Rightarrow> string \<Rightarrow> bool" where
  "state_reference xs n s \<longleftrightarrow>
     (\<exists>before x after. xs = before @ x # after \<and> refers_to_state x n s \<and>
        (\<forall>y \<in> set after. \<forall>t. \<not> refers_to_state y n t))"

inductive committed_fact :: "runtime \<Rightarrow> op list \<Rightarrow> mem_view \<Rightarrow> string \<Rightarrow> bool" for rt xs v where
  node: "mem_node v n = Some r \<Longrightarrow> halves n p l \<Longrightarrow> shown rt (PStr (nr_label r)) t \<Longrightarrow>
     committed_fact rt xs v (add_atom ''node'' [quoted p, quoted l, t])"
| node_layer: "mem_node v n = Some r \<Longrightarrow> halves n p l \<Longrightarrow>
     committed_fact rt xs v (add_atom ''layer'' [quoted p, quoted l, quoted ''committed''])"
| node_field: "mem_node v n = Some r \<Longrightarrow> halves n p l \<Longrightarrow> (f, y) \<in> set (nr_fields r) \<Longrightarrow>
     shown rt (PStr f) k \<Longrightarrow> shown rt y t \<Longrightarrow>
     committed_fact rt xs v (add_atom ''field'' [quoted p, quoted l, k, t])"
| state: "mem_node v n = Some r \<Longrightarrow> halves n p l \<Longrightarrow> state_reference xs n s \<Longrightarrow> halves s q m \<Longrightarrow>
     committed_fact rt xs v (add_atom ''field'' [quoted p, quoted l, quoted ''state_id'', quoted m])"
| edge: "mv_edges v e = Some r \<Longrightarrow> halves e p l \<Longrightarrow> shown rt (PStr (er_rel r)) t \<Longrightarrow>
     halves (er_src r) ps src \<Longrightarrow> halves (er_dst r) pd dst \<Longrightarrow>
     committed_fact rt xs v (add_atom ''edge'' [quoted p, quoted l, t, quoted src, quoted dst])"
| rev_edge: "mv_edges v e = Some r \<Longrightarrow> halves e p l \<Longrightarrow> shown rt (PStr (er_rel r)) t \<Longrightarrow>
     halves (er_src r) ps src \<Longrightarrow> halves (er_dst r) pd dst \<Longrightarrow>
     committed_fact rt xs v (add_atom ''rev-edge'' [quoted p, quoted dst, t, quoted src, quoted l])"
| edge_layer: "mv_edges v e = Some r \<Longrightarrow> halves e p l \<Longrightarrow>
     committed_fact rt xs v (add_atom ''layer'' [quoted p, quoted (''edge:'' @ l), quoted ''committed''])"
| edge_field: "mv_edges v e = Some r \<Longrightarrow> halves e p l \<Longrightarrow> (f, y) \<in> set (er_fields r) \<Longrightarrow>
     shown rt (PStr f) k \<Longrightarrow> shown rt y t \<Longrightarrow>
     committed_fact rt xs v (add_atom ''efield'' [quoted p, quoted l, k, t])"

text \<open>The text of a list or a dictionary is outside the model.\<close>

definition compound :: "pyval \<Rightarrow> bool" where
  "compound y \<longleftrightarrow> (\<exists>ys. y = PList ys) \<or> (\<exists>d. y = PDict d)"

definition compound_value :: "mem_view \<Rightarrow> bool" where
  "compound_value v \<longleftrightarrow>
     (\<exists>n r f y. mem_node v n = Some r \<and> (f, y) \<in> set (nr_fields r) \<and> compound y) \<or>
     (\<exists>e r f y. mv_edges v e = Some r \<and> (f, y) \<in> set (er_fields r) \<and> compound y)"

inductive_simps escaped_simps: "escaped [] t" "escaped (c # s) t"

lemma escaped_iff:
  "escaped s t \<longleftrightarrow> t = concat (map (\<lambda>c. if c = quote_char then [CHR 0x5C, quote_char] else [c]) s)"
  by (induction s arbitrary: t) (auto simp: escaped_simps)

lemma shown_iff: "shown rt y t \<longleftrightarrow> sanitize_value rt y = Inr t"
proof (cases y)
  case (PFloat f)
  then show ?thesis by (cases f) (auto simp: shown.simps)
qed (auto simp: shown.simps escaped_iff quoted_def)

lemma sanitize_Inl: "sanitize_value rt y = Inl err \<longleftrightarrow> err = OutOfModel \<and> compound y"
  by (cases y) (auto simp: compound_def)

lemma extract_of_slash:
  assumes "CHR ''/'' \<notin> set p"
  shows "extract_proof_id (p @ CHR ''/'' # l) = p" "extract_local_id (p @ CHR ''/'' # l) = l"
proof -
  have other: "c \<noteq> CHR ''/''" if "c \<in> set p" for c using that assms by auto
  show "extract_proof_id (p @ CHR ''/'' # l) = p"
    by (simp add: extract_proof_id_def takeWhile_append2 [of p "\<lambda>c. c \<noteq> CHR ''/''", OF other])
  show "extract_local_id (p @ CHR ''/'' # l) = l"
    by (simp add: extract_local_id_def dropWhile_append2 [of p "\<lambda>c. c \<noteq> CHR ''/''", OF other])
qed

lemma halves_iff: "halves n p l \<longleftrightarrow> p = extract_proof_id n \<and> l = extract_local_id n"
proof (cases "CHR ''/'' \<in> set n")
  case True
  then obtain a b where n: "n = a @ CHR ''/'' # b" "CHR ''/'' \<notin> set a" by (metis split_list_first)
  have "halves n p l \<Longrightarrow> p = extract_proof_id n \<and> l = extract_local_id n"
    using True by (auto simp: halves_def extract_of_slash)
  then show ?thesis using n extract_of_slash [OF n(2), of b] by (auto simp: halves_def)
qed (auto simp: halves_def extract_proof_id_def extract_local_id_def)

subsection \<open>The atoms say it\<close>

lemma collected:
  assumes "collect f xs = Inr ys"
  shows "y \<in> set ys \<longleftrightarrow> (\<exists>x \<in> set xs. \<exists>zs. f x = Inr zs \<and> y \<in> set zs)"
    and "x \<in> set xs \<Longrightarrow> \<exists>zs. f x = Inr zs"
  using assms by (induction xs arbitrary: ys) (auto simp: gen_append_eq_Inr)

lemma not_collected: "collect f xs = Inl e \<Longrightarrow> \<exists>x \<in> set xs. f x = Inl e"
  by (induction xs) (auto simp: gen_append_def split: sum.splits)

lemma states_of_snoc:
  "states_of (xs @ [x]) =
     (case x of AddEdge rel s d e fs \<Rightarrow>
        if rel = ''PROPOSES'' then AList.update d (extract_local_id s) (states_of xs)
        else if rel = ''ON_STATE'' then AList.update s (extract_local_id d) (states_of xs) else states_of xs
      | _ \<Rightarrow> states_of xs)"
proof -
  have "pj_states (foldl collect_op new_projector ys) = []" for ys
  proof (induction ys rule: rev_induct)
    case (snoc y ys)
    then show ?case by (cases y) (auto split: option.split)
  qed (simp add: new_projector_def)
  then show ?thesis
    by (cases x) (auto simp: states_of_def infer_state_references_def infer_edge_def split: option.split)
qed

lemma state_reference_snoc:
  "state_reference (xs @ [x]) n s \<longleftrightarrow>
     refers_to_state x n s \<or> (\<forall>t. \<not> refers_to_state x n t) \<and> state_reference xs n s"
proof
  assume "state_reference (xs @ [x]) n s"
  then obtain before y after where y: "xs @ [x] = before @ y # after" "refers_to_state y n s"
    "\<forall>z \<in> set after. \<forall>t. \<not> refers_to_state z n t" unfolding state_reference_def by blast
  show "refers_to_state x n s \<or> (\<forall>t. \<not> refers_to_state x n t) \<and> state_reference xs n s"
  proof (cases after rule: rev_cases)
    case Nil
    then show ?thesis using y by simp
  next
    case (snoc zs z)
    then have "xs = before @ y # zs" "z = x" using y(1) by auto
    then show ?thesis using y snoc unfolding state_reference_def by fastforce
  qed
next
  assume r: "refers_to_state x n s \<or> (\<forall>t. \<not> refers_to_state x n t) \<and> state_reference xs n s"
  show "state_reference (xs @ [x]) n s"
  proof (cases "refers_to_state x n s")
    case True
    then show ?thesis unfolding state_reference_def by fastforce
  next
    case False
    with r obtain before y after where "xs = before @ y # after" "refers_to_state y n s"
      "\<forall>z \<in> set (after @ [x]). \<forall>t. \<not> refers_to_state z n t" unfolding state_reference_def by auto
    then show ?thesis unfolding state_reference_def by (metis append_assoc append_Cons)
  qed
qed

lemma states_of_refer:
  "map_of (states_of xs) n = Some l \<longleftrightarrow> (\<exists>s. state_reference xs n s \<and> l = extract_local_id s)"
proof (induction xs arbitrary: l rule: rev_induct)
  case Nil
  then show ?case by (simp add: state_reference_def states_of_def infer_state_references_def new_projector_def)
next
  case (snoc x xs)
  show ?case
    unfolding state_reference_snoc states_of_snoc
    by (cases x) (auto simp: refers_to_state.simps update_conv' snoc)
qed

lemma field_atoms_say:
  assumes "field_atoms rt name p l fs = Inr as"
  shows "a \<in> set as \<longleftrightarrow>
    (\<exists>f y k t. (f, y) \<in> set fs \<and> shown rt (PStr f) k \<and> shown rt y t \<and> a = add_atom name [quoted p, quoted l, k, t])"
  using collected(1) [OF assms [unfolded field_atoms_def], of a]
  by (fastforce simp: shown_iff bind_res_def split: sum.splits)

lemma field_atoms_fail:
  assumes "field_atoms rt name p l fs = Inl e"
  shows "e = OutOfModel \<and> (\<exists>f y. (f, y) \<in> set fs \<and> compound y)"
  using not_collected [OF assms [unfolded field_atoms_def]]
  by (fastforce simp: sanitize_Inl bind_res_def compound_def split: sum.splits)

definition node_fact :: "runtime \<Rightarrow> op list \<Rightarrow> string \<Rightarrow> node_rec \<Rightarrow> string \<Rightarrow> bool" where
  "node_fact rt xs n r a \<longleftrightarrow>
     (let p = extract_proof_id n; l = extract_local_id n in
      (\<exists>t. shown rt (PStr (nr_label r)) t \<and> a = add_atom ''node'' [quoted p, quoted l, t]) \<or>
      a = add_atom ''layer'' [quoted p, quoted l, quoted ''committed''] \<or>
      (\<exists>s. state_reference xs n s \<and>
         a = add_atom ''field'' [quoted p, quoted l, quoted ''state_id'', quoted (extract_local_id s)]) \<or>
      (\<exists>f y k t. (f, y) \<in> set (nr_fields r) \<and> shown rt (PStr f) k \<and> shown rt y t \<and>
         a = add_atom ''field'' [quoted p, quoted l, k, t]))"

definition edge_fact :: "runtime \<Rightarrow> string \<Rightarrow> edge_rec \<Rightarrow> string \<Rightarrow> bool" where
  "edge_fact rt e r a \<longleftrightarrow>
     (let p = extract_proof_id e; l = extract_local_id e;
          src = extract_local_id (er_src r); dst = extract_local_id (er_dst r) in
      (\<exists>t. shown rt (PStr (er_rel r)) t \<and>
         (a = add_atom ''edge'' [quoted p, quoted l, t, quoted src, quoted dst] \<or>
          a = add_atom ''rev-edge'' [quoted p, quoted dst, t, quoted src, quoted l])) \<or>
      a = add_atom ''layer'' [quoted p, quoted (''edge:'' @ l), quoted ''committed''] \<or>
      (\<exists>f y k t. (f, y) \<in> set (er_fields r) \<and> shown rt (PStr f) k \<and> shown rt y t \<and>
         a = add_atom ''efield'' [quoted p, quoted l, k, t]))"

lemma committed_fact_iff:
  "committed_fact rt xs v a \<longleftrightarrow>
     (\<exists>n r. mem_node v n = Some r \<and> node_fact rt xs n r a) \<or>
     (\<exists>e r. mv_edges v e = Some r \<and> edge_fact rt e r a)"
proof
  assume "committed_fact rt xs v a"
  then show "(\<exists>n r. mem_node v n = Some r \<and> node_fact rt xs n r a) \<or>
      (\<exists>e r. mv_edges v e = Some r \<and> edge_fact rt e r a)"
    by cases (simp_all add: node_fact_def edge_fact_def halves_iff Let_def; blast)+
next
  have own: "halves n (extract_proof_id n) (extract_local_id n)" for n by (simp add: halves_iff)
  assume "(\<exists>n r. mem_node v n = Some r \<and> node_fact rt xs n r a) \<or>
      (\<exists>e r. mv_edges v e = Some r \<and> edge_fact rt e r a)"
  then show "committed_fact rt xs v a"
  proof (elim disjE exE conjE)
    fix n r assume n: "mem_node v n = Some r" "node_fact rt xs n r a"
    note rules = committed_fact.node [OF n(1) own] committed_fact.node_layer [OF n(1) own]
      committed_fact.node_field [OF n(1) own] committed_fact.state [OF n(1) own _ own]
    from n(2) show ?thesis unfolding node_fact_def Let_def by (elim disjE exE conjE) (simp_all add: rules)
  next
    fix e r assume e: "mv_edges v e = Some r" "edge_fact rt e r a"
    note rules = committed_fact.edge [OF e(1) own _ own own] committed_fact.rev_edge [OF e(1) own _ own own]
      committed_fact.edge_layer [OF e(1) own] committed_fact.edge_field [OF e(1) own]
    from e(2) show ?thesis unfolding edge_fact_def Let_def by (elim disjE exE conjE) (simp_all only: rules)
  qed
qed

lemma node_atoms_say:
  assumes "node_to_atoms rt (states_of xs) n (node_of_rec r) = Inr as"
  shows "a \<in> set as \<longleftrightarrow> node_fact rt xs n r a"
proof -
  let ?p = "extract_proof_id n" and ?l = "extract_local_id n"
  obtain t fs where t: "sanitize_value rt (PStr (nr_label r)) = Inr t"
      "field_atoms rt ''field'' ?p ?l (nr_fields r) = Inr fs"
    and as: "as = [add_atom ''node'' [quoted ?p, quoted ?l, t],
        add_atom ''layer'' [quoted ?p, quoted ?l, quoted ''committed'']] @
        (case map_of (states_of xs) n of None \<Rightarrow> []
         | Some s \<Rightarrow> [add_atom ''field'' [quoted ?p, quoted ?l, quoted ''state_id'', quoted s]]) @ fs"
    using assms by (auto simp: node_to_atoms_def node_of_rec_def Let_def bind_res_def split: sum.splits)
  have refs: "a \<in> set (case map_of (states_of xs) n of None \<Rightarrow> [] | Some s \<Rightarrow> [F s]) \<longleftrightarrow>
      (\<exists>s. state_reference xs n s \<and> a = F (extract_local_id s))" for F :: "string \<Rightarrow> string"
  proof (cases "map_of (states_of xs) n")
    case None
    then have "\<not> state_reference xs n s" for s
      using states_of_refer [of xs n "extract_local_id s"] by auto
    then show ?thesis using None by simp
  next
    case (Some l)
    have "\<exists>s. state_reference xs n s" using Some states_of_refer [of xs n l] by blast
    moreover have "extract_local_id s = l" if "state_reference xs n s" for s
      using that Some states_of_refer [of xs n "extract_local_id s"] by auto
    ultimately show ?thesis using Some by auto
  qed
  have label: "shown rt (PStr (nr_label r)) u \<longleftrightarrow> u = t" for u unfolding shown_iff t(1) by auto
  show ?thesis
    unfolding as node_fact_def Let_def label set_append Un_iff refs field_atoms_say [OF t(2)] by auto
qed

lemma edge_atoms_say:
  assumes "edge_to_atoms rt (edge_of_rec r) = Inr as"
  shows "a \<in> set as \<longleftrightarrow> edge_fact rt (er_id r) r a"
proof -
  let ?p = "extract_proof_id (er_id r)" and ?l = "extract_local_id (er_id r)"
    and ?src = "extract_local_id (er_src r)" and ?dst = "extract_local_id (er_dst r)"
  obtain t fs where t: "sanitize_value rt (PStr (er_rel r)) = Inr t"
      "field_atoms rt ''efield'' ?p ?l (er_fields r) = Inr fs"
    and as: "as = [add_atom ''edge'' [quoted ?p, quoted ?l, t, quoted ?src, quoted ?dst],
        add_atom ''rev-edge'' [quoted ?p, quoted ?dst, t, quoted ?src, quoted ?l],
        add_atom ''layer'' [quoted ?p, quoted (''edge:'' @ ?l), quoted ''committed'']] @ fs"
    using assms by (auto simp: edge_to_atoms_def edge_of_rec_def Let_def bind_res_def split: sum.splits)
  have label: "shown rt (PStr (er_rel r)) u \<longleftrightarrow> u = t" for u unfolding shown_iff t(1) by auto
  show ?thesis
    unfolding as edge_fact_def Let_def label set_append Un_iff field_atoms_say [OF t(2)] by auto
qed

lemma atoms_fail:
  "node_to_atoms rt m n (node_of_rec r) = Inl e \<Longrightarrow>
     e = OutOfModel \<and> (\<exists>f y. (f, y) \<in> set (nr_fields r) \<and> compound y)"
  "edge_to_atoms rt (edge_of_rec s) = Inl e \<Longrightarrow>
     e = OutOfModel \<and> (\<exists>f y. (f, y) \<in> set (er_fields s) \<and> compound y)"
  by (auto simp: node_to_atoms_def edge_to_atoms_def node_of_rec_def edge_of_rec_def Let_def bind_res_def
      split: sum.splits dest!: field_atoms_fail)

text \<open>C29. For a journal of accepted proposals, in any order of its events, whose operations create
  each node and edge id once and never re-add a removed edge id, the atoms projected are exactly the
  facts of the committed graph: label, layer and current fields of every committed node; forward,
  reverse, layer and field atoms of every committed edge and of no other; and, for a committed node,
  a state reference taken from the last PROPOSES or ON_STATE edge the history added for it, whether
  or not that edge is still there. The one failure is a list or dictionary among the values, whose
  text is outside the model.\<close>

theorem projection_mirrors_graph:
  assumes "apply_ops empty_view (history_ops es) = Inr v" "fresh_ops {} {} (history_ops es)"
  shows "case project_event_journal rt (journal_of es) of
      Inl e \<Rightarrow> e = OutOfModel \<and> compound_value v
    | Inr atoms \<Rightarrow> set atoms = {a. committed_fact rt (history_ops es) v a}"
proof -
  let ?xs = "history_ops es"
  let ?nodes = "collect (\<lambda>x. node_to_atoms rt (states_of ?xs) (fst x) (node_of_rec (snd x))) (mv_nodes v)"
  obtain rs where rs: "\<forall>r. r \<in> set rs \<longleftrightarrow> mv_edges v (er_id r) = Some r"
    and eq: "project_event_journal rt (journal_of es) =
      gen_append ?nodes (collect (\<lambda>r. edge_to_atoms rt (edge_of_rec r)) rs)"
    using projection_lists [OF assms] by blast
  have wf: "wf_view v" by (rule wf_apply_ops [OF wf_empty_view assms(1)])
  then have nodes: "(n, r) \<in> set (mv_nodes v) \<longleftrightarrow> mem_node v n = Some r" for n r
    by (simp add: mem_node_def wf_view_def)
  have ids: "mv_edges v e = Some r \<Longrightarrow> er_id r = e" for e r using wf by (simp add: wf_view_def)
  show ?thesis
  proof (cases "project_event_journal rt (journal_of es)")
    case (Inl e)
    then have "?nodes = Inl e \<or> collect (\<lambda>r. edge_to_atoms rt (edge_of_rec r)) rs = Inl e"
      unfolding eq gen_append_def by (auto split: sum.splits)
    then have "e = OutOfModel \<and> compound_value v"
      unfolding compound_value_def using rs nodes by (fastforce dest!: not_collected atoms_fail)
    then show ?thesis using Inl by simp
  next
    case (Inr atoms)
    then obtain as bs where "?nodes = Inr as" "collect (\<lambda>r. edge_to_atoms rt (edge_of_rec r)) rs = Inr bs"
      and atoms: "atoms = as @ bs" unfolding eq by (auto simp: gen_append_eq_Inr)
    note as = collected [OF this(1)] and bs = collected [OF this(2)]
    have "a \<in> set as \<longleftrightarrow> (\<exists>n r. mem_node v n = Some r \<and> node_fact rt ?xs n r a)" for a
    proof
      assume "a \<in> set as"
      then obtain n r zs where "(n, r) \<in> set (mv_nodes v)"
        "node_to_atoms rt (states_of ?xs) n (node_of_rec r) = Inr zs" "a \<in> set zs" unfolding as(1) by auto
      then show "\<exists>n r. mem_node v n = Some r \<and> node_fact rt ?xs n r a" using nodes node_atoms_say by blast
    next
      assume "\<exists>n r. mem_node v n = Some r \<and> node_fact rt ?xs n r a"
      then obtain n r where n: "(n, r) \<in> set (mv_nodes v)" "node_fact rt ?xs n r a" using nodes by blast
      with as(2) [OF n(1)] node_atoms_say show "a \<in> set as" unfolding as(1) by force
    qed
    moreover have "a \<in> set bs \<longleftrightarrow> (\<exists>e r. mv_edges v e = Some r \<and> edge_fact rt e r a)" for a
      unfolding bs(1) using bs(2) rs ids edge_atoms_say by metis
    ultimately show ?thesis using Inr by (auto simp: atoms committed_fact_iff)
  qed
qed

definition by_worker :: "op list \<Rightarrow> proposal" where
  "by_worker xs = \<lparr>prop_proof_id = ''p'', prop_actor = ''w'', prop_worker_class = ''explorer'', prop_ops = xs,
     prop_base_revision = None, prop_lease_id = None, prop_fencing_token = None\<rparr>"

text \<open>Two events, the later one first: a state and its move, then a new status and a removed edge.\<close>

definition demo_history :: "(int \<times> proposal) list" where
  "demo_history =
     [(2, by_worker [SetField ''State'' ''p/s-1'' ''status'' (PStr ''closed'') None, RemoveEdge ''RELATED_TO'' ''p/e-2'']),
      (1, by_worker [UpsertNode ''State'' ''p/s-1'' [(''status'', PStr ''open'')], UpsertNode ''Move'' ''p/m-1'' [],
         AddEdge ''PROPOSES'' ''p/s-1'' ''p/m-1'' ''p/e-1'' [], AddEdge ''RELATED_TO'' ''p/m-1'' ''p/s-1'' ''p/e-2'' []])]"

definition plain_runtime :: runtime where
  "plain_runtime = \<lparr>rt_sha256 = (\<lambda>s. s), rt_float = (\<lambda>r. ''0.0'')\<rparr>"

lemma demo_history_ops:
  "history_ops demo_history =
     [UpsertNode ''State'' ''p/s-1'' [(''status'', PStr ''open'')], UpsertNode ''Move'' ''p/m-1'' [],
      AddEdge ''PROPOSES'' ''p/s-1'' ''p/m-1'' ''p/e-1'' [], AddEdge ''RELATED_TO'' ''p/m-1'' ''p/s-1'' ''p/e-2'' [],
      SetField ''State'' ''p/s-1'' ''status'' (PStr ''closed'') None, RemoveEdge ''RELATED_TO'' ''p/e-2'']"
  by (simp add: history_ops_def demo_history_def by_worker_def)

theorem projection_mirrors_graph_witness:
  "\<exists>v atoms. apply_ops empty_view (history_ops demo_history) = Inr v \<and>
     project_event_journal plain_runtime (journal_of demo_history) = Inr atoms \<and> length atoms = 9 \<and>
     (\<forall>a \<in> set atoms. committed_fact plain_runtime (history_ops demo_history) v a)"
proof -
  obtain v where v: "apply_ops empty_view (history_ops demo_history) = Inr v"
    unfolding demo_history_ops by (simp add: mem_node_def mem_edge_def empty_view_def mem_add_node_def
      mem_add_edge_def mem_set_field_def mem_remove_edge_def)
  have fresh: "fresh_ops {} {} (history_ops demo_history)" by (simp add: demo_history_ops)
  have "map_sum id length (project_event_journal plain_runtime (journal_of demo_history)) = Inr 9" by code_simp
  then obtain atoms where atoms: "project_event_journal plain_runtime (journal_of demo_history) = Inr atoms"
      "length atoms = 9" by (cases "project_event_journal plain_runtime (journal_of demo_history)") (simp_all only: map_sum.simps sum.distinct sum.inject)
  from projection_mirrors_graph [OF v fresh, of plain_runtime] v atoms show ?thesis by auto
qed

section \<open>File names\<close>

lemma squash_chars: "list_all filename_char (squash s)"
  by (induction s rule: squash.induct) (auto simp: filename_char_def)

lemma squash_id: "list_all filename_char s \<Longrightarrow> squash s = s"
  by (induction s) auto

lemma set_strip: "set (strip_char x s) \<subseteq> set s"
  by (auto simp: strip_char_def dest!: set_dropWhileD)

lemma strip_ends:
  assumes "strip_char x s \<noteq> []"
  shows "hd (strip_char x s) \<noteq> x" "last (strip_char x s) \<noteq> x"
proof -
  let ?P = "\<lambda>c. c = x" and ?t = "dropWhile (\<lambda>c. c = x) s"
  let ?d = "dropWhile ?P (rev ?t)"
  have d: "?d \<noteq> []" "strip_char x s = rev ?d" using assms by (simp_all add: strip_char_def)
  have "rev ?t = takeWhile ?P (rev ?t) @ ?d" by simp
  then have t: "?t = rev ?d @ rev (takeWhile ?P (rev ?t))" by (metis rev_append rev_rev_ident)
  moreover have "rev ?d \<noteq> []" using d(1) by simp
  ultimately have "hd ?t = hd (rev ?d)" by (metis hd_append2)
  moreover have "?t \<noteq> []" using d(1) by (metis dropWhile.simps(1) rev.simps(1))
  ultimately have "hd (rev ?d) \<noteq> x" using hd_dropWhile [of ?P s] by simp
  then show "hd (strip_char x s) \<noteq> x" by (simp add: d(2))
  show "last (strip_char x s) \<noteq> x" using hd_dropWhile [OF d(1)] by (simp add: d(2) last_rev)
qed

lemma strip_strip [simp]: "strip_char x (strip_char x s) = strip_char x s"
proof -
  let ?u = "strip_char x s"
  have "dropWhile (\<lambda>c. c = x) ?u = ?u" "dropWhile (\<lambda>c. c = x) (rev ?u) = rev ?u"
    unfolding dropWhile_eq_self_iff using strip_ends [of x s] by (auto simp: hd_rev)
  then show ?thesis by (subst strip_char_def) simp
qed

text \<open>The file name is not empty, has only letters, digits, dots, dashes and underscores (so it
  never names another directory), and making it safe again does not change it.\<close>

lemma file_names_are_safe:
  "safe_filename name \<noteq> [] \<and> list_all filename_char (safe_filename name) \<and> CHR ''/'' \<notin> set (safe_filename name) \<and>
   safe_filename (safe_filename name) = safe_filename name"
proof -
  let ?s = "strip_char (CHR ''_'') (squash name)"
  have chars: "list_all filename_char ?s"
    using squash_chars [of name] set_strip [of "CHR ''_''" "squash name"] by (auto simp: list_all_iff)
  have fallback: "list_all filename_char ''proof''" "safe_filename ''proof'' = ''proof''" by code_simp+
  have "safe_filename name = (if ?s = [] then ''proof'' else ?s)" by (simp only: safe_filename_def Let_def)
  then have "list_all filename_char (safe_filename name)" "safe_filename (safe_filename name) = safe_filename name"
    using chars fallback by (simp_all add: safe_filename_def squash_id Let_def)
  moreover have "safe_filename name \<noteq> []" by (simp add: safe_filename_def Let_def)
  moreover have "\<not> filename_char (CHR ''/'')" by code_simp
  ultimately show ?thesis by (auto simp: list_all_iff)
qed

text \<open>Two proofs can share a file, and the later projection replaces the earlier one.\<close>

lemma file_names_collide: "safe_filename ''a:b'' = safe_filename ''a_b''"
  by code_simp

section \<open>Where the projection and the graph part\<close>

definition atoms_of :: "op list \<Rightarrow> py_exc + string list" where
  "atoms_of xs = project_event_journal plain_runtime (journal_of [(1, by_worker xs)])"

text \<open>A removed edge still gives its state reference.\<close>

lemma stale_state_reference:
  "atoms_of [UpsertNode ''Move'' ''p/m-1'' [], AddEdge ''PROPOSES'' ''p/s-1'' ''p/m-1'' ''p/e-1'' [], RemoveEdge ''PROPOSES'' ''p/e-1''] =
   Inr [add_atom ''node'' [quoted ''p'', quoted ''m-1'', quoted ''Move''],
        add_atom ''layer'' [quoted ''p'', quoted ''m-1'', quoted ''committed''],
        add_atom ''field'' [quoted ''p'', quoted ''m-1'', quoted ''state_id'', quoted ''s-1'']]"
  by code_simp

text \<open>Creating a committed node again replaces its fields here, and changes nothing in the graph.\<close>

lemma second_upsert_wins:
  "atoms_of [UpsertNode ''Move'' ''p/m-1'' [(''status'', PStr ''queued'')], UpsertNode ''Move'' ''p/m-1'' []] =
   atoms_of [UpsertNode ''Move'' ''p/m-1'' []]"
  by code_simp

text \<open>An edge id that was removed once stays hidden.\<close>

lemma re_added_edge_hidden:
  "atoms_of [AddEdge ''BYPASSES'' ''p/m-1'' ''p/s-1'' ''p/e-1'' [], RemoveEdge ''BYPASSES'' ''p/e-1'',
             AddEdge ''BYPASSES'' ''p/m-1'' ''p/s-1'' ''p/e-1'' []] = Inr []"
  by code_simp

text \<open>A backslash is not escaped, so a value that ends in one escapes its closing quote.\<close>

lemma backslash_not_escaped: "sanitize_value rt (PStr [CHR 0x5C]) = Inr [quote_char, CHR 0x5C, quote_char]"
  by (simp add: quoted_def)

end
