(* ===== verification/Soundness.thy ===== *)
theory Soundness
  imports Ops Vocab
begin

text \<open>
  Structural validation of formal-search results, \<^verbatim>\<open>src/src/mathproof/soundness.py\<close>. A result is a
  decoded JSON object; reading an attribute of a value that is no object raises, as in the
  source. Findings carry their reason and pointer; the human-readable detail is left out.
\<close>

section \<open>Reading a payload\<close>

text \<open>\<^verbatim>\<open>for x in d.get(k) or []\<close>.\<close>

fun items_of :: "pyval \<Rightarrow> py_exc + pyval list" where
  "items_of (PList xs) = Inr xs"
| "items_of (PDict d) = Inr (map (\<lambda>x. PStr (fst x)) d)"
| "items_of (PStr s) = Inr (map (\<lambda>c. PStr [c]) s)"
| "items_of _ = Inl TypeError"

definition items_or_empty :: "fields \<Rightarrow> string \<Rightarrow> py_exc + pyval list" where
  "items_or_empty d k = (if truthy (dget d k) then items_of (dget d k) else Inr [])"

text \<open>The objects of such a sequence, with their index.\<close>

definition each_object :: "fields \<Rightarrow> string \<Rightarrow> (nat \<Rightarrow> fields \<Rightarrow> 'a gen) \<Rightarrow> 'a gen" where
  "each_object d k body =
     (case items_or_empty d k of
        Inl e \<Rightarrow> Inl e
      | Inr xs \<Rightarrow> collect (\<lambda>(i, x). bind_res (as_dict x) (body i)) (List.enumerate 0 xs))"

definition is_in :: "pyval \<Rightarrow> pyval list \<Rightarrow> bool" where
  "is_in x xs \<longleftrightarrow> list_ex (py_eq x) xs"

text \<open>Membership in a set of hashable values raises for an unhashable one.\<close>

definition in_set :: "pyval \<Rightarrow> pyval list \<Rightarrow> py_exc + bool" where
  "in_set x xs = (if hashable x then Inr (is_in x xs) else Inl TypeError)"

fun all_res :: "('a \<Rightarrow> py_exc + 'b) \<Rightarrow> 'a list \<Rightarrow> py_exc + 'b list" where
  "all_res f [] = Inr []"
| "all_res f (x # xs) = bind_res (f x) (\<lambda>y. bind_res (all_res f xs) (\<lambda>ys. Inr (y # ys)))"

definition hashed :: "pyval \<Rightarrow> py_exc + pyval" where
  "hashed v = (if hashable v then Inr v else Inl TypeError)"

section \<open>Findings\<close>

datatype soundness_reason =
    SUBGOAL_COUNT_MISMATCH | OMITTED_SUBGOAL | DUPLICATED_SUBGOAL | UNKNOWN_CHILD_STATE
  | EXECUTOR_FAILURE_AS_SUCCESS | CLOSURE_WITHOUT_ZERO_GOALS | HEURISTIC_CLOSURE_ATTEMPT
  | NON_KERNEL_CLOSURE | SCORE_AS_TRUTH | MISSING_ENVIRONMENT_HASH | MALFORMED_ENVIRONMENT_HASH
  | OBSTRUCTION_ENVIRONMENT_MISMATCH | CERTIFICATE_REQUIRED | PROMOTION_WITHOUT_REPLAY
  | REPLAY_ENVIRONMENT_MISMATCH | ENVIRONMENT_STALE

fun soundness_value :: "soundness_reason \<Rightarrow> string" where
  "soundness_value SUBGOAL_COUNT_MISMATCH = ''subgoal-count-mismatch''"
| "soundness_value OMITTED_SUBGOAL = ''omitted-subgoal''"
| "soundness_value DUPLICATED_SUBGOAL = ''duplicated-subgoal''"
| "soundness_value UNKNOWN_CHILD_STATE = ''unknown-child-state''"
| "soundness_value EXECUTOR_FAILURE_AS_SUCCESS = ''executor-failure-as-success''"
| "soundness_value CLOSURE_WITHOUT_ZERO_GOALS = ''closure-without-zero-goals''"
| "soundness_value HEURISTIC_CLOSURE_ATTEMPT = ''heuristic-closure-attempt''"
| "soundness_value NON_KERNEL_CLOSURE = ''non-kernel-closure''"
| "soundness_value SCORE_AS_TRUTH = ''score-as-truth''"
| "soundness_value MISSING_ENVIRONMENT_HASH = ''missing-environment-hash''"
| "soundness_value MALFORMED_ENVIRONMENT_HASH = ''malformed-environment-hash''"
| "soundness_value OBSTRUCTION_ENVIRONMENT_MISMATCH = ''obstruction-environment-mismatch''"
| "soundness_value CERTIFICATE_REQUIRED = ''certificate-required''"
| "soundness_value PROMOTION_WITHOUT_REPLAY = ''promotion-without-replay''"
| "soundness_value REPLAY_ENVIRONMENT_MISMATCH = ''replay-environment-mismatch''"
| "soundness_value ENVIRONMENT_STALE = ''environment-stale''"

record violation =
  vi_reason :: soundness_reason
  vi_pointer :: string

definition violation :: "soundness_reason \<Rightarrow> string \<Rightarrow> violation" where
  "violation r p = \<lparr>vi_reason = r, vi_pointer = p\<rparr>"

definition violation_counts :: "violation list \<Rightarrow> (string \<times> nat) list" where
  "violation_counts vs =
     foldl (\<lambda>d v. let k = soundness_value (vi_reason v)
       in AList.update k (case map_of d k of None \<Rightarrow> 1 | Some n \<Rightarrow> n + 1) d) [] vs"

section \<open>Environment\<close>

definition hex_lower :: "char \<Rightarrow> bool" where
  "hex_lower c \<longleftrightarrow> is_digit c \<or> c \<in> set ''abcdef''"

text \<open>The \<^verbatim>\<open>$\<close> of the pattern accepts a final line feed.\<close>

definition is_sha256 :: "string \<Rightarrow> bool" where
  "is_sha256 s \<longleftrightarrow>
     take 7 s = ''sha256:'' \<and>
     (length s = 71 \<or> length s = 72 \<and> last s = CHR 0x0A) \<and>
     list_all hex_lower (take 64 (drop 7 s))"

definition pointer :: "string \<Rightarrow> nat \<Rightarrow> string" where
  "pointer k i = k @ ''['' @ nat_str i @ '']''"

definition environment_value :: "pyval \<Rightarrow> pyval \<times> violation list" where
  "environment_value env =
     (case env of
        PNone \<Rightarrow> (env, [violation MISSING_ENVIRONMENT_HASH ''environment_hash''])
      | PStr s \<Rightarrow>
          if is_sha256 s then (env, [])
          else (PNone, [violation MALFORMED_ENVIRONMENT_HASH ''environment_hash''])
      | _ \<Rightarrow> (PNone, [violation MALFORMED_ENVIRONMENT_HASH ''environment_hash'']))"

definition check_environment :: "fields \<Rightarrow> violation gen" where
  "check_environment result =
     (let (env, found) = environment_value (dget result ''environment_hash'')
      in gen_append (Inr found)
        (each_object result ''obstructions'' (\<lambda>i obstruction.
           let observed = dget obstruction ''environment_hash''
           in Inr (if observed = PNone
                then [violation MISSING_ENVIRONMENT_HASH (pointer ''obstructions'' i)]
                else if \<not> py_eq observed env
                then [violation OBSTRUCTION_ENVIRONMENT_MISMATCH
                        (pointer ''obstructions'' i @ ''.environment_hash'')]
                else []))))"

section \<open>Tactic edges\<close>

fun is_int :: "pyval \<Rightarrow> bool" where
  "is_int (PInt _) = True"
| "is_int (PBool _) = True"
| "is_int _ = False"

definition state_ids :: "fields \<Rightarrow> py_exc + pyval list" where
  "state_ids result =
     bind_res (items_or_empty result ''states'') (\<lambda>xs.
       all_res (\<lambda>x. bind_res (as_dict x) (\<lambda>s. hashed (dget s ''state_id''))) xs)"

text \<open>\<^verbatim>\<open>{c for c in children if children.count(c) > 1}\<close>, one entry per value.\<close>

fun distinct_values :: "pyval list \<Rightarrow> pyval list" where
  "distinct_values [] = []"
| "distinct_values (x # xs) = x # filter (\<lambda>y. \<not> py_eq y x) (distinct_values xs)"

definition repeated :: "pyval list \<Rightarrow> pyval list" where
  "repeated xs = filter (\<lambda>x. 1 < length (filter (py_eq x) xs)) xs"

text \<open>
  \<^verbatim>\<open>edge.get("produced_goal_ids") or []\<close>: the source relies on a list (or nothing); another
  kind of truthy value is outside the model.
\<close>

definition produced_goals :: "fields \<Rightarrow> py_exc + pyval list" where
  "produced_goals edge =
     (if \<not> truthy (dget edge ''produced_goal_ids'') then Inr []
      else case dget edge ''produced_goal_ids'' of PList xs \<Rightarrow> Inr xs | _ \<Rightarrow> Inl OutOfModel)"

definition check_tactic_edge :: "pyval list \<Rightarrow> nat \<Rightarrow> fields \<Rightarrow> violation gen" where
  "check_tactic_edge states i edge =
     bind_res (produced_goals edge) (\<lambda>children.
       let declared = dget edge ''subgoal_count''; place = pointer ''tactic_edges'' i
       in if \<not> is_int declared then Inr [violation SUBGOAL_COUNT_MISMATCH place]
          else if \<not> py_eq declared (PInt (int (length children))) then Inr [violation OMITTED_SUBGOAL place]
          else bind_res (all_res hashed (repeated children)) (\<lambda>duplicated.
            if duplicated \<noteq> []
            then bind_res (py_sorted (distinct_values duplicated)) (\<lambda>_. Inr [violation DUPLICATED_SUBGOAL place])
            else bind_res (all_res (\<lambda>c. in_set c states) children) (\<lambda>known.
              if False \<in> set known then Inr [violation UNKNOWN_CHILD_STATE place]
              else if (case dget edge ''tactic_label'' of PStr s \<Rightarrow> s \<in> set NON_KERNEL_TACTICS | _ \<Rightarrow> False) \<and>
                py_eq (dget edge ''executor_result'') (PStr ''lean-accepted'')
              then Inr [violation NON_KERNEL_CLOSURE place]
              else Inr [])))"

definition check_tactic_edges :: "fields \<Rightarrow> violation gen" where
  "check_tactic_edges result =
     bind_res (state_ids result) (\<lambda>states.
       each_object result ''tactic_edges'' (check_tactic_edge states))"

section \<open>Closures and scores\<close>

definition TRUTH_LIKE_ANNOTATIONS :: "string list" where
  "TRUTH_LIKE_ANNOTATIONS = [''truth'', ''is_true'', ''proved'', ''valid'', ''certainty_of_truth'']"

definition accepts_leaf :: "fields \<Rightarrow> bool" where
  "accepts_leaf edge \<longleftrightarrow>
     py_eq (dget edge ''executor_result'') (PStr ''lean-accepted'') \<and>
     py_eq (dget edge ''subgoal_count'') (PInt 0)"

definition closing_states :: "fields \<Rightarrow> py_exc + pyval list" where
  "closing_states result =
     each_object result ''tactic_edges'' (\<lambda>i edge.
       if accepts_leaf edge then bind_res (hashed (dget edge ''source_state_id'')) (\<lambda>s. Inr [s]) else Inr [])"

fun first_status :: "pyval \<Rightarrow> pyval list \<Rightarrow> py_exc + pyval" where
  "first_status source [] = Inr PNone"
| "first_status source (x # xs) =
     bind_res (as_dict x) (\<lambda>s.
       if py_eq (dget s ''state_id'') source then Inr (dget s ''status'') else first_status source xs)"

definition check_failed_edge :: "fields \<Rightarrow> nat \<Rightarrow> fields \<Rightarrow> violation gen" where
  "check_failed_edge result i edge =
     bind_res (py_in (dget edge ''executor_result'') TERMINAL_EXECUTOR_FAILURES) (\<lambda>failed.
       if failed \<and> py_eq (dget edge ''subgoal_count'') (PInt 0)
       then bind_res (items_or_empty result ''states'') (\<lambda>states.
              bind_res (first_status (dget edge ''source_state_id'') states) (\<lambda>status.
                Inr (if py_eq status (PStr ''formally-closed'')
                     then [violation EXECUTOR_FAILURE_AS_SUCCESS (pointer ''tactic_edges'' i)] else [])))
       else Inr [])"

definition annotation_names :: "fields \<Rightarrow> py_exc + pyval list" where
  "annotation_names state =
     bind_res (items_or_empty state ''annotations'') (all_res hashed)"

definition check_state :: "pyval list \<Rightarrow> nat \<Rightarrow> fields \<Rightarrow> violation gen" where
  "check_state closing i state =
     bind_res (annotation_names state) (\<lambda>names.
       let place = pointer ''states'' i;
           scored = (if list_ex (\<lambda>k. is_in (PStr k) names) TRUTH_LIKE_ANNOTATIONS
                     then [violation SCORE_AS_TRUTH (place @ ''.annotations'')] else []);
           status = dget state ''status''
       in if py_eq status (PStr ''formally-closed'') \<or> py_eq status (PStr ''lean-verified'')
          then bind_res (key_val state ''state_id'') (\<lambda>sid.
                 bind_res (in_set sid closing) (\<lambda>closed.
                   Inr (scored @ (if closed then []
                                  else [violation HEURISTIC_CLOSURE_ATTEMPT (place @ ''.status'')]))))
          else Inr scored)"

definition check_closure_and_scores :: "fields \<Rightarrow> violation gen" where
  "check_closure_and_scores result =
     bind_res (closing_states result) (\<lambda>closing.
       gen_append (each_object result ''tactic_edges'' (check_failed_edge result))
         (each_object result ''states'' (check_state closing)))"

section \<open>Certificates\<close>

definition check_certificate_replay_binding :: "fields \<Rightarrow> violation gen" where
  "check_certificate_replay_binding result =
     (let certificate = dget result ''certificate'';
          required = (if py_eq (dget result ''disposition'') (PStr ''proved-pending-replay'') \<and>
                         \<not> truthy certificate
                      then [violation CERTIFICATE_REQUIRED ''certificate''] else [])
      in if \<not> truthy certificate then Inr required
         else bind_res (as_dict certificate) (\<lambda>cert.
           let status = dget cert ''status''; replay = dget cert ''replay_result''
           in if \<not> (py_eq status (PStr ''replay-accepted'') \<or> py_eq status (PStr ''replay-rejected''))
              then Inr required
              else if \<not> truthy replay
              then Inr (required @ [violation PROMOTION_WITHOUT_REPLAY ''certificate.status''])
              else bind_res (as_dict replay) (\<lambda>rep.
                if \<not> py_eq (dget rep ''status'')
                     (PStr (if py_eq status (PStr ''replay-accepted'') then ''replay-accepted'' else ''rejected''))
                then Inr (required @ [violation PROMOTION_WITHOUT_REPLAY ''certificate.replay_result''])
                else let env = dget rep ''environment_hash''
                     in Inr (required @
                          (if env \<noteq> PNone \<and> \<not> py_eq env (dget result ''environment_hash'')
                           then [violation REPLAY_ENVIRONMENT_MISMATCH
                                   ''certificate.replay_result.environment_hash'']
                           else [])))))"

definition validate_formal_search_result :: "fields \<Rightarrow> violation gen" where
  "validate_formal_search_result result =
     gen_append (check_environment result)
    (gen_append (check_tactic_edges result)
    (gen_append (check_closure_and_scores result)
       (check_certificate_replay_binding result)))"

section \<open>Environment drift\<close>

fun check_environment_staleness :: "fields list \<Rightarrow> fields \<Rightarrow> violation option" where
  "check_environment_staleness [] candidate = None"
| "check_environment_staleness (prior # priors) candidate =
     (let declaration = dget candidate ''declaration_id''; env = dget prior ''environment_hash''
      in if declaration \<noteq> PNone \<and> \<not> py_eq (dget prior ''declaration_id'') declaration
         then check_environment_staleness priors candidate
         else if env \<noteq> PNone \<and> \<not> py_eq env (dget candidate ''environment_hash'')
         then Some (violation ENVIRONMENT_STALE ''environment_hash'')
         else check_environment_staleness priors candidate)"

section \<open>What a result without findings satisfies\<close>

lemmas res_cases = bind_res_def sum.case_eq_if

definition objects :: "fields \<Rightarrow> string \<Rightarrow> fields list" where
  "objects d k =
     (case items_or_empty d k of
        Inl _ \<Rightarrow> [] | Inr xs \<Rightarrow> List.map_filter (\<lambda>x. case x of PDict f \<Rightarrow> Some f | _ \<Rightarrow> None) xs)"

lemma bind_res_Inr: "bind_res r f = Inr y \<longleftrightarrow> (\<exists>x. r = Inr x \<and> f x = Inr y)"
  by (cases r) auto

lemma as_dict_Inr: "as_dict v = Inr d \<longleftrightarrow> v = PDict d"
  by (cases v) auto

lemma objects_member:
  assumes "items_or_empty d k = Inr xs"
  shows "f \<in> set (objects d k) \<longleftrightarrow> PDict f \<in> set xs"
proof -
  have "(case x of PDict f \<Rightarrow> Some f | _ \<Rightarrow> None) = Some f \<longleftrightarrow> x = PDict f" for x :: pyval
    by (cases x) simp_all
  then show ?thesis using assms by (simp add: objects_def map_filter_member)
qed

lemma each_object_clean:
  assumes "each_object d k body = Inr []" "f \<in> set (objects d k)"
  obtains i where "body i f = Inr []"
proof -
  obtain xs where xs: "items_or_empty d k = Inr xs"
    using assms(1) by (auto simp: each_object_def split: sum.splits)
  then have "PDict f \<in> set xs" using assms(2) objects_member by blast
  then obtain i where "(i, PDict f) \<in> set (List.enumerate 0 xs)" using in_enumerate by metis
  then have "bind_res (as_dict (PDict f)) (body i) = Inr []"
    using assms(1) xs by (fastforce simp: each_object_def collect_clean)
  then show thesis using that by simp
qed

lemma all_res_Inr: "all_res f xs = Inr ys \<longleftrightarrow> list_all2 (\<lambda>x y. f x = Inr y) xs ys"
  by (induction xs arbitrary: ys) (auto simp: bind_res_Inr list_all2_Cons1)

lemma state_ids_objects:
  assumes "state_ids result = Inr ids" "is_in c ids"
  shows "\<exists>s \<in> set (objects result ''states''). py_eq c (dget s ''state_id'')"
proof -
  obtain xs where xs: "items_or_empty result ''states'' = Inr xs"
    "list_all2 (\<lambda>x y. bind_res (as_dict x) (\<lambda>s. hashed (dget s ''state_id'')) = Inr y) xs ids"
    using assms(1) by (auto simp: state_ids_def bind_res_Inr all_res_Inr)
  obtain j where j: "j < length ids" "py_eq c (ids ! j)"
    using assms(2) by (auto simp: is_in_def list_ex_iff in_set_conv_nth)
  then have "j < length xs" "bind_res (as_dict (xs ! j)) (\<lambda>s. hashed (dget s ''state_id'')) = Inr (ids ! j)"
    using xs(2) by (auto simp: list_all2_conv_all_nth)
  then obtain s where "xs ! j = PDict s" "dget s ''state_id'' = ids ! j"
    by (auto simp: bind_res_Inr as_dict_Inr hashed_def split: if_splits)
  moreover have "xs ! j \<in> set xs" using \<open>j < length xs\<close> by simp
  ultimately show ?thesis using j(2) objects_member [OF xs(1)] by metis
qed

lemma collect_member: "collect g xs = Inr ys \<Longrightarrow> y \<in> set ys \<Longrightarrow> \<exists>x \<in> set xs. \<exists>zs. g x = Inr zs \<and> y \<in> set zs"
proof (induction xs arbitrary: ys)
  case (Cons x xs)
  then obtain zs ws where "g x = Inr zs" "collect g xs = Inr ws" "ys = zs @ ws"
    by (auto simp: gen_append_eq_Inr)
  then show ?case using Cons by fastforce
qed simp

lemma closing_states_objects:
  assumes "closing_states result = Inr closing" "s \<in> set closing"
  shows "\<exists>e \<in> set (objects result ''tactic_edges''). accepts_leaf e \<and> dget e ''source_state_id'' = s"
proof -
  obtain xs where xs: "items_or_empty result ''tactic_edges'' = Inr xs"
    using assms(1) by (auto simp: closing_states_def each_object_def split: sum.splits)
  then have "collect (\<lambda>(i, x). bind_res (as_dict x) (\<lambda>edge. if accepts_leaf edge
      then bind_res (hashed (dget edge ''source_state_id'')) (\<lambda>s. Inr [s]) else Inr [])) (List.enumerate 0 xs) = Inr closing"
    using assms(1) by (simp add: closing_states_def each_object_def)
  from collect_member [OF this assms(2)] obtain i x where x: "(i, x) \<in> set (List.enumerate 0 xs)"
    "\<exists>zs. bind_res (as_dict x) (\<lambda>edge. if accepts_leaf edge
      then bind_res (hashed (dget edge ''source_state_id'')) (\<lambda>s. Inr [s]) else Inr []) = Inr zs \<and> s \<in> set zs" by auto
  then obtain e where "x = PDict e" "accepts_leaf e" "dget e ''source_state_id'' = s"
    by (auto simp: bind_res_Inr as_dict_Inr hashed_def split: if_splits)
  then show ?thesis using objects_member [OF xs] enumerateD [OF x(1)] by metis
qed

lemma tactic_edge_clean:
  assumes "check_tactic_edge states i edge = Inr []"
  obtains children where "produced_goals edge = Inr children"
    "py_eq (dget edge ''subgoal_count'') (PInt (int (length children)))"
    "\<And>s. count_list children (PStr s) \<le> 1" "\<And>c. c \<in> set children \<Longrightarrow> is_in c states"
    "\<And>s. dget edge ''tactic_label'' = PStr s \<Longrightarrow> s \<in> set NON_KERNEL_TACTICS \<Longrightarrow>
       dget edge ''executor_result'' \<noteq> PStr ''lean-accepted''"
proof -
  obtain children where c: "produced_goals edge = Inr children"
    using assms by (auto simp: check_tactic_edge_def bind_res_Inr)
  let ?kernel = "\<not> ((case dget edge ''tactic_label'' of PStr s \<Rightarrow> s \<in> set NON_KERNEL_TACTICS | _ \<Rightarrow> False) \<and>
    py_eq (dget edge ''executor_result'') (PStr ''lean-accepted''))"
  have d: "py_eq (dget edge ''subgoal_count'') (PInt (int (length children)))"
    and r: "all_res hashed (repeated children) = Inr []"
    and k: "\<exists>known. all_res (\<lambda>c. in_set c states) children = Inr known \<and> False \<notin> set known \<and> ?kernel"
    using assms by (auto simp: check_tactic_edge_def c Let_def bind_res_Inr split: if_splits)
  show thesis
  proof (rule that [OF c d])
    fix s
    show "count_list children (PStr s) \<le> 1"
    proof (rule ccontr)
      assume "\<not> count_list children (PStr s) \<le> 1"
      moreover have "count_list children (PStr s) = length (filter (py_eq (PStr s)) children)"
        by (induction children) auto
      ultimately have "1 < length (filter (py_eq (PStr s)) children)" by simp
      moreover from this have "filter (py_eq (PStr s)) children \<noteq> []" by auto
      then have "PStr s \<in> set children" by (auto simp: filter_empty_conv)
      ultimately have "PStr s \<in> set (repeated children)" by (simp add: repeated_def)
      then show False using r by (auto simp: all_res_Inr)
    qed
  next
    fix c assume "c \<in> set children"
    then obtain j where j: "j < length children" "children ! j = c" by (auto simp: in_set_conv_nth)
    from k obtain known where "list_all2 (\<lambda>c y. in_set c states = Inr y) children known" "False \<notin> set known"
      by (auto simp: all_res_Inr)
    then have "in_set c states = Inr (known ! j)" "known ! j"
      using j by (auto simp: list_all2_conv_all_nth in_set_conv_nth)
    then show "is_in c states" by (simp add: in_set_def split: if_splits)
  next
    fix s assume "dget edge ''tactic_label'' = PStr s" "s \<in> set NON_KERNEL_TACTICS"
    then show "dget edge ''executor_result'' \<noteq> PStr ''lean-accepted''" using k by auto
  qed
qed

lemma check_state_clean:
  assumes "check_state closing i state = Inr []"
  shows "dget state ''status'' \<in> {PStr ''formally-closed'', PStr ''lean-verified''} \<Longrightarrow>
      \<exists>sid. map_of state ''state_id'' = Some sid \<and> is_in sid closing"
    and "dget state ''annotations'' = PDict ann \<Longrightarrow> k \<in> set TRUTH_LIKE_ANNOTATIONS \<Longrightarrow> k \<notin> fst ` set ann"
proof -
  obtain names where n: "annotation_names state = Inr names"
    using assms by (auto simp: check_state_def bind_res_Inr)
  have none: "\<not> list_ex (\<lambda>k. is_in (PStr k) names) TRUTH_LIKE_ANNOTATIONS"
    using assms by (auto simp: check_state_def n Let_def bind_res_Inr split: if_splits)
  {
    assume "dget state ''status'' \<in> {PStr ''formally-closed'', PStr ''lean-verified''}"
    then have "bind_res (key_val state ''state_id'') (\<lambda>sid. bind_res (in_set sid closing) (\<lambda>closed.
        Inr ([] @ (if closed then [] else [violation HEURISTIC_CLOSURE_ATTEMPT (pointer ''states'' i @ ''.status'')])))) =
        Inr []"
      using assms none by (auto simp: check_state_def n Let_def)
    then show "\<exists>sid. map_of state ''state_id'' = Some sid \<and> is_in sid closing"
      by (auto simp: bind_res_Inr key_val_def in_set_def split: option.splits if_splits)
  next
    assume a: "dget state ''annotations'' = PDict ann" and k: "k \<in> set TRUTH_LIKE_ANNOTATIONS"
    show "k \<notin> fst ` set ann"
    proof
      assume "k \<in> fst ` set ann"
      then have ne: "ann \<noteq> []" and m: "PStr k \<in> set (map (\<lambda>x. PStr (fst x)) ann)" by auto
      have "all_res hashed (map (\<lambda>x. PStr (fst x)) ann) = Inr names"
        using n a ne by (simp add: annotation_names_def items_or_empty_def)
      then have "names = map (\<lambda>x. PStr (fst x)) ann"
        by (auto simp: all_res_Inr hashed_def list_all2_conv_all_nth intro: nth_equalityI)
      then have "is_in (PStr k) names" using m by (auto simp: is_in_def list_ex_iff)
      then show False using none k by (auto simp: list_ex_iff)
    qed
  }
qed

lemma environment_clean:
  assumes "check_environment result = Inr []"
  obtains h where "dget result ''environment_hash'' = PStr h" "is_sha256 h"
    "\<And>o'. o' \<in> set (objects result ''obstructions'') \<Longrightarrow> dget o' ''environment_hash'' = PStr h"
proof -
  obtain h where h: "dget result ''environment_hash'' = PStr h" "is_sha256 h"
    using assms by (cases "dget result ''environment_hash''")
      (auto simp: check_environment_def environment_value_def gen_append_eq_Inr split: if_splits)
  show thesis
  proof (rule that [OF h])
    fix o' assume o': "o' \<in> set (objects result ''obstructions'')"
    have "each_object result ''obstructions'' (\<lambda>i obstruction.
       let observed = dget obstruction ''environment_hash''
       in Inr (if observed = PNone then [violation MISSING_ENVIRONMENT_HASH (pointer ''obstructions'' i)]
            else if \<not> py_eq observed (PStr h)
            then [violation OBSTRUCTION_ENVIRONMENT_MISMATCH (pointer ''obstructions'' i @ ''.environment_hash'')]
            else [])) = Inr []"
      using assms h by (simp add: check_environment_def environment_value_def)
    then show "dget o' ''environment_hash'' = PStr h"
      by (rule each_object_clean [OF _ o']) (auto simp: Let_def split: if_splits)
  qed
qed

text \<open>C24. A formal-search result in which the validator finds nothing names a well-formed
  environment hash that all its obstructions share; every tactic edge lists as many goals as
  it declares, none twice and each among the reported states, and is accepted by Lean only
  under a kernel label; every state marked closed or verified is the source of an edge that
  Lean accepted with no goal left; and no state's annotations claim truth.\<close>

theorem validated_results_are_sound:
  assumes "validate_formal_search_result result = Inr []"
  shows "(\<exists>h. dget result ''environment_hash'' = PStr h \<and> is_sha256 h \<and>
       (\<forall>o' \<in> set (objects result ''obstructions''). dget o' ''environment_hash'' = PStr h)) \<and>
     (\<forall>edge \<in> set (objects result ''tactic_edges''). \<exists>children. produced_goals edge = Inr children \<and>
       py_eq (dget edge ''subgoal_count'') (PInt (int (length children))) \<and>
       (\<forall>s. count_list children (PStr s) \<le> 1) \<and>
       (\<forall>c \<in> set children. \<exists>state \<in> set (objects result ''states''). py_eq c (dget state ''state_id'')) \<and>
       (\<forall>label \<in> set NON_KERNEL_TACTICS. dget edge ''tactic_label'' = PStr label \<longrightarrow>
          dget edge ''executor_result'' \<noteq> PStr ''lean-accepted'')) \<and>
     (\<forall>state \<in> set (objects result ''states'').
       (dget state ''status'' \<in> {PStr ''formally-closed'', PStr ''lean-verified''} \<longrightarrow>
          (\<exists>edge \<in> set (objects result ''tactic_edges''). py_eq (dget state ''state_id'') (dget edge ''source_state_id'') \<and>
             dget edge ''executor_result'' = PStr ''lean-accepted'' \<and> produced_goals edge = Inr [])) \<and>
       (\<forall>ann. dget state ''annotations'' = PDict ann \<longrightarrow> fst ` set ann \<inter> set TRUTH_LIKE_ANNOTATIONS = {}))"
proof -
  have env: "check_environment result = Inr []" and edges: "check_tactic_edges result = Inr []"
    and states: "check_closure_and_scores result = Inr []"
    using assms by (simp_all add: validate_formal_search_result_def gen_append_clean)
  obtain ids where ids: "state_ids result = Inr ids"
    "each_object result ''tactic_edges'' (check_tactic_edge ids) = Inr []"
    using edges by (auto simp: check_tactic_edges_def bind_res_Inr)
  have edge: "\<exists>children. produced_goals e = Inr children \<and>
       py_eq (dget e ''subgoal_count'') (PInt (int (length children))) \<and>
       (\<forall>s. count_list children (PStr s) \<le> 1) \<and>
       (\<forall>c \<in> set children. \<exists>state \<in> set (objects result ''states''). py_eq c (dget state ''state_id'')) \<and>
       (\<forall>label \<in> set NON_KERNEL_TACTICS. dget e ''tactic_label'' = PStr label \<longrightarrow>
          dget e ''executor_result'' \<noteq> PStr ''lean-accepted'')"
    if e: "e \<in> set (objects result ''tactic_edges'')" for e
  proof -
    obtain i where "check_tactic_edge ids i e = Inr []" by (rule each_object_clean [OF ids(2) e])
    then show ?thesis by (rule tactic_edge_clean) (use state_ids_objects [OF ids(1)] in blast)
  qed
  obtain closing where closing: "closing_states result = Inr closing"
    "each_object result ''states'' (check_state closing) = Inr []"
    using states by (auto simp: check_closure_and_scores_def bind_res_Inr gen_append_clean)
  have state: "(dget s ''status'' \<in> {PStr ''formally-closed'', PStr ''lean-verified''} \<longrightarrow>
      (\<exists>e \<in> set (objects result ''tactic_edges''). py_eq (dget s ''state_id'') (dget e ''source_state_id'') \<and>
         dget e ''executor_result'' = PStr ''lean-accepted'' \<and> produced_goals e = Inr [])) \<and>
      (\<forall>ann. dget s ''annotations'' = PDict ann \<longrightarrow> fst ` set ann \<inter> set TRUTH_LIKE_ANNOTATIONS = {})"
    if s: "s \<in> set (objects result ''states'')" for s
  proof -
    obtain i where i: "check_state closing i s = Inr []" by (rule each_object_clean [OF closing(2) s])
    have "\<exists>e \<in> set (objects result ''tactic_edges''). py_eq (dget s ''state_id'') (dget e ''source_state_id'') \<and>
         dget e ''executor_result'' = PStr ''lean-accepted'' \<and> produced_goals e = Inr []"
      if st: "dget s ''status'' \<in> {PStr ''formally-closed'', PStr ''lean-verified''}"
    proof -
      obtain sid where sid: "map_of s ''state_id'' = Some sid" "is_in sid closing"
        using check_state_clean(1) [OF i st] by blast
      then obtain t where "t \<in> set closing" "py_eq sid t" by (auto simp: is_in_def list_ex_iff)
      with closing_states_objects [OF closing(1)] obtain e where
        e: "e \<in> set (objects result ''tactic_edges'')" "accepts_leaf e" "py_eq sid (dget e ''source_state_id'')" by blast
      obtain children where "produced_goals e = Inr children"
        "py_eq (dget e ''subgoal_count'') (PInt (int (length children)))" using edge [OF e(1)] by blast
      moreover from this e(2) have "children = []" by (simp add: accepts_leaf_def py_eq_PInt)
      ultimately show ?thesis using e sid(1) by (auto simp: accepts_leaf_def dget_def)
    qed
    then show ?thesis using check_state_clean(2) [OF i] by blast
  qed
  have "\<exists>h. dget result ''environment_hash'' = PStr h \<and> is_sha256 h \<and>
      (\<forall>o' \<in> set (objects result ''obstructions''). dget o' ''environment_hash'' = PStr h)"
    by (rule environment_clean [OF env]) blast
  then show ?thesis
    by (rule conjI) (rule conjI; intro ballI; rule edge state; assumption)
qed

text \<open>A certificate marked replay-accepted whose replay carries a status of the replay
  vocabulary is always reported: the validator expects a status that a replay cannot have.\<close>

lemma accepted_replays_are_reported:
  assumes "dget result ''certificate'' = PDict cert" "dget cert ''status'' = PStr ''replay-accepted''"
    and "dget cert ''replay_result'' = PDict replay" "dget replay ''status'' = PStr s" "s \<in> set ReplayStatus"
  shows "\<exists>v \<in> set (projr (check_certificate_replay_binding result)). vi_reason v = PROMOTION_WITHOUT_REPLAY"
proof -
  have "cert \<noteq> []" "replay \<noteq> []" using assms(2,4) by (auto simp: dget_def)
  moreover have "s \<noteq> ''replay-accepted''" using assms(5) by (auto simp: ReplayStatus_def)
  ultimately show ?thesis
    using assms by (simp add: check_certificate_replay_binding_def Let_def violation_def)
qed

definition demo_hash :: string where
  "demo_hash = ''sha256:'' @ replicate 64 (CHR ''a'')"

definition demo_result :: fields where
  "demo_result =
     [(''environment_hash'', PStr demo_hash),
      (''states'', PList
        [PDict [(''state_id'', PStr ''p/fs-1''), (''status'', PStr ''open'')],
         PDict [(''state_id'', PStr ''p/fs-2''), (''status'', PStr ''formally-closed'')]]),
      (''tactic_edges'', PList
        [PDict [(''tactic_id'', PStr ''p/ta-1''), (''source_state_id'', PStr ''p/fs-1''),
           (''executor_result'', PStr ''lean-accepted''), (''subgoal_count'', PInt 1),
           (''produced_goal_ids'', PList [PStr ''p/fs-2''])],
         PDict [(''tactic_id'', PStr ''p/ta-2''), (''source_state_id'', PStr ''p/fs-2''),
           (''executor_result'', PStr ''lean-accepted''), (''subgoal_count'', PInt 0)]]),
      (''certificate'', PDict [(''status'', PStr ''candidate'')])]"

theorem validated_results_are_sound_witness:
  "\<exists>edge \<in> set (objects demo_result ''tactic_edges''). produced_goals edge = Inr []"
proof -
  have ok: "validate_formal_search_result demo_result = Inr []" by code_simp
  have "objects demo_result ''states'' ! 1 \<in> set (objects demo_result ''states'')" by code_simp
  moreover have "dget (objects demo_result ''states'' ! 1) ''status'' = PStr ''formally-closed''" by code_simp
  ultimately show ?thesis using validated_results_are_sound [OF ok] by blast
qed

lemma accepted_replays_are_reported_witness:
  "\<exists>v \<in> set (projr (check_certificate_replay_binding [(''certificate'', PDict [(''status'', PStr ''replay-accepted''),
     (''replay_result'', PDict [(''status'', PStr ''verified'')])])])). vi_reason v = PROMOTION_WITHOUT_REPLAY"
  by (rule accepted_replays_are_reported [of _ "[(''status'', PStr ''replay-accepted''),
        (''replay_result'', PDict [(''status'', PStr ''verified'')])]" "[(''status'', PStr ''verified'')]" "''verified''"])
     (simp_all add: ReplayStatus_def)

end
