(* ===== verification/FormalAtp.thy ===== *)
theory FormalAtp
  imports Canon Soundness
begin

text \<open>
  The boundary to the formal prover and its deterministic stand-in,
  \<^verbatim>\<open>src/src/mathproof/formal_atp.py\<close>.

  \<^item> \<open>digest\<close>, \<open>build_state\<close>, \<open>build_tactic_edge\<close>, \<open>build_result\<close>: the payload builders both backends
    share; a payload is a decoded JSON object.
  \<^item> \<open>fake_atp\<close>: the scripted adapter with its scripts, latest results and cancelled runs; each call
    returns its outcome and the new state.
  \<^item> \<open>atp_adapter\<close>: what a client of the five calls relies on, as a locale; interpreted here on the
    fake and in the theory of the real backend on that.

  A payload a caller mutates after the call is not followed back into the adapter's memory.
\<close>

section \<open>Requests\<close>

definition REQUEST_REQUIRED_FIELDS :: "string list" where
  "REQUEST_REQUIRED_FIELDS =
     [''proof_id'', ''claim_id'', ''formal_declaration_id'', ''run_id'', ''base_revision'', ''lease_id'',
      ''fencing_token'', ''lean_source_artifact'', ''environment_id'', ''environment_hash'']"

definition EMITTABLE_DISPOSITIONS :: "string list" where
  "EMITTABLE_DISPOSITIONS =
     [''proved-pending-replay'', ''budget-exhausted'', ''stagnated'', ''counterexample'', ''invalid-request'',
      ''environment-error'', ''internal-error'']"

definition missing_request_fields :: "fields \<Rightarrow> string list" where
  "missing_request_fields request = filter (\<lambda>f. f \<notin> set (map fst request)) REQUEST_REQUIRED_FIELDS"

section \<open>Payload builders\<close>

text \<open>\<^verbatim>\<open>dict.update\<close>\<close>

definition put_all :: "fields \<Rightarrow> fields \<Rightarrow> fields" where
  "put_all kvs d = foldl (\<lambda>d (k, v). AList.update k v d) d kvs"

definition strs :: "string list \<Rightarrow> pyval" where
  "strs ss = PList (map PStr ss)"

definition digest :: "runtime \<Rightarrow> pyval list \<Rightarrow> py_exc + string" where
  "digest rt parts = content_hash rt (PList parts)"

definition state_id :: "string \<Rightarrow> nat \<Rightarrow> string" where
  "state_id proof serial = proof @ ''/fs-'' @ nat_str serial"

definition build_state :: "runtime \<Rightarrow> string \<Rightarrow> nat \<Rightarrow> string \<Rightarrow> pyval \<Rightarrow> fields \<Rightarrow> py_exc + fields" where
  "build_state rt proof serial goal_text env_hash extra =
     bind_res (digest rt [PStr ''exact'', PStr goal_text, env_hash]) (\<lambda>exact.
     bind_res (digest rt [PStr ''semantic'', PStr goal_text]) (\<lambda>semantic.
       let state =
             [(''state_id'', PStr (state_id proof serial)), (''kind'', get_or extra ''kind'' (PStr ''or'')),
              (''goal_text'', PStr goal_text), (''exact_state_hash'', PStr exact),
              (''semantic_signature'', PStr semantic), (''status'', get_or extra ''status'' (PStr ''open''))];
           annotations = dget extra ''annotations'';
           rest = filter (\<lambda>x. fst x \<notin> {''kind'', ''status''} \<and> (truthy annotations \<longrightarrow> fst x \<noteq> ''annotations'')) extra
       in if rest \<noteq> [] then Inl AssertionError
          else Inr (state @ (if truthy annotations then [(''annotations'', annotations)] else []))))"

definition build_tactic_edge ::
  "string \<Rightarrow> nat \<Rightarrow> string \<Rightarrow> string \<Rightarrow> nat \<Rightarrow> string list \<Rightarrow> fields \<Rightarrow> fields" where
  "build_tactic_edge proof serial source executor_result subgoal_count produced extra =
     put_all extra
       [(''tactic_id'', PStr (proof @ ''/ta-'' @ nat_str serial)), (''source_state_id'', PStr source),
        (''executor_result'', PStr executor_result), (''subgoal_count'', PInt (int subgoal_count)),
        (''produced_goal_ids'', strs produced)]"

definition artifact :: "string \<Rightarrow> string \<Rightarrow> pyval" where
  "artifact sha role = PDict [(''sha256'', PStr sha), (''role'', PStr role)]"

definition checkpoint_of :: "int \<Rightarrow> string list \<Rightarrow> pyval" where
  "checkpoint_of epoch frontier = PDict [(''epoch_ms'', PInt epoch), (''frontier_state_ids'', strs frontier)]"

definition budget_of :: "int \<Rightarrow> int \<Rightarrow> pyval" where
  "budget_of steps ms = PDict [(''tactic_steps'', PInt steps), (''wall_clock_ms'', PInt ms)]"

text \<open>The five shapes of a result after its four common fields.\<close>

definition invalid_result :: "runtime \<Rightarrow> fields \<Rightarrow> fields \<Rightarrow> py_exc + fields" where
  "invalid_result rt request base =
     bind_res (digest rt [PStr ''invalid-request'', strs (sort (map fst request))]) (\<lambda>d.
       Inr (put_all [(''states'', PList []), (''tactic_edges'', PList []),
         (''artifacts'', PList [artifact d ''rejection-reason''])] base))"

definition failure_result :: "runtime \<Rightarrow> string \<Rightarrow> string \<Rightarrow> fields \<Rightarrow> py_exc + fields" where
  "failure_result rt disposition run_id base =
     bind_res (digest rt [PStr disposition, PStr run_id]) (\<lambda>d.
       Inr (put_all [(''states'', PList []), (''tactic_edges'', PList []),
         (''artifacts'', PList [artifact d
            (if disposition = ''environment-error'' then ''environment-diagnostic'' else ''crash-log'')])] base))"

text \<open>\<^verbatim>\<open>_digest("candidate-lemma").split(":")[1][:12]\<close>\<close>

definition second_part :: "string \<Rightarrow> string" where
  "second_part s = takeWhile (\<lambda>c. c \<noteq> CHR '':'') (tl (dropWhile (\<lambda>c. c \<noteq> CHR '':'') s))"

definition proved_result :: "runtime \<Rightarrow> string \<Rightarrow> string \<Rightarrow> string \<Rightarrow> pyval \<Rightarrow> fields \<Rightarrow> py_exc + fields" where
  "proved_result rt proof run_id goal env base =
     bind_res (build_state rt proof 1 goal env []) (\<lambda>root.
     bind_res (digest rt [PStr ''candidate-lemma'']) (\<lambda>lemma_digest.
     bind_res (digest rt [PStr ''certificate'', PStr run_id]) (\<lambda>cert.
       Inr (put_all
         [(''root_state_id'', PStr (state_id proof 1)), (''states'', PList [PDict root]),
          (''tactic_edges'', PList [PDict (build_tactic_edge proof 1 (state_id proof 1) ''lean-accepted'' 0 []
             [(''tactic_label'', PStr ''exact''), (''tactic_args'', strs [take 12 (second_part lemma_digest)])])]),
          (''checkpoint'', checkpoint_of 0 []),
          (''certificate'', PDict [(''artifact_hash'', PStr cert), (''status'', PStr ''candidate''),
             (''producer_run_id'', PStr run_id)]),
          (''obstructions'', PList []), (''artifacts'', PList [artifact cert ''certificate'']),
          (''budget_used'', budget_of 1 100)] base))))"

definition counterexample_result :: "runtime \<Rightarrow> string \<Rightarrow> string \<Rightarrow> string \<Rightarrow> pyval \<Rightarrow> fields \<Rightarrow> py_exc + fields" where
  "counterexample_result rt proof run_id goal env base =
     bind_res (build_state rt proof 1 goal env []) (\<lambda>root.
     bind_res (digest rt [PStr ''witness'', PStr run_id]) (\<lambda>witness.
       Inr (put_all
         [(''root_state_id'', PStr (state_id proof 1)),
          (''states'', PList [PDict (AList.update ''status'' (PStr ''failed'') root)]),
          (''tactic_edges'', PList []),
          (''obstructions'', PList [PDict
             [(''obstruction_id'', PStr (proof @ ''/obs-1'')), (''kind'', PStr ''likely-false''),
              (''formal_run_id'', PStr run_id), (''formal_state_ids'', strs [state_id proof 1]),
              (''minimal_state_artifact'', PStr witness), (''diagnostic_artifacts'', strs [witness]),
              (''evidence'', PList [PDict [(''kind'', PStr ''random-sampling''), (''artifact_hash'', PStr witness)]]),
              (''suggested_escalation'', PStr ''counterexample-search''), (''environment_hash'', env)]]),
          (''artifacts'', PList [artifact witness ''counterexample-witness'']),
          (''budget_used'', budget_of 5 500)] base)))"

definition stagnated_result :: "runtime \<Rightarrow> string \<Rightarrow> string \<Rightarrow> string \<Rightarrow> pyval \<Rightarrow> fields \<Rightarrow> py_exc + fields" where
  "stagnated_result rt proof run_id goal env base =
     bind_res (build_state rt proof 1 goal env []) (\<lambda>root.
     bind_res (build_state rt proof 2 (goal @ [CHR 0x27] @ '' (after rw)'') env []) (\<lambda>child.
     bind_res (digest rt [PStr ''diagnostic'', PStr run_id]) (\<lambda>diagnostic.
     bind_res (digest rt [PStr ''minimal-state'', PStr (state_id proof 2)]) (\<lambda>minimal.
       Inr (put_all
         [(''root_state_id'', PStr (state_id proof 1)), (''states'', PList [PDict root, PDict child]),
          (''tactic_edges'', PList [PDict (build_tactic_edge proof 1 (state_id proof 1) ''lean-rejected'' 0 []
             [(''tactic_label'', PStr ''simp''), (''diagnostic_artifact'', PStr diagnostic),
              (''annotations'', PDict [(''failure_family'', PStr ''apply-failure-no-matching-conclusion'')])])]),
          (''checkpoint'', checkpoint_of 0 [state_id proof 2]),
          (''obstructions'', PList [PDict
             [(''obstruction_id'', PStr (proof @ ''/obs-1'')), (''kind'', PStr ''missing-lemma''),
              (''formal_run_id'', PStr run_id), (''formal_state_ids'', strs [state_id proof 2]),
              (''minimal_state_artifact'', PStr minimal), (''diagnostic_artifacts'', strs [diagnostic]),
              (''premises_considered'', strs [''Nat.add_comm'']),
              (''tactic_families_considered'', strs [''simp'', ''rw'', ''apply'']),
              (''evidence'', PList [PDict [(''kind'', PStr ''heuristic-optimizer'')]]),
              (''suggested_escalation'', PStr ''bridge-lemma''), (''environment_hash'', env)]]),
          (''artifacts'', PList []), (''budget_used'', budget_of 64 4000)] base)))))"

definition exhausted_result :: "runtime \<Rightarrow> string \<Rightarrow> string \<Rightarrow> pyval \<Rightarrow> fields \<Rightarrow> py_exc + fields" where
  "exhausted_result rt proof goal env base =
     bind_res (build_state rt proof 1 goal env []) (\<lambda>root.
     bind_res (build_state rt proof 2 (goal @ '' [left]'') env []) (\<lambda>left.
     bind_res (build_state rt proof 3 (goal @ '' [right]'') env []) (\<lambda>right.
       Inr (put_all
         [(''root_state_id'', PStr (state_id proof 1)), (''states'', PList [PDict root, PDict left, PDict right]),
          (''tactic_edges'', PList [PDict (build_tactic_edge proof 1 (state_id proof 1) ''lean-accepted'' 2
             [state_id proof 2, state_id proof 3]
             [(''tactic_label'', PStr ''constructor''),
              (''annotations'', PDict [(''gnn_tactic_prior'', PFloat (Finite (7 / 10)))])])]),
          (''checkpoint'', checkpoint_of 0 [state_id proof 2, state_id proof 3]),
          (''obstructions'', PList []), (''artifacts'', PList []), (''budget_used'', budget_of 128 9000)] base))))"

definition build_result :: "runtime \<Rightarrow> string \<Rightarrow> fields \<Rightarrow> py_exc + fields" where
  "build_result rt disposition request =
     (if disposition \<notin> set EMITTABLE_DISPOSITIONS then Inl ValueError
      else bind_res (get_str request ''run_id'' ''unscoped/fr-0'') (\<lambda>run_id.
        bind_res (get_str request ''proof_id'' ''unscoped'') (\<lambda>proof.
        bind_res (if truthy (dget request ''environment_hash'') then Inr (dget request ''environment_hash'')
                  else bind_res (digest rt [PStr ''env-missing'']) (\<lambda>d. Inr (PStr d))) (\<lambda>env.
          let base =
                [(''run_id'', PStr run_id), (''proof_id'', PStr proof), (''environment_hash'', env),
                 (''disposition'', PStr disposition)] @
                (if truthy (dget request ''formal_declaration_id'')
                 then [(''declaration_id'', dget request ''formal_declaration_id'')] else [])
          in if disposition = ''invalid-request'' then invalid_result rt request base
             else if disposition = ''environment-error'' \<or> disposition = ''internal-error''
             then failure_result rt disposition run_id base
             else bind_res (get_str request ''goal_text'' (''goal('' @ run_id @ '')'')) (\<lambda>goal.
               if disposition = ''proved-pending-replay'' then proved_result rt proof run_id goal env base
               else if disposition = ''counterexample'' then counterexample_result rt proof run_id goal env base
               else if disposition = ''stagnated'' then stagnated_result rt proof run_id goal env base
               else exhausted_result rt proof goal env base)))))"

section \<open>Notes\<close>

text \<open>\<^verbatim>\<open>repr\<close> of a string and of a list of strings; text beyond ASCII is kept as it is.\<close>

definition repr_char :: "char \<Rightarrow> char \<Rightarrow> string" where
  "repr_char q c =
     (if c = q \<or> c = CHR 0x5C then [CHR 0x5C, c]
      else if c = CHR 0x0A then [CHR 0x5C, CHR ''n'']
      else if c = CHR 0x0D then [CHR 0x5C, CHR ''r'']
      else if c = CHR 0x09 then [CHR 0x5C, CHR ''t'']
      else if of_char c < (32 :: nat) \<or> of_char c = (127 :: nat)
        then [CHR 0x5C, CHR ''x'', hex_digit (of_char c div 16), hex_digit (of_char c mod 16)]
      else [c])"

definition py_repr :: "string \<Rightarrow> string" where
  "py_repr s =
     (let q = (if CHR 0x27 \<in> set s \<and> CHR 0x22 \<notin> set s then CHR 0x22 else CHR 0x27)
      in q # concat (map (repr_char q) s) @ [q])"

fun join_with :: "string \<Rightarrow> string list \<Rightarrow> string" where
  "join_with sep [] = []"
| "join_with sep [s] = s"
| "join_with sep (s # ss) = s @ sep @ join_with sep ss"

definition repr_list :: "string list \<Rightarrow> string" where
  "repr_list ss = ''['' @ join_with '', '' (map py_repr ss) @ '']''"

text \<open>\<^verbatim>\<open>repr\<close> and \<^verbatim>\<open>str\<close> of any value.\<close>

fun repr_val :: "runtime \<Rightarrow> pyval \<Rightarrow> string" where
  "repr_val rt PNone = ''None''"
| "repr_val rt (PBool b) = (if b then ''True'' else ''False'')"
| "repr_val rt (PInt i) = int_str i"
| "repr_val rt (PFloat x) = (case x of Finite r \<Rightarrow> rt_float rt r | PosInf \<Rightarrow> ''inf'' | NegInf \<Rightarrow> ''-inf'' | NotANumber \<Rightarrow> ''nan'')"
| "repr_val rt (PStr s) = py_repr s"
| "repr_val rt (PList xs) = ''['' @ join_with '', '' (map (repr_val rt) xs) @ '']''"
| "repr_val rt (PDict d) = ''{'' @ join_with '', '' (map (\<lambda>x. py_repr (fst x) @ '': '' @ repr_val rt (snd x)) d) @ ''}''"

definition py_str :: "runtime \<Rightarrow> pyval \<Rightarrow> string" where
  "py_str rt v = (case v of PStr s \<Rightarrow> s | _ \<Rightarrow> repr_val rt v)"

text \<open>\<^verbatim>\<open>result["artifacts"][0]["note"] = note\<close>, on a result whose first artifact is a dictionary.\<close>

definition with_note :: "string \<Rightarrow> fields \<Rightarrow> py_exc + fields" where
  "with_note note result =
     bind_res (key_val result ''artifacts'') (\<lambda>artifacts. case artifacts of
       PList (PDict a # rest) \<Rightarrow>
         Inr (AList.update ''artifacts'' (PList (PDict (AList.update ''note'' (PStr note) a) # rest)) result)
     | PList [] \<Rightarrow> Inl IndexError
     | _ \<Rightarrow> Inl OutOfModel)"

definition refused_request :: "runtime \<Rightarrow> string \<Rightarrow> fields \<Rightarrow> py_exc + fields" where
  "refused_request rt note request = bind_res (build_result rt ''invalid-request'' request) (with_note note)"

definition missing_note :: "string list \<Rightarrow> string" where
  "missing_note missing = ''missing fields: '' @ repr_list missing"

section \<open>The scripted adapter\<close>

type_synonym replay_fn = "fields \<Rightarrow> pyval \<Rightarrow> fields"

definition stub_replay :: "string \<Rightarrow> py_exc + replay_fn" where
  "stub_replay outcome =
     (if outcome \<notin> {''verified'', ''rejected''} then Inl ValueError
      else Inr (\<lambda>certificate env. [(''status'', PStr outcome), (''environment_hash'', env)] @
        (if outcome = ''rejected'' then [(''rejection_reason'', PStr ''stub-replay-rejection'')] else [])))"

datatype script_step = Disposition string | Payload fields

record fake_atp =
  fk_scripts :: "(string \<times> script_step list) list"
  fk_latest :: "(string \<times> fields) list"
  fk_cancelled :: "string set"
  fk_replay :: replay_fn

definition new_fake :: "(string \<times> script_step list) list \<Rightarrow> replay_fn option \<Rightarrow> fake_atp" where
  "new_fake plan replay_fn =
     \<lparr>fk_scripts = plan, fk_latest = [], fk_cancelled = {},
      fk_replay = (case replay_fn of Some f \<Rightarrow> f | None \<Rightarrow> projr (stub_replay ''verified''))\<rparr>"

definition run_step :: "runtime \<Rightarrow> script_step \<Rightarrow> fields \<Rightarrow> py_exc + fields" where
  "run_step rt s request = (case s of Payload d \<Rightarrow> Inr d | Disposition d \<Rightarrow> build_result rt d request)"

definition consume :: "runtime \<Rightarrow> fake_atp \<Rightarrow> string \<Rightarrow> fields \<Rightarrow> (py_exc + fields) \<times> fake_atp" where
  "consume rt a run_id request =
     (case map_of (fk_scripts a) run_id of
        None \<Rightarrow> (Inl KeyError, a)
      | Some [] \<Rightarrow> (Inl IndexError, a)
      | Some (s # rest) \<Rightarrow>
          let a1 = a\<lparr>fk_scripts := AList.update run_id rest (fk_scripts a)\<rparr>
          in (case run_step rt s request of
                Inl e \<Rightarrow> (Inl e, a1)
              | Inr result \<Rightarrow> (Inr result, a1\<lparr>fk_latest := AList.update run_id result (fk_latest a1)\<rparr>)))"

definition has_script :: "fake_atp \<Rightarrow> string \<Rightarrow> bool" where
  "has_script a run_id \<longleftrightarrow> map_of (fk_scripts a) run_id \<noteq> None \<and> map_of (fk_scripts a) run_id \<noteq> Some []"

definition formal_search_start :: "runtime \<Rightarrow> fake_atp \<Rightarrow> fields \<Rightarrow> (py_exc + fields) \<times> fake_atp" where
  "formal_search_start rt a request =
     (let missing = missing_request_fields request
      in if missing \<noteq> [] then (refused_request rt (missing_note missing) request, a)
         else (case key_str request ''run_id'' of
             Inl e \<Rightarrow> (Inl e, a)
           | Inr run_id \<Rightarrow>
               if \<not> has_script a run_id
               then (refused_request rt (''no script for run '' @ py_repr run_id) request, a)
               else consume rt a run_id request))"

definition cancelled_result :: "string \<Rightarrow> fields" where
  "cancelled_result run_id = [(''run_id'', PStr run_id), (''disposition'', PStr ''cancelled'')]"

definition unknown_run :: "runtime \<Rightarrow> string \<Rightarrow> py_exc + fields" where
  "unknown_run rt run_id = build_result rt ''invalid-request'' [(''run_id'', PStr run_id)]"

definition formal_search_resume :: "runtime \<Rightarrow> fake_atp \<Rightarrow> string \<Rightarrow> (py_exc + fields) \<times> fake_atp" where
  "formal_search_resume rt a run_id =
     (if run_id \<in> fk_cancelled a then (Inr (cancelled_result run_id), a)
      else if \<not> has_script a run_id then (unknown_run rt run_id, a)
      else consume rt a run_id
        (case map_of (fk_latest a) run_id of None \<Rightarrow> [(''run_id'', PStr run_id)] | Some latest \<Rightarrow> latest))"

definition formal_search_status :: "runtime \<Rightarrow> fake_atp \<Rightarrow> string \<Rightarrow> py_exc + fields" where
  "formal_search_status rt a run_id =
     (case map_of (fk_latest a) run_id of None \<Rightarrow> unknown_run rt run_id | Some latest \<Rightarrow> Inr latest)"

definition formal_search_cancel :: "fake_atp \<Rightarrow> string \<Rightarrow> (py_exc + fields) \<times> fake_atp" where
  "formal_search_cancel a run_id =
     (Inr (cancelled_result run_id),
      a\<lparr>fk_cancelled := insert run_id (fk_cancelled a),
        fk_scripts := (if map_of (fk_scripts a) run_id = None then fk_scripts a
                       else AList.update run_id [] (fk_scripts a))\<rparr>)"

definition formal_replay :: "fake_atp \<Rightarrow> fields \<Rightarrow> pyval \<Rightarrow> fields" where
  "formal_replay a certificate env = fk_replay a certificate env"

section \<open>What a client relies on\<close>

datatype atp_call = CallStart fields | CallResume string | CallStatus string | CallCancel string

locale atp_adapter =
  fixes call :: "'s \<Rightarrow> atp_call \<Rightarrow> (py_exc + fields) \<times> 's"
    and is_cancelled :: "'s \<Rightarrow> string \<Rightarrow> bool"
    and latest :: "'s \<Rightarrow> string \<Rightarrow> fields option"
  assumes cancel_marks: "is_cancelled (snd (call a (CallCancel r))) r"
    and marks_stay: "is_cancelled a r \<Longrightarrow> is_cancelled (snd (call a c)) r"
    and cancelled_resume: "is_cancelled a r \<Longrightarrow> call a (CallResume r) = (Inr (cancelled_result r), a)"
    and status_reads: "latest a r = Some d \<Longrightarrow> call a (CallStatus r) = (Inr d, a)"
    and resume_remembers: "call a (CallResume r) = (Inr d, a') \<Longrightarrow> latest a' r = Some d \<or> latest a' r = latest a r"
begin

definition calls :: "'s \<Rightarrow> atp_call list \<Rightarrow> 's" where
  "calls a cs = foldl (\<lambda>a c. snd (call a c)) a cs"

lemma marks_stay_calls: "is_cancelled a r \<Longrightarrow> is_cancelled (calls a cs) r"
  by (induction cs arbitrary: a) (simp_all add: calls_def marks_stay)

lemma cancelled_for_good:
  "call (calls (snd (call a (CallCancel r))) cs) (CallResume r) =
     (Inr (cancelled_result r), calls (snd (call a (CallCancel r))) cs)"
  by (rule cancelled_resume [OF marks_stay_calls [OF cancel_marks]])

lemma status_after_resume:
  assumes "call a (CallResume r) = (Inr d, a')" "latest a r = Some old"
  shows "call a' (CallStatus r) = (Inr d, a') \<or> call a' (CallStatus r) = (Inr old, a')"
  using resume_remembers [OF assms(1)] assms(2) status_reads by metis

end

fun fake_call :: "runtime \<Rightarrow> fake_atp \<Rightarrow> atp_call \<Rightarrow> (py_exc + fields) \<times> fake_atp" where
  "fake_call rt a (CallStart request) = formal_search_start rt a request"
| "fake_call rt a (CallResume r) = formal_search_resume rt a r"
| "fake_call rt a (CallStatus r) = (formal_search_status rt a r, a)"
| "fake_call rt a (CallCancel r) = formal_search_cancel a r"

lemma consume_cancelled [simp]: "fk_cancelled (snd (consume rt a r request)) = fk_cancelled a"
  by (simp add: consume_def Let_def split: option.split list.split sum.split)

lemma consume_latest: "consume rt a r request = (Inr d, a') \<Longrightarrow> map_of (fk_latest a') r = Some d"
  by (auto simp: consume_def Let_def update_conv' split: option.splits list.splits sum.splits)

interpretation fake: atp_adapter "fake_call rt" "\<lambda>a r. r \<in> fk_cancelled a" "\<lambda>a r. map_of (fk_latest a) r"
  for rt
proof
  show "r \<in> fk_cancelled (snd (fake_call rt a c))" if "r \<in> fk_cancelled a" for a r c
    using that by (cases c) (auto simp: formal_search_start_def formal_search_resume_def formal_search_cancel_def Let_def
        split: sum.split)
  show "map_of (fk_latest a') r = Some d \<or> map_of (fk_latest a') r = map_of (fk_latest a) r" if "fake_call rt a (CallResume r) = (Inr d, a')" for a r d a'
    using that by (auto simp: formal_search_resume_def consume_latest split: if_splits)
qed (auto simp: formal_search_cancel_def formal_search_resume_def formal_search_status_def)

section \<open>Results of the builder\<close>

lemma dget_put_all: "dget (put_all kvs d) k = (case map_of (rev kvs) k of Some v \<Rightarrow> v | None \<Rightarrow> dget d k)"
proof (induction kvs arbitrary: d)
  case (Cons x kvs)
  then show ?case by (cases x) (simp add: put_all_def map_add_def dget_update split: option.split)
qed (simp add: put_all_def)

lemma nat_str_small [simp]: "nat_str 1 = ''1''" "nat_str (Suc 0) = ''1''" "nat_str 2 = ''2''" "nat_str 3 = ''3''"
  by code_simp+

lemma state_id_eq [simp]: "state_id proof i = state_id proof j \<longleftrightarrow> i = j"
  by (auto simp: state_id_def dest: arg_cong [where f = nat_of_str])

lemma digest_strs: "\<exists>h. digest rt (map PStr ss) = Inr (''sha256:'' @ rt_sha256 rt h)"
proof -
  have "floats_finite (PList (map PStr ss))" by simp
  then show ?thesis by (simp only: digest_def content_hash_def canonical_json_def check_floats_def) auto
qed

text \<open>What the runtime's digest looks like.\<close>

definition hex_digests :: "runtime \<Rightarrow> bool" where
  "hex_digests rt \<longleftrightarrow> (\<forall>s. is_sha256 (''sha256:'' @ rt_sha256 rt s))"

text \<open>Sufficient conditions for a result without findings, check by check.\<close>

definition lists :: "fields \<Rightarrow> string \<Rightarrow> fields list \<Rightarrow> bool" where
  "lists d k xs \<longleftrightarrow> dget d k = PList (map PDict xs) \<or> xs = [] \<and> dget d k = PNone"

lemma lists_items: "lists d k xs \<Longrightarrow> items_or_empty d k = Inr (map PDict xs)"
  by (auto simp: lists_def items_or_empty_def)

lemma collect_nothing: "(\<And>x. x \<in> set xs \<Longrightarrow> f x = Inr []) \<Longrightarrow> collect f xs = Inr []"
  by (induction xs) (simp_all add: gen_append_def)

lemma each_object_nothing:
  assumes "lists d k xs" "\<And>i x. x \<in> set xs \<Longrightarrow> body i x = Inr []"
  shows "each_object d k body = Inr []"
  unfolding each_object_def lists_items [OF assms(1)] sum.case
proof (rule collect_nothing)
  fix y
  assume "y \<in> set (List.enumerate 0 (map PDict xs))"
  then obtain i x where "y = (i, PDict x)" "x \<in> set xs" by (auto simp: set_zip enumerate_eq_zip)
  then show "(\<lambda>(i, x). bind_res (as_dict x) (body i)) y = Inr []" using assms(2) by simp
qed

lemma environment_ok:
  assumes "dget r ''environment_hash'' = PStr h" "is_sha256 h" "lists r ''obstructions'' obs"
    and "\<And>b. b \<in> set obs \<Longrightarrow> dget b ''environment_hash'' = PStr h"
  shows "check_environment r = Inr []"
  unfolding check_environment_def
  by (simp add: assms(1,2) environment_value_def gen_append_def each_object_nothing [OF assms(3)] assms(4))

lemma all_res_map: "(\<And>x. x \<in> set xs \<Longrightarrow> f x = Inr (g x)) \<Longrightarrow> all_res f xs = Inr (map g xs)"
  by (induction xs) simp_all

lemma repeated_strs: "distinct cs \<Longrightarrow> repeated (map PStr cs) = []"
proof -
  assume cs: "distinct cs"
  have "\<not> 1 < length (filter (py_eq v) (map PStr cs))" for v
  proof -
    have "distinct (filter (py_eq v) (map PStr cs))" using cs by (simp add: distinct_map inj_on_def)
    moreover have "set (filter (py_eq v) (map PStr cs)) \<subseteq> {v}" by auto
    ultimately show ?thesis using card_mono [of "{v}" "set (filter (py_eq v) (map PStr cs))"]
      by (simp only: distinct_card) simp
  qed
  then show ?thesis unfolding repeated_def filter_empty_conv by blast
qed

text \<open>An edge with its children, all of them reported.\<close>

definition edge_fits :: "string list \<Rightarrow> fields \<Rightarrow> bool" where
  "edge_fits ids e \<longleftrightarrow>
     (\<exists>cs src res label. dget e ''produced_goal_ids'' = PList (map PStr cs) \<and> distinct cs \<and> set cs \<subseteq> set ids \<and>
        dget e ''subgoal_count'' = PInt (int (length cs)) \<and> dget e ''source_state_id'' = PStr src \<and>
        dget e ''executor_result'' = PStr res \<and> dget e ''tactic_label'' = PStr label \<and>
        (label \<notin> set NON_KERNEL_TACTICS \<or> res \<noteq> ''lean-accepted''))"

lemma edge_fits_checked:
  assumes "edge_fits ids e"
  shows "check_tactic_edge (map PStr ids) i e = Inr []"
proof -
  from assms obtain cs src res label where e: "dget e ''produced_goal_ids'' = PList (map PStr cs)" "distinct cs"
    "set cs \<subseteq> set ids" "dget e ''subgoal_count'' = PInt (int (length cs))" "dget e ''executor_result'' = PStr res"
    "dget e ''tactic_label'' = PStr label" "label \<notin> set NON_KERNEL_TACTICS \<or> res \<noteq> ''lean-accepted''"
    by (auto simp: edge_fits_def)
  have goals: "produced_goals e = Inr (map PStr cs)" by (simp add: produced_goals_def e(1))
  have known: "all_res (\<lambda>c. in_set c (map PStr ids)) (map PStr cs) = Inr (map (\<lambda>c. True) (map PStr cs))"
    by (rule all_res_map) (use e(3) in \<open>auto simp: in_set_def is_in_def list_ex_iff\<close>)
  have "False \<notin> set (map (\<lambda>c. True) (map PStr cs))" by simp
  then show ?thesis
    using e(7) by (auto simp add: check_tactic_edge_def goals known repeated_strs [OF e(2)] e(4-6) Let_def)
qed

definition state_named :: "string \<Rightarrow> fields \<Rightarrow> bool" where
  "state_named i s \<longleftrightarrow> dget s ''state_id'' = PStr i"

lemma edges_ok:
  assumes "lists r ''states'' ss" "list_all2 state_named ids ss" "lists r ''tactic_edges'' es"
    and "\<And>e. e \<in> set es \<Longrightarrow> edge_fits ids e"
  shows "check_tactic_edges r = Inr []"
proof -
  have "all_res (\<lambda>x. bind_res (as_dict x) (\<lambda>s. hashed (dget s ''state_id''))) (map PDict ss) = Inr (map PStr ids)"
    using assms(2) by (induction rule: list_all2_induct) (simp_all add: state_named_def hashed_def)
  then have "state_ids r = Inr (map PStr ids)" by (simp add: state_ids_def lists_items [OF assms(1)])
  then show ?thesis
    by (simp add: check_tactic_edges_def each_object_nothing [OF assms(3)] edge_fits_checked assms(4))
qed

lemma edge_fits_source: "edge_fits ids e \<Longrightarrow> hashed (dget e ''source_state_id'') = Inr (dget e ''source_state_id'')"
  by (auto simp: edge_fits_def hashed_def)

lemma closing_ok:
  assumes "lists r ''tactic_edges'' es" "\<And>e. e \<in> set es \<Longrightarrow> edge_fits ids e"
  shows "closing_states r = Inr (map (\<lambda>e. dget e ''source_state_id'') (filter accepts_leaf es))"
proof -
  let ?f = "\<lambda>edge. if accepts_leaf edge then bind_res (hashed (dget edge ''source_state_id'')) (\<lambda>s. Inr [s]) else Inr []"
  have f: "?f e = Inr (if accepts_leaf e then [dget e ''source_state_id''] else [])" if "e \<in> set es" for e
    using edge_fits_source [OF assms(2) [OF that]] by simp
  have "collect (\<lambda>(i, x). bind_res (as_dict x) ?f) (List.enumerate n (map PDict es)) =
      Inr (map (\<lambda>e. dget e ''source_state_id'') (filter accepts_leaf es))" for n
    using f
  proof (induction es arbitrary: n)
    case (Cons e es)
    have "collect (\<lambda>(i, x). bind_res (as_dict x) ?f) (List.enumerate (Suc n) (map PDict es)) =
        Inr (map (\<lambda>e. dget e ''source_state_id'') (filter accepts_leaf es))"
      by (rule Cons.IH) (use Cons.prems in simp)
    then show ?case using Cons.prems [of e] by (simp add: gen_append_def del: if_split)
  qed simp
  then show ?thesis by (simp add: closing_states_def each_object_def lists_items [OF assms(1)])
qed

text \<open>States that carry no truth-like score and are not reported closed.\<close>

definition state_fits :: "fields \<Rightarrow> bool" where
  "state_fits s \<longleftrightarrow>
     (\<exists>status. dget s ''status'' = PStr status \<and> status \<notin> {''formally-closed'', ''lean-verified''}) \<and>
     (dget s ''annotations'' = PNone \<or>
      (\<exists>d. dget s ''annotations'' = PDict d \<and> set (map fst d) \<inter> set TRUTH_LIKE_ANNOTATIONS = {}))"

lemma annotations_ok:
  assumes "dget s ''annotations'' = PNone \<or>
    (\<exists>d. dget s ''annotations'' = PDict d \<and> set (map fst d) \<inter> set TRUTH_LIKE_ANNOTATIONS = {})"
  shows "\<exists>names. annotation_names s = Inr names \<and> \<not> list_ex (\<lambda>k. is_in (PStr k) names) TRUTH_LIKE_ANNOTATIONS"
proof (cases "dget s ''annotations'' = PNone")
  case True
  then show ?thesis by (simp add: annotation_names_def items_or_empty_def is_in_def list_ex_iff)
next
  case False
  with assms obtain d where d: "dget s ''annotations'' = PDict d" "set (map fst d) \<inter> set TRUTH_LIKE_ANNOTATIONS = {}"
    by auto
  have "all_res hashed (map (\<lambda>x. PStr (fst x)) d) = Inr (map id (map (\<lambda>x. PStr (fst x)) d))"
    by (rule all_res_map) (auto simp: hashed_def)
  then have "annotation_names s = Inr (map (\<lambda>x. PStr (fst x)) d)"
    by (cases "d = []") (simp_all add: annotation_names_def items_or_empty_def d(1))
  then show ?thesis using d(2) by (auto simp: list_ex_iff is_in_def)
qed

lemma state_fits_checked: "state_fits s \<Longrightarrow> check_state closing i s = Inr []"
  using annotations_ok [of s] by (auto simp: check_state_def state_fits_def Let_def)

lemma failed_edge_ok:
  assumes "edge_fits ids e" "lists r ''states'' ss" "\<And>s. s \<in> set ss \<Longrightarrow> state_fits s"
  shows "check_failed_edge r i e = Inr []"
proof -
  obtain src res where e: "dget e ''source_state_id'' = PStr src" "dget e ''executor_result'' = PStr res"
    using assms(1) by (auto simp: edge_fits_def)
  have "\<exists>status. first_status src (map PDict ss) = Inr status \<and> status \<noteq> PStr ''formally-closed''" for src
    using assms(3)
  proof (induction ss)
    case (Cons s ss)
    have "dget s ''status'' \<noteq> PStr ''formally-closed''" using Cons.prems [of s] by (auto simp: state_fits_def)
    then show ?case using Cons by simp
  qed simp
  then obtain status where "first_status (PStr src) (map PDict ss) = Inr status" "status \<noteq> PStr ''formally-closed''"
    by blast
  then show ?thesis by (simp add: check_failed_edge_def e lists_items [OF assms(2)])
qed

lemma closure_ok:
  assumes "lists r ''tactic_edges'' es" "\<And>e. e \<in> set es \<Longrightarrow> edge_fits ids e"
    and "lists r ''states'' ss" "\<And>s. s \<in> set ss \<Longrightarrow> state_fits s"
  shows "check_closure_and_scores r = Inr []"
  unfolding check_closure_and_scores_def
  by (simp add: closing_ok [OF assms(1,2)] gen_append_def each_object_nothing [OF assms(1)] each_object_nothing [OF assms(3)]
      failed_edge_ok [OF assms(2-4)] state_fits_checked assms(4))

lemma certificate_ok:
  assumes "dget r ''certificate'' = PNone \<and> dget r ''disposition'' \<noteq> PStr ''proved-pending-replay'' \<or>
    (\<exists>c. dget r ''certificate'' = PDict c \<and> c \<noteq> [] \<and> dget c ''status'' = PStr ''candidate'')"
  shows "check_certificate_replay_binding r = Inr []"
  using assms by (auto simp: check_certificate_replay_binding_def Let_def)

lemma sound_result:
  assumes "dget r ''environment_hash'' = PStr h" "is_sha256 h" "lists r ''obstructions'' obs"
      "list_all (\<lambda>b. dget b ''environment_hash'' = PStr h) obs"
    and "lists r ''states'' ss" "list_all2 state_named ids ss" "lists r ''tactic_edges'' es"
      "list_all (edge_fits ids) es" "list_all state_fits ss"
    and "dget r ''certificate'' = PNone \<and> dget r ''disposition'' \<noteq> PStr ''proved-pending-replay'' \<or>
      (\<exists>c. dget r ''certificate'' = PDict c \<and> c \<noteq> [] \<and> dget c ''status'' = PStr ''candidate'')"
  shows "validate_formal_search_result r = Inr []"
proof -
  have all: "\<And>b. b \<in> set obs \<Longrightarrow> dget b ''environment_hash'' = PStr h" "\<And>e. e \<in> set es \<Longrightarrow> edge_fits ids e"
    "\<And>s. s \<in> set ss \<Longrightarrow> state_fits s"
    using assms(4,8,9) by (simp_all add: list_all_iff)
  show ?thesis
    unfolding validate_formal_search_result_def
    by (simp add: environment_ok [OF assms(1-3) all(1)] edges_ok [OF assms(5-7) all(2)]
        closure_ok [OF assms(7) all(2) assms(5) all(3)] certificate_ok [OF assms(10)] gen_append_def)
qed

lemma build_state_Inr:
  "\<exists>s. build_state rt proof i goal (PStr env) [] = Inr s \<and> state_named (state_id proof i) s \<and> state_fits s \<and>
     dget (AList.update ''status'' (PStr ''failed'') s) ''state_id'' = PStr (state_id proof i) \<and>
     state_fits (AList.update ''status'' (PStr ''failed'') s)"
proof -
  obtain x y where "digest rt [PStr ''exact'', PStr goal, PStr env] = Inr x" "digest rt [PStr ''semantic'', PStr goal] = Inr y"
    using digest_strs [of rt "[''exact'', goal, env]"] digest_strs [of rt "[''semantic'', goal]"] by auto
  then show ?thesis by (simp add: build_state_def get_or_def state_named_def state_fits_def)
qed

definition base_of :: "string \<Rightarrow> string \<Rightarrow> string \<Rightarrow> string \<Rightarrow> fields \<Rightarrow> fields" where
  "base_of run_id proof env disposition request =
     [(''run_id'', PStr run_id), (''proof_id'', PStr proof), (''environment_hash'', PStr env),
      (''disposition'', PStr disposition)] @
     (if truthy (dget request ''formal_declaration_id'')
      then [(''declaration_id'', dget request ''formal_declaration_id'')] else [])"

lemma base_fold:
  "(''run_id'', PStr run_id) # (''proof_id'', PStr proof) # (''environment_hash'', PStr env) #
     (''disposition'', PStr disposition) #
     (if truthy (dget request ''formal_declaration_id'')
      then [(''declaration_id'', dget request ''formal_declaration_id'')] else []) =
   base_of run_id proof env disposition request"
  by (simp add: base_of_def)

lemma base_of_lookup:
  "dget (base_of run_id proof env disposition request) k =
     (if k = ''run_id'' then PStr run_id else if k = ''proof_id'' then PStr proof
      else if k = ''environment_hash'' then PStr env else if k = ''disposition'' then PStr disposition
      else if k = ''declaration_id'' \<and> truthy (dget request ''formal_declaration_id'')
      then dget request ''formal_declaration_id'' else PNone)"
  by (simp add: base_of_def)

definition sound_outcome :: "string \<Rightarrow> py_exc + fields \<Rightarrow> bool" where
  "sound_outcome disposition out \<longleftrightarrow>
     (\<exists>r. out = Inr r \<and> dget r ''disposition'' = PStr disposition \<and> validate_formal_search_result r = Inr [])"

lemmas result_parts = dget_put_all base_of_lookup lists_def edge_fits_def build_tactic_edge_def strs_def

lemma empty_results_sound:
  assumes "is_sha256 env"
  shows "sound_outcome ''invalid-request'' (invalid_result rt request (base_of run_id proof env ''invalid-request'' q))"
    and "d \<noteq> ''proved-pending-replay'' \<Longrightarrow> sound_outcome d (failure_result rt d run_id (base_of run_id proof env d q))"
proof -
  have sound: "validate_formal_search_result (put_all [(''states'', PList []), (''tactic_edges'', PList []),
      (''artifacts'', a)] (base_of run_id proof env d q)) = Inr []" if "d \<noteq> ''proved-pending-replay''" for a d
    by (rule sound_result [where h = env and obs = "[]" and ss = "[]" and ids = "[]" and es = "[]"])
      (use assms that in \<open>simp_all add: result_parts\<close>)
  obtain c where "digest rt [PStr ''invalid-request'', strs (sort (map fst request))] = Inr c"
    by (auto simp: digest_def content_hash_def canonical_json_def check_floats_def strs_def)
  then show "sound_outcome ''invalid-request'' (invalid_result rt request (base_of run_id proof env ''invalid-request'' q))"
    using sound by (simp add: sound_outcome_def invalid_result_def dget_put_all base_of_lookup)
  show "sound_outcome d (failure_result rt d run_id (base_of run_id proof env d q))" if "d \<noteq> ''proved-pending-replay''"
    using digest_strs [of rt "[d, run_id]"] sound [OF that]
    by (auto simp add: sound_outcome_def failure_result_def dget_put_all base_of_lookup)
qed

lemma proved_sound:
  assumes "is_sha256 env"
  shows "sound_outcome ''proved-pending-replay''
    (proved_result rt proof run_id goal (PStr env) (base_of run_id proof env ''proved-pending-replay'' q))"
proof -
  obtain s where s: "build_state rt proof 1 goal (PStr env) [] = Inr s" "state_named (state_id proof 1) s" "state_fits s"
    using build_state_Inr by blast
  obtain d c where d: "digest rt [PStr ''candidate-lemma''] = Inr d" "digest rt [PStr ''certificate'', PStr run_id] = Inr c"
    using digest_strs [of rt "[''candidate-lemma'']"] digest_strs [of rt "[''certificate'', run_id]"] by auto
  show ?thesis
    unfolding sound_outcome_def proved_result_def s(1) d bind_res_simps
    by (intro exI conjI, rule refl, simp add: result_parts,
        rule sound_result [where h = env and obs = "[]" and ss = "[s]" and ids = "[state_id proof 1]"
          and es = "[build_tactic_edge proof 1 (state_id proof 1) ''lean-accepted'' 0 []
             [(''tactic_label'', PStr ''exact''), (''tactic_args'', strs [take 12 (second_part d)])]]"])
      (use assms s in \<open>simp_all add: result_parts NON_KERNEL_TACTICS_def\<close>)
qed

lemma counterexample_sound:
  assumes "is_sha256 env"
  shows "sound_outcome ''counterexample''
    (counterexample_result rt proof run_id goal (PStr env) (base_of run_id proof env ''counterexample'' q))"
proof -
  obtain s where s: "build_state rt proof 1 goal (PStr env) [] = Inr s"
    "dget (AList.update ''status'' (PStr ''failed'') s) ''state_id'' = PStr (state_id proof 1)"
    "state_fits (AList.update ''status'' (PStr ''failed'') s)"
    using build_state_Inr by blast
  obtain w where w: "digest rt [PStr ''witness'', PStr run_id] = Inr w"
    using digest_strs [of rt "[''witness'', run_id]"] by auto
  show ?thesis
    unfolding sound_outcome_def counterexample_result_def s(1) w bind_res_simps
    by (intro exI conjI, rule refl, simp add: result_parts,
        rule sound_result [where h = env and ss = "[AList.update ''status'' (PStr ''failed'') s]"
          and ids = "[state_id proof 1]" and es = "[]"
          and obs = "[[(''obstruction_id'', PStr (proof @ ''/obs-1'')), (''kind'', PStr ''likely-false''),
              (''formal_run_id'', PStr run_id), (''formal_state_ids'', strs [state_id proof 1]),
              (''minimal_state_artifact'', PStr w), (''diagnostic_artifacts'', strs [w]),
              (''evidence'', PList [PDict [(''kind'', PStr ''random-sampling''), (''artifact_hash'', PStr w)]]),
              (''suggested_escalation'', PStr ''counterexample-search''), (''environment_hash'', PStr env)]]"])
      (use assms s in \<open>simp_all add: result_parts state_named_def\<close>)
qed

lemma stagnated_sound:
  assumes "is_sha256 env"
  shows "sound_outcome ''stagnated''
    (stagnated_result rt proof run_id goal (PStr env) (base_of run_id proof env ''stagnated'' q))"
proof -
  obtain s t where s: "build_state rt proof 1 goal (PStr env) [] = Inr s" "state_named (state_id proof 1) s" "state_fits s"
    and t: "build_state rt proof 2 (goal @ [CHR 0x27] @ '' (after rw)'') (PStr env) [] = Inr t"
      "state_named (state_id proof 2) t" "state_fits t"
    using build_state_Inr by meson
  obtain d m where d: "digest rt [PStr ''diagnostic'', PStr run_id] = Inr d"
      "digest rt [PStr ''minimal-state'', PStr (state_id proof 2)] = Inr m"
    using digest_strs [of rt "[''diagnostic'', run_id]"] digest_strs [of rt "[''minimal-state'', state_id proof 2]"] by auto
  show ?thesis
    unfolding sound_outcome_def stagnated_result_def s(1) t(1) d bind_res_simps
    by (intro exI conjI, rule refl, simp add: result_parts,
        rule sound_result [where h = env and ss = "[s, t]" and ids = "[state_id proof 1, state_id proof 2]"
          and es = "[build_tactic_edge proof 1 (state_id proof 1) ''lean-rejected'' 0 []
             [(''tactic_label'', PStr ''simp''), (''diagnostic_artifact'', PStr d),
              (''annotations'', PDict [(''failure_family'', PStr ''apply-failure-no-matching-conclusion'')])]]"
          and obs = "[[(''obstruction_id'', PStr (proof @ ''/obs-1'')), (''kind'', PStr ''missing-lemma''),
              (''formal_run_id'', PStr run_id), (''formal_state_ids'', strs [state_id proof 2]),
              (''minimal_state_artifact'', PStr m), (''diagnostic_artifacts'', strs [d]),
              (''premises_considered'', strs [''Nat.add_comm'']),
              (''tactic_families_considered'', strs [''simp'', ''rw'', ''apply'']),
              (''evidence'', PList [PDict [(''kind'', PStr ''heuristic-optimizer'')]]),
              (''suggested_escalation'', PStr ''bridge-lemma''), (''environment_hash'', PStr env)]]"])
      (use assms s t in \<open>simp_all add: result_parts NON_KERNEL_TACTICS_def\<close>)
qed

lemma exhausted_sound:
  assumes "is_sha256 env"
  shows "sound_outcome ''budget-exhausted''
    (exhausted_result rt proof goal (PStr env) (base_of run_id proof env ''budget-exhausted'' q))"
proof -
  obtain s t u where s: "build_state rt proof 1 goal (PStr env) [] = Inr s" "state_named (state_id proof 1) s" "state_fits s"
    and t: "build_state rt proof 2 (goal @ '' [left]'') (PStr env) [] = Inr t" "state_named (state_id proof 2) t" "state_fits t"
    and u: "build_state rt proof 3 (goal @ '' [right]'') (PStr env) [] = Inr u" "state_named (state_id proof 3) u" "state_fits u"
    using build_state_Inr by meson
  show ?thesis
    unfolding sound_outcome_def exhausted_result_def s(1) t(1) u(1) bind_res_simps
    by (intro exI conjI, rule refl, simp add: result_parts,
        rule sound_result [where h = env and ss = "[s, t, u]" and obs = "[]"
          and ids = "[state_id proof 1, state_id proof 2, state_id proof 3]"
          and es = "[build_tactic_edge proof 1 (state_id proof 1) ''lean-accepted'' 2
             [state_id proof 2, state_id proof 3]
             [(''tactic_label'', PStr ''constructor''),
              (''annotations'', PDict [(''gnn_tactic_prior'', PFloat (Finite (7 / 10)))])]]"])
      (use assms s t u in \<open>simp_all add: result_parts NON_KERNEL_TACTICS_def exI [of _ "[state_id proof 2, state_id proof 3]"]\<close>)
qed

text \<open>C30. For every disposition the builder accepts, and a request whose ids and goal are texts and
  whose environment hash is absent or well-formed, it returns a result with that disposition in
  which the structural validator finds nothing.\<close>

theorem built_results_are_sound:
  assumes "disposition \<in> set EMITTABLE_DISPOSITIONS" "hex_digests rt"
    and "get_str request ''run_id'' ''unscoped/fr-0'' = Inr run_id" "get_str request ''proof_id'' ''unscoped'' = Inr pid"
      "get_str request ''goal_text'' (''goal('' @ run_id @ '')'') = Inr goal"
    and "\<not> truthy (dget request ''environment_hash'') \<or> (\<exists>h. dget request ''environment_hash'' = PStr h \<and> is_sha256 h)"
  shows "\<exists>r. build_result rt disposition request = Inr r \<and> dget r ''disposition'' = PStr disposition \<and>
    validate_formal_search_result r = Inr []"
proof -
  have "\<exists>h. (if truthy (dget request ''environment_hash'') then Inr (dget request ''environment_hash'')
      else bind_res (digest rt [PStr ''env-missing'']) (\<lambda>d. Inr (PStr d))) = Inr (PStr h) \<and> is_sha256 h"
    using digest_strs [of rt "[''env-missing'']"] assms(2,6) unfolding hex_digests_def by auto
  then obtain h where h: "(if truthy (dget request ''environment_hash'') then Inr (dget request ''environment_hash'')
      else bind_res (digest rt [PStr ''env-missing'']) (\<lambda>d. Inr (PStr d))) = Inr (PStr h)" "is_sha256 h" by blast
  have goal: "get_str request ''goal_text''
      (CHR ''g'' # CHR ''o'' # CHR ''a'' # CHR ''l'' # CHR ''('' # run_id @ '')'') = Inr goal"
    using assms(5) by simp
  note parts = build_result_def assms(3,4) goal h(1) Let_def EMITTABLE_DISPOSITIONS_def base_fold
  have "sound_outcome disposition (build_result rt disposition request)"
    using assms(1) unfolding EMITTABLE_DISPOSITIONS_def list.set insert_iff empty_iff
  proof (elim disjE)
    assume "disposition = ''invalid-request''"
    then show ?thesis using empty_results_sound(1) [OF h(2)] by (simp add: parts)
  next
    assume "disposition = ''environment-error''"
    then show ?thesis using empty_results_sound(2) [OF h(2)] by (simp add: parts)
  next
    assume "disposition = ''internal-error''"
    then show ?thesis using empty_results_sound(2) [OF h(2)] by (simp add: parts)
  qed (simp_all add: parts proved_sound [OF h(2)] counterexample_sound [OF h(2)] stagnated_sound [OF h(2)]
      exhausted_sound [OF h(2)])
  then show ?thesis by (simp add: sound_outcome_def)
qed

definition hex_runtime :: runtime where
  "hex_runtime = \<lparr>rt_sha256 = (\<lambda>s. replicate 64 (CHR ''a'')), rt_float = (\<lambda>r. ''0.0'')\<rparr>"

definition demo_request :: fields where
  "demo_request =
     [(''proof_id'', PStr ''p''), (''claim_id'', PStr ''p/c-1''), (''formal_declaration_id'', PStr ''p/fd-1''),
      (''run_id'', PStr ''p/fr-1''), (''base_revision'', PInt 3), (''lease_id'', PStr ''p/ls-1''),
      (''fencing_token'', PInt 1), (''lean_source_artifact'', PStr ''x''), (''environment_id'', PStr ''p/env-1''),
      (''environment_hash'', PStr demo_hash), (''goal_text'', PStr ''1 = 1'')]"

lemma hex_runtime_digests: "hex_digests hex_runtime"
proof -
  have "is_sha256 (''sha256:'' @ replicate 64 (CHR ''a''))" by code_simp
  then show ?thesis by (simp add: hex_digests_def hex_runtime_def)
qed

theorem built_results_are_sound_witness:
  "\<exists>r. build_result hex_runtime ''stagnated'' demo_request = Inr r \<and> dget r ''disposition'' = PStr ''stagnated'' \<and>
    validate_formal_search_result r = Inr []"
proof (rule built_results_are_sound [OF _ hex_runtime_digests, where run_id = "''p/fr-1''" and pid = "''p''" and goal = "''1 = 1''"])
  show "''stagnated'' \<in> set EMITTABLE_DISPOSITIONS" by (simp add: EMITTABLE_DISPOSITIONS_def)
  have "is_sha256 demo_hash" by code_simp
  then show "\<not> truthy (dget demo_request ''environment_hash'') \<or>
      (\<exists>h. dget demo_request ''environment_hash'' = PStr h \<and> is_sha256 h)" by (simp add: demo_request_def)
qed (simp_all add: demo_request_def get_str_def)

text \<open>Once a run is cancelled, every resume of it answers that it is cancelled and changes nothing,
  whatever calls were made in between.\<close>

lemma cancelled_runs_stay_cancelled:
  "fake_call rt (foldl (\<lambda>a c. snd (fake_call rt a c)) (snd (fake_call rt a (CallCancel r))) cs) (CallResume r) =
     (Inr [(''run_id'', PStr r), (''disposition'', PStr ''cancelled'')],
      foldl (\<lambda>a c. snd (fake_call rt a c)) (snd (fake_call rt a (CallCancel r))) cs)"
  using fake.cancelled_for_good [of rt a r cs] by (simp only: fake.calls_def cancelled_result_def)

end
