(* ===== verification/MathsAi.thy ===== *)
theory MathsAi
  imports FormalAtp
begin

text \<open>
  The backend over the hybrid reasoner, \<^verbatim>\<open>src/src/mathproof/maths_ai_atp.py\<close>.

  The reasoner is a third-party library. Its search graph is a record: the data the adapter reads
  from nodes and edges, and the results of the graph's methods (\<^verbatim>\<open>frontier\<close>, \<^verbatim>\<open>is_solved\<close>,
  \<^verbatim>\<open>is_exhausted\<close>, \<^verbatim>\<open>proof_trace\<close>). The outcome of each search, a graph or the note of an
  exception, and its duration are arguments, numbered by the searches run so far.
\<close>

section \<open>The search graph\<close>

record hnode =
  hn_status :: string
  hn_expression :: string
  hn_hypotheses :: "string list"
  hn_probability :: pyfloat
  hn_stv :: "(pyfloat \<times> pyfloat) option"
  hn_note :: string

record hedge =
  he_source :: nat
  he_children :: "nat list"
  he_status :: string
  he_tactic :: string
  he_arguments :: "string list"
  he_probability :: pyfloat
  he_note :: string

record hypergraph =
  hg_nodes :: "(nat \<times> hnode) list"
  hg_edges :: "hedge list"
  hg_root :: nat
  hg_frontier :: "nat list"
  hg_solved :: bool
  hg_exhausted :: bool
  hg_trace :: pyval

definition STATE_STATUS :: "(string \<times> string) list" where
  "STATE_STATUS =
     [(''solved'', ''formally-closed''), (''dead'', ''failed''), (''expanded'', ''expanded''), (''open'', ''open'')]"

section \<open>Converting a graph\<close>

definition goal_text :: "hnode \<Rightarrow> string" where
  "goal_text n = join_with [CHR 0x0A] (hn_expression n # hn_hypotheses n)"

definition node_annotations :: "hnode \<Rightarrow> fields" where
  "node_annotations n =
     (''gnn_tactic_prior'', PFloat (hn_probability n)) #
     (case hn_stv n of None \<Rightarrow> []
      | Some (strength, confidence) \<Rightarrow> [(''pln_strength'', PFloat strength), (''pln_confidence'', PFloat confidence)])"

definition kernel_closed_nodes :: "hypergraph \<Rightarrow> nat set" where
  "kernel_closed_nodes g =
     he_source ` set (filter (\<lambda>e. he_status e = ''solved'' \<and> he_tactic e \<notin> set NON_KERNEL_TACTICS) (hg_edges g))"

definition multi_child :: "hypergraph \<Rightarrow> nat set" where
  "multi_child g = \<Union> (set (map (set \<circ> he_children) (filter (\<lambda>e. 1 < length (he_children e)) (hg_edges g))))"

definition node_status :: "hypergraph \<Rightarrow> nat \<Rightarrow> hnode \<Rightarrow> string" where
  "node_status g i n =
     (if hn_status n = ''solved'' \<and> i \<notin> kernel_closed_nodes g then ''open''
      else case map_of STATE_STATUS (hn_status n) of None \<Rightarrow> ''open'' | Some s \<Rightarrow> s)"

definition convert_node :: "runtime \<Rightarrow> hypergraph \<Rightarrow> string \<Rightarrow> pyval \<Rightarrow> nat \<times> hnode \<Rightarrow> py_exc + fields" where
  "convert_node rt g proof env x =
     build_state rt proof (fst x + 1) (goal_text (snd x)) env
       [(''kind'', PStr (if fst x \<in> multi_child g then ''and'' else ''or'')),
        (''status'', PStr (node_status g (fst x) (snd x))),
        (''annotations'', PDict (node_annotations (snd x)))]"

definition state_ids_of :: "string \<Rightarrow> hypergraph \<Rightarrow> (nat \<times> string) list" where
  "state_ids_of proof g = map (\<lambda>x. (fst x, state_id proof (fst x + 1))) (hg_nodes g)"

definition lookup_id :: "(nat \<times> string) list \<Rightarrow> nat \<Rightarrow> py_exc + string" where
  "lookup_id ids i = (case map_of ids i of None \<Rightarrow> Inl KeyError | Some s \<Rightarrow> Inr s)"

definition executor_result :: "hedge \<Rightarrow> string" where
  "executor_result e =
     (if he_tactic e \<in> set NON_KERNEL_TACTICS then ''empty-output''
      else if he_status e = ''dead'' then ''lean-rejected'' else ''lean-accepted'')"

definition convert_edge :: "runtime \<Rightarrow> string \<Rightarrow> (nat \<times> string) list \<Rightarrow> nat \<times> hedge \<Rightarrow> py_exc + fields" where
  "convert_edge rt proof ids x =
     (let e = snd x in
      bind_res (if executor_result e = ''lean-rejected''
          then bind_res (digest rt [PStr ''diagnostic'', PInt (int (fst x)), PStr (he_tactic e), PStr (he_note e)])
                 (\<lambda>d. Inr [(''diagnostic_artifact'', PStr d)])
          else Inr []) (\<lambda>diagnostic.
      bind_res (lookup_id ids (he_source e)) (\<lambda>source.
      bind_res (all_res (lookup_id ids) (he_children e)) (\<lambda>children.
        Inr (build_tactic_edge proof (fst x) source (executor_result e) (length (he_children e)) children
          ([(''tactic_label'', PStr (he_tactic e)), (''tactic_args'', strs (he_arguments e)),
            (''model_provenance'', PDict [(''search_policy_name'', PStr ''maths-ai-hybrid'')]),
            (''annotations'', PDict [(''gnn_tactic_prior'', PFloat (he_probability e))])] @ diagnostic))))))"

definition certified_result ::
  "runtime \<Rightarrow> hypergraph \<Rightarrow> pyval \<Rightarrow> string \<Rightarrow> int \<Rightarrow> fields \<Rightarrow> py_exc + fields" where
  "certified_result rt g run_id root_sid wall_ms result =
     bind_res (digest rt [PStr ''certificate'', run_id, hg_trace g]) (\<lambda>h.
       Inr (put_all [(''root_state_id'', PStr root_sid), (''disposition'', PStr ''proved-pending-replay''),
         (''certificate'', PDict [(''artifact_hash'', PStr h), (''status'', PStr ''candidate''), (''producer_run_id'', run_id)]),
         (''checkpoint'', checkpoint_of wall_ms []), (''artifacts'', PList [artifact h ''certificate''])] result))"

definition dead_nodes :: "hypergraph \<Rightarrow> (nat \<times> hnode) list" where
  "dead_nodes g = filter (\<lambda>x. hn_status (snd x) = ''dead'') (hg_nodes g)"

definition stagnated_graph ::
  "runtime \<Rightarrow> hypergraph \<Rightarrow> string \<Rightarrow> pyval \<Rightarrow> pyval \<Rightarrow> (nat \<times> string) list \<Rightarrow> string \<Rightarrow> hnode \<Rightarrow> fields \<Rightarrow> py_exc + fields" where
  "stagnated_graph rt g proof run_id env ids root_sid root_node result =
     bind_res (all_res (\<lambda>x. lookup_id ids (fst x)) (dead_nodes g)) (\<lambda>dead.
     bind_res (digest rt [PStr ''minimal-state'', PStr (goal_text root_node)]) (\<lambda>minimal.
     bind_res (all_res (\<lambda>x. digest rt [PStr ''diagnostic'', PStr (hn_note (snd x))]) (dead_nodes g)) (\<lambda>diagnostics.
       Inr (put_all [(''root_state_id'', PStr root_sid), (''disposition'', PStr ''stagnated''),
         (''obstructions'', PList [PDict
           [(''obstruction_id'', PStr (proof @ ''/obs-1'')), (''kind'', PStr ''search-policy''), (''formal_run_id'', run_id),
            (''formal_state_ids'', strs dead), (''minimal_state_artifact'', PStr minimal),
            (''diagnostic_artifacts'', strs diagnostics),
            (''evidence'', PList [PDict [(''kind'', PStr ''heuristic-optimizer'')]]),
            (''suggested_escalation'', PStr ''bridge-lemma''), (''environment_hash'', env)]])] result))))"

definition open_result :: "hypergraph \<Rightarrow> (nat \<times> string) list \<Rightarrow> int \<Rightarrow> string list \<Rightarrow> fields \<Rightarrow> py_exc + fields" where
  "open_result g ids wall_ms frontier result =
     (let result = AList.update ''disposition'' (PStr ''budget-exhausted'') result in
      if \<not> hg_solved g then Inr result
      else bind_res (lookup_id ids (hg_root g)) (\<lambda>root_sid.
        Inr (if root_sid \<in> set frontier then result
             else AList.update ''checkpoint'' (checkpoint_of wall_ms (frontier @ [root_sid])) result)))"

definition convert_graph :: "runtime \<Rightarrow> hypergraph \<Rightarrow> fields \<Rightarrow> int \<Rightarrow> py_exc + fields" where
  "convert_graph rt g request wall_ms =
     bind_res (key_val request ''run_id'') (\<lambda>run_id.
     bind_res (key_str request ''proof_id'') (\<lambda>proof.
     bind_res (key_val request ''environment_hash'') (\<lambda>env.
     bind_res (all_res (convert_node rt g proof env) (hg_nodes g)) (\<lambda>states.
     bind_res (all_res (convert_edge rt proof (state_ids_of proof g)) (List.enumerate 1 (hg_edges g))) (\<lambda>edges.
     bind_res (all_res (lookup_id (state_ids_of proof g)) (hg_frontier g)) (\<lambda>frontier.
       let ids = state_ids_of proof g;
           result =
             [(''run_id'', run_id), (''proof_id'', PStr proof), (''environment_hash'', env),
              (''states'', PList (map PDict states)), (''tactic_edges'', PList (map PDict edges)),
              (''checkpoint'', checkpoint_of wall_ms frontier), (''obstructions'', PList []), (''artifacts'', PList []),
              (''budget_used'', budget_of (int (length edges)) wall_ms)] @
             (if truthy (dget request ''formal_declaration_id'')
              then [(''declaration_id'', dget request ''formal_declaration_id'')] else [])
       in if hg_solved g \<and> hg_root g \<in> kernel_closed_nodes g
          then bind_res (lookup_id ids (hg_root g)) (\<lambda>root_sid. certified_result rt g run_id root_sid wall_ms result)
          else if hg_exhausted g
          then (case map_of (hg_nodes g) (hg_root g) of
                  None \<Rightarrow> Inl KeyError
                | Some root_node \<Rightarrow> bind_res (lookup_id ids (hg_root g)) (\<lambda>root_sid.
                    stagnated_graph rt g proof run_id env ids root_sid root_node result))
          else open_result g ids wall_ms frontier result))))))"

section \<open>The adapter\<close>

text \<open>A finished search: its graph, or the note of the exception it raised; and its milliseconds.\<close>

type_synonym search = "(string + hypergraph) \<times> int"

record maths_atp =
  ma_searches :: nat
  ma_latest :: "(string \<times> fields) list"
  ma_requests :: "(string \<times> fields) list"
  ma_cancelled :: "string set"
  ma_replay :: replay_fn

definition new_maths_atp :: "replay_fn option \<Rightarrow> maths_atp" where
  "new_maths_atp replay_fn =
     \<lparr>ma_searches = 0, ma_latest = [], ma_requests = [], ma_cancelled = {},
      ma_replay = (case replay_fn of Some f \<Rightarrow> f | None \<Rightarrow> projr (stub_replay ''verified''))\<rparr>"

definition maths_replay :: "maths_atp \<Rightarrow> fields \<Rightarrow> pyval \<Rightarrow> fields" where
  "maths_replay a certificate env = ma_replay a certificate env"

definition run_search ::
  "runtime \<Rightarrow> (nat \<Rightarrow> search) \<Rightarrow> maths_atp \<Rightarrow> string \<Rightarrow> fields \<Rightarrow> (py_exc + fields) \<times> maths_atp" where
  "run_search rt searches a run_id request =
     (let (out, wall_ms) = searches (ma_searches a);
          a1 = a\<lparr>ma_searches := Suc (ma_searches a)\<rparr>
      in case out of
           Inl note \<Rightarrow> (bind_res (build_result rt ''internal-error'' request) (with_note note), a1)
         | Inr g \<Rightarrow>
             (case convert_graph rt g request wall_ms of
                Inl e \<Rightarrow> (Inl e, a1)
              | Inr result \<Rightarrow> (Inr result,
                  a1\<lparr>ma_latest := AList.update run_id result (ma_latest a1),
                     ma_requests := AList.update run_id request (ma_requests a1)\<rparr>)))"

definition maths_start ::
  "runtime \<Rightarrow> (nat \<Rightarrow> search) \<Rightarrow> maths_atp \<Rightarrow> fields \<Rightarrow> (py_exc + fields) \<times> maths_atp" where
  "maths_start rt searches a request =
     (let absent = missing_request_fields request;
          missing = (if absent = [] \<and> \<not> truthy (dget request ''goal_text'') then [''goal_text''] else absent)
      in if missing \<noteq> [] then (refused_request rt (missing_note missing) request, a)
         else (case key_str request ''run_id'' of
             Inl e \<Rightarrow> (Inl e, a)
           | Inr run_id \<Rightarrow> run_search rt searches a run_id request))"

definition maths_resume ::
  "runtime \<Rightarrow> (nat \<Rightarrow> search) \<Rightarrow> maths_atp \<Rightarrow> string \<Rightarrow> (py_exc + fields) \<times> maths_atp" where
  "maths_resume rt searches a run_id =
     (if run_id \<in> ma_cancelled a then (Inr (cancelled_result run_id), a)
      else (case map_of (ma_requests a) run_id of
          None \<Rightarrow> (unknown_run rt run_id, a)
        | Some request \<Rightarrow> run_search rt searches a run_id request))"

definition maths_status :: "runtime \<Rightarrow> maths_atp \<Rightarrow> string \<Rightarrow> py_exc + fields" where
  "maths_status rt a run_id =
     (case map_of (ma_latest a) run_id of None \<Rightarrow> unknown_run rt run_id | Some latest \<Rightarrow> Inr latest)"

definition maths_cancel :: "maths_atp \<Rightarrow> string \<Rightarrow> (py_exc + fields) \<times> maths_atp" where
  "maths_cancel a run_id =
     (Inr (cancelled_result run_id), a\<lparr>ma_cancelled := insert run_id (ma_cancelled a)\<rparr>)"

fun maths_call ::
  "runtime \<Rightarrow> (nat \<Rightarrow> search) \<Rightarrow> maths_atp \<Rightarrow> atp_call \<Rightarrow> (py_exc + fields) \<times> maths_atp" where
  "maths_call rt searches a (CallStart request) = maths_start rt searches a request"
| "maths_call rt searches a (CallResume r) = maths_resume rt searches a r"
| "maths_call rt searches a (CallStatus r) = (maths_status rt a r, a)"
| "maths_call rt searches a (CallCancel r) = maths_cancel a r"

lemma run_search_cancelled [simp]: "ma_cancelled (snd (run_search rt searches a r request)) = ma_cancelled a"
  by (simp add: run_search_def Let_def split: prod.split sum.split)

lemma run_search_latest:
  "run_search rt searches a r request = (Inr d, a') \<Longrightarrow>
     map_of (ma_latest a') r = Some d \<or> map_of (ma_latest a') r = map_of (ma_latest a) r"
  by (auto simp: run_search_def Let_def update_conv' split: prod.splits sum.splits)

interpretation maths: atp_adapter "maths_call rt searches" "\<lambda>a r. r \<in> ma_cancelled a" "\<lambda>a r. map_of (ma_latest a) r"
  for rt searches
proof
  show "r \<in> ma_cancelled (snd (maths_call rt searches a c))" if "r \<in> ma_cancelled a" for a r c
    using that by (cases c) (auto simp: maths_start_def maths_resume_def maths_cancel_def Let_def split: sum.split option.split)
  show "map_of (ma_latest a') r = Some d \<or> map_of (ma_latest a') r = map_of (ma_latest a) r"
    if "maths_call rt searches a (CallResume r) = (Inr d, a')" for a r d a'
    using that run_search_latest [of rt searches a r _ d a'] by (auto simp: maths_resume_def split: if_splits option.splits)
qed (auto simp: maths_cancel_def maths_resume_def maths_status_def)

section \<open>What a converted graph claims\<close>

text \<open>The result of a conversion before its outcome is added.\<close>

definition graph_base :: "runtime \<Rightarrow> hypergraph \<Rightarrow> fields \<Rightarrow> int \<Rightarrow> string \<Rightarrow> fields list \<Rightarrow> fields list \<Rightarrow> fields \<Rightarrow> bool" where
  "graph_base rt g request wall_ms proof states edges result \<longleftrightarrow>
     key_str request ''proof_id'' = Inr proof \<and>
     all_res (convert_node rt g proof (dget result ''environment_hash'')) (hg_nodes g) = Inr states \<and>
     all_res (convert_edge rt proof (state_ids_of proof g)) (List.enumerate 1 (hg_edges g)) = Inr edges \<and>
     dget result ''environment_hash'' = dget request ''environment_hash'' \<and>
     dget result ''states'' = PList (map PDict states) \<and> dget result ''tactic_edges'' = PList (map PDict edges) \<and>
     dget result ''obstructions'' = PList [] \<and> dget result ''disposition'' = PNone \<and> dget result ''certificate'' = PNone"

lemma convert_cases:
  assumes "convert_graph rt g request wall_ms = Inr r"
  obtains pid states edges result run_id where "graph_base rt g request wall_ms pid states edges result"
    and "hg_solved g" "hg_root g \<in> kernel_closed_nodes g" "\<exists>sid. certified_result rt g run_id sid wall_ms result = Inr r"
  | pid states edges result ids run_id n where "graph_base rt g request wall_ms pid states edges result"
    and "\<not> (hg_solved g \<and> hg_root g \<in> kernel_closed_nodes g)" "hg_exhausted g"
      "\<exists>sid. stagnated_graph rt g pid run_id (dget request ''environment_hash'') ids sid n result = Inr r"
  | pid states edges result ids frontier where "graph_base rt g request wall_ms pid states edges result"
    and "\<not> (hg_solved g \<and> hg_root g \<in> kernel_closed_nodes g)" "\<not> hg_exhausted g"
      "open_result g ids wall_ms frontier result = Inr r"
proof -
  from assms obtain run_id pid env states edges frontier where parts:
    "key_val request ''run_id'' = Inr run_id" "key_str request ''proof_id'' = Inr pid"
    "key_val request ''environment_hash'' = Inr env" "all_res (convert_node rt g pid env) (hg_nodes g) = Inr states"
    "all_res (convert_edge rt pid (state_ids_of pid g)) (List.enumerate 1 (hg_edges g)) = Inr edges"
    "all_res (lookup_id (state_ids_of pid g)) (hg_frontier g) = Inr frontier"
    unfolding convert_graph_def bind_res_Inr by blast
  define result where "result = [(''run_id'', run_id), (''proof_id'', PStr pid), (''environment_hash'', env),
      (''states'', PList (map PDict states)), (''tactic_edges'', PList (map PDict edges)),
      (''checkpoint'', checkpoint_of wall_ms frontier), (''obstructions'', PList []), (''artifacts'', PList []),
      (''budget_used'', budget_of (int (length edges)) wall_ms)] @
     (if truthy (dget request ''formal_declaration_id'')
      then [(''declaration_id'', dget request ''formal_declaration_id'')] else [])"
  have env: "dget request ''environment_hash'' = env" using parts(3) by (auto simp: key_val_def dget_def split: option.splits)
  have base: "graph_base rt g request wall_ms pid states edges result"
    using parts env by (simp add: graph_base_def result_def)
  have r: "(if hg_solved g \<and> hg_root g \<in> kernel_closed_nodes g
     then bind_res (lookup_id (state_ids_of pid g) (hg_root g)) (\<lambda>sid. certified_result rt g run_id sid wall_ms result)
     else if hg_exhausted g
     then (case map_of (hg_nodes g) (hg_root g) of None \<Rightarrow> Inl KeyError
       | Some n \<Rightarrow> bind_res (lookup_id (state_ids_of pid g) (hg_root g)) (\<lambda>sid.
           stagnated_graph rt g pid run_id env (state_ids_of pid g) sid n result))
     else open_result g (state_ids_of pid g) wall_ms frontier result) = Inr r"
    using assms unfolding convert_graph_def parts bind_res_simps Let_def result_def by simp
  show ?thesis
  proof (cases "hg_solved g \<and> hg_root g \<in> kernel_closed_nodes g")
    case True
    then show ?thesis using that(1) [OF base] r by (auto simp: bind_res_Inr)
  next
    case False
    note open' = False
    show ?thesis
    proof (cases "hg_exhausted g")
      case True
      with r open' obtain n sid
        where "stagnated_graph rt g pid run_id env (state_ids_of pid g) sid n result = Inr r"
        by (auto simp: bind_res_Inr split: option.splits)
      then show ?thesis using that(2) [OF base open' True] env by blast
    next
      case False
      then show ?thesis using that(3) [OF base open'] open' r by auto
    qed
  qed
qed

lemma base_lookup:
  "graph_base rt g request wall_ms pid states edges result \<Longrightarrow>
     dget result ''disposition'' = PNone \<and> dget result ''certificate'' = PNone"
  by (simp add: graph_base_def)

text \<open>C32. A converted graph is reported as proved, and comes with a certificate, exactly when the
  reasoner reports it solved and some solved edge of its root carries a kernel tactic; otherwise the
  disposition is stagnated or budget-exhausted.\<close>

theorem certificates_need_a_kernel_edge:
  assumes "convert_graph rt g request wall_ms = Inr r"
  shows "(dget r ''certificate'' \<noteq> PNone \<longleftrightarrow> hg_solved g \<and>
      list_ex (\<lambda>e. he_source e = hg_root g \<and> he_status e = ''solved'' \<and> he_tactic e \<notin> set NON_KERNEL_TACTICS) (hg_edges g)) \<and>
    (dget r ''disposition'' = PStr ''proved-pending-replay'' \<longleftrightarrow> dget r ''certificate'' \<noteq> PNone) \<and>
    dget r ''disposition'' \<in> {PStr ''proved-pending-replay'', PStr ''stagnated'', PStr ''budget-exhausted''}"
proof -
  have kernel: "hg_root g \<in> kernel_closed_nodes g \<longleftrightarrow>
      list_ex (\<lambda>e. he_source e = hg_root g \<and> he_status e = ''solved'' \<and> he_tactic e \<notin> set NON_KERNEL_TACTICS) (hg_edges g)"
    unfolding kernel_closed_nodes_def list_ex_iff image_iff by auto
  from assms show ?thesis
    unfolding kernel [symmetric]
  proof (cases rule: convert_cases)
    case (1 pid states edges result run_id)
    then show "(dget r ''certificate'' \<noteq> PNone \<longleftrightarrow> hg_solved g \<and> hg_root g \<in> kernel_closed_nodes g) \<and>
      (dget r ''disposition'' = PStr ''proved-pending-replay'' \<longleftrightarrow> dget r ''certificate'' \<noteq> PNone) \<and>
      dget r ''disposition'' \<in> {PStr ''proved-pending-replay'', PStr ''stagnated'', PStr ''budget-exhausted''}"
      by (auto simp: certified_result_def bind_res_Inr dget_put_all)
  next
    case (2 pid states edges result ids run_id n)
    then show "(dget r ''certificate'' \<noteq> PNone \<longleftrightarrow> hg_solved g \<and> hg_root g \<in> kernel_closed_nodes g) \<and>
      (dget r ''disposition'' = PStr ''proved-pending-replay'' \<longleftrightarrow> dget r ''certificate'' \<noteq> PNone) \<and>
      dget r ''disposition'' \<in> {PStr ''proved-pending-replay'', PStr ''stagnated'', PStr ''budget-exhausted''}"
      using base_lookup by (auto simp: stagnated_graph_def bind_res_Inr dget_put_all)
  next
    case (3 pid states edges result ids frontier)
    then show "(dget r ''certificate'' \<noteq> PNone \<longleftrightarrow> hg_solved g \<and> hg_root g \<in> kernel_closed_nodes g) \<and>
      (dget r ''disposition'' = PStr ''proved-pending-replay'' \<longleftrightarrow> dget r ''certificate'' \<noteq> PNone) \<and>
      dget r ''disposition'' \<in> {PStr ''proved-pending-replay'', PStr ''stagnated'', PStr ''budget-exhausted''}"
      using base_lookup by (auto simp: open_result_def bind_res_Inr dget_update Let_def split: if_splits)
  qed
qed

lemma convert_node_named:
  "convert_node rt g pid env x = Inr s \<Longrightarrow> state_named (state_id pid (fst x + 1)) s"
  by (auto simp: convert_node_def build_state_def bind_res_Inr state_named_def Let_def split: if_splits)

text \<open>An edge whose declared count is the number of its children, all of them reported states.\<close>

definition edge_counted :: "string list \<Rightarrow> string list \<Rightarrow> fields \<Rightarrow> bool" where
  "edge_counted ids cs e \<longleftrightarrow>
     dget e ''produced_goal_ids'' = PList (map PStr cs) \<and> set cs \<subseteq> set ids \<and>
     dget e ''subgoal_count'' = PInt (int (length cs)) \<and>
     (\<exists>res label. dget e ''executor_result'' = PStr res \<and> dget e ''tactic_label'' = PStr label \<and>
        (label \<notin> set NON_KERNEL_TACTICS \<or> res \<noteq> ''lean-accepted''))"

lemma repeats_found:
  assumes "\<not> distinct cs"
  shows "repeated (map PStr cs) \<noteq> []"
proof -
  obtain xs y ys zs where "cs = xs @ [y] @ ys @ [y] @ zs" using not_distinct_decomp [OF assms] by blast
  then have "PStr y \<in> set (repeated (map PStr cs))" by (simp add: repeated_def)
  then show ?thesis by auto
qed

lemma repeats_are_texts:
  "list_all is_string (repeated (map PStr cs))" "list_all hashable (repeated (map PStr cs))"
  by (auto simp: repeated_def list_all_iff)

lemma texts_sorted: "list_all is_string xs \<Longrightarrow> \<exists>ys. py_sorted xs = Inr ys"
  by (simp add: py_sorted_def)

lemma distinct_values_set: "set (distinct_values xs) \<subseteq> set xs"
  by (induction xs) auto

lemma edge_counted_checked:
  assumes "edge_counted ids cs e"
  shows "check_tactic_edge (map PStr ids) i e =
    Inr (if distinct cs then [] else [violation DUPLICATED_SUBGOAL (pointer ''tactic_edges'' i)])"
proof -
  from assms obtain res label where e: "dget e ''produced_goal_ids'' = PList (map PStr cs)" "set cs \<subseteq> set ids"
    "dget e ''subgoal_count'' = PInt (int (length cs))" "dget e ''executor_result'' = PStr res"
    "dget e ''tactic_label'' = PStr label" "label \<notin> set NON_KERNEL_TACTICS \<or> res \<noteq> ''lean-accepted''"
    by (auto simp: edge_counted_def)
  let ?rs = "repeated (map PStr cs)"
  have goals: "produced_goals e = Inr (map PStr cs)" by (simp add: produced_goals_def e(1))
  have known: "all_res (\<lambda>c. in_set c (map PStr ids)) (map PStr cs) = Inr (map (\<lambda>c. True) (map PStr cs))"
    by (rule all_res_map) (use e(2) in \<open>auto simp: in_set_def is_in_def list_ex_iff\<close>)
  have hashed: "all_res hashed ?rs = Inr (map id ?rs)"
    by (rule all_res_map) (use repeats_are_texts(2) [of cs] in \<open>auto simp: hashed_def list_all_iff\<close>)
  obtain ys where sorted: "py_sorted (distinct_values ?rs) = Inr ys"
    using texts_sorted [of "distinct_values ?rs"] repeats_are_texts(1) [of cs] distinct_values_set [of ?rs]
    by (auto simp: list_all_iff)
  have "False \<notin> set (map (\<lambda>c. True) (map PStr cs))" by simp
  then show ?thesis
    using e(6) repeats_found [of cs]
    by (auto simp add: check_tactic_edge_def goals known hashed sorted repeated_strs e(3-5) Let_def)
qed

lemma convert_edge_counted:
  assumes "convert_edge rt pid (state_ids_of pid g) x = Inr e"
  shows "edge_counted (map (\<lambda>x. state_id pid (fst x + 1)) (hg_nodes g))
    (map (\<lambda>n. state_id pid (n + 1)) (he_children (snd x))) e"
proof -
  have ids: "i = state_id pid (n + 1) \<and> i \<in> set (map (\<lambda>x. state_id pid (fst x + 1)) (hg_nodes g))"
    if "lookup_id (state_ids_of pid g) n = Inr i" for n i
    using that by (auto simp: lookup_id_def state_ids_of_def dest!: map_of_SomeD split: option.splits)
  from assms obtain diagnostic source children where e:
    "all_res (lookup_id (state_ids_of pid g)) (he_children (snd x)) = Inr children"
    "e = build_tactic_edge pid (fst x) source (executor_result (snd x)) (length (he_children (snd x))) children
      ([(''tactic_label'', PStr (he_tactic (snd x))), (''tactic_args'', strs (he_arguments (snd x))),
        (''model_provenance'', PDict [(''search_policy_name'', PStr ''maths-ai-hybrid'')]),
        (''annotations'', PDict [(''gnn_tactic_prior'', PFloat (he_probability (snd x)))])] @ diagnostic)"
    "diagnostic = [] \<or> (\<exists>d. diagnostic = [(''diagnostic_artifact'', PStr d)])"
    by (auto simp: convert_edge_def Let_def bind_res_Inr split: if_splits)
  have children: "children = map (\<lambda>n. state_id pid (n + 1)) (he_children (snd x))"
    "set children \<subseteq> set (map (\<lambda>x. state_id pid (fst x + 1)) (hg_nodes g))"
    using all_res_Inr [THEN iffD1, OF e(1)] by (induction rule: list_all2_induct) (use ids in auto)
  have "dget e ''produced_goal_ids'' = PList (map PStr children)" "dget e ''source_state_id'' = PStr source"
    "dget e ''subgoal_count'' = PInt (int (length children))" "dget e ''executor_result'' = PStr (executor_result (snd x))"
    "dget e ''tactic_label'' = PStr (he_tactic (snd x))"
    using e(3) by (elim disjE exE; simp add: e(2) build_tactic_edge_def dget_put_all strs_def children(1))+
  moreover have "he_tactic (snd x) \<notin> set NON_KERNEL_TACTICS \<or> executor_result (snd x) \<noteq> ''lean-accepted''"
    by (simp add: executor_result_def)
  ultimately show ?thesis using children(2) unfolding edge_counted_def children(1) by simp
qed

lemma graph_base_lists:
  assumes "graph_base rt g request wall_ms pid states edges result"
  shows "list_all2 (\<lambda>x s. convert_node rt g pid (dget result ''environment_hash'') x = Inr s) (hg_nodes g) states"
    and "list_all2 (\<lambda>x e. convert_edge rt pid (state_ids_of pid g) x = Inr e) (List.enumerate 1 (hg_edges g)) edges"
  using assms unfolding graph_base_def by - (elim conjE, rule all_res_Inr [THEN iffD1], assumption)+

lemma distinct_state_ids: "distinct (map (\<lambda>n. state_id pid (n + 1)) ns) \<longleftrightarrow> distinct ns"
proof -
  have "inj_on (\<lambda>n. state_id pid (n + 1)) (set ns)" by (auto intro: inj_onI)
  then show ?thesis by (simp add: distinct_map)
qed

lemma edges_checked:
  assumes "list_all2 (\<lambda>x e. edge_counted ids (map (\<lambda>n. state_id pid (n + 1)) (he_children x)) e) hs es"
  shows "collect (\<lambda>(i, x). bind_res (as_dict x) (check_tactic_edge (map PStr ids) i)) (List.enumerate n (map PDict es)) =
    Inr (map (\<lambda>(i, e). violation DUPLICATED_SUBGOAL (pointer ''tactic_edges'' i))
      (filter (\<lambda>(i, e). \<not> distinct (he_children e)) (List.enumerate n hs)))"
  using assms
proof (induction hs es arbitrary: n rule: list_all2_induct)
  case (Cons h hs e es)
  note edge_counted_checked [OF Cons.hyps(1), of n, unfolded distinct_state_ids]
  then show ?case using Cons.IH [of "Suc n"] by (simp add: gen_append_def)
qed simp

lemma graph_base_checks:
  assumes "graph_base rt g request wall_ms pid states edges result"
    and "dget r ''states'' = dget result ''states''" "dget r ''tactic_edges'' = dget result ''tactic_edges''"
  shows "check_tactic_edges r =
    Inr (map (\<lambda>(i, e). violation DUPLICATED_SUBGOAL (pointer ''tactic_edges'' i))
      (filter (\<lambda>(i, e). \<not> distinct (he_children e)) (List.enumerate 0 (hg_edges g))))"
proof -
  let ?ids = "map (\<lambda>x. state_id pid (fst x + 1)) (hg_nodes g)"
  have ls: "lists r ''states'' states" "lists r ''tactic_edges'' edges"
    using assms by (simp_all add: lists_def graph_base_def)
  have "list_all2 state_named ?ids states"
    unfolding list.rel_map using graph_base_lists(1) [OF assms(1)]
    by (rule list_all2_mono) (rule convert_node_named)
  then have "all_res (\<lambda>x. bind_res (as_dict x) (\<lambda>s. hashed (dget s ''state_id''))) (map PDict states) = Inr (map PStr ?ids)"
    by (induction rule: list_all2_induct) (simp_all add: state_named_def hashed_def)
  then have ids: "state_ids r = Inr (map PStr ?ids)" by (simp add: state_ids_def lists_items [OF ls(1)])
  have "list_all2 (\<lambda>x e. edge_counted ?ids (map (\<lambda>n. state_id pid (n + 1)) (he_children x)) e)
      (map snd (List.enumerate 1 (hg_edges g))) edges"
    unfolding list.rel_map by (rule list_all2_mono [OF graph_base_lists(2) [OF assms(1)]]) (rule convert_edge_counted)
  then have "list_all2 (\<lambda>x e. edge_counted ?ids (map (\<lambda>n. state_id pid (n + 1)) (he_children x)) e) (hg_edges g) edges"
    by simp
  from edges_checked [OF this] show ?thesis
    by (simp add: check_tactic_edges_def ids each_object_def lists_items [OF ls(2)])
qed

lemma graph_base_environment:
  assumes "graph_base rt g request wall_ms pid states edges result"
    and "dget r ''environment_hash'' = dget result ''environment_hash''" "lists r ''obstructions'' obs"
    and "\<And>b. b \<in> set obs \<Longrightarrow> dget b ''environment_hash'' = dget request ''environment_hash''"
  shows "check_environment r = Inr [] \<longleftrightarrow> (\<exists>h. dget request ''environment_hash'' = PStr h \<and> is_sha256 h)"
proof
  assume "check_environment r = Inr []"
  then have "snd (environment_value (dget r ''environment_hash'')) = []"
    by (auto simp: check_environment_def gen_append_clean split: prod.splits)
  then show "\<exists>h. dget request ''environment_hash'' = PStr h \<and> is_sha256 h"
    using assms(1,2) by (auto simp: environment_value_def graph_base_def split: pyval.splits if_splits)
next
  assume "\<exists>h. dget request ''environment_hash'' = PStr h \<and> is_sha256 h"
  then obtain h where h: "dget request ''environment_hash'' = PStr h" "is_sha256 h" by blast
  show "check_environment r = Inr []"
    by (rule environment_ok [where h = h, OF _ h(2) assms(3)]) (use assms(1,2,4) h in \<open>simp_all add: graph_base_def\<close>)
qed

lemma converted_lists:
  assumes "convert_graph rt g request wall_ms = Inr r"
  obtains pid states edges result where "graph_base rt g request wall_ms pid states edges result"
    "dget r ''states'' = dget result ''states''" "dget r ''tactic_edges'' = dget result ''tactic_edges''"
  using assms
proof (cases rule: convert_cases)
  case (1 pid states edges result run_id)
  then show ?thesis by (intro that [OF 1(1)]) (auto simp: certified_result_def bind_res_Inr dget_put_all)
next
  case (2 pid states edges result ids run_id n)
  then show ?thesis by (intro that [OF 2(1)]) (auto simp: stagnated_graph_def bind_res_Inr dget_put_all)
next
  case (3 pid states edges result ids frontier)
  then show ?thesis by (intro that [OF 3(1)])
    (auto simp: open_result_def bind_res_Inr dget_update Let_def split: if_splits)
qed

text \<open>C31. Of a converted graph, whatever the reasoner put in it, the edge check of the structural
  validator reports exactly the edges that list a goal twice: every edge declares as many goals as it
  lists, they are all reported states, and no fallback edge reads as accepted by Lean. The
  environment check finds nothing exactly when the request names a well-formed hash, which the result
  and its obstruction then share, and the certificate check finds nothing.\<close>

theorem converted_graphs_pass_the_edge_checks:
  assumes "convert_graph rt g request wall_ms = Inr r"
  shows "check_tactic_edges r =
      Inr (map (\<lambda>(i, e). violation DUPLICATED_SUBGOAL (pointer ''tactic_edges'' i))
        (filter (\<lambda>(i, e). \<not> distinct (he_children e)) (List.enumerate 0 (hg_edges g)))) \<and>
    (check_environment r = Inr [] \<longleftrightarrow> (\<exists>h. dget request ''environment_hash'' = PStr h \<and> is_sha256 h)) \<and>
    check_certificate_replay_binding r = Inr []"
proof (intro conjI)
  show "check_tactic_edges r =
      Inr (map (\<lambda>(i, e). violation DUPLICATED_SUBGOAL (pointer ''tactic_edges'' i))
        (filter (\<lambda>(i, e). \<not> distinct (he_children e)) (List.enumerate 0 (hg_edges g))))"
    by (rule converted_lists [OF assms]) (rule graph_base_checks)
  show "check_environment r = Inr [] \<longleftrightarrow> (\<exists>h. dget request ''environment_hash'' = PStr h \<and> is_sha256 h)"
    using assms
  proof (cases rule: convert_cases)
    case (1 pid states edges result run_id)
    then show ?thesis by (intro graph_base_environment [OF 1(1), where obs = "[]"])
      (auto simp: certified_result_def bind_res_Inr dget_put_all graph_base_def lists_def)
  next
    case (2 pid states edges result ids run_id n)
    then obtain ob where "dget r ''obstructions'' = PList [PDict ob]"
      "dget ob ''environment_hash'' = dget request ''environment_hash''"
      "dget r ''environment_hash'' = dget result ''environment_hash''"
      by (auto simp: stagnated_graph_def bind_res_Inr dget_put_all)
    then show ?thesis by (intro graph_base_environment [OF 2(1), where obs = "[ob]"]) (auto simp: lists_def)
  next
    case (3 pid states edges result ids frontier)
    then have r: "dget r k = dget result k" if "k \<noteq> ''disposition''" "k \<noteq> ''checkpoint''" for k
      using that by (auto simp: open_result_def bind_res_Inr dget_update Let_def split: if_splits)
    show ?thesis by (rule graph_base_environment [OF 3(1), where obs = "[]"])
      (use 3(1) in \<open>simp_all add: r graph_base_def lists_def\<close>)
  qed
  show "check_certificate_replay_binding r = Inr []"
    using assms
  proof (cases rule: convert_cases)
    case (3 pid states edges result ids frontier)
    then have "dget r ''certificate'' = dget result ''certificate''" "dget r ''disposition'' = PStr ''budget-exhausted''"
      by (auto simp: open_result_def bind_res_Inr dget_update Let_def split: if_splits)
    then show ?thesis by (intro certificate_ok disjI1) (use 3(1) in \<open>simp add: graph_base_def\<close>)
  qed (auto intro!: certificate_ok simp: certified_result_def stagnated_graph_def bind_res_Inr dget_put_all graph_base_def)
qed

section \<open>Example graphs\<close>

definition open_node :: "string \<Rightarrow> hnode" where
  "open_node status = \<lparr>hn_status = status, hn_expression = ''P'', hn_hypotheses = [], hn_probability = Finite 1,
     hn_stv = None, hn_note = ''''\<rparr>"

definition edge_by :: "string \<Rightarrow> nat \<Rightarrow> nat list \<Rightarrow> hedge" where
  "edge_by tactic source children = \<lparr>he_source = source, he_children = children, he_status = ''solved'',
     he_tactic = tactic, he_arguments = [], he_probability = Finite 1, he_note = ''''\<rparr>"

definition solved_graph :: "hedge list \<Rightarrow> nat list \<Rightarrow> hypergraph" where
  "solved_graph es nodes = \<lparr>hg_nodes = map (\<lambda>i. (i, open_node ''solved'')) nodes, hg_edges = es, hg_root = 0,
     hg_frontier = [], hg_solved = True, hg_exhausted = False, hg_trace = PNone\<rparr>"

definition converted :: "hedge list \<Rightarrow> nat list \<Rightarrow> fields" where
  "converted es nodes = projr (convert_graph hex_runtime (solved_graph es nodes) demo_request 5)"

lemma converted_Inr:
  "isl (convert_graph hex_runtime (solved_graph es nodes) demo_request 5) = False \<Longrightarrow>
     convert_graph hex_runtime (solved_graph es nodes) demo_request 5 = Inr (converted es nodes)"
  by (simp add: converted_def)

theorem certificates_need_a_kernel_edge_witness:
  "dget (converted [edge_by ''exact'' 0 []] [0]) ''certificate'' \<noteq> PNone \<and>
   dget (converted [edge_by ''PLN_fallback'' 0 []] [0]) ''certificate'' = PNone"
proof
  have "convert_graph hex_runtime (solved_graph [edge_by ''exact'' 0 []] [0]) demo_request 5 =
      Inr (converted [edge_by ''exact'' 0 []] [0])" by (rule converted_Inr) code_simp
  from certificates_need_a_kernel_edge [OF this]
  show "dget (converted [edge_by ''exact'' 0 []] [0]) ''certificate'' \<noteq> PNone"
    by (simp add: solved_graph_def edge_by_def NON_KERNEL_TACTICS_def)
  have "convert_graph hex_runtime (solved_graph [edge_by ''PLN_fallback'' 0 []] [0]) demo_request 5 =
      Inr (converted [edge_by ''PLN_fallback'' 0 []] [0])" by (rule converted_Inr) code_simp
  from certificates_need_a_kernel_edge [OF this]
  show "dget (converted [edge_by ''PLN_fallback'' 0 []] [0]) ''certificate'' = PNone"
    by (simp add: solved_graph_def edge_by_def NON_KERNEL_TACTICS_def)
qed

text \<open>
  The root's own edge is looked at, not the proof below it: a root split by a kernel tactic into a
  goal that only the fallback closed gets a certificate, while that goal is reported open.
\<close>

lemma certificate_over_fallback:
  "dget (converted [edge_by ''constructor'' 0 [1], edge_by ''PLN_fallback'' 1 []] [0, 1]) ''certificate'' \<noteq> PNone \<and>
   map (\<lambda>s. dget s ''status'') (objects (converted [edge_by ''constructor'' 0 [1], edge_by ''PLN_fallback'' 1 []] [0, 1]) ''states'') =
     [PStr ''formally-closed'', PStr ''open'']"
  by (rule conjI; code_simp)

text \<open>A proof of two steps is reported by the structural validator: its root is closed, but by an
  edge with a subgoal.\<close>

lemma two_step_proof_reported:
  "validate_formal_search_result (converted [edge_by ''constructor'' 0 [1], edge_by ''exact'' 1 []] [0, 1]) =
     Inr [violation HEURISTIC_CLOSURE_ATTEMPT ''states[0].status'']"
  by code_simp

theorem converted_graphs_pass_the_edge_checks_witness:
  "check_tactic_edges (converted [edge_by ''constructor'' 0 [1, 1], edge_by ''exact'' 1 [], edge_by ''PLN_fallback'' 2 []] [0, 1, 2]) =
     Inr [violation DUPLICATED_SUBGOAL ''tactic_edges[0]''] \<and>
   check_environment (converted [edge_by ''constructor'' 0 [1, 1], edge_by ''exact'' 1 [], edge_by ''PLN_fallback'' 2 []] [0, 1, 2]) = Inr []"
proof -
  let ?es = "[edge_by ''constructor'' 0 [1, 1], edge_by ''exact'' 1 [], edge_by ''PLN_fallback'' 2 []]"
  have "convert_graph hex_runtime (solved_graph ?es [0, 1, 2]) demo_request 5 = Inr (converted ?es [0, 1, 2])"
    by (rule converted_Inr) code_simp
  note checks = converted_graphs_pass_the_edge_checks [OF this]
  have "map (\<lambda>(i, e). violation DUPLICATED_SUBGOAL (pointer ''tactic_edges'' i))
      (filter (\<lambda>(i, e). \<not> distinct (he_children e)) (List.enumerate 0 (hg_edges (solved_graph ?es [0, 1, 2])))) =
    [violation DUPLICATED_SUBGOAL ''tactic_edges[0]'']" by code_simp
  moreover have "dget demo_request ''environment_hash'' = PStr demo_hash" "is_sha256 demo_hash" by code_simp+
  ultimately show ?thesis using checks by simp
qed

end
