(* ===== verification/Persistence.thy ===== *)
theory Persistence
  imports View
begin

text \<open>
  What the projection of operations onto a view (\<^verbatim>\<open>src/src/commit_gate/apply.py\<close>) leaves alone: nodes that no
  operation touches, nodes that exist and are not written, edges when none is removed; and when
  it cannot raise.
\<close>

lemma apply_ops_keep:
  assumes "apply_ops v xs = Inr w" "P v"
    "\<And>u x u'. x \<in> set xs \<Longrightarrow> apply_op u x = Inr u' \<Longrightarrow> P u \<Longrightarrow> P u'"
  shows "P w"
  using assms
proof (induction xs arbitrary: v)
  case (Cons x xs)
  then obtain u where u: "apply_op v x = Inr u" "apply_ops u xs = Inr w" by (auto split: sum.splits)
  have "P u" by (rule Cons.prems(3) [OF _ u(1) Cons.prems(2)]) simp
  with u(2) show ?case by (rule Cons.IH) (use Cons.prems(3) in \<open>auto intro: list.set_intros(2)\<close>)
qed simp

definition writes :: "op \<Rightarrow> string \<Rightarrow> bool" where
  "writes x n \<longleftrightarrow> is_setfield x \<and> op_node x = n"

definition touches :: "op \<Rightarrow> string \<Rightarrow> bool" where
  "touches x n \<longleftrightarrow> (is_setfield x \<or> is_upsert x) \<and> op_node x = n"

lemma apply_op_node:
  assumes "apply_op v x = Inr w"
  shows "mem_node w n = mem_node v n \<or> touches x n \<and> (mem_node v n = None \<or> writes x n) \<and> mem_node w n \<noteq> None"
  using assms
proof (cases x)
  case (RemoveEdge rel e)
  then show ?thesis using assms by (simp add: mem_node_remove_edge)
qed (auto simp: writes_def touches_def mem_node_add_node mem_set_field_Inr split: option.splits if_splits)

lemma apply_op_edge:
  assumes "apply_op v x = Inr w" "\<not> is_removeedge x" "mv_edges v e = Some r"
  shows "mv_edges w e = Some r"
  using assms by (cases x) (auto simp: mem_set_field_Inr mem_edge_def mem_add_edge_def split: option.splits)

lemma apply_ops_untouched:
  assumes "apply_ops v xs = Inr w" "\<And>x. x \<in> set xs \<Longrightarrow> \<not> touches x n"
  shows "mem_node w n = mem_node v n"
  using assms(1) by (rule apply_ops_keep) (use apply_op_node [of _ _ _ n] assms(2) in fastforce)+

lemma apply_ops_unwritten:
  assumes "apply_ops v xs = Inr w" "mem_node v n = Some r" "\<And>x. x \<in> set xs \<Longrightarrow> \<not> writes x n"
  shows "mem_node w n = Some r"
  using assms(1,2) by (rule apply_ops_keep) (use apply_op_node [of _ _ _ n] assms(3) in fastforce)

lemma apply_ops_present:
  assumes "apply_ops v xs = Inr w" "mem_node v n \<noteq> None"
  shows "mem_node w n \<noteq> None"
  using assms by (rule apply_ops_keep) (use apply_op_node [of _ _ _ n] in fastforce)

lemma apply_ops_edge:
  assumes "apply_ops v xs = Inr w" "mv_edges v e = Some r" "\<And>x. x \<in> set xs \<Longrightarrow> \<not> is_removeedge x"
  shows "mv_edges w e = Some r"
  using assms(1,2) by (rule apply_ops_keep) (use apply_op_edge assms(3) in blast)

lemma apply_ops_split:
  "apply_ops v (xs @ ys) = Inr w \<longleftrightarrow> (\<exists>u. apply_ops v xs = Inr u \<and> apply_ops u ys = Inr w)"
  by (induction xs arbitrary: v) (auto split: sum.splits)

lemma apply_ops_Cons:
  "apply_ops v (x # xs) = Inr w \<longleftrightarrow> (\<exists>u. apply_op v x = Inr u \<and> apply_ops u xs = Inr w)"
  by (auto split: sum.splits)

lemma apply_ops_upserted:
  assumes "apply_ops v xs = Inr w" "UpsertNode l n fs \<in> set xs"
  shows "mem_node w n \<noteq> None"
proof -
  obtain as bs where xs: "xs = as @ UpsertNode l n fs # bs" using assms(2) by (meson split_list)
  obtain u u' where "apply_op u (UpsertNode l n fs) = Inr u'" "apply_ops u' bs = Inr w"
    using assms(1) unfolding xs apply_ops_split apply_ops_Cons by blast
  moreover from this(1) have "mem_node u' n \<noteq> None" by (auto simp: mem_node_add_node split: option.splits)
  ultimately show ?thesis using apply_ops_present by blast
qed

lemma apply_ops_added:
  assumes "apply_ops v xs = Inr w" "AddEdge rel a b e fs \<in> set xs" "\<And>x. x \<in> set xs \<Longrightarrow> \<not> is_removeedge x"
  shows "mv_edges w e \<noteq> None"
proof -
  obtain as bs where xs: "xs = as @ AddEdge rel a b e fs # bs" using assms(2) by (meson split_list)
  obtain u u' where "apply_op u (AddEdge rel a b e fs) = Inr u'" "apply_ops u' bs = Inr w"
    using assms(1) unfolding xs apply_ops_split apply_ops_Cons by blast
  moreover from this(1) have "mv_edges u' e \<noteq> None" by (auto simp: mem_edge_def mem_add_edge_def split: option.splits)
  ultimately show ?thesis using apply_ops_edge [of u' bs w e] assms(3) by (auto simp: xs)
qed

text \<open>A proposal that writes only nodes of the view applies.\<close>

lemma apply_op_defined:
  assumes "wf_view v" "is_setfield x \<Longrightarrow> mem_node v (op_node x) \<noteq> None"
  shows "\<exists>u. apply_op v x = Inr u"
  using assms mem_remove_edge_total [OF assms(1), of "op_edge x"]
  by (cases x) (auto simp: mem_set_field_def split: option.splits)

lemma writes_on_committed_apply:
  assumes "wf_view v" "\<And>x. x \<in> set xs \<Longrightarrow> is_setfield x \<Longrightarrow> mem_node v (op_node x) \<noteq> None"
  shows "\<exists>w. apply_ops v xs = Inr w"
  using assms
proof (induction xs arbitrary: v)
  case (Cons x xs)
  have "\<exists>u. apply_op v x = Inr u"
    by (rule apply_op_defined [OF Cons.prems(1)]) (rule Cons.prems(2) [OF list.set_intros(1)])
  then obtain u where u: "apply_op v x = Inr u" by blast
  have "mem_node u (op_node y) \<noteq> None" if "y \<in> set xs" "is_setfield y" for y
    using apply_op_node [OF u, of "op_node y"] Cons.prems(2) [of y] that by (metis list.set_intros(2))
  then obtain w where "apply_ops u xs = Inr w" using Cons.IH [OF wf_apply_op [OF Cons.prems(1) u]] by blast
  then show ?case unfolding apply_ops_Cons using u by blast
qed simp

end
