(* ===== verification/Dispatch.thy ===== *)
theory Dispatch
  imports FormalAtp Scheduler Ids Persistence
begin

text \<open>
  From worker output to operations, \<^verbatim>\<open>src/src/mathproof/dispatch.py\<close>.

  \<^item> \<open>next_serial\<close>: the next free serial of a kind of id in a view.
  \<^item> \<open>formal_result_to_ops\<close>, \<open>critic_result_to_ops\<close>, \<open>research_result_to_ops\<close>: the three converters,
    each raising what the source raises on a malformed payload; \<open>result_to_proposal\<close>: the proposal of a
    lease, with its revision, lease id and token.
  \<^item> \<open>scripted_run\<close>: the dispatcher by worker class.

  A payload is a decoded JSON object. Where it is read as an id, a value that is no text is outside
  the model (\<open>OutOfModel\<close>).
\<close>

section \<open>Serials\<close>

text \<open>The serial of an id that matches \<^verbatim>\<open>^[^/]+/prefix-([1-9][0-9]*)$\<close>.\<close>

definition serial_of :: "string \<Rightarrow> string \<Rightarrow> nat option" where
  "serial_of tag n =
     (let scope = takeWhile (\<lambda>c. c \<noteq> CHR ''/'') n; local = drop (length scope + 1) n; mark = tag @ ''-''
      in if scope \<noteq> [] \<and> scope \<noteq> n \<and> startswith local mark
         then map_option nat_of_str (match_serial (drop (length mark) local)) else None)"

text \<open>\<^verbatim>\<open>getattr(view, "nodes", {})\<close>: a view that does not list its nodes counts as empty.\<close>

definition listed_ids :: "graph_view \<Rightarrow> string list" where
  "listed_ids g = (case gv_ids g of None \<Rightarrow> [] | Some ids \<Rightarrow> ids)"

definition next_serial :: "graph_view \<Rightarrow> string \<Rightarrow> nat" where
  "next_serial g tag = foldr max (List.map_filter (serial_of tag) (listed_ids g)) 0 + 1"

definition minted :: "graph_view \<Rightarrow> string \<Rightarrow> string \<Rightarrow> string" where
  "minted g proof tag = proof @ ''/'' @ tag @ ''-'' @ nat_str (next_serial g tag)"

section \<open>Formal results\<close>

text \<open>\<^verbatim>\<open>_advance_status\<close>\<close>

definition advance_status :: "string \<Rightarrow> node_rec \<Rightarrow> fields \<Rightarrow> op list" where
  "advance_status label record fs =
     (let new = dget fs ''status''; current = dget (nr_fields record) ''status''
      in if truthy new \<and> \<not> py_eq new current
         then [SetField label (nr_id record) ''status'' new (Some current)] else [])"

text \<open>The receiver of a subscript by a text.\<close>

fun subscripted :: "pyval \<Rightarrow> py_exc + fields" where
  "subscripted (PDict d) = Inr d"
| "subscripted _ = Inl TypeError"

fun as_id :: "pyval \<Rightarrow> py_exc + string" where
  "as_id (PStr s) = Inr s"
| "as_id _ = Inl OutOfModel"

definition state_fields :: "fields \<Rightarrow> fields" where
  "state_fields state = filter (\<lambda>kv. fst kv \<noteq> ''state_id'' \<and> snd kv \<noteq> PNone) state"

definition state_op :: "read_view \<Rightarrow> pyval \<Rightarrow> op gen" where
  "state_op v x =
     bind_res (as_dict x) (\<lambda>state.
     bind_res (key_str state ''state_id'') (\<lambda>sid.
       Inr (case rv_node v sid of
              None \<Rightarrow> [UpsertNode ''FormalState'' sid (state_fields state)]
            | Some existing \<Rightarrow> advance_status ''FormalState'' existing (state_fields state))))"

definition run_status_ops :: "read_view \<Rightarrow> fields \<Rightarrow> string \<Rightarrow> op list" where
  "run_status_ops v result r =
     (let disposition = dget result ''disposition''
      in case rv_node v r of
           None \<Rightarrow> [UpsertNode ''FormalRun'' r
             [(''actor'', get_or result ''actor'' (PStr ''formal-atp'')), (''status'', disposition)]]
         | Some existing \<Rightarrow>
             if truthy disposition then advance_status ''FormalRun'' existing [(''status'', disposition)] else [])"

definition root_ops :: "read_view \<Rightarrow> string \<Rightarrow> string option \<Rightarrow> op list" where
  "root_ops v r goal =
     (case goal of
        Some s \<Rightarrow> if rv_node v r = None then [AddEdge ''HAS_ROOT'' r s (r @ ''-root'') []] else []
      | None \<Rightarrow> [])"

definition search_ops :: "read_view \<Rightarrow> string \<Rightarrow> string option \<Rightarrow> op list" where
  "search_ops v r declaration =
     (case declaration of
        Some t \<Rightarrow> if t \<noteq> [] \<and> t \<notin> er_dst ` set (rv_from v r ''SEARCHES'')
          then [AddEdge ''SEARCHES'' r t (r @ ''-searches'') []] else []
      | None \<Rightarrow> [])"

definition run_ops :: "read_view \<Rightarrow> fields \<Rightarrow> op gen" where
  "run_ops v result =
     bind_res (get_opt result ''run_id'') (\<lambda>run_id.
       case run_id of
         None \<Rightarrow> Inr []
       | Some r \<Rightarrow>
           bind_res (get_opt result ''root_state_id'') (\<lambda>goal.
           bind_res (get_opt result ''declaration_id'') (\<lambda>declaration.
             Inr (run_status_ops v result r @ root_ops v r goal @ search_ops v r declaration))))"

definition EDGE_KEYS :: "string list" where
  "EDGE_KEYS = [''tactic_id'', ''source_state_id'', ''produced_goal_ids'', ''tactic_args'', ''model_provenance'']"

definition edge_fields :: "runtime \<Rightarrow> fields \<Rightarrow> nat \<Rightarrow> fields" where
  "edge_fields rt edge produced =
     (let fs = setdefault ''subgoal_count'' (PInt (int produced))
            (filter (\<lambda>kv. fst kv \<notin> set EDGE_KEYS \<and> snd kv \<noteq> PNone) edge);
          labelled = (if dget edge ''tactic_label'' \<noteq> PNone
            then AList.update ''tactic_label'' (dget edge ''tactic_label'') fs else fs)
      in if dget edge ''tactic_args'' \<noteq> PNone
         then AList.update ''tactic_family'' (PStr (py_str rt (dget edge ''tactic_args''))) labelled else labelled)"

definition requirement_edges :: "string \<Rightarrow> string list \<Rightarrow> op list" where
  "requirement_edges t goals =
     map (\<lambda>(i, goal). AddEdge ''FORMAL_REQUIRES'' t goal (t @ ''-req-'' @ nat_str i) [(''child_index'', PInt (int i))])
       (List.enumerate 0 goals)"

definition tactic_ops :: "runtime \<Rightarrow> read_view \<Rightarrow> pyval \<Rightarrow> op gen" where
  "tactic_ops rt v x =
     bind_res (subscripted x) (\<lambda>edge.
     bind_res (key_str edge ''tactic_id'') (\<lambda>t.
       if rv_node v t \<noteq> None then Inr []
       else
         bind_res (get_list edge ''produced_goal_ids'') (\<lambda>produced.
         bind_res (key_str edge ''source_state_id'') (\<lambda>source.
         bind_res (all_res as_id produced) (\<lambda>goals.
           Inr ([UpsertNode ''TacticApplication'' t (edge_fields rt edge (length produced)),
                 AddEdge ''HAS_TACTIC'' source t (t @ ''-at'') []] @
             requirement_edges t goals @
             (if produced = [] \<and> py_eq (dget edge ''executor_result'') (PStr ''lean-accepted'')
              then [AddEdge ''CLOSES_STATE'' t source (t @ ''-closes'') []] else [])))))))"

text \<open>An id the source formats or uses although it may be missing there.\<close>

definition run_of :: "fields \<Rightarrow> py_exc + string" where
  "run_of result = as_id (dget result ''run_id'')"

definition checkpoint_ops :: "graph_view \<Rightarrow> fields \<Rightarrow> op gen" where
  "checkpoint_ops g result =
     (let checkpoint = dget result ''checkpoint''
      in if \<not> truthy checkpoint then Inr []
         else bind_res (as_dict checkpoint) (\<lambda>cp.
           if \<not> truthy (dget cp ''frontier_state_ids'') then Inr []
           else bind_res (key_str result ''proof_id'') (\<lambda>proof.
             bind_res (run_of result) (\<lambda>r.
             bind_res (get_list cp ''frontier_state_ids'') (\<lambda>frontier.
             bind_res (all_res as_id frontier) (\<lambda>states.
               let c = minted g proof ''fc''
               in Inr ([UpsertNode ''FormalCheckpoint'' c
                          [(''epoch_ms'', get_or cp ''epoch_ms'' (PInt 0)),
                           (''actor'', get_or result ''actor'' (PStr ''formal-atp''))],
                        AddEdge ''HAS_CHECKPOINT'' r c (c @ ''-in'') []] @
                 map (\<lambda>(i, s). AddEdge ''CHECKPOINT_FRONTIER'' c s (c @ ''-'' @ nat_str i) [])
                   (List.enumerate 0 states))))))))"

definition certifies_ops :: "string \<Rightarrow> string option \<Rightarrow> op list" where
  "certifies_ops c declaration =
     (case declaration of
        Some t \<Rightarrow> if t \<noteq> [] then [AddEdge ''CERTIFIES'' c t (c @ ''-certifies'') []] else []
      | None \<Rightarrow> [])"

definition certificate_ops :: "graph_view \<Rightarrow> fields \<Rightarrow> op gen" where
  "certificate_ops g result =
     (let certificate = dget result ''certificate''
      in if \<not> truthy certificate then Inr []
         else bind_res (key_str result ''proof_id'') (\<lambda>proof.
           bind_res (key_str result ''run_id'') (\<lambda>r.
           bind_res (subscripted certificate) (\<lambda>cert.
           bind_res (key_val cert ''artifact_hash'') (\<lambda>h.
           bind_res (get_opt result ''declaration_id'') (\<lambda>declaration.
             let c = minted g proof ''cert''
             in Inr ([UpsertNode ''Certificate'' c
                        [(''actor'', get_or result ''actor'' (PStr ''formal-atp'')), (''producer_run_id'', PStr r),
                         (''artifact_hash'', h), (''status'', get_or cert ''status'' (PStr ''candidate''))],
                      AddEdge ''PRODUCED_CERTIFICATE'' r c (c @ ''-produced'') []] @
               certifies_ops c declaration)))))))"

definition obstruction_ops :: "read_view \<Rightarrow> fields \<Rightarrow> pyval \<Rightarrow> op gen" where
  "obstruction_ops v result x =
     bind_res (subscripted x) (\<lambda>ob.
     bind_res (key_str ob ''obstruction_id'') (\<lambda>b.
       if rv_node v b \<noteq> None then Inr []
       else
         bind_res (key_val ob ''kind'') (\<lambda>kind.
         bind_res (key_str ob ''formal_run_id'') (\<lambda>r.
         bind_res (get_list ob ''formal_state_ids'') (\<lambda>xs.
         bind_res (all_res as_id xs) (\<lambda>states.
           Inr ([UpsertNode ''Obstruction'' b
                   [(''kind'', kind), (''description'', get_or ob ''description'' (PStr [])),
                    (''actor'', get_or result ''actor'' (PStr ''formal-atp''))],
                 AddEdge ''RAISED_OBSTRUCTION'' r b (b @ ''-raised'') []] @
             map (\<lambda>(i, s). AddEdge ''AT_STATE'' b s (b @ ''-state-'' @ nat_str i) []) (List.enumerate 0 states))))))))"

definition each :: "fields \<Rightarrow> string \<Rightarrow> (pyval \<Rightarrow> op gen) \<Rightarrow> op gen" where
  "each result k f = bind_res (get_list result k) (collect f)"

definition formal_result_to_ops :: "runtime \<Rightarrow> fields \<Rightarrow> graph_view \<Rightarrow> op gen" where
  "formal_result_to_ops rt result g =
     gen_append (each result ''states'' (state_op (gv_view g)))
     (gen_append (run_ops (gv_view g) result)
     (gen_append (each result ''tactic_edges'' (tactic_ops rt (gv_view g)))
     (gen_append (checkpoint_ops g result)
     (gen_append (certificate_ops g result)
       (each result ''obstructions'' (obstruction_ops (gv_view g) result))))))"

section \<open>Verdicts and moves\<close>

definition critic_result_to_ops :: "fields \<Rightarrow> string \<Rightarrow> string \<Rightarrow> op gen" where
  "critic_result_to_ops result claim attempt =
     bind_res (key_val result ''verdict'') (\<lambda>verdict.
     bind_res (get_str result ''review_edge_id'' (attempt @ ''-reviews'')) (\<lambda>review.
       Inr ([UpsertNode ''Attempt'' attempt
               [(''actor'', get_or result ''actor'' (PStr ''critic'')), (''worker_class'', PStr ''critic''),
                (''status'', verdict)],
             AddEdge ''REVIEWS_CLAIM'' attempt claim review []] @
         (if py_eq verdict (PStr ''supported'') \<or> py_eq verdict (PStr ''critic-accepted'')
          then [SetField ''Claim'' claim ''status'' (PStr ''critic-accepted'') (Some (PStr ''provisional''))]
          else []))))"

definition research_result_to_ops :: "fields \<Rightarrow> string \<Rightarrow> graph_view \<Rightarrow> op gen" where
  "research_result_to_ops result proof g =
     bind_res (key_str result ''parent_state_id'') (\<lambda>parent.
     bind_res (if truthy (dget result ''move_id'') then as_id (dget result ''move_id'') else Inr (minted g proof ''rm''))
       (\<lambda>move.
         Inr [UpsertNode ''ResearchMove'' move
                [(''status'', PStr ''queued''), (''detail'', get_or result ''detail'' (PStr []))],
              AddEdge ''PROPOSES'' parent move (move @ ''-proposed'') []]))"

section \<open>The proposal of a lease\<close>

definition result_to_proposal ::
  "runtime \<Rightarrow> fields \<Rightarrow> lease \<Rightarrow> graph_view \<Rightarrow> string option \<Rightarrow> py_exc + proposal" where
  "result_to_proposal rt result l g attempt =
     (let row = ls_row l; proof = lr_proof row; worker = lr_class row;
          attempt_id = (case attempt of Some a \<Rightarrow> if a = [] then minted g proof ''at'' else a | None \<Rightarrow> minted g proof ''at'')
      in bind_res
           (if worker = ''formal-atp'' then formal_result_to_ops rt result g
            else if worker = ''critic'' then critic_result_to_ops result (ls_move l) attempt_id
            else research_result_to_ops result proof g) (\<lambda>xs.
         bind_res (get_str result ''actor'' worker) (\<lambda>actor.
           Inr \<lparr>prop_proof_id = proof, prop_actor = actor, prop_worker_class = worker, prop_ops = xs,
                prop_base_revision = Some (lr_base row), prop_lease_id = Some (lr_id row),
                prop_fencing_token = Some (int (lr_token row))\<rparr>)))"

section \<open>Dispatchers\<close>

text \<open>A worker is what answers a lease and its context; \<^verbatim>\<open>ScriptedDispatcher\<close> finds it by class.\<close>

type_synonym worker = "lease \<Rightarrow> fields \<Rightarrow> py_exc + fields"

definition scripted_run :: "(string \<times> worker) list \<Rightarrow> worker" where
  "scripted_run handlers l context =
     (case map_of handlers (lr_class (ls_row l)) of
        None \<Rightarrow> Inl NotImplementedError
      | Some handler \<Rightarrow> handler l context)"

section \<open>Minted ids are fresh\<close>

lemma nat_str_serial: "0 < n \<Longrightarrow> match_serial (nat_str n) = Some (nat_str n)"
  using hd_nat_str [of n] nat_str_digits [of _ n] by (simp add: match_serial_def is_serial_def list_all_iff)

lemma serial_of_scoped:
  assumes "proof \<noteq> []" "CHR ''/'' \<notin> set proof" "0 < n"
  shows "serial_of tag (proof @ ''/'' @ tag @ ''-'' @ nat_str n) = Some n"
proof -
  have "takeWhile (\<lambda>c. c \<noteq> CHR ''/'') (proof @ CHR ''/'' # t) = proof" for t
    using assms(2) by (subst takeWhile_append2) auto
  then show ?thesis
    using assms nat_str_serial by (simp add: serial_of_def Let_def startswith_iff)
qed

lemma listed_as_graph [simp]: "listed_ids (as_graph v) = map fst (mv_nodes v)"
  by (simp add: listed_ids_def as_graph_def)

lemma gv_view_as_graph [simp]: "gv_view (as_graph v) = as_view v"
  by (simp add: as_graph_def)

lemma serial_below:
  "n \<in> set (listed_ids g) \<Longrightarrow> serial_of tag n = Some k \<Longrightarrow> k < next_serial g tag"
  using foldr_max_upper [of k "List.map_filter (serial_of tag) (listed_ids g)"]
  by (fastforce simp: next_serial_def map_filter_member)

lemma minted_fresh:
  assumes "pid \<noteq> []" "CHR ''/'' \<notin> set pid"
  shows "mem_node v (minted (as_graph v) pid tag) = None"
proof (rule ccontr)
  assume "mem_node v (minted (as_graph v) pid tag) \<noteq> None"
  then have "minted (as_graph v) pid tag \<in> set (listed_ids (as_graph v))"
    by (auto simp: mem_node_def dest!: map_of_SomeD intro: rev_image_eqI)
  moreover have "serial_of tag (minted (as_graph v) pid tag) = Some (next_serial (as_graph v) tag)"
    unfolding minted_def by (rule serial_of_scoped [OF assms]) (simp add: next_serial_def)
  ultimately show False using serial_below by blast
qed

text \<open>C37. An id minted for a proof whose id is not empty and has no slash is not the id of any committed
  node, whatever its kind.\<close>

theorem minted_ids_are_fresh:
  assumes "pid \<noteq> []" "CHR ''/'' \<notin> set pid"
  shows "mem_node v (minted (as_graph v) pid tag) = None"
  by (rule minted_fresh [OF assms])

text \<open>An id of a proof whose id has a slash is not recognised, and is minted again.\<close>

lemma slashed_proofs_mint_one_id:
  "minted (as_graph (mem_add_node empty_view ''a/b/at-1'' ''Attempt'' [])) ''a/b'' ''at'' = ''a/b/at-1''"
  by code_simp

section \<open>Operations that converters emit\<close>

lemma collect_Cons_Inr:
  "collect f (x # xs) = Inr zs \<longleftrightarrow> (\<exists>ys ws. f x = Inr ys \<and> collect f xs = Inr ws \<and> zs = ys @ ws)"
  by (auto simp: gen_append_eq_Inr)

lemma as_id_Inr: "as_id x = Inr s \<longleftrightarrow> x = PStr s"
  by (cases x) auto

lemma subscripted_Inr: "subscripted x = Inr d \<longleftrightarrow> x = PDict d"
  by (cases x) auto

lemma key_str_Inr: "key_str d k = Inr s \<longleftrightarrow> map_of d k = Some (PStr s)"
  by (auto simp: key_str_def key_val_def split: option.splits sum.splits pyval.splits)

text \<open>The operations of one tactic edge, when its tactic is new.\<close>

lemma tactic_ops_Inr:
  assumes "tactic_ops rt v x = Inr zs"
  obtains edge t where "x = PDict edge" "dget edge ''tactic_id'' = PStr t" "rv_node v t \<noteq> None" "zs = []"
  | edge t source produced goals where "x = PDict edge" "dget edge ''tactic_id'' = PStr t" "rv_node v t = None"
      "get_list edge ''produced_goal_ids'' = Inr produced" "list_all2 (\<lambda>p g. p = PStr g) produced goals"
      "zs = UpsertNode ''TacticApplication'' t (edge_fields rt edge (length produced)) #
         AddEdge ''HAS_TACTIC'' source t (t @ ''-at'') [] #
         requirement_edges t goals @
         (if produced = [] \<and> py_eq (dget edge ''executor_result'') (PStr ''lean-accepted'')
          then [AddEdge ''CLOSES_STATE'' t source (t @ ''-closes'') []] else [])"
proof -
  obtain edge t where e: "x = PDict edge" "map_of edge ''tactic_id'' = Some (PStr t)"
    and rest: "tactic_ops rt v (PDict edge) = Inr zs"
    using assms by (auto simp: tactic_ops_def bind_res_Inr subscripted_Inr key_str_Inr)
  have t: "dget edge ''tactic_id'' = PStr t" "key_str edge ''tactic_id'' = Inr t"
    using e(2) by (simp_all add: dget_def key_str_Inr)
  show thesis
  proof (cases "rv_node v t")
    case None
    then show ?thesis using rest t(2) that(2) [OF e(1) t(1) None]
      by (auto simp: tactic_ops_def bind_res_Inr all_res_Inr as_id_Inr)
  next
    case (Some r)
    then show ?thesis using rest t(2) that(1) [OF e(1) t(1)] by (simp add: tactic_ops_def)
  qed
qed

section \<open>Sound results conserve subgoals\<close>

text \<open>What the structural validator leaves of a tactic edge.\<close>

definition edge_conserves :: "fields \<Rightarrow> bool" where
  "edge_conserves edge \<longleftrightarrow>
     (\<exists>children. produced_goals edge = Inr children \<and>
        py_eq (dget edge ''subgoal_count'') (PInt (int (length children))) \<and>
        (\<forall>s. count_list children (PStr s) \<le> 1))"

definition tactics_conserve :: "pyval set \<Rightarrow> op list \<Rightarrow> bool" where
  "tactics_conserve ids xs \<longleftrightarrow>
     (\<forall>t fs. last_tactic xs t = Some fs \<longrightarrow> conserves fs (children_of xs t) \<and> PStr t \<in> ids) \<and>
     (\<forall>t. last_tactic xs t = None \<longrightarrow> children_of xs t = []) \<and> (\<forall>e. RemoveEdge ''FORMAL_REQUIRES'' e \<notin> set xs)"

lemma map_filter_append: "List.map_filter f (xs @ ys) = List.map_filter f xs @ List.map_filter f ys"
  by (simp add: List.map_filter_def)

lemma children_of_append: "children_of (xs @ ys) t = children_of xs t @ children_of ys t"
  by (simp add: children_of_def map_filter_append)

lemma last_tactic_append:
  "last_tactic (xs @ ys) t = (case last_tactic ys t of None \<Rightarrow> last_tactic xs t | Some fs \<Rightarrow> Some fs)"
  by (auto simp: last_tactic_def map_filter_append Let_def)

lemma tactics_conserve_append:
  assumes "tactics_conserve ids xs" "tactics_conserve ids' ys" "ids \<inter> ids' = {}"
  shows "tactics_conserve (ids \<union> ids') (xs @ ys)"
proof -
  have "children_of xs t = []" if "last_tactic ys t = Some fs" for t fs
    using assms that by (cases "last_tactic xs t") (simp add: tactics_conserve_def, unfold tactics_conserve_def, blast)
  then show ?thesis
    using assms by (fastforce simp: tactics_conserve_def children_of_append last_tactic_append split: option.splits)
qed

fun quiet_op :: "op \<Rightarrow> bool" where
  "quiet_op (UpsertNode l n fs) = (l \<noteq> ''TacticApplication'')"
| "quiet_op (AddEdge rel s d e fs) = (rel \<noteq> ''FORMAL_REQUIRES'')"
| "quiet_op (SetField l n f x p) = True"
| "quiet_op (RemoveEdge rel e) = False"

lemma quiet_conserves: "list_all quiet_op xs \<Longrightarrow> tactics_conserve {} xs"
proof -
  assume q: "list_all quiet_op xs"
  have "tactic_fields t x = None" "child_of t x = None" if "x \<in> set xs" for t x
    using q that by (cases x; fastforce simp: list_all_iff)+
  then have "List.map_filter (tactic_fields t) xs = []" "List.map_filter (child_of t) xs = []" for t
    by (auto simp: List.map_filter_def filter_empty_conv)
  then show ?thesis using q
    by (auto simp: tactics_conserve_def last_tactic_def children_of_def list_all_iff dest!: bspec)
qed

lemma conserving_proposal: "tactics_conserve ids xs \<Longrightarrow> subgoals_conserved xs"
proof -
  assume c: "tactics_conserve ids xs"
  have "last_tactic xs t \<noteq> None" if "AddEdge ''FORMAL_REQUIRES'' t d e fs \<in> set xs" for t d e fs
  proof -
    have "(d, dget fs ''child_index'') \<in> set (children_of xs t)"
      unfolding children_of_def map_filter_member using that by force
    then show ?thesis using c by (auto simp: tactics_conserve_def)
  qed
  then show ?thesis using c by (auto simp: tactics_conserve_def subgoals_conserved_def)
qed

lemma dget_filter:
  "dget d k \<noteq> PNone \<Longrightarrow> k \<notin> S \<Longrightarrow> dget (filter (\<lambda>kv. fst kv \<notin> S \<and> snd kv \<noteq> PNone) d) k = dget d k"
  by (induction d) auto

lemma edge_fields_lookup:
  assumes "dget edge k \<noteq> PNone" "k \<notin> set EDGE_KEYS" "k \<noteq> ''tactic_family''"
  shows "dget (edge_fields rt edge n) k = dget edge k"
proof -
  let ?fs = "filter (\<lambda>kv. fst kv \<notin> set EDGE_KEYS \<and> snd kv \<noteq> PNone) edge"
  have "dget ?fs k = dget edge k" by (rule dget_filter [OF assms(1,2)])
  moreover from this assms(1) have "dget (setdefault j x ?fs) k = dget edge k" for j x
    by (auto simp: dget_def map_of_setdefault split: option.splits)
  ultimately show ?thesis using assms(3) by (simp add: edge_fields_def dget_update Let_def)
qed

lemma requirements_children:
  "children_of (requirement_edges t goals) t' =
     (if t' = t then map (\<lambda>(i, goal). (goal, PInt (int i))) (List.enumerate 0 goals) else [])"
  by (auto simp: requirement_edges_def children_of_def List.map_filter_def comp_def split_beta filter_empty_conv)

lemma no_last_tactic: "(\<And>x. x \<in> set xs \<Longrightarrow> tactic_fields t x = None) \<Longrightarrow> last_tactic xs t = None"
  by (auto simp: last_tactic_def List.map_filter_def filter_empty_conv)

lemma counted_once: "(\<And>s. count_list xs s \<le> 1) \<Longrightarrow> distinct xs"
proof (induction xs)
  case (Cons x xs)
  have "count_list xs s \<le> 1" for s using Cons.prems [of s] by (cases "x = s") auto
  moreover have "count_list xs x = 0" using Cons.prems [of x] by simp
  ultimately show ?case using Cons.IH by (simp add: count_list_0_iff)
qed simp

lemma goal_children_conserve:
  assumes "edge_conserves edge" "get_list edge ''produced_goal_ids'' = Inr produced"
    "list_all2 (\<lambda>p g. p = PStr g) produced goals"
  shows "conserves (edge_fields rt edge n) (map (\<lambda>(i, goal). (goal, PInt (int i))) (List.enumerate 0 goals))"
proof -
  have p: "produced = map PStr goals"
    using assms(3) by (induction rule: list_all2_induct) auto
  have "produced_goals edge = Inr produced"
    using assms(2) by (auto simp: get_list_def produced_goals_def dget_def split: option.splits pyval.splits)
  then have c: "py_eq (dget edge ''subgoal_count'') (PInt (int (length goals)))" "\<And>s. count_list produced (PStr s) \<le> 1"
    using assms(1) by (auto simp: edge_conserves_def p)
  have "count_list produced (PStr s) = count_list goals s" for s
    unfolding p by (induction goals) auto
  then have "count_list goals s \<le> 1" for s using c(2) by metis
  then have d: "distinct goals" by (rule counted_once)
  have "dget edge ''subgoal_count'' \<noteq> PNone" using c(1) by auto
  then have count: "dget (edge_fields rt edge n) ''subgoal_count'' = dget edge ''subgoal_count''"
    by (rule edge_fields_lookup) (simp_all add: EDGE_KEYS_def)
  have fsts: "map fst (map (\<lambda>(i, goal). (goal, PInt (int i))) (List.enumerate 0 goals)) = goals"
    by (simp add: comp_def split_beta)
  have "map (num_of \<circ> snd) (map (\<lambda>(i, goal). (goal, PInt (int i))) (List.enumerate 0 goals)) =
      map (\<lambda>i. Some (rat_of_nat i)) (map fst (List.enumerate 0 goals))"
    unfolding map_map by (rule map_cong) auto
  then have snds: "map (num_of \<circ> snd) (map (\<lambda>(i, goal). (goal, PInt (int i))) (List.enumerate 0 goals)) =
      map (\<lambda>i. Some (rat_of_nat i)) [0..<length goals]" by simp
  show ?thesis
    unfolding conserves_def fsts snds using c(1) d count by (simp add: py_eq_PInt)
qed

lemma new_tactic_conserves:
  assumes "tactic_ops rt v x = Inr zs" "\<And>edge. x = PDict edge \<Longrightarrow> edge_conserves edge"
  obtains ids where "tactics_conserve ids zs"
    "\<And>y. y \<in> ids \<Longrightarrow> \<exists>edge. x = PDict edge \<and> dget edge ''tactic_id'' = y"
  using assms(1)
proof (cases rule: tactic_ops_Inr)
  case (1 edge t)
  then show thesis using that [of "{}"] quiet_conserves [of "[]"] by simp
next
  case (2 edge t source produced goals)
  let ?fs = "edge_fields rt edge (length produced)"
  let ?node = "[UpsertNode ''TacticApplication'' t ?fs, AddEdge ''HAS_TACTIC'' source t (t @ ''-at'') []]"
  obtain closing where zs: "zs = ?node @ requirement_edges t goals @ closing" and quiet: "list_all quiet_op closing"
    unfolding 2(6) by (auto intro: that)
  note q = quiet_conserves [OF quiet]
  have none: "last_tactic closing t' = None" for t' using q by (auto simp: tactics_conserve_def)
  then have kids: "children_of closing t' = []" for t' using q by (auto simp: tactics_conserve_def)
  have "last_tactic (requirement_edges t goals) t' = None" for t'
    by (rule no_last_tactic) (auto simp: requirement_edges_def)
  then have last: "last_tactic zs t' = (if t' = t then Some ?fs else None)" for t'
    unfolding zs last_tactic_append none by (simp add: last_tactic_def List.map_filter_simps)
  have kids: "children_of zs t' = children_of (requirement_edges t goals) t'" for t'
    unfolding zs children_of_append kids by (simp add: children_of_def List.map_filter_simps)
  have "RemoveEdge ''FORMAL_REQUIRES'' e \<notin> set zs" for e
    using quiet by (auto simp: zs requirement_edges_def list_all_iff)
  then have "tactics_conserve {PStr t} zs"
    using goal_children_conserve [OF assms(2) [OF 2(1)] 2(4,5)]
    by (simp add: tactics_conserve_def last kids requirements_children)
  then show thesis using that [of "{PStr t}"] 2(1,2) by blast
qed

fun edge_name :: "pyval \<Rightarrow> pyval" where
  "edge_name (PDict edge) = dget edge ''tactic_id''"
| "edge_name _ = PNone"

lemma collected_tactics_conserve:
  assumes "collect (tactic_ops rt v) xs = Inr zs" "distinct (map edge_name xs)"
    "\<And>edge. PDict edge \<in> set xs \<Longrightarrow> edge_conserves edge"
  shows "\<exists>ids. tactics_conserve ids zs \<and> ids \<subseteq> edge_name ` set xs"
  using assms
proof (induction xs arbitrary: zs)
  case Nil
  then show ?case using quiet_conserves [of "[]"] by auto
next
  case (Cons x xs)
  obtain ys ws where zs: "tactic_ops rt v x = Inr ys" "collect (tactic_ops rt v) xs = Inr ws" "zs = ys @ ws"
    using Cons.prems(1) unfolding collect_Cons_Inr by blast
  obtain ids where ids: "tactics_conserve ids ws" "ids \<subseteq> edge_name ` set xs"
    using Cons.IH [OF zs(2)] Cons.prems by auto
  obtain new where new: "tactics_conserve new ys" "\<And>y. y \<in> new \<Longrightarrow> \<exists>edge. x = PDict edge \<and> dget edge ''tactic_id'' = y"
    by (rule new_tactic_conserves [OF zs(1)]) (use Cons.prems(3) in auto)
  have sub: "new \<subseteq> {edge_name x}" using new(2) by force
  then have "new \<inter> ids = {}" using ids(2) Cons.prems(2) by auto
  from tactics_conserve_append [OF new(1) ids(1) this] sub ids(2) show ?case unfolding zs(3) by auto
qed

lemma all_collected:
  assumes "collect f xs = Inr zs" "\<And>x ys. x \<in> set xs \<Longrightarrow> f x = Inr ys \<Longrightarrow> list_all P ys"
  shows "list_all P zs"
  using collect_member [OF assms(1)] assms(2) by (fastforce simp: list_all_iff)

lemma advance_quiet [simp]: "list_all quiet_op (advance_status label r fs)"
  by (simp add: advance_status_def Let_def)

lemma run_parts_quiet [simp]:
  "list_all quiet_op (run_status_ops v result r)" "list_all quiet_op (root_ops v r goal)"
  "list_all quiet_op (search_ops v r declaration)" "list_all quiet_op (certifies_ops c declaration)"
  by (simp_all add: certifies_ops_def run_status_ops_def root_ops_def search_ops_def Let_def split: option.split)

lemma other_sections_quiet:
  "each result ''states'' (state_op v) = Inr zs \<Longrightarrow> list_all quiet_op zs"
  "run_ops v result = Inr zs \<Longrightarrow> list_all quiet_op zs"
  "checkpoint_ops g result = Inr zs \<Longrightarrow> list_all quiet_op zs"
  "certificate_ops g result = Inr zs \<Longrightarrow> list_all quiet_op zs"
  "each result ''obstructions'' (obstruction_ops v result) = Inr zs \<Longrightarrow> list_all quiet_op zs"
proof -
  show "list_all quiet_op zs" if "each result ''states'' (state_op v) = Inr zs"
  proof -
    obtain xs where "collect (state_op v) xs = Inr zs" using \<open>each _ _ _ = _\<close> by (auto simp: each_def bind_res_Inr)
    then show ?thesis
      by (rule all_collected) (auto simp: state_op_def bind_res_Inr Let_def split: option.splits)
  qed
  show "list_all quiet_op zs" if "run_ops v result = Inr zs"
    using that by (auto simp: run_ops_def bind_res_Inr split: option.splits)
  show "list_all quiet_op zs" if "checkpoint_ops g result = Inr zs"
    using that by (auto simp: checkpoint_ops_def bind_res_Inr Let_def list_all_iff split: if_splits)
  show "list_all quiet_op zs" if "certificate_ops g result = Inr zs"
    using that by (auto simp: certificate_ops_def bind_res_Inr Let_def split: if_splits)
  show "list_all quiet_op zs" if "each result ''obstructions'' (obstruction_ops v result) = Inr zs"
  proof -
    obtain xs where "collect (obstruction_ops v result) xs = Inr zs" using \<open>each _ _ _ = _\<close> by (auto simp: each_def bind_res_Inr)
    then show ?thesis
      by (rule all_collected) (auto simp: obstruction_ops_def bind_res_Inr list_all_iff split: if_splits)
  qed
qed

lemma formal_ops_parts:
  assumes "formal_result_to_ops rt result g = Inr xs"
  obtains ss rs ts cs ks bs where "each result ''states'' (state_op (gv_view g)) = Inr ss" "run_ops (gv_view g) result = Inr rs"
    "each result ''tactic_edges'' (tactic_ops rt (gv_view g)) = Inr ts" "checkpoint_ops g result = Inr cs"
    "certificate_ops g result = Inr ks" "each result ''obstructions'' (obstruction_ops (gv_view g) result) = Inr bs"
    "xs = ss @ rs @ ts @ cs @ ks @ bs"
  using assms by (auto simp: formal_result_to_ops_def gen_append_eq_Inr)

lemma validated_edges_conserve:
  assumes "validate_formal_search_result result = Inr []" "edge \<in> set (objects result ''tactic_edges'')"
  shows "edge_conserves edge"
proof -
  obtain ids where "each_object result ''tactic_edges'' (check_tactic_edge ids) = Inr []"
    using assms(1) by (auto simp: validate_formal_search_result_def gen_append_clean check_tactic_edges_def bind_res_Inr)
  then obtain i where "check_tactic_edge ids i edge = Inr []" using each_object_clean assms(2) by metis
  then show ?thesis by (rule tactic_edge_clean) (auto simp: edge_conserves_def)
qed

lemma result_edges:
  assumes "get_list result k = Inr ts" "collect (tactic_ops rt v) ts = Inr zs"
  shows "ts = map PDict (objects result k)"
proof -
  have items: "items_or_empty result k = Inr ts"
    using assms(1) by (auto simp: get_list_def items_or_empty_def dget_def split: option.splits pyval.splits)
  have "\<exists>e. x = PDict e" if "x \<in> set ts" for x
  proof -
    have "\<exists>ys. tactic_ops rt v x = Inr ys"
      using assms(2) that by (induction ts arbitrary: zs) (auto simp: collect_Cons_Inr simp del: collect.simps(2))
    then show ?thesis by (auto elim: tactic_ops_Inr)
  qed
  then have "map PDict (List.map_filter (\<lambda>x. case x of PDict f \<Rightarrow> Some f | _ \<Rightarrow> None) ts) = ts"
    by (induction ts) (auto simp: List.map_filter_simps split: pyval.splits)
  then show ?thesis using items by (simp add: objects_def)
qed

text \<open>C36. When the structural validator finds nothing in a formal result and its tactic edges have distinct
  ids, the operations that commit it pass the subgoal conservation check of the gate: each new tactic
  is created with as many required children as it declares, distinct and indexed without a gap.\<close>

theorem sound_results_conserve_subgoals:
  assumes "validate_formal_search_result result = Inr []" "formal_result_to_ops rt result g = Inr (prop_ops q)"
    "distinct (map (\<lambda>edge. dget edge ''tactic_id'') (objects result ''tactic_edges''))"
  shows "check_subgoal_conservation q = Inr []"
proof -
  obtain ss rs ts cs ks bs where parts: "each result ''states'' (state_op (gv_view g)) = Inr ss" "run_ops (gv_view g) result = Inr rs"
    "each result ''tactic_edges'' (tactic_ops rt (gv_view g)) = Inr ts" "checkpoint_ops g result = Inr cs"
    "certificate_ops g result = Inr ks" "each result ''obstructions'' (obstruction_ops (gv_view g) result) = Inr bs"
    and ops: "prop_ops q = ss @ rs @ ts @ cs @ ks @ bs" by (rule formal_ops_parts [OF assms(2)])
  obtain es where es: "get_list result ''tactic_edges'' = Inr es" "collect (tactic_ops rt (gv_view g)) es = Inr ts"
    using parts(3) by (auto simp: each_def bind_res_Inr)
  have names: "es = map PDict (objects result ''tactic_edges'')" by (rule result_edges [OF es])
  obtain ids where "tactics_conserve ids ts"
    using collected_tactics_conserve [OF es(2)] validated_edges_conserve [OF assms(1)] assms(3)
    by (auto simp: names comp_def)
  then have "tactics_conserve ids (ss @ rs @ ts @ cs @ ks @ bs)"
    using tactics_conserve_append [OF quiet_conserves, of "ss @ rs" ids "ts @ cs @ ks @ bs"]
      tactics_conserve_append [OF _ quiet_conserves, of ids ts "cs @ ks @ bs"] other_sections_quiet parts by auto
  then show ?thesis by (simp add: check_subgoal_conservation_clean ops conserving_proposal)
qed

end
