(* ===== verification/Idempotence.thy ===== *)
theory Idempotence
  imports Dispatch
begin

text \<open>
  Replaying a formal result on the view it produced, \<^verbatim>\<open>formal_result_to_ops\<close> of
  \<^verbatim>\<open>src/src/mathproof/dispatch.py\<close>: without a checkpoint or certificate nothing changes, as its documentation
  promises; a checkpoint or certificate is minted again.
\<close>

section \<open>What one node becomes\<close>

lemma advance_again:
  assumes "\<not> truthy s \<or> py_eq s s" "dget fs ''status'' = s" "dget (nr_fields r) ''status'' = s"
  shows "advance_status l r fs = []"
  using assms by (auto simp: advance_status_def Let_def)

lemma status_settles:
  assumes "wf_view v" "dget fs ''status'' = s" "dget gs ''status'' = s" "\<not> truthy s \<or> py_eq s s"
    and "apply_ops v (case mem_node v n of None \<Rightarrow> [UpsertNode l n gs] | Some r \<Rightarrow> advance_status l r fs) = Inr u"
  shows "\<exists>r. mem_node u n = Some r \<and> advance_status l r fs = []"
proof (cases "mem_node v n")
  case None
  then have u: "mem_node u n = Some \<lparr>nr_id = n, nr_label = l, nr_fields = gs\<rparr>" using assms(5) by (auto simp: mem_node_add_node)
  show ?thesis by (intro exI conjI, rule u, rule advance_again [OF assms(4,2)]) (simp add: assms(3))
next
  case (Some r)
  then have n: "nr_id r = n" using assms(1) by (simp add: wf_view_def)
  show ?thesis
  proof (cases "advance_status l r fs = []")
    case True
    then show ?thesis using assms(5) Some by auto
  next
    case False
    then have z: "advance_status l r fs = [SetField l n ''status'' s (Some (dget (nr_fields r) ''status''))]"
      by (auto simp: advance_status_def Let_def assms(2) n split: if_splits)
    have "mem_node u n = Some \<lparr>nr_id = n, nr_label = nr_label r, nr_fields = AList.update ''status'' s (nr_fields r)\<rparr>"
      using assms(5) Some by (auto simp: z mem_set_field_Inr mem_node_add_node split: sum.splits)
    moreover have "advance_status l \<lparr>nr_id = n, nr_label = nr_label r, nr_fields = AList.update ''status'' s (nr_fields r)\<rparr> fs = []"
      by (rule advance_again [OF assms(4,2)]) (simp add: dget_update)
    ultimately show ?thesis by blast
  qed
qed

lemma advance_writes:
  assumes "wf_view v" "mem_node v n = Some r" "x \<in> set (advance_status l r fs)"
  shows "\<not> is_removeedge x \<and> (touches x m \<longrightarrow> m = n) \<and> (is_setfield x \<longrightarrow> mem_node v (op_node x) \<noteq> None)"
  using assms by (auto simp: advance_status_def Let_def touches_def wf_view_def split: if_splits)

section \<open>The operations of each section\<close>

lemma dget_PStr: "dget d k = PStr s \<longleftrightarrow> map_of d k = Some (PStr s)"
  by (simp add: dget_def split: option.split)

lemma state_op_Inr:
  assumes "state_op v x = Inr z"
  obtains d n where "x = PDict d" "dget d ''state_id'' = PStr n"
    "z = (case rv_node v n of None \<Rightarrow> [UpsertNode ''FormalState'' n (state_fields d)]
       | Some r \<Rightarrow> advance_status ''FormalState'' r (state_fields d))"
  using assms by (auto simp: state_op_def bind_res_Inr as_dict_Inr key_str_Inr dget_PStr)

lemma state_op_again:
  assumes "dget d ''state_id'' = PStr n" "mem_node w n = Some r" "advance_status ''FormalState'' r (state_fields d) = []"
  shows "state_op (as_view w) (PDict d) = Inr []"
proof -
  have "key_str d ''state_id'' = Inr n" using assms(1) by (simp add: key_str_Inr dget_PStr)
  then show ?thesis using assms(2,3) by (simp add: state_op_def)
qed

definition tame :: "mem_view \<Rightarrow> op list \<Rightarrow> bool" where
  "tame v xs \<longleftrightarrow> (\<forall>x \<in> set xs. \<not> is_removeedge x \<and> (is_setfield x \<longrightarrow> mem_node v (op_node x) \<noteq> None))"

lemma tame_append [simp]: "tame v (xs @ ys) \<longleftrightarrow> tame v xs \<and> tame v ys"
  by (auto simp: tame_def)

lemma state_op_touches:
  assumes "wf_view v" "state_op (as_view v) (PDict d) = Inr z" "x \<in> set z" "touches x n"
  shows "dget d ''state_id'' = PStr n"
  using assms(2)
proof (cases rule: state_op_Inr)
  case (1 d' n')
  show ?thesis
  proof (cases "mem_node v n'")
    case None
    then show ?thesis using 1 assms(3,4) by (auto simp: touches_def)
  next
    case (Some r)
    then show ?thesis using 1 assms(3,4) advance_writes [OF assms(1) Some] by auto
  qed
qed

lemma state_op_tame:
  assumes "wf_view v" "state_op (as_view v) x = Inr z"
  shows "tame v z"
  using assms(2)
proof (cases rule: state_op_Inr)
  case (1 d n)
  show ?thesis
  proof (cases "mem_node v n")
    case None
    then show ?thesis using 1 by (simp add: tame_def)
  next
    case (Some r)
    then show ?thesis using 1 advance_writes [OF assms(1) Some] by (auto simp: tame_def)
  qed
qed

fun state_name :: "pyval \<Rightarrow> pyval" where
  "state_name (PDict d) = dget d ''state_id''"
| "state_name _ = PNone"

lemma collected_states:
  assumes "wf_view v" "collect (state_op (as_view v)) es = Inr zs" "x \<in> set zs"
  shows "\<not> is_removeedge x" "is_setfield x \<Longrightarrow> mem_node v (op_node x) \<noteq> None" "touches x n \<Longrightarrow> PStr n \<in> state_name ` set es"
proof -
  obtain y z where y: "y \<in> set es" "state_op (as_view v) y = Inr z" "x \<in> set z"
    using collect_member [OF assms(2,3)] by blast
  then obtain d where d: "y = PDict d" by (auto elim: state_op_Inr)
  have "tame v z" by (rule state_op_tame [OF assms(1) y(2)])
  then show "\<not> is_removeedge x" "is_setfield x \<Longrightarrow> mem_node v (op_node x) \<noteq> None" using y(3) by (auto simp: tame_def)
  show "PStr n \<in> state_name ` set es" if "touches x n"
    using state_op_touches [OF assms(1) y(2)[unfolded d] y(3) that] y(1) d by force
qed

lemma collect_append_Inr:
  "collect f (xs @ ys) = Inr zs \<longleftrightarrow> (\<exists>as bs. collect f xs = Inr as \<and> collect f ys = Inr bs \<and> zs = as @ bs)"
  by (induction xs arbitrary: zs) (auto simp: gen_append_eq_Inr)

lemma collect_element:
  assumes "collect f xs = Inr zs" "y \<in> set xs"
  shows "\<exists>z. f y = Inr z \<and> set z \<subseteq> set zs"
proof -
  obtain as bs where "xs = as @ y # bs" using assms(2) by (meson split_list)
  then show ?thesis
    using assms(1) by (fastforce simp: collect_append_Inr collect_Cons_Inr simp del: collect.simps(2))
qed

text \<open>The states of a result are settled by its first commit.\<close>

lemma states_settle:
  assumes wf: "wf_view v" and coll: "collect (state_op (as_view v)) es = Inr ss" and app: "apply_ops v (ss @ rest) = Inr w"
    and dist: "distinct (map state_name es)"
    and quiet: "\<And>d n x. PDict d \<in> set es \<Longrightarrow> dget d ''state_id'' = PStr n \<Longrightarrow> x \<in> set rest \<Longrightarrow> \<not> writes x n"
    and texts: "\<And>d. PDict d \<in> set es \<Longrightarrow>
      \<not> truthy (dget (state_fields d) ''status'') \<or> py_eq (dget (state_fields d) ''status'') (dget (state_fields d) ''status'')"
  shows "collect (state_op (as_view w)) es = Inr []"
  unfolding collect_clean
proof
  fix y assume y: "y \<in> set es"
  then obtain as bs where es: "es = as @ y # bs" by (meson split_list)
  obtain za z zb where z: "collect (state_op (as_view v)) as = Inr za" "state_op (as_view v) y = Inr z"
    "collect (state_op (as_view v)) bs = Inr zb" "ss = za @ z @ zb"
    using coll unfolding es collect_append_Inr collect_Cons_Inr by blast
  obtain d n where d: "y = PDict d" "dget d ''state_id'' = PStr n" and
    zd: "z = (case mem_node v n of None \<Rightarrow> [UpsertNode ''FormalState'' n (state_fields d)]
       | Some r \<Rightarrow> advance_status ''FormalState'' r (state_fields d))"
    using z(2) by (auto elim: state_op_Inr)
  obtain v1 v2 where v1: "apply_ops v za = Inr v1" and v2: "apply_ops v1 z = Inr v2" and w: "apply_ops v2 (zb @ rest) = Inr w"
    using app unfolding z(4) append_assoc apply_ops_split [of v za] apply_ops_split [of _ z] by blast
  have wf1: "wf_view v1" by (rule wf_apply_ops [OF wf v1])
  have fresh: "PStr n \<notin> state_name ` set as" "PStr n \<notin> state_name ` set bs"
    using dist d by (auto simp: es image_iff)
  have "mem_node v1 n = mem_node v n"
    by (rule apply_ops_untouched [OF v1]) (use collected_states(3) [OF wf z(1)] fresh(1) in blast)
  with zd v2 have "apply_ops v1 (case mem_node v1 n of None \<Rightarrow> [UpsertNode ''FormalState'' n (state_fields d)]
      | Some r \<Rightarrow> advance_status ''FormalState'' r (state_fields d)) = Inr v2" by simp
  then obtain r where r: "mem_node v2 n = Some r" "advance_status ''FormalState'' r (state_fields d) = []"
    using status_settles [OF wf1 refl refl texts] y d(1) by blast
  have "\<not> writes x n" if "x \<in> set (zb @ rest)" for x
    using that quiet [OF _ d(2)] y d(1) collected_states(3) [OF wf z(3), of x n] fresh(2)
    by (auto simp: writes_def touches_def)
  with w r(1) have "mem_node w n = Some r" by (rule apply_ops_unwritten)
  then show "state_op (as_view w) y = Inr []" unfolding d(1) by (rule state_op_again [OF d(2) _ r(2)])
qed

lemma run_status_advance:
  "run_status_ops v result r =
     (case rv_node v r of
        None \<Rightarrow> [UpsertNode ''FormalRun'' r
          [(''actor'', get_or result ''actor'' (PStr ''formal-atp'')), (''status'', dget result ''disposition'')]]
      | Some existing \<Rightarrow> advance_status ''FormalRun'' existing [(''status'', dget result ''disposition'')])"
  by (auto simp: run_status_ops_def advance_status_def Let_def split: option.split)

lemma run_settles:
  assumes "wf_view v" "apply_ops v (run_status_ops (as_view v) result r) = Inr u"
    "\<not> truthy (dget result ''disposition'') \<or> py_eq (dget result ''disposition'') (dget result ''disposition'')"
  shows "\<exists>nd. mem_node u r = Some nd \<and> advance_status ''FormalRun'' nd [(''status'', dget result ''disposition'')] = []"
  using assms(2) unfolding run_status_advance as_view_node
  by (rule status_settles [OF assms(1), rotated 3]) (use assms(3) in simp_all)

lemma search_again:
  assumes "wf_view v" "wf_view w" "\<And>e r. mv_edges v e = Some r \<Longrightarrow> mv_edges w e = Some r"
    and "\<And>rel a b e fs. AddEdge rel a b e fs \<in> set (search_ops (as_view v) r decl) \<Longrightarrow> mv_edges w e \<noteq> None"
  shows "apply_ops w (search_ops (as_view w) r decl) = Inr w"
proof (cases "search_ops (as_view w) r decl = []")
  case False
  then obtain t where t: "decl = Some t" "t \<noteq> []" "t \<notin> er_dst ` set (rv_from (as_view w) r ''SEARCHES'')"
    by (auto simp: search_ops_def split: option.splits if_splits)
  have "t \<notin> er_dst ` set (rv_from (as_view v) r ''SEARCHES'')"
  proof
    assume "t \<in> er_dst ` set (rv_from (as_view v) r ''SEARCHES'')"
    then obtain e where "e \<in> set (rv_from (as_view v) r ''SEARCHES'')" "er_dst e = t" by blast
    then have "e \<in> set (rv_from (as_view w) r ''SEARCHES'')"
      using mem_contract.from_iff assms(1,2,3) by simp
    then show False using t(3) \<open>er_dst e = t\<close> by blast
  qed
  then have "AddEdge ''SEARCHES'' r t (r @ ''-searches'') [] \<in> set (search_ops (as_view v) r decl)"
    using t by (simp add: search_ops_def)
  then have "mv_edges w (r @ ''-searches'') \<noteq> None" by (rule assms(4))
  then show ?thesis using t by (auto simp: search_ops_def mem_edge_def)
qed simp

section \<open>The whole result\<close>

lemma tactic_section:
  assumes "collect (tactic_ops rt (as_view v)) es = Inr ts" "apply_ops v xs = Inr w" "set ts \<subseteq> set xs"
  shows "collect (tactic_ops rt (as_view w)) es = Inr []"
proof -
  show "collect (tactic_ops rt (as_view w)) es = Inr []"
    unfolding collect_clean
  proof
    fix y assume y: "y \<in> set es"
    obtain z where z: "tactic_ops rt (as_view v) y = Inr z" "set z \<subseteq> set ts"
      using collect_element [OF assms(1) y] by blast
    from z(1) obtain d t where d: "y = PDict d" "dget d ''tactic_id'' = PStr t"
      and cases: "mem_node v t \<noteq> None \<or> (\<exists>fs. UpsertNode ''TacticApplication'' t fs \<in> set z)"
      by (cases rule: tactic_ops_Inr) auto
    have "mem_node w t \<noteq> None"
      using cases apply_ops_present [OF assms(2)] apply_ops_upserted [OF assms(2)] z(2) assms(3) by blast
    then show "tactic_ops rt (as_view w) y = Inr []"
      using d by (auto simp: tactic_ops_def key_str_Inr [THEN iffD2, OF d(2) [unfolded dget_PStr]])
  qed
qed

lemma tactic_parts:
  assumes "collect (tactic_ops rt v) es = Inr ts" "x \<in> set ts"
  shows "\<not> is_removeedge x \<and> \<not> is_setfield x"
  using collect_member [OF assms] by (auto elim!: tactic_ops_Inr simp: requirement_edges_def split: if_splits)

lemma obstruction_ops_Inr:
  assumes "obstruction_ops v result y = Inr z"
  obtains d b where "y = PDict d" "map_of d ''obstruction_id'' = Some (PStr b)"
    "rv_node v b \<noteq> None \<or> (\<exists>fs. UpsertNode ''Obstruction'' b fs \<in> set z)"
    "\<And>x. x \<in> set z \<Longrightarrow> \<not> is_removeedge x \<and> \<not> is_setfield x"
proof -
  obtain d b where d: "y = PDict d" "map_of d ''obstruction_id'' = Some (PStr b)" "key_str d ''obstruction_id'' = Inr b"
    using assms by (auto simp: obstruction_ops_def bind_res_Inr subscripted_Inr key_str_Inr)
  show thesis
  proof (rule that [OF d(1,2)])
    show "rv_node v b \<noteq> None \<or> (\<exists>fs. UpsertNode ''Obstruction'' b fs \<in> set z)"
      using assms d(1,3) by (auto simp: obstruction_ops_def bind_res_Inr split: if_splits)
    fix x assume "x \<in> set z"
    then show "\<not> is_removeedge x \<and> \<not> is_setfield x"
      using assms d(1,3) by (auto simp: obstruction_ops_def bind_res_Inr split: if_splits)
  qed
qed

lemma obstruction_section:
  assumes "collect (obstruction_ops (as_view v) result) es = Inr bs" "apply_ops v xs = Inr w" "set bs \<subseteq> set xs"
  shows "collect (obstruction_ops (as_view w) result) es = Inr []"
proof -
  show "collect (obstruction_ops (as_view w) result) es = Inr []"
    unfolding collect_clean
  proof
    fix y assume y: "y \<in> set es"
    obtain z where z: "obstruction_ops (as_view v) result y = Inr z" "set z \<subseteq> set bs"
      using collect_element [OF assms(1) y] by blast
    from z(1) obtain d b where d: "y = PDict d" "map_of d ''obstruction_id'' = Some (PStr b)"
      and cases: "mem_node v b \<noteq> None \<or> (\<exists>fs. UpsertNode ''Obstruction'' b fs \<in> set z)"
      by (cases rule: obstruction_ops_Inr) auto
    have "mem_node w b \<noteq> None"
      using cases apply_ops_present [OF assms(2)] apply_ops_upserted [OF assms(2)] z(2) assms(3) by blast
    then show "obstruction_ops (as_view w) result y = Inr []"
      using d by (auto simp: obstruction_ops_def key_str_Inr [THEN iffD2, OF d(2)])
  qed
qed

lemma obstruction_parts:
  assumes "collect (obstruction_ops v result) es = Inr bs" "x \<in> set bs"
  shows "\<not> is_removeedge x \<and> \<not> is_setfield x"
  using collect_member [OF assms] by (auto elim!: obstruction_ops_Inr)

lemma run_ops_cases:
  assumes "run_ops v result = Inr rs"
  obtains "get_opt result ''run_id'' = Inr None" "rs = []"
  | r goal decl where "get_opt result ''run_id'' = Inr (Some r)" "get_opt result ''root_state_id'' = Inr goal"
      "get_opt result ''declaration_id'' = Inr decl"
      "rs = run_status_ops v result r @ root_ops v r goal @ search_ops v r decl"
proof -
  obtain run_id where id: "get_opt result ''run_id'' = Inr run_id" using assms by (auto simp: run_ops_def bind_res_Inr)
  show thesis
  proof (cases run_id)
    case None
    then show ?thesis using assms id that(1) by (simp add: run_ops_def)
  next
    case (Some r)
    then show ?thesis using assms id that(2) by (auto simp: run_ops_def bind_res_Inr)
  qed
qed

lemma run_edges_only:
  "x \<in> set (root_ops v r goal @ search_ops v r decl) \<Longrightarrow> \<not> is_removeedge x \<and> \<not> is_setfield x \<and> \<not> is_upsert x"
  by (auto simp: root_ops_def search_ops_def split: option.splits if_splits)

lemma run_status_touches:
  assumes "wf_view v" "x \<in> set (run_status_ops (as_view v) result r)"
  shows "\<not> is_removeedge x \<and> (touches x m \<longrightarrow> m = r) \<and> (is_setfield x \<longrightarrow> mem_node v (op_node x) \<noteq> None)"
proof (cases "mem_node v r")
  case None
  then show ?thesis using assms(2) by (auto simp: run_status_ops_def touches_def Let_def)
next
  case (Some nd)
  then show ?thesis using assms(2) advance_writes [OF assms(1) Some]
    by (auto simp: run_status_ops_def Let_def split: if_splits)
qed

lemma get_opt_Some: "get_opt d k = Inr (Some s) \<longleftrightarrow> dget d k = PStr s"
  by (cases "dget d k") (auto simp: get_opt_def)

lemma run_parts:
  assumes "wf_view v" "run_ops (as_view v) result = Inr rs" "x \<in> set rs"
  shows "\<not> is_removeedge x \<and> (touches x n \<longrightarrow> dget result ''run_id'' = PStr n) \<and>
    (is_setfield x \<longrightarrow> mem_node v (op_node x) \<noteq> None)"
  using assms(2)
proof (cases rule: run_ops_cases)
  case 1
  then show ?thesis using assms(3) by simp
next
  case (2 r goal decl)
  have id: "dget result ''run_id'' = PStr r" using 2(1) by (simp add: get_opt_Some)
  consider "x \<in> set (run_status_ops (as_view v) result r)" | "x \<in> set (root_ops (as_view v) r goal @ search_ops (as_view v) r decl)"
    using assms(3) 2(4) by auto
  then show ?thesis
  proof cases
    case 1
    then show ?thesis using run_status_touches [OF assms(1) 1, of n] id by auto
  next
    case 2
    then show ?thesis using run_edges_only [OF 2] by (simp add: touches_def)
  qed
qed

text \<open>The run and its search edge are settled by the first commit.\<close>

lemma run_section:
  assumes "wf_view v" "run_ops (as_view v) result = Inr rs" "apply_ops v (ss @ rs @ rest) = Inr w"
    and "\<And>x r. x \<in> set ss \<Longrightarrow> dget result ''run_id'' = PStr r \<Longrightarrow> \<not> touches x r"
    and "\<And>x. x \<in> set (ss @ rs @ rest) \<Longrightarrow> \<not> is_removeedge x" "\<And>x. x \<in> set rest \<Longrightarrow> \<not> is_setfield x"
    and "\<not> truthy (dget result ''disposition'') \<or> py_eq (dget result ''disposition'') (dget result ''disposition'')"
  shows "\<exists>ys. run_ops (as_view w) result = Inr ys \<and> apply_ops w ys = Inr w"
  using assms(2)
proof (cases rule: run_ops_cases)
  case 1
  then show ?thesis by (simp add: run_ops_def)
next
  case (2 r goal decl)
  have id: "dget result ''run_id'' = PStr r" using 2(1) by (simp add: get_opt_Some)
  obtain v1 v2 where v1: "apply_ops v ss = Inr v1" and v2: "apply_ops v1 (run_status_ops (as_view v) result r) = Inr v2"
    and w: "apply_ops v2 ((root_ops (as_view v) r goal @ search_ops (as_view v) r decl) @ rest) = Inr w"
    using assms(3) unfolding 2(4) append_assoc apply_ops_split [of v ss]
      apply_ops_split [of _ "run_status_ops (as_view v) result r"] by blast
  have wf1: "wf_view v1" "wf_view w" using wf_apply_ops [OF assms(1)] v1 assms(3) by blast+
  have "mem_node v1 r = mem_node v r" by (rule apply_ops_untouched [OF v1]) (use assms(4) id in blast)
  then have "run_status_ops (as_view v1) result r = run_status_ops (as_view v) result r" by (simp add: run_status_ops_def)
  then obtain nd where nd: "mem_node v2 r = Some nd" "advance_status ''FormalRun'' nd [(''status'', dget result ''disposition'')] = []"
    using run_settles [OF wf1(1) _ assms(7)] v2 by metis
  have "mem_node w r = Some nd"
    by (rule apply_ops_unwritten [OF w nd(1)]) (use run_edges_only assms(6) in \<open>metis Un_iff set_append writes_def\<close>)
  then have status: "run_status_ops (as_view w) result r = []" and no_root: "root_ops (as_view w) r goal = []"
    using nd(2) by (simp_all add: run_status_advance root_ops_def split: option.split)
  have "apply_ops w (search_ops (as_view w) r decl) = Inr w"
  proof (rule search_again [OF assms(1) wf1(2)])
    show "mv_edges w e = Some x" if "mv_edges v e = Some x" for e x
      by (rule apply_ops_edge [OF assms(3) that assms(5)])
    show "mv_edges w e \<noteq> None" if "AddEdge rel a b e fs \<in> set (search_ops (as_view v) r decl)" for rel a b e fs
      by (rule apply_ops_added [OF assms(3) _ assms(5)]) (use that 2(4) in auto)
  qed
  then show ?thesis using 2 status no_root by (simp add: run_ops_def)
qed

text \<open>C35. Committing a formal result again, on the view its first commit produced, changes nothing: every
  operation that the second conversion still emits is without effect. This holds for results without
  a certificate and without a checkpoint frontier, with distinct state ids, none of them the id of the
  run, and with statuses that are texts or missing.\<close>

theorem formal_replay_changes_nothing:
  assumes "wf_view v" "formal_result_to_ops rt result (as_graph v) = Inr xs"
    and "get_list result ''states'' = Inr (map PDict states)" "distinct (map (\<lambda>d. dget d ''state_id'') states)"
      "dget result ''run_id'' \<notin> set (map (\<lambda>d. dget d ''state_id'') states)"
    and "list_all (\<lambda>s. s = PNone \<or> (\<exists>t. s = PStr t)) (dget result ''disposition'' # map (\<lambda>d. dget (state_fields d) ''status'') states)"
    and "\<not> truthy (dget result ''certificate'')"
      "\<not> truthy (dget result ''checkpoint'') \<or>
        (\<exists>cp. dget result ''checkpoint'' = PDict cp \<and> \<not> truthy (dget cp ''frontier_state_ids''))"
  shows "\<exists>w ys. apply_ops v xs = Inr w \<and> formal_result_to_ops rt result (as_graph w) = Inr ys \<and> apply_ops w ys = Inr w"
proof -
  have no_cert: "certificate_ops g result = Inr []" for g using assms(7) by (simp add: certificate_ops_def)
  have no_check: "checkpoint_ops g result = Inr []" for g
    using assms(8) by (auto simp: checkpoint_ops_def Let_def)
  let ?es = "map PDict states"
  obtain ss rs ts bs where ss: "collect (state_op (as_view v)) ?es = Inr ss" and rs: "run_ops (as_view v) result = Inr rs"
    and ts: "each result ''tactic_edges'' (tactic_ops rt (as_view v)) = Inr ts"
    and bs: "each result ''obstructions'' (obstruction_ops (as_view v) result) = Inr bs" and xs: "xs = ss @ rs @ ts @ bs"
    by (rule formal_ops_parts [OF assms(2)]) (use no_cert no_check assms(3) in \<open>auto simp: each_def\<close>)
  obtain te where te: "get_list result ''tactic_edges'' = Inr te" "collect (tactic_ops rt (as_view v)) te = Inr ts"
    using ts by (auto simp: each_def bind_res_Inr)
  obtain be where be: "get_list result ''obstructions'' = Inr be" "collect (obstruction_ops (as_view v) result) be = Inr bs"
    using bs by (auto simp: each_def bind_res_Inr)
  have edges: "\<not> is_removeedge x \<and> \<not> is_setfield x" if "x \<in> set (ts @ bs)" for x
    using that tactic_parts [OF te(2)] obstruction_parts [OF be(2)] by auto
  have runs: "\<not> is_removeedge x \<and> (touches x n \<longrightarrow> dget result ''run_id'' = PStr n) \<and>
      (is_setfield x \<longrightarrow> mem_node v (op_node x) \<noteq> None)" if "x \<in> set rs" for x n
    by (rule run_parts [OF assms(1) rs that])
  have safe: "\<not> is_removeedge x" "is_setfield x \<Longrightarrow> mem_node v (op_node x) \<noteq> None" if "x \<in> set xs" for x
    using that collected_states(1,2) [OF assms(1) ss] runs edges unfolding xs by auto
  obtain w where w: "apply_ops v xs = Inr w" using writes_on_committed_apply [OF assms(1)] safe(2) by blast
  note w' = w [unfolded xs]
  have texts: "\<not> truthy s \<or> py_eq s s" if "s = PNone \<or> (\<exists>t. s = PStr t)" for s using that by auto
  have "collect (state_op (as_view w)) ?es = Inr []"
  proof (rule states_settle [OF assms(1) ss w'])
    show "distinct (map state_name ?es)" using assms(4) by (simp add: comp_def)
    show "\<not> writes x n" if "PDict d \<in> set ?es" "dget d ''state_id'' = PStr n" "x \<in> set (rs @ ts @ bs)" for d n x
      using that runs [of x n] edges [of x] assms(5) by (force simp: writes_def touches_def)
    show "\<not> truthy (dget (state_fields d) ''status'') \<or> py_eq (dget (state_fields d) ''status'') (dget (state_fields d) ''status'')"
      if "PDict d \<in> set ?es" for d using that assms(6) by (intro texts) (auto simp: list_all_iff)
  qed
  then have again_ss: "each result ''states'' (state_op (as_view w)) = Inr []" using assms(3) by (simp add: each_def)
  have "\<exists>ys. run_ops (as_view w) result = Inr ys \<and> apply_ops w ys = Inr w"
  proof (rule run_section [OF assms(1) rs w'])
    show "\<not> touches x r" if "x \<in> set ss" "dget result ''run_id'' = PStr r" for x r
      using collected_states(3) [OF assms(1) ss that(1), of r] that(2) assms(5) by auto
    show "\<not> truthy (dget result ''disposition'') \<or> py_eq (dget result ''disposition'') (dget result ''disposition'')"
      using assms(6) by (intro texts) simp
  qed (use safe(1) edges in \<open>auto simp: xs\<close>)
  then obtain ys where ys: "run_ops (as_view w) result = Inr ys" "apply_ops w ys = Inr w" by blast
  have again_ts: "each result ''tactic_edges'' (tactic_ops rt (as_view w)) = Inr []"
    using tactic_section [OF te(2) w] te(1) by (auto simp: each_def xs)
  have again_bs: "each result ''obstructions'' (obstruction_ops (as_view w) result) = Inr []"
    using obstruction_section [OF be(2) w] be(1) by (auto simp: each_def xs)
  have "formal_result_to_ops rt result (as_graph w) = Inr ys"
    by (simp add: formal_result_to_ops_def again_ss ys(1) again_ts again_bs no_cert no_check)
  then show ?thesis using w ys(2) by blast
qed

section \<open>A result to commit\<close>

definition two_states :: fields where
  "two_states =
     [(''proof_id'', PStr ''p''), (''run_id'', PStr ''p/fr-1''), (''disposition'', PStr ''searching''),
      (''root_state_id'', PStr ''p/fs-1''), (''declaration_id'', PStr ''p/fd-1''),
      (''states'', PList [PDict [(''state_id'', PStr ''p/fs-1''), (''status'', PStr ''expanded'')],
                          PDict [(''state_id'', PStr ''p/fs-2''), (''status'', PStr ''open'')]]),
      (''tactic_edges'', PList [PDict
         [(''tactic_id'', PStr ''p/ta-1''), (''source_state_id'', PStr ''p/fs-1''), (''subgoal_count'', PInt 1),
          (''executor_result'', PStr ''lean-accepted''), (''produced_goal_ids'', PList [PStr ''p/fs-2''])]])]"

text \<open>The first state is committed with another status.\<close>

definition open_root :: mem_view where
  "open_root = mem_add_node empty_view ''p/fs-1'' ''FormalState'' [(''status'', PStr ''open'')]"

theorem formal_replay_changes_nothing_witness:
  "\<exists>xs w ys. formal_result_to_ops demo_runtime two_states (as_graph open_root) = Inr xs \<and> 2 < length xs \<and>
     apply_ops open_root xs = Inr w \<and> formal_result_to_ops demo_runtime two_states (as_graph w) = Inr ys \<and>
     apply_ops w ys = Inr w"
proof -
  have "case formal_result_to_ops demo_runtime two_states (as_graph open_root) of Inl _ \<Rightarrow> False | Inr xs \<Rightarrow> 2 < length xs"
    by code_simp
  then obtain xs where xs: "formal_result_to_ops demo_runtime two_states (as_graph open_root) = Inr xs" "2 < length xs"
    by (auto split: sum.splits)
  have "wf_view open_root" unfolding open_root_def by (intro wf_add_node wf_empty_view)
  from formal_replay_changes_nothing [OF this xs(1), where states =
      "[[(''state_id'', PStr ''p/fs-1''), (''status'', PStr ''expanded'')], [(''state_id'', PStr ''p/fs-2''), (''status'', PStr ''open'')]]"]
  obtain w ys where "apply_ops open_root xs = Inr w" "formal_result_to_ops demo_runtime two_states (as_graph w) = Inr ys"
    "apply_ops w ys = Inr w"
    by (auto simp: two_states_def get_list_def state_fields_def)
  with xs show ?thesis by blast
qed

theorem minted_ids_are_fresh_witness:
  "minted (as_graph open_root) ''p'' ''fs'' = ''p/fs-2'' \<and> mem_node open_root ''p/fs-2'' = None"
proof -
  have "minted (as_graph open_root) ''p'' ''fs'' = ''p/fs-2''" by code_simp
  then show ?thesis using minted_ids_are_fresh [of "''p''" open_root "''fs''"] by simp
qed

theorem sound_results_conserve_subgoals_witness:
  "check_subgoal_conservation (demo_proposal\<lparr>prop_ops := projr (formal_result_to_ops hex_runtime
     (projr (build_result hex_runtime ''budget-exhausted'' demo_request)) (as_graph empty_view))\<rparr>) = Inr []"
proof -
  let ?r = "projr (build_result hex_runtime ''budget-exhausted'' demo_request)"
  have "validate_formal_search_result ?r = Inr []" by code_simp
  moreover have "case formal_result_to_ops hex_runtime ?r (as_graph empty_view) of Inl _ \<Rightarrow> False | Inr _ \<Rightarrow> True" by code_simp
  then have "formal_result_to_ops hex_runtime ?r (as_graph empty_view) =
      Inr (prop_ops (demo_proposal\<lparr>prop_ops := projr (formal_result_to_ops hex_runtime ?r (as_graph empty_view))\<rparr>))"
    by (auto split: sum.splits)
  moreover have "distinct (map (\<lambda>edge. dget edge ''tactic_id'') (objects ?r ''tactic_edges''))" by code_simp
  ultimately show ?thesis by (rule sound_results_conserve_subgoals)
qed

text \<open>
  A checkpoint or a certificate has no id of its own: each conversion mints one, so that the
  replay of a committed result commits another node although the documentation says that it leaves
  committed state unchanged.
\<close>

lemma checkpoints_are_minted_again:
  assumes "checkpoint_ops (as_graph v) result = Inr xs" "xs \<noteq> []" "dget result ''proof_id'' = PStr pid" "pid \<noteq> []"
    "CHR ''/'' \<notin> set pid"
  shows "(\<exists>fs. UpsertNode ''FormalCheckpoint'' (minted (as_graph v) pid ''fc'') fs \<in> set xs) \<and>
    mem_node v (minted (as_graph v) pid ''fc'') = None"
proof -
  have "key_str result ''proof_id'' = Inr pid" using assms(3) by (simp add: key_str_Inr dget_PStr)
  then show ?thesis
    using assms(1,2) minted_fresh [OF assms(4,5), of v "''fc''"]
    by (auto simp: checkpoint_ops_def bind_res_Inr Let_def split: if_splits)
qed

lemma certificates_are_minted_again:
  assumes "certificate_ops (as_graph v) result = Inr xs" "xs \<noteq> []" "dget result ''proof_id'' = PStr pid" "pid \<noteq> []"
    "CHR ''/'' \<notin> set pid"
  shows "(\<exists>fs. UpsertNode ''Certificate'' (minted (as_graph v) pid ''cert'') fs \<in> set xs) \<and>
    mem_node v (minted (as_graph v) pid ''cert'') = None"
proof -
  have "key_str result ''proof_id'' = Inr pid" using assms(3) by (simp add: key_str_Inr dget_PStr)
  then show ?thesis
    using assms(1,2) minted_fresh [OF assms(4,5), of v "''cert''"]
    by (auto simp: certificate_ops_def bind_res_Inr Let_def split: if_splits)
qed

end
