(* ===== verification/Routing.thy ===== *)
theory Routing
  imports FormalAtp Scheduler
begin

text \<open>
  The adaptive routing triggers, \<^verbatim>\<open>src/src/mathproof/routing.py\<close>: an ordered table of conditions on
  what a formal run has committed, evaluated after each cycle.

  \<^item> \<open>checkpoint_frontiers\<close>, \<open>closing_healthily\<close>, \<open>repeated_failure_family\<close>,
    \<open>converged_obstruction\<close>: the condition probes; \<open>evaluate_run\<close>: the table.
  \<^item> \<open>frontier_shrank\<close>, \<open>family_size\<close>, \<open>raised\<close>: the grounds of the decisions over the committed nodes and
    edges, apart from the probes.
  \<^item> The order in which Python walks a set of strings is a parameter, \<open>walk\<close>.
  \<^item> Checkpoint epochs are integers or missing values, failure families texts, and obstruction kinds
    texts or missing; other values of these fields are outside the model (\<open>OutOfModel\<close>).
\<close>

section \<open>Decisions\<close>

record routing_config =
  rc_shrink :: int
  rc_repeat :: int

definition default_routing :: routing_config where
  "default_routing = \<lparr>rc_shrink = 1, rc_repeat = 2\<rparr>"

record routing_decision =
  rd_run :: string
  rd_rule :: string
  rd_action :: string
  rd_detail :: string
  rd_params :: fields

section \<open>Condition probes\<close>

text \<open>\<^verbatim>\<open>sorted(entries)\<close> for pairs of an epoch and a count.\<close>

definition sort_epochs :: "(pyval \<times> nat) list \<Rightarrow> py_exc + (pyval \<times> nat) list" where
  "sort_epochs entries =
     (if length entries \<le> 1 then Inr entries
      else if list_all (\<lambda>e. case fst e of PNone \<Rightarrow> True | PInt _ \<Rightarrow> True | _ \<Rightarrow> False) entries then
        (if list_all (\<lambda>e. fst e = PNone) entries then Inr (sort_key snd entries)
         else if list_all (\<lambda>e. fst e \<noteq> PNone) entries
         then Inr (sort_key (\<lambda>e. (case fst e of PInt i \<Rightarrow> i | _ \<Rightarrow> 0, snd e)) entries)
         else Inl TypeError)
      else Inl OutOfModel)"

definition open_states :: "read_view \<Rightarrow> string \<Rightarrow> nat" where
  "open_states v checkpoint =
     length (filter (\<lambda>e. case rv_node v (er_dst e) of None \<Rightarrow> False
         | Some state \<Rightarrow> status_in state [''open'', ''expanded''])
       (rv_from v checkpoint ''CHECKPOINT_FRONTIER''))"

definition checkpoint_frontiers :: "read_view \<Rightarrow> string \<Rightarrow> py_exc + nat list" where
  "checkpoint_frontiers v run_id =
     bind_res (sort_epochs (List.map_filter (\<lambda>e.
         case rv_node v (er_dst e) of
           None \<Rightarrow> None
         | Some checkpoint \<Rightarrow> Some (get_or (nr_fields checkpoint) ''epoch_ms'' (PInt 0), open_states v (nr_id checkpoint)))
       (rv_from v run_id ''HAS_CHECKPOINT''))) (\<lambda>entries. Inr (map snd entries))"

definition closing_healthily :: "nat list \<Rightarrow> int \<Rightarrow> bool" where
  "closing_healthily sizes shrink \<longleftrightarrow> 2 \<le> length sizes \<and> int (List.last sizes) \<le> int (hd sizes) - shrink"

text \<open>The states of a run: its roots and the frontiers of its checkpoints, in the order they are added.\<close>

definition run_states :: "read_view \<Rightarrow> string \<Rightarrow> string list" where
  "run_states v run_id =
     map er_dst (rv_from v run_id ''HAS_ROOT'') @
     concat (map (\<lambda>e. map er_dst (rv_from v (er_dst e) ''CHECKPOINT_FRONTIER'')) (rv_from v run_id ''HAS_CHECKPOINT''))"

definition rejected_tactics :: "read_view \<Rightarrow> string \<Rightarrow> node_rec list" where
  "rejected_tactics v state =
     List.map_filter (\<lambda>e. case rv_node v (er_dst e) of
         None \<Rightarrow> None
       | Some tactic \<Rightarrow>
           if py_eq (dget (nr_fields tactic) ''executor_result'') (PStr ''lean-rejected'') then Some tactic else None)
       (rv_from v state ''HAS_TACTIC'')"

text \<open>\<^verbatim>\<open>visited_tactics\<close>: each tactic counts once.\<close>

fun first_visits :: "string list \<Rightarrow> node_rec list \<Rightarrow> node_rec list" where
  "first_visits visited [] = []"
| "first_visits visited (t # ts) =
     (if nr_id t \<in> set visited then first_visits visited ts else t # first_visits (nr_id t # visited) ts)"

definition family_of :: "node_rec \<Rightarrow> py_exc + string option" where
  "family_of tactic =
     (let annotations = dget (nr_fields tactic) ''annotations''
      in if \<not> truthy annotations then Inr None
         else bind_res (as_dict annotations) (\<lambda>d.
           let family = dget d ''failure_family''
           in if \<not> truthy family then Inr None
              else case family of PStr s \<Rightarrow> Inr (Some s) | PList _ \<Rightarrow> Inl TypeError | PDict _ \<Rightarrow> Inl TypeError
                | _ \<Rightarrow> Inl OutOfModel))"

definition bump :: "string \<Rightarrow> (string \<times> nat) list \<Rightarrow> (string \<times> nat) list" where
  "bump k counts = AList.update k ((case map_of counts k of None \<Rightarrow> 0 | Some n \<Rightarrow> n) + 1) counts"

text \<open>\<^verbatim>\<open>max(items, key=count)\<close>: the first of the largest.\<close>

fun most_frequent :: "(string \<times> nat) list \<Rightarrow> (string \<times> nat) option" where
  "most_frequent [] = None"
| "most_frequent (x # xs) =
     (case most_frequent xs of None \<Rightarrow> Some x | Some y \<Rightarrow> Some (if snd x < snd y then y else x))"

definition repeated_failure_family ::
  "(string list \<Rightarrow> string list) \<Rightarrow> read_view \<Rightarrow> string \<Rightarrow> int \<Rightarrow> py_exc + string option" where
  "repeated_failure_family walk v run_id repeat =
     bind_res (all_res family_of
         (first_visits [] (concat (map (rejected_tactics v) (walk (remdups (run_states v run_id))))))) (\<lambda>families.
       Inr (case most_frequent (fold bump (List.map_filter id families) []) of
              None \<Rightarrow> None
            | Some (family, n) \<Rightarrow> if repeat \<le> int n then Some family else None))"

text \<open>Sightings of an obstruction kind at a state, one per \<^verbatim>\<open>AT_STATE\<close> edge.\<close>

definition sightings :: "read_view \<Rightarrow> string \<Rightarrow> (string \<times> pyval) list" where
  "sightings v run_id =
     concat (map (\<lambda>e. case rv_node v (er_dst e) of
         None \<Rightarrow> []
       | Some obstruction \<Rightarrow>
           map (\<lambda>a. (er_dst a, dget (nr_fields obstruction) ''kind'')) (rv_from v (nr_id obstruction) ''AT_STATE''))
       (rv_from v run_id ''RAISED_OBSTRUCTION''))"

definition kind_key :: "string \<times> pyval \<Rightarrow> py_exc + string \<times> string option" where
  "kind_key = (\<lambda>(state, kind). case kind of PNone \<Rightarrow> Inr (state, None) | PStr k \<Rightarrow> Inr (state, Some k)
     | PList _ \<Rightarrow> Inl TypeError | PDict _ \<Rightarrow> Inl TypeError | _ \<Rightarrow> Inl OutOfModel)"

text \<open>
  \<^verbatim>\<open>sorted(seen.items())\<close> raises when a missing kind meets a text at the same state; the keys are
  distinct, so the counts are never compared.
\<close>

definition sort_sightings :: "(string \<times> string option) list \<Rightarrow> py_exc + (string \<times> string option) list" where
  "sort_sightings seen =
     (if list_ex (\<lambda>x. snd x = None \<and> list_ex (\<lambda>y. fst y = fst x \<and> snd y \<noteq> None) seen) seen then Inl TypeError
      else Inr (sort_key (\<lambda>x. (fst x, case snd x of None \<Rightarrow> [] | Some k \<Rightarrow> k)) seen))"

definition converged_obstruction :: "read_view \<Rightarrow> string \<Rightarrow> py_exc + (string \<times> string option) option" where
  "converged_obstruction v run_id =
     bind_res (all_res kind_key (sightings v run_id)) (\<lambda>keys.
     bind_res (sort_sightings (remdups keys)) (\<lambda>sorted.
       Inr (List.find (\<lambda>key. 2 \<le> count_list keys key) sorted)))"

section \<open>The trigger table\<close>

definition hold_decision :: "string \<Rightarrow> routing_decision" where
  "hold_decision run_id =
     \<lparr>rd_run = run_id, rd_rule = ''complete-trace'', rd_action = ''hold-for-replay'',
      rd_detail = ''proved-pending-replay; independent replay owns this run now'', rd_params = []\<rparr>"

definition continue_decision :: "string \<Rightarrow> nat list \<Rightarrow> routing_decision" where
  "continue_decision run_id sizes =
     \<lparr>rd_run = run_id, rd_rule = ''healthy-closing-rate'', rd_action = ''continue-search'',
      rd_detail = ''checkpoint frontier shrank ['' @ join_with '', '' (map nat_str sizes) @ '']'', rd_params = []\<rparr>"

definition widen_decision :: "string \<Rightarrow> string \<Rightarrow> routing_decision" where
  "widen_decision run_id family =
     \<lparr>rd_run = run_id, rd_rule = ''repeated-failure-family'', rd_action = ''widen-premises'',
      rd_detail = ''failure family '' @ py_repr family @ '' unchanged across checkpoints'',
      rd_params = [(''widen_retrieval'', PBool True), (''failure_family'', PStr family)]\<rparr>"

definition bridge_decision :: "runtime \<Rightarrow> string \<Rightarrow> string \<Rightarrow> string option \<Rightarrow> routing_decision" where
  "bridge_decision rt run_id state kind =
     \<lparr>rd_run = run_id, rd_rule = ''obstruction-convergence'', rd_action = ''propose-bridge-lemma'',
      rd_detail = py_str rt (opt_str kind) @ '' obstruction raised twice at '' @ state,
      rd_params = [(''at_state'', PStr state), (''obstruction_kind'', opt_str kind)]\<rparr>"

definition evaluate_run ::
  "runtime \<Rightarrow> (string list \<Rightarrow> string list) \<Rightarrow> read_view \<Rightarrow> string \<Rightarrow> routing_config option \<Rightarrow>
     py_exc + routing_decision option" where
  "evaluate_run rt walk v run_id config =
     (let cfg = (case config of None \<Rightarrow> default_routing | Some c \<Rightarrow> c)
      in case rv_node v run_id of
           None \<Rightarrow> Inr None
         | Some r \<Rightarrow>
             if nr_label r \<noteq> ''FormalRun'' then Inr None
             else if status_in r [''proved-pending-replay''] then Inr (Some (hold_decision run_id))
             else bind_res (checkpoint_frontiers v run_id) (\<lambda>sizes.
               if status_in r [''searching''] \<and> closing_healthily sizes (rc_shrink cfg)
               then Inr (Some (continue_decision run_id sizes))
               else bind_res (repeated_failure_family walk v run_id (rc_repeat cfg)) (\<lambda>family.
                 case family of
                   Some f \<Rightarrow> Inr (Some (widen_decision run_id f))
                 | None \<Rightarrow>
                     bind_res (converged_obstruction v run_id) (\<lambda>convergence.
                       Inr (case convergence of
                              None \<Rightarrow> None
                            | Some (state, kind) \<Rightarrow> Some (bridge_decision rt run_id state kind))))))"

section \<open>Counting\<close>

lemma map_of_bump:
  "map_of (fold bump fs counts) f =
     (if count_list fs f = 0 then map_of counts f
      else Some ((case map_of counts f of None \<Rightarrow> 0 | Some n \<Rightarrow> n) + count_list fs f))"
  by (induction fs arbitrary: counts) (auto simp: bump_def update_conv' split: option.splits)

lemma distinct_bump: "distinct (map fst counts) \<Longrightarrow> distinct (map fst (fold bump fs counts))"
  by (induction fs arbitrary: counts) (simp_all add: bump_def distinct_update)

lemma most_frequent_None [simp]: "most_frequent xs = None \<longleftrightarrow> xs = []"
  by (cases xs) (auto split: option.splits)

lemma most_frequent_Some:
  "most_frequent xs = Some x \<Longrightarrow> x \<in> set xs \<and> (\<forall>y \<in> set xs. snd y \<le> snd x)"
  by (induction xs arbitrary: x) (fastforce split: option.splits if_splits)+

lemma winner_counts:
  assumes "most_frequent (fold bump fs []) = Some (f, n)"
  shows "n = count_list fs f" "0 < n" "count_list fs g \<le> n"
proof -
  let ?d = "fold bump fs []"
  have d: "distinct (map fst ?d)" by (simp add: distinct_bump)
  have m: "(f, n) \<in> set ?d" "\<forall>y \<in> set ?d. snd y \<le> n" using most_frequent_Some [OF assms] by auto
  have "map_of ?d f = Some n" using m(1) d by simp
  then show "n = count_list fs f" "0 < n" by (auto simp: map_of_bump split: if_splits)
  show "count_list fs g \<le> n"
  proof (cases "count_list fs g = 0")
    case False
    then have "(g, count_list fs g) \<in> set ?d" by (intro map_of_SomeD) (simp add: map_of_bump)
    then show ?thesis using m(2) by force
  qed simp
qed

lemma no_winner: "most_frequent (fold bump fs []) = None \<longleftrightarrow> fs = []"
proof (cases fs)
  case (Cons x xs)
  have "map_of (fold bump fs []) x \<noteq> None" by (simp add: map_of_bump Cons del: fold.simps) 
  then show ?thesis using Cons by (metis most_frequent_None map_of.simps(1) list.distinct(1))
qed simp

section \<open>The tactics of a run\<close>

lemma first_visits_set:
  assumes "inj_on nr_id (set ts)"
  shows "set (first_visits seen ts) = {t \<in> set ts. nr_id t \<notin> set seen}" "distinct (first_visits seen ts)"
  using assms unfolding inj_on_def by (induction seen ts rule: first_visits.induct) auto

text \<open>The rejected tactics under a run, and those of one failure family.\<close>

definition run_rejections :: "read_view \<Rightarrow> string \<Rightarrow> node_rec list" where
  "run_rejections v run_id = remdups (concat (map (rejected_tactics v) (run_states v run_id)))"

definition family_count :: "read_view \<Rightarrow> string \<Rightarrow> string \<Rightarrow> nat" where
  "family_count v run_id f = length (filter (\<lambda>t. family_of t = Inr (Some f)) (run_rejections v run_id))"

lemma count_families:
  "list_all2 (\<lambda>t o'. family_of t = Inr o') ts fams \<Longrightarrow>
     count_list (List.map_filter id fams) f = length (filter (\<lambda>t. family_of t = Inr (Some f)) ts)"
  by (induction rule: list_all2_induct) (auto simp: List.map_filter_simps split: option.splits)

definition walks :: "(string list \<Rightarrow> string list) \<Rightarrow> bool" where
  "walks walk \<longleftrightarrow> (\<forall>xs. set (walk xs) = set xs)"

lemma in_concat_map: "a \<in> set (concat (map f xs)) \<longleftrightarrow> (\<exists>x \<in> set xs. a \<in> set (f x))"
  by simp

lemma rejected_tactic_identity:
  assumes "wf_view v" "a \<in> set (rejected_tactics (as_view v) s)"
  shows "mem_node v (nr_id a) = Some a"
proof -
  obtain n where "mem_node v n = Some a"
    using assms(2) by (auto simp: rejected_tactics_def map_filter_member split: option.splits if_splits)
  then show ?thesis using assms(1) by (auto simp: wf_view_def)
qed

lemma visited_rejections:
  assumes "wf_view v" "walks walk"
  shows "mset (first_visits [] (concat (map (rejected_tactics (as_view v)) (walk (remdups (run_states (as_view v) run_id)))))) =
    mset (run_rejections (as_view v) run_id)"
proof -
  let ?ts = "concat (map (rejected_tactics (as_view v)) (walk (remdups (run_states (as_view v) run_id))))"
  have ids: "mem_node v (nr_id a) = Some a" if "a \<in> set ?ts" for a
    using that unfolding in_concat_map by (elim bexE) (rule rejected_tactic_identity [OF assms(1)])
  have "inj_on nr_id (set ?ts)"
    by (rule inj_onI) (metis ids option.inject)
  note fv = first_visits_set [OF this, where seen = "[]"]
  have states: "set (walk (remdups (run_states (as_view v) run_id))) = set (run_states (as_view v) run_id)"
    using assms(2) by (simp add: walks_def)
  have "set (first_visits [] ?ts) = set (run_rejections (as_view v) run_id)"
    by (subst fv(1)) (auto simp: run_rejections_def states)
  moreover have "distinct (run_rejections (as_view v) run_id)" by (simp add: run_rejections_def)
  ultimately show ?thesis using set_eq_iff_mset_eq_distinct [OF fv(2)] by blast
qed

lemma repeated_family_spec:
  assumes "wf_view v" "walks walk" "repeated_failure_family walk (as_view v) run_id n = Inr out"
  shows "list_all (\<lambda>t. \<exists>o'. family_of t = Inr o') (run_rejections (as_view v) run_id)"
    and "out = Some f \<Longrightarrow> n \<le> int (family_count (as_view v) run_id f) \<and> 0 < family_count (as_view v) run_id f \<and>
      family_count (as_view v) run_id g \<le> family_count (as_view v) run_id f"
    and "out = None \<Longrightarrow> family_count (as_view v) run_id g = 0 \<or> int (family_count (as_view v) run_id g) < n"
proof -
  let ?ts = "first_visits [] (concat (map (rejected_tactics (as_view v)) (walk (remdups (run_states (as_view v) run_id)))))"
  note m = visited_rejections [OF assms(1,2), of run_id]
  obtain fams where fams: "list_all2 (\<lambda>t o'. family_of t = Inr o') ?ts fams"
    and out: "out = (case most_frequent (fold bump (List.map_filter id fams) []) of None \<Rightarrow> None
      | Some (f, c) \<Rightarrow> if n \<le> int c then Some f else None)"
    using assms(3) by (auto simp: repeated_failure_family_def bind_res_Inr all_res_Inr)
  have size: "count_list (List.map_filter id fams) g = family_count (as_view v) run_id g" for g
    unfolding count_families [OF fams] family_count_def
    by (metis m mset_filter size_mset)
  have "\<exists>o'. family_of t = Inr o'" if "t \<in> set ?ts" for t
    using fams that by (auto simp: list_all2_conv_all_nth in_set_conv_nth)
  then show "list_all (\<lambda>t. \<exists>o'. family_of t = Inr o') (run_rejections (as_view v) run_id)"
    using mset_eq_setD [OF m] by (auto simp: list_all_iff)
  show "n \<le> int (family_count (as_view v) run_id f) \<and> 0 < family_count (as_view v) run_id f \<and>
      family_count (as_view v) run_id g \<le> family_count (as_view v) run_id f" if "out = Some f"
    using that winner_counts [of "List.map_filter id fams"] size
    by (auto simp: out split: option.splits if_splits)
  show "family_count (as_view v) run_id g = 0 \<or> int (family_count (as_view v) run_id g) < n" if none: "out = None"
  proof (cases "most_frequent (fold bump (List.map_filter id fams) [])")
    case None
    then have "List.map_filter id fams = []" by (rule no_winner [THEN iffD1])
    then show ?thesis using size [of g] by simp
  next
    case (Some x)
    then show ?thesis using none winner_counts(3) [of "List.map_filter id fams" "fst x" "snd x" g] size [of g]
      by (cases x) (auto simp: out split: if_splits)
  qed
qed

section \<open>What justifies a decision\<close>

text \<open>
  The grounds of a decision, over the nodes and edges of the committed graph. A run touches its roots
  and the frontiers of its checkpoints; a failure family counts the tactics tried on those states that
  Lean rejected and that carry its name; checkpoints are in order of their epochs and, within one
  epoch, of their numbers of open frontier states.
\<close>

definition touches :: "mem_view \<Rightarrow> string \<Rightarrow> string \<Rightarrow> bool" where
  "touches v rid s \<longleftrightarrow> (\<exists>e. linked v ''HAS_ROOT'' e rid s) \<or>
     (\<exists>e c e'. linked v ''HAS_CHECKPOINT'' e rid c \<and> linked v ''CHECKPOINT_FRONTIER'' e' c s)"

definition failure_family_of :: "node_rec \<Rightarrow> string \<Rightarrow> bool" where
  "failure_family_of r f \<longleftrightarrow> f \<noteq> [] \<and>
     (\<exists>d. dget (nr_fields r) ''annotations'' = PDict d \<and> dget d ''failure_family'' = PStr f)"

definition family_tactics :: "mem_view \<Rightarrow> string \<Rightarrow> string \<Rightarrow> string set" where
  "family_tactics v rid f =
     {t. \<exists>r s e. touches v rid s \<and> linked v ''HAS_TACTIC'' e s t \<and> mem_node v t = Some r \<and>
        dget (nr_fields r) ''executor_result'' = PStr ''lean-rejected'' \<and> failure_family_of r f}"

definition family_size :: "mem_view \<Rightarrow> string \<Rightarrow> string \<Rightarrow> nat" where
  "family_size v rid f = card (family_tactics v rid f)"

definition open_frontier :: "mem_view \<Rightarrow> string \<Rightarrow> nat" where
  "open_frontier v c =
     card {e. \<exists>s r. linked v ''CHECKPOINT_FRONTIER'' e c s \<and> mem_node v s = Some r \<and>
        dget (nr_fields r) ''status'' \<in> {PStr ''open'', PStr ''expanded''}}"

definition checkpoint :: "mem_view \<Rightarrow> string \<Rightarrow> string \<Rightarrow> node_rec \<Rightarrow> bool" where
  "checkpoint v rid e r \<longleftrightarrow> (\<exists>c. linked v ''HAS_CHECKPOINT'' e rid c \<and> mem_node v c = Some r)"

definition epoch :: "node_rec \<Rightarrow> int" where
  "epoch r = (case get_or (nr_fields r) ''epoch_ms'' (PInt 0) of PInt i \<Rightarrow> i | _ \<Rightarrow> 0)"

definition earlier :: "mem_view \<Rightarrow> node_rec \<Rightarrow> node_rec \<Rightarrow> bool" where
  "earlier v c d \<longleftrightarrow> epoch c < epoch d \<or>
     epoch c = epoch d \<and> open_frontier v (nr_id c) \<le> open_frontier v (nr_id d)"

definition frontier_shrank :: "mem_view \<Rightarrow> string \<Rightarrow> int \<Rightarrow> bool" where
  "frontier_shrank v rid shrink \<longleftrightarrow>
     (\<exists>e c e' d. e \<noteq> e' \<and> checkpoint v rid e c \<and> checkpoint v rid e' d \<and>
        (\<forall>i r. checkpoint v rid i r \<longrightarrow> earlier v c r \<and> earlier v r d) \<and>
        int (open_frontier v (nr_id d)) \<le> int (open_frontier v (nr_id c)) - shrink)"

definition raised :: "mem_view \<Rightarrow> string \<Rightarrow> string \<Rightarrow> pyval \<Rightarrow> (string \<times> string) set" where
  "raised v rid s k =
     {(e, a). \<exists>o' r. linked v ''RAISED_OBSTRUCTION'' e rid o' \<and> mem_node v o' = Some r \<and>
        dget (nr_fields r) ''kind'' = k \<and> linked v ''AT_STATE'' a o' s}"

lemma open_states_spec: "wf_view v \<Longrightarrow> open_states (as_view v) c = open_frontier v c"
  using counted_edges [of v "\<lambda>d. case mem_node v d of None \<Rightarrow> False | Some s \<Rightarrow> status_in s [''open'', ''expanded'']" c
      "''CHECKPOINT_FRONTIER''"]
  by (auto simp: open_states_def open_frontier_def status_in_def intro!: arg_cong [where f = card] split: option.splits)

lemma run_states_spec:
  assumes "wf_view v"
  shows "s \<in> set (run_states (as_view v) rid) \<longleftrightarrow> touches v rid s"
proof -
  have dst: "s \<in> er_dst ` set (rv_from (as_view v) n rel) \<longleftrightarrow> (\<exists>e. linked v rel e n s)" for n rel
    using edges_ex [OF assms, of n rel "\<lambda>d. d = s"] by auto
  have "s \<in> set (run_states (as_view v) rid) \<longleftrightarrow>
      s \<in> er_dst ` set (rv_from (as_view v) rid ''HAS_ROOT'') \<or>
      (\<exists>r \<in> set (rv_from (as_view v) rid ''HAS_CHECKPOINT''). s \<in> er_dst ` set (rv_from (as_view v) (er_dst r) ''CHECKPOINT_FRONTIER''))"
    by (simp add: run_states_def)
  then show ?thesis unfolding dst touches_def edges_ex [OF assms, where P = "\<lambda>c. \<exists>e. linked v _ e c s"] by blast
qed

lemma family_of_spec: "family_of r = Inr (Some f) \<longleftrightarrow> failure_family_of r f"
proof (cases "dget (nr_fields r) ''annotations''")
  case (PDict d)
  then show ?thesis by (cases "dget d ''failure_family''") (auto simp: family_of_def failure_family_of_def dget_def Let_def)
qed (auto simp: family_of_def failure_family_of_def Let_def)

lemma rejected_spec:
  assumes "wf_view v"
  shows "t \<in> set (rejected_tactics (as_view v) s) \<longleftrightarrow>
    (\<exists>e. linked v ''HAS_TACTIC'' e s (nr_id t)) \<and> mem_node v (nr_id t) = Some t \<and>
    dget (nr_fields t) ''executor_result'' = PStr ''lean-rejected''"
proof -
  have "t \<in> set (rejected_tactics (as_view v) s) \<longleftrightarrow>
      (\<exists>r \<in> set (rv_from (as_view v) s ''HAS_TACTIC''). mem_node v (er_dst r) = Some t) \<and>
      dget (nr_fields t) ''executor_result'' = PStr ''lean-rejected''"
    by (auto simp: rejected_tactics_def map_filter_member split: option.splits if_splits)
  moreover have "mem_node v d = Some t \<Longrightarrow> d = nr_id t" for d using assms by (simp add: wf_view_def)
  then have "(\<exists>e d. linked v ''HAS_TACTIC'' e s d \<and> mem_node v d = Some t) \<longleftrightarrow>
      (\<exists>e. linked v ''HAS_TACTIC'' e s (nr_id t)) \<and> mem_node v (nr_id t) = Some t" by metis
  ultimately show ?thesis
    using edges_ex [OF assms, of s "''HAS_TACTIC''" "\<lambda>d. mem_node v d = Some t"] by simp
qed

lemma family_count_spec:
  assumes "wf_view v"
  shows "family_count (as_view v) rid f = family_size v rid f"
proof -
  let ?ts = "filter (\<lambda>t. family_of t = Inr (Some f)) (run_rejections (as_view v) rid)"
  have "distinct ?ts" by (simp add: run_rejections_def)
  moreover have ids: "mem_node v (nr_id t) = Some t" if "t \<in> set ?ts" for t
    using that rejected_tactic_identity [OF assms] by (auto simp: run_rejections_def)
  ultimately have "length ?ts = card (nr_id ` set ?ts)"
    by (metis (no_types, lifting) card_image distinct_card inj_onI option.inject)
  also have "nr_id ` set ?ts = family_tactics v rid f"
  proof (rule set_eqI)
    fix t
    have "r \<in> set ?ts \<longleftrightarrow> (\<exists>s e. touches v rid s \<and> linked v ''HAS_TACTIC'' e s (nr_id r) \<and> mem_node v (nr_id r) = Some r \<and>
        dget (nr_fields r) ''executor_result'' = PStr ''lean-rejected'' \<and> failure_family_of r f)" for r
      by (auto simp: run_rejections_def run_states_spec [OF assms] rejected_spec [OF assms] family_of_spec)
    moreover have "mem_node v t = Some r \<Longrightarrow> nr_id r = t" for r using assms by (simp add: wf_view_def)
    ultimately show "t \<in> nr_id ` set ?ts \<longleftrightarrow> t \<in> family_tactics v rid f"
      unfolding family_tactics_def image_iff mem_Collect_eq by metis
  qed
  finally show ?thesis by (simp add: family_count_def family_size_def)
qed

subsection \<open>Checkpoints\<close>

definition epoch_key :: "pyval \<times> nat \<Rightarrow> int \<times> nat" where
  "epoch_key x = (case fst x of PInt i \<Rightarrow> i | _ \<Rightarrow> 0, snd x)"

lemma sorted_epochs:
  assumes "sort_epochs (map h xs) = Inr ys"
  shows "\<exists>zs. mset zs = mset xs \<and> ys = map h zs \<and> sorted (map (\<lambda>x. epoch_key (h x)) zs)"
proof (cases "length xs \<le> 1")
  case True
  then have "sorted (map (\<lambda>x. epoch_key (h x)) xs)" by (cases xs) auto
  then show ?thesis using assms True by (auto simp: sort_epochs_def)
next
  case False
  then consider "\<forall>x \<in> set xs. fst (h x) = PNone" "ys = sort_key snd (map h xs)"
    | "ys = sort_key (\<lambda>e. (case fst e of PInt i \<Rightarrow> i | _ \<Rightarrow> 0, snd e)) (map h xs)"
    using assms by (auto simp: sort_epochs_def list_all_iff split: if_splits)
  then show ?thesis
  proof cases
    case 1
    let ?zs = "sort_key (\<lambda>x. snd (h x)) xs"
    have "sorted (map (\<lambda>x. snd (h x)) ?zs)" by simp
    then have "sorted (map (Pair (0 :: int)) (map (\<lambda>x. snd (h x)) ?zs))"
      by (simp add: sorted_wrt_map less_eq_prod_def)
    moreover have "map (Pair 0) (map (\<lambda>x. snd (h x)) ?zs) = map (\<lambda>x. epoch_key (h x)) ?zs"
      using 1(1) by (simp add: epoch_key_def)
    ultimately have "sorted (map (\<lambda>x. epoch_key (h x)) ?zs)" by (simp only:)
    then show ?thesis using 1(2) by (intro exI [of _ ?zs]) (simp add: sort_key_image)
  next
    case 2
    then show ?thesis
      by (intro exI [of _ "sort_key (\<lambda>x. epoch_key (h x)) xs"]) (simp add: sort_key_image epoch_key_def)
  qed
qed

lemma checkpoints_listed:
  assumes "wf_view v" "checkpoint_frontiers (as_view v) rid = Inr sizes"
  obtains zs where "distinct (map fst zs)" "\<And>i r. (i, r) \<in> set zs \<longleftrightarrow> checkpoint v rid i r"
    "sizes = map (\<lambda>x. open_frontier v (nr_id (snd x))) zs" "sorted_wrt (\<lambda>x y. earlier v (snd x) (snd y)) zs"
proof -
  let ?es = "rv_from (as_view v) rid ''HAS_CHECKPOINT''"
  let ?cs = "List.map_filter (\<lambda>e. map_option (Pair (er_id e)) (mem_node v (er_dst e))) ?es"
  let ?h = "\<lambda>x. (get_or (nr_fields (snd x)) ''epoch_ms'' (PInt 0), open_frontier v (nr_id (snd x)))"
  have "List.map_filter (\<lambda>e. case mem_node v (er_dst e) of None \<Rightarrow> None
      | Some c \<Rightarrow> Some (get_or (nr_fields c) ''epoch_ms'' (PInt 0), open_states (as_view v) (nr_id c))) es =
    map ?h (List.map_filter (\<lambda>e. map_option (Pair (er_id e)) (mem_node v (er_dst e))) es)" for es :: "edge_rec list"
    by (induction es) (simp_all add: List.map_filter_simps open_states_spec [OF assms(1)] split: option.split)
  then obtain ys where ys: "sort_epochs (map ?h ?cs) = Inr ys" "sizes = map snd ys"
    using assms(2) by (auto simp: checkpoint_frontiers_def bind_res_Inr)
  from sorted_epochs [OF ys(1)] obtain zs where zs: "mset zs = mset ?cs" "ys = map ?h zs"
    "sorted (map (\<lambda>x. epoch_key (?h x)) zs)" by blast
  have sub: "set (map fst (List.map_filter (\<lambda>e. map_option (Pair (er_id e)) (mem_node v (er_dst e))) es)) \<subseteq> er_id ` set es"
    for es by (auto simp: map_filter_member)
  have ids: "distinct (map er_id es) \<Longrightarrow>
      distinct (map fst (List.map_filter (\<lambda>e. map_option (Pair (er_id e)) (mem_node v (er_dst e))) es))" for es
  proof (induction es)
    case (Cons x es)
    then show ?case using sub [of es] by (auto simp: List.map_filter_simps split: option.split)
  qed (simp add: List.map_filter_simps)
  have "mset (map fst zs) = mset (map fst ?cs)" by (simp only: mset_map zs(1))
  from mset_eq_imp_distinct_iff [OF this] have 1: "distinct (map fst zs)"
    using ids [OF edges_out(1) [OF assms(1)]] by (rule iffD2)
  have "(i, r) \<in> set ?cs \<longleftrightarrow> (\<exists>e \<in> set ?es. er_id e = i \<and> mem_node v (er_dst e) = Some r)" for i r
    unfolding map_filter_member by auto
  moreover have "checkpoint v rid i r \<longleftrightarrow> (\<exists>e \<in> set ?es. er_id e = i \<and> mem_node v (er_dst e) = Some r)" for i r
    unfolding checkpoint_def edges_out(3) [OF assms(1)] by blast
  ultimately have "(i, r) \<in> set ?cs \<longleftrightarrow> checkpoint v rid i r" for i r by simp
  then have 2: "(i, r) \<in> set zs \<longleftrightarrow> checkpoint v rid i r" for i r using mset_eq_setD [OF zs(1)] by blast
  have 4: "sorted_wrt (\<lambda>x y. earlier v (snd x) (snd y)) zs"
    using zs(3) unfolding sorted_wrt_map
    by (rule sorted_wrt_mono_rel [rotated]) (auto simp: epoch_key_def earlier_def epoch_def less_eq_prod_def)
  show thesis by (rule that [OF 1 2 _ 4]) (simp add: ys(2) zs(2))
qed

lemma sorted_ends:
  assumes "sorted_wrt R zs" "x \<in> set zs" "\<And>x. R x x"
  shows "R (hd zs) x" "R x (last zs)"
proof -
  obtain y ys where zs: "zs = y # ys" using assms(2) by (cases zs) auto
  then show "R (hd zs) x" using assms by auto
  have "zs = butlast zs @ [last zs]" using zs by simp
  then obtain ws w where "zs = ws @ [w]" by blast
  then show "R x (last zs)" using assms by (auto simp: sorted_wrt_append)
qed

lemma closing_spec:
  assumes "wf_view v" "checkpoint_frontiers (as_view v) rid = Inr sizes"
  shows "closing_healthily sizes shrink \<longleftrightarrow> frontier_shrank v rid shrink"
proof -
  from checkpoints_listed [OF assms] obtain zs where zs: "distinct (map fst zs)"
    "\<And>i r. (i, r) \<in> set zs \<longleftrightarrow> checkpoint v rid i r"
    "sizes = map (\<lambda>x. open_frontier v (nr_id (snd x))) zs" "sorted_wrt (\<lambda>x y. earlier v (snd x) (snd y)) zs" by blast
  have ends: "earlier v (snd (hd zs)) (snd x) \<and> earlier v (snd x) (snd (last zs))" if "x \<in> set zs" for x
    using sorted_ends [OF zs(4) that] by (simp add: earlier_def)
  have tie: "open_frontier v (nr_id c) = open_frontier v (nr_id d)" if "earlier v c d" "earlier v d c" for c d
    using that by (auto simp: earlier_def)
  show ?thesis
  proof
    assume closing: "closing_healthily sizes shrink"
    then have "2 \<le> length zs" by (simp add: closing_healthily_def zs(3))
    then obtain x ms y where xy: "zs = x # ms @ [y]"
      by (metis One_nat_def Suc_1 append_butlast_last_id length_Suc_conv list.size(3) not_less_eq_eq numeral_2_eq_2 le0 Suc_le_length_iff)
    then have "fst x \<noteq> fst y" using zs(1) by auto
    moreover have "checkpoint v rid (fst x) (snd x)" "checkpoint v rid (fst y) (snd y)"
      using zs(2) [symmetric] by (simp_all add: xy)
    moreover have "earlier v (snd x) r \<and> earlier v r (snd y)" if "checkpoint v rid i r" for i r
      using ends [of "(i, r)"] that by (simp add: zs(2)) (simp add: xy)
    ultimately show "frontier_shrank v rid shrink"
      using closing unfolding frontier_shrank_def closing_healthily_def by (auto simp: zs(3) xy)
  next
    assume "frontier_shrank v rid shrink"
    then obtain e c e' d where p: "e \<noteq> e'" "(e, c) \<in> set zs" "(e', d) \<in> set zs"
      "\<And>i r. (i, r) \<in> set zs \<Longrightarrow> earlier v c r \<and> earlier v r d"
      "int (open_frontier v (nr_id d)) \<le> int (open_frontier v (nr_id c)) - shrink"
      unfolding frontier_shrank_def zs(2) [symmetric] by blast
    have "card {(e, c), (e', d)} \<le> card (set zs)" using p(2,3) by (intro card_mono) auto
    then have two: "2 \<le> length zs" using p(1) card_length [of zs] by simp
    then have "zs \<noteq> []" by auto
    then have h: "hd zs \<in> set zs" "last zs \<in> set zs" by simp_all
    have "open_frontier v (nr_id (snd (hd zs))) = open_frontier v (nr_id c)"
      using tie ends [OF p(2)] p(4) [of "fst (hd zs)" "snd (hd zs)"] h(1) by simp
    moreover have "open_frontier v (nr_id (snd (last zs))) = open_frontier v (nr_id d)"
      using tie ends [OF p(3)] p(4) [of "fst (last zs)" "snd (last zs)"] h(2) by simp
    ultimately show "closing_healthily sizes shrink"
      using two p(5) \<open>zs \<noteq> []\<close> by (simp add: closing_healthily_def zs(3) hd_map last_map)
  qed
qed

lemma find_Some: "List.find P xs = Some x \<Longrightarrow> x \<in> set xs \<and> P x"
  by (induction xs) (auto split: if_splits)

lemma status_in_single: "status_in r [s] \<longleftrightarrow> dget (nr_fields r) ''status'' = PStr s"
  by (simp add: status_in_def)

lemma evaluate_run_cases:
  assumes "evaluate_run rt walk v run_id (Some cfg) = Inr out"
  obtains (other) "\<And>r. rv_node v run_id = Some r \<Longrightarrow> nr_label r \<noteq> ''FormalRun''" "out = None"
  | (hold) r where "rv_node v run_id = Some r" "nr_label r = ''FormalRun''"
      "status_in r [''proved-pending-replay'']" "out = Some (hold_decision run_id)"
  | (continue) r sizes where "rv_node v run_id = Some r" "nr_label r = ''FormalRun''"
      "status_in r [''searching'']" "checkpoint_frontiers v run_id = Inr sizes"
      "closing_healthily sizes (rc_shrink cfg)" "out = Some (continue_decision run_id sizes)"
  | (later) r sizes family where "rv_node v run_id = Some r" "nr_label r = ''FormalRun''"
      "\<not> status_in r [''proved-pending-replay'']" "checkpoint_frontiers v run_id = Inr sizes"
      "\<not> (status_in r [''searching''] \<and> closing_healthily sizes (rc_shrink cfg))"
      "repeated_failure_family walk v run_id (rc_repeat cfg) = Inr family"
      "case family of Some f \<Rightarrow> out = Some (widen_decision run_id f)
       | None \<Rightarrow> \<exists>found. converged_obstruction v run_id = Inr found \<and>
           out = map_option (\<lambda>(state, kind). bridge_decision rt run_id state kind) found"
proof (cases "rv_node v run_id")
  case None
  then show ?thesis using assms other by (simp add: evaluate_run_def)
next
  case (Some r)
  note node = Some
  consider "nr_label r \<noteq> ''FormalRun''" | "nr_label r = ''FormalRun''" "status_in r [''proved-pending-replay'']"
    | "nr_label r = ''FormalRun''" "\<not> status_in r [''proved-pending-replay'']" by blast
  then show ?thesis
  proof cases
    case 3
    then obtain sizes where sizes: "checkpoint_frontiers v run_id = Inr sizes"
      using assms node by (auto simp: evaluate_run_def bind_res_Inr)
    show ?thesis
    proof (cases "status_in r [''searching''] \<and> closing_healthily sizes (rc_shrink cfg)")
      case True
      then have t: "status_in r [''searching'']" "closing_healthily sizes (rc_shrink cfg)" by blast+
      show ?thesis
        by (rule continue [OF node 3(1) t(1) sizes t(2)]) (use 3 node sizes t assms in \<open>simp add: evaluate_run_def\<close>)
    next
      case False
      then obtain family where f: "repeated_failure_family walk v run_id (rc_repeat cfg) = Inr family"
        using 3 node sizes assms by (auto simp: evaluate_run_def bind_res_Inr)
      have out: "(case family of None \<Rightarrow> bind_res (converged_obstruction v run_id) (\<lambda>found.
            Inr (map_option (\<lambda>(state, kind). bridge_decision rt run_id state kind) found))
          | Some f \<Rightarrow> Inr (Some (widen_decision run_id f))) = Inr out"
        using 3 node sizes False f assms
        by (auto simp: evaluate_run_def bind_res_def map_option_case case_prod_unfold split: option.splits sum.splits)
      show ?thesis
        by (rule later [OF node 3 sizes False f]) (use out in \<open>auto simp: bind_res_Inr split: option.splits\<close>)
    qed
  qed (use assms other hold node in \<open>simp_all add: evaluate_run_def\<close>)
qed

lemma kind_key_Inr: "kind_key (s, k) = Inr x \<longleftrightarrow> (\<exists>o'. x = (s, o') \<and> k = opt_str o')"
  by (cases k) (auto simp: kind_key_def opt_str_def split: option.splits)

lemma converged_counts:
  assumes "converged_obstruction v run_id = Inr found"
  shows "found = Some (s, k) \<Longrightarrow> 2 \<le> length (filter ((=) (s, opt_str k)) (sightings v run_id))"
    and "found = None \<Longrightarrow> length (filter ((=) (s, y)) (sightings v run_id)) < 2"
proof -
  obtain keys sorted where keys: "list_all2 (\<lambda>x y. kind_key x = Inr y) (sightings v run_id) keys"
    and sorted: "sort_sightings (remdups keys) = Inr sorted" "found = List.find (\<lambda>key. 2 \<le> count_list keys key) sorted"
    using assms by (auto simp: converged_obstruction_def bind_res_Inr all_res_Inr)
  have count: "count_list keys (s, o') = length (filter ((=) (s, opt_str o')) xs)"
    if "list_all2 (\<lambda>x y. kind_key x = Inr y) xs keys" for xs keys s o'
    using that by (induction rule: list_all2_induct) (auto simp: kind_key_Inr opt_str_def split: option.splits)
  have "set sorted = set keys" using sorted(1) by (auto simp: sort_sightings_def split: if_splits)
  show "2 \<le> length (filter ((=) (s, opt_str k)) (sightings v run_id))" if "found = Some (s, k)"
    using that find_Some [of "\<lambda>key. 2 \<le> count_list keys key" sorted "(s, k)"] count [OF keys, of s k] sorted(2) by simp
  show "length (filter ((=) (s, y)) (sightings v run_id)) < 2" if none: "found = None"
  proof (cases "(s, y) \<in> set (sightings v run_id)")
    case True
    then obtain i where i: "i < length (sightings v run_id)" "sightings v run_id ! i = (s, y)"
      by (auto simp: in_set_conv_nth)
    then have "kind_key (s, y) = Inr (keys ! i)" "keys ! i \<in> set keys"
      using list_all2_nthD [OF keys i(1)] list_all2_lengthD [OF keys] by simp_all
    then obtain o' where o': "(s, o') \<in> set keys" "y = opt_str o'" by (auto simp: kind_key_Inr)
    then have "\<not> 2 \<le> count_list keys (s, o')"
      using none sorted(2) \<open>set sorted = set keys\<close> by (metis find_None_iff2)
    then show ?thesis using count [OF keys, of s o'] o'(2) by simp
  next
    case False
    then have "filter ((=) (s, y)) (sightings v run_id) = []" by (auto simp: filter_empty_conv)
    then show ?thesis by simp
  qed
qed

lemma length_filter_concat: "length (filter P (concat (map f xs))) = sum_list (map (\<lambda>x. length (filter P (f x))) xs)"
  by (induction xs) simp_all

lemma sightings_spec:
  assumes "wf_view v"
  shows "length (filter ((=) (s, k)) (sightings (as_view v) rid)) = card (raised v rid s k)"
proof -
  let ?es = "rv_from (as_view v) rid ''RAISED_OBSTRUCTION''"
  define A where "A o' = {a. \<exists>r. mem_node v o' = Some r \<and> dget (nr_fields r) ''kind'' = k \<and> linked v ''AT_STATE'' a o' s}"
    for o'
  define F where "F e = (case mem_node v (er_dst e) of None \<Rightarrow> []
     | Some r \<Rightarrow> map (\<lambda>a. (er_dst a, dget (nr_fields r) ''kind'')) (rv_from (as_view v) (nr_id r) ''AT_STATE''))"
    for e :: edge_rec
  have at: "length (filter (\<lambda>a. s = er_dst a) (rv_from (as_view v) n ''AT_STATE'')) = card {a. linked v ''AT_STATE'' a n s}" for n
    using counted_edges [OF assms, of "\<lambda>d. s = d"] by simp
  have one: "length (filter ((=) (s, k)) (F e)) = card (A (er_dst e))" for e
  proof (cases "mem_node v (er_dst e)")
    case None
    then show ?thesis by (simp add: F_def A_def)
  next
    case (Some r)
    then have "nr_id r = er_dst e" using assms by (simp add: wf_view_def)
    then show ?thesis using Some at [of "er_dst e"]
      by (cases "dget (nr_fields r) ''kind'' = k") (auto simp: F_def A_def filter_map comp_def)
  qed
  have fin: "finite (A (er_dst e))" for e
  proof -
    have "A (er_dst e) \<subseteq> er_id ` set (rv_from (as_view v) (er_dst e) ''AT_STATE'')"
      by (auto simp: A_def edges_out(3) [OF assms])
    then show ?thesis by (rule finite_subset) simp
  qed
  have "sightings (as_view v) rid = concat (map F ?es)" by (simp add: sightings_def F_def [abs_def])
  then have "length (filter ((=) (s, k)) (sightings (as_view v) rid)) = sum_list (map (\<lambda>e. card (A (er_dst e))) ?es)"
    by (simp add: length_filter_concat one)
  also have "\<dots> = sum (\<lambda>e. card (A (er_dst e))) (set ?es)"
    by (rule sum_list_distinct_conv_sum_set) (rule mem_contract.from_distinct [OF assms])
  also have "\<dots> = card (Sigma (set ?es) (\<lambda>e. A (er_dst e)))"
    by (rule card_SigmaI [symmetric]) (simp_all add: fin)
  also have "\<dots> = card ((\<lambda>(e, a). (er_id e, a)) ` Sigma (set ?es) (\<lambda>e. A (er_dst e)))"
    using edges_out(1) [OF assms, of rid "''RAISED_OBSTRUCTION''"]
    by (intro card_image [symmetric] inj_onI) (auto simp: distinct_map dest: inj_onD)
  also have "(\<lambda>(e, a). (er_id e, a)) ` Sigma (set ?es) (\<lambda>e. A (er_dst e)) = raised v rid s k"
    by (force simp: raised_def A_def edges_out(3) [OF assms, of _ _ rid])
  finally show ?thesis .
qed

text \<open>The four grounds of the table, in its order.\<close>

definition trace_complete :: "node_rec \<Rightarrow> bool" where
  "trace_complete r \<longleftrightarrow> dget (nr_fields r) ''status'' = PStr ''proved-pending-replay''"

definition search_closing :: "mem_view \<Rightarrow> string \<Rightarrow> routing_config \<Rightarrow> node_rec \<Rightarrow> bool" where
  "search_closing v rid cfg r \<longleftrightarrow>
     dget (nr_fields r) ''status'' = PStr ''searching'' \<and> frontier_shrank v rid (rc_shrink cfg)"

definition family_repeats :: "mem_view \<Rightarrow> string \<Rightarrow> routing_config \<Rightarrow> string \<Rightarrow> bool" where
  "family_repeats v rid cfg f \<longleftrightarrow> 0 < family_size v rid f \<and> rc_repeat cfg \<le> int (family_size v rid f)"

definition obstruction_converges :: "mem_view \<Rightarrow> string \<Rightarrow> string \<Rightarrow> pyval \<Rightarrow> bool" where
  "obstruction_converges v rid s k \<longleftrightarrow> 2 \<le> card (raised v rid s k)"

text \<open>C38. The routing of a run is justified, both ways, by the nodes and edges it committed. Without a
  decision, there is no such formal run or none of the four grounds holds. A decision is about a
  committed formal run; it is to hold exactly when the trace of the run is complete, to continue
  exactly when the run is searching and its last checkpoint has fewer open frontier states than its
  first by the configured amount, to widen the premises only when neither holds and for a family at
  least as frequent among the rejected tactics of the run as the threshold and as every other family
  (whatever the order in which Python walks its set of states), and to ask for a bridge lemma only
  when no family reaches the threshold and for an obstruction kind raised twice at the state.\<close>

theorem routing_decisions_are_justified:
  assumes "wf_view v" "walks walk" "evaluate_run rt walk (as_view v) rid (Some cfg) = Inr out"
  shows "case out of
      None \<Rightarrow> \<forall>r. mem_node v rid = Some r \<longrightarrow> nr_label r = ''FormalRun'' \<longrightarrow>
        \<not> trace_complete r \<and> \<not> search_closing v rid cfg r \<and>
        (\<forall>f. \<not> family_repeats v rid cfg f) \<and> (\<forall>s k. \<not> obstruction_converges v rid s k)
    | Some d \<Rightarrow> \<exists>r. mem_node v rid = Some r \<and> nr_label r = ''FormalRun'' \<and> rd_run d = rid \<and>
        (rd_action d = ''hold-for-replay'' \<longleftrightarrow> trace_complete r) \<and>
        (rd_action d = ''continue-search'' \<longleftrightarrow> search_closing v rid cfg r) \<and>
        (rd_action d = ''widen-premises'' \<longrightarrow>
           (\<exists>f. dget (rd_params d) ''failure_family'' = PStr f \<and> family_repeats v rid cfg f \<and>
              (\<forall>g. family_size v rid g \<le> family_size v rid f))) \<and>
        (rd_action d = ''propose-bridge-lemma'' \<longrightarrow> (\<forall>f. \<not> family_repeats v rid cfg f) \<and>
           (\<exists>s k. rd_params d = [(''at_state'', PStr s), (''obstruction_kind'', k)] \<and> obstruction_converges v rid s k)) \<and>
        rd_action d \<in> {''hold-for-replay'', ''continue-search'', ''widen-premises'', ''propose-bridge-lemma''}"
  using assms(3)
proof (cases rule: evaluate_run_cases)
  case other
  then show ?thesis by simp
next
  case (hold r)
  then show ?thesis by (simp add: hold_decision_def status_in_single trace_complete_def search_closing_def)
next
  case (continue r sizes)
  then show ?thesis using closing_spec [OF assms(1) continue(4)]
    by (simp add: continue_decision_def status_in_single trace_complete_def search_closing_def)
next
  case (later r sizes family)
  have grounds: "\<not> trace_complete r" "\<not> search_closing v rid cfg r"
    using later(3,5) closing_spec [OF assms(1) later(4)]
    by (simp_all add: status_in_single trace_complete_def search_closing_def)
  note families = repeated_family_spec(2,3) [OF assms(1,2) later(6), unfolded family_count_spec [OF assms(1)]]
  show ?thesis
  proof (cases family)
    case (Some f)
    then show ?thesis using later(1,2,7) grounds families(1)
      by (auto simp: widen_decision_def family_repeats_def)
  next
    case None
    then have none: "\<not> family_repeats v rid cfg f" for f
      using families(2) [of f] by (auto simp: family_repeats_def)
    from later(7) None obtain found where found: "converged_obstruction (as_view v) rid = Inr found"
      "out = map_option (\<lambda>(state, kind). bridge_decision rt rid state kind) found" by auto
    note counts = converged_counts [OF found(1), unfolded sightings_spec [OF assms(1)]]
    show ?thesis
    proof (cases found)
      case None
      then show ?thesis using later(1,2) grounds none counts(2) found(2)
        by (auto simp: obstruction_converges_def not_le)
    next
      case (Some x)
      obtain s k where x: "x = (s, k)" by (cases x)
      then show ?thesis using later(1,2) grounds none counts(1) [of s k] found(2) Some
        by (simp add: bridge_decision_def obstruction_converges_def)
    qed
  qed
qed

section \<open>The order of the set of states\<close>

lemma all_res_defined: "(\<exists>ys. all_res f xs = Inr ys) \<longleftrightarrow> (\<forall>x \<in> set xs. \<exists>y. f x = Inr y)"
  by (induction xs) (auto simp: bind_res_Inr)

lemma repeated_family_defined:
  assumes "wf_view v" "walks walk"
  shows "(\<exists>out. repeated_failure_family walk (as_view v) run_id n = Inr out) \<longleftrightarrow>
    (\<forall>t \<in> set (run_rejections (as_view v) run_id). \<exists>y. family_of t = Inr y)"
  unfolding mset_eq_setD [OF visited_rejections [OF assms], symmetric]
  by (auto simp: repeated_failure_family_def bind_res_Inr all_res_defined [symmetric])

lemma repeated_family_order:
  assumes "wf_view v" "walks walk" "walks walk'"
  obtains e e' where "repeated_failure_family walk (as_view v) run_id n = Inl e"
      "repeated_failure_family walk' (as_view v) run_id n = Inl e'"
  | "repeated_failure_family walk (as_view v) run_id n = Inr None"
      "repeated_failure_family walk' (as_view v) run_id n = Inr None"
  | f g where "repeated_failure_family walk (as_view v) run_id n = Inr (Some f)"
      "repeated_failure_family walk' (as_view v) run_id n = Inr (Some g)"
proof (cases "repeated_failure_family walk (as_view v) run_id n")
  case (Inl e)
  then obtain e' where "repeated_failure_family walk' (as_view v) run_id n = Inl e'"
    using repeated_family_defined [OF assms(1,2), of run_id n] repeated_family_defined [OF assms(1,3), of run_id n]
    by (metis Inl_Inr_False sum.exhaust)
  with Inl that(1) show thesis by blast
next
  case (Inr out)
  then obtain out' where Inr': "repeated_failure_family walk' (as_view v) run_id n = Inr out'"
    using repeated_family_defined [OF assms(1,2), of run_id n] repeated_family_defined [OF assms(1,3), of run_id n]
    by blast
  note s = repeated_family_spec(2,3) [OF assms(1,2) Inr] and s' = repeated_family_spec(2,3) [OF assms(1,3) Inr']
  have "out = None \<longleftrightarrow> out' = None" using s s' by (metis less_irrefl not_le option.exhaust)
  then show thesis using that(2,3) Inr Inr' by (cases out; cases out') auto
qed

text \<open>Which trigger of the table fires for a run, if any, does not depend on the order in which Python
  walks the set of its states; neither does whether the evaluation raises.\<close>

lemma routing_ignores_set_order:
  assumes "wf_view v" "walks walk" "walks walk'"
  shows "map_sum (\<lambda>_. ()) (map_option (\<lambda>d. (rd_rule d, rd_action d))) (evaluate_run rt walk (as_view v) run_id cfg) =
    map_sum (\<lambda>_. ()) (map_option (\<lambda>d. (rd_rule d, rd_action d))) (evaluate_run rt walk' (as_view v) run_id cfg)"
proof -
  define n where "n = rc_repeat (case cfg of None \<Rightarrow> default_routing | Some c \<Rightarrow> c)"
  show ?thesis
    by (rule repeated_family_order [OF assms, where run_id = run_id and n = n];
        cases "rv_node (as_view v) run_id"; cases "checkpoint_frontiers (as_view v) run_id")
      (simp_all add: evaluate_run_def widen_decision_def Let_def n_def [symmetric])
qed

section \<open>A run to route\<close>

text \<open>A searching run whose root has two tactics rejected for the same reason.\<close>

definition rejected_node :: "mem_view \<Rightarrow> string \<Rightarrow> mem_view" where
  "rejected_node v tactic =
     mem_add_edge (mem_add_node v tactic ''TacticApplication''
       [(''executor_result'', PStr ''lean-rejected''), (''annotations'', PDict [(''failure_family'', PStr ''apply'')])])
       ''HAS_TACTIC'' ''p/fs-1'' tactic (tactic @ ''-at'') []"

definition failing_run :: mem_view where
  "failing_run =
     rejected_node (rejected_node
       (mem_add_edge (mem_add_node empty_view ''p/fr-1'' ''FormalRun'' [(''status'', PStr ''searching'')])
          ''HAS_ROOT'' ''p/fr-1'' ''p/fs-1'' ''p/fr-1-root'' []) ''p/ta-1'') ''p/ta-2''"

lemma failing_run_ok: "wf_view failing_run"
  unfolding failing_run_def rejected_node_def
  by (intro wf_add_edge wf_add_node wf_empty_view) (simp_all add: mem_add_edge_def empty_view_def)

lemma walks_id: "walks id" "walks rev"
  by (simp_all add: walks_def)

theorem routing_decisions_are_justified_witness:
  "\<exists>f. 2 \<le> family_size failing_run ''p/fr-1'' f"
proof -
  have "evaluate_run demo_runtime id (as_view failing_run) ''p/fr-1'' (Some default_routing) =
      Inr (Some (widen_decision ''p/fr-1'' ''apply''))" by code_simp
  from routing_decisions_are_justified [OF failing_run_ok walks_id(1) this]
  show ?thesis by (auto simp: widen_decision_def default_routing_def family_repeats_def)
qed

lemma routing_ignores_set_order_witness:
  "map_sum (\<lambda>_. ()) (map_option (\<lambda>d. (rd_rule d, rd_action d)))
     (evaluate_run demo_runtime rev (as_view failing_run) ''p/fr-1'' None) =
   Inr (Some (''repeated-failure-family'', ''widen-premises''))"
  unfolding routing_ignores_set_order [OF failing_run_ok walks_id(2) walks_id(1)] by code_simp

text \<open>
  Two obstructions of one run at the same state, one without a kind: \<^verbatim>\<open>sorted\<close> then compares a text
  with \<^verbatim>\<open>None\<close> and raises.
\<close>

lemma untyped_obstruction_raises:
  "sort_sightings [(''p/fs-1'', None), (''p/fs-1'', Some ''missing-lemma'')] = Inl TypeError"
  by code_simp

end
