(* ===== verification/Context.thy ===== *)
theory Context
  imports Dispatch
begin

text \<open>
  What a worker is told, \<^verbatim>\<open>src/src/mathproof/context_compiler.py\<close>.

  \<^item> \<open>research_packet\<close>, \<open>critic_packet\<close>: the packets of the non-formal roles, with the digest of their
    content; \<open>compile_context\<close>: the choice by worker class.
  \<^item> \<open>compile_formal_request\<close>: the request for a leased declaration or a run to resume; \<open>serves\<close>, \<open>runs_in\<close>: its
    claim and environment over the committed edges; \<open>schema_property\<close>: the required properties of
    \<^verbatim>\<open>schemas/formal-search-request.schema.json\<close>.

  A packet is a JSON object; committed fields are copied into it as they are.
\<close>

section \<open>Shared helpers\<close>

definition node_payload :: "node_rec option \<Rightarrow> pyval" where
  "node_payload record =
     (case record of
        None \<Rightarrow> PNone
      | Some r \<Rightarrow> PDict [(''id'', PStr (nr_id r)), (''label'', PStr (nr_label r)), (''fields'', PDict (nr_fields r))])"

definition listed_nodes :: "graph_view \<Rightarrow> node_rec list" where
  "listed_nodes g = List.map_filter (rv_node (gv_view g)) (listed_ids g)"

definition manifest_digest :: "runtime \<Rightarrow> fields \<Rightarrow> py_exc + string" where
  "manifest_digest rt packet = content_hash rt (PDict packet)"

definition stamped :: "runtime \<Rightarrow> fields \<Rightarrow> py_exc + fields" where
  "stamped rt packet =
     bind_res (manifest_digest rt packet) (\<lambda>d. Inr (packet @ [(''manifest_digest'', PStr d)]))"

section \<open>The explorer's packet\<close>

definition parent_state :: "read_view \<Rightarrow> node_rec option \<Rightarrow> pyval" where
  "parent_state v move =
     (case move of
        None \<Rightarrow> PNone
      | Some m \<Rightarrow> (case rv_to v (nr_id m) ''PROPOSES'' of [] \<Rightarrow> PNone | e # _ \<Rightarrow> node_payload (rv_node v (er_src e))))"

definition live_claim :: "node_rec \<Rightarrow> bool" where
  "live_claim r \<longleftrightarrow> nr_label r = ''Claim'' \<and> status_in r [''conjectural'', ''provisional'', ''critic-accepted'']"

definition research_packet :: "runtime \<Rightarrow> lease \<Rightarrow> graph_view \<Rightarrow> py_exc + fields" where
  "research_packet rt l g =
     (let move = rv_node (gv_view g) (ls_move l); nodes = listed_nodes g
      in stamped rt
           [(''role'', PStr ''research''), (''proof_id'', PStr (lr_proof (ls_row l))), (''move'', node_payload move),
            (''parent_state'', parent_state (gv_view g) move),
            (''claims'', PList (map (\<lambda>r. node_payload (Some r)) (filter live_claim nodes))),
            (''obstructions'', PList (map (\<lambda>r. node_payload (Some r)) (filter (\<lambda>r. nr_label r = ''Obstruction'') nodes)))])"

section \<open>The critic's packet\<close>

text \<open>\<^verbatim>\<open>{"rel": edge_type, **payload}\<close>: unpacking a missing payload raises.\<close>

definition evidence_of :: "read_view \<Rightarrow> string \<Rightarrow> string \<Rightarrow> py_exc + pyval list" where
  "evidence_of v claim rel =
     all_res (\<lambda>e. case node_payload (rv_node v (er_dst e)) of
         PDict d \<Rightarrow> Inr (PDict ((''rel'', PStr rel) # d)) | _ \<Rightarrow> Inl TypeError) (rv_from v claim rel)"

definition critic_packet :: "runtime \<Rightarrow> lease \<Rightarrow> graph_view \<Rightarrow> py_exc + fields" where
  "critic_packet rt l g =
     (let v = gv_view g; claim = rv_node v (ls_move l);
          base = [(''role'', PStr ''critic''), (''proof_id'', PStr (lr_proof (ls_row l))), (''claim'', node_payload claim)]
      in case claim of
           None \<Rightarrow> stamped rt (base @ [(''dependencies'', PList []), (''evidence'', PList []), (''prior_reviews'', PList [])])
         | Some c \<Rightarrow>
             bind_res (evidence_of v (nr_id c) ''PROVED_BY'') (\<lambda>proofs.
             bind_res (evidence_of v (nr_id c) ''RESOLVES'') (\<lambda>resolved.
               stamped rt (base @
                 [(''dependencies'', PList (map (\<lambda>e. node_payload (rv_node v (er_dst e))) (rv_from v (nr_id c) ''DEPENDS_ON''))),
                  (''evidence'', PList (proofs @ resolved)),
                  (''prior_reviews'', PList (map (\<lambda>e. node_payload (rv_node v (er_src e))) (rv_to v (nr_id c) ''REVIEWS_CLAIM'')))]))))"

definition compile_context :: "runtime \<Rightarrow> lease \<Rightarrow> graph_view \<Rightarrow> py_exc + fields" where
  "compile_context rt l g =
     (if lr_class (ls_row l) = ''critic'' then critic_packet rt l g else research_packet rt l g)"

section \<open>The formal request\<close>

definition aligned_claim :: "read_view \<Rightarrow> string \<Rightarrow> string option" where
  "aligned_claim v d =
     (case List.map_filter (\<lambda>e. case rv_node v (er_src e) of
             None \<Rightarrow> None
           | Some alignment \<Rightarrow> (case rv_from v (nr_id alignment) ''ALIGNS_CLAIM'' of [] \<Rightarrow> None | f # _ \<Rightarrow> Some (er_dst f)))
           (rv_to v d ''ALIGNS_DECLARATION'') of
        [] \<Rightarrow> None | c # _ \<Rightarrow> Some c)"

text \<open>The id and the hash of the first committed pinned environment.\<close>

definition pinned_environment :: "read_view \<Rightarrow> string \<Rightarrow> string \<times> pyval" where
  "pinned_environment v d =
     (case List.map_filter (\<lambda>e. rv_node v (er_dst e)) (rv_from v d ''PINNED_ENVIRONMENT'') of
        [] \<Rightarrow> ([], PStr [])
      | env # _ \<Rightarrow> (nr_id env, get_or (nr_fields env) ''lake_manifest_hash'' (PStr [])))"

text \<open>The run, the declaration and its record, or the error of a target that cannot be searched.\<close>

definition formal_target :: "read_view \<Rightarrow> string \<Rightarrow> string option \<Rightarrow> py_exc + string \<times> string \<times> node_rec option" where
  "formal_target v target run_id =
     (case rv_node v target of
        None \<Rightarrow> Inl ValueError
      | Some r \<Rightarrow>
          if nr_label r = ''FormalRun'' then
            (case rv_from v target ''SEARCHES'' of
               [] \<Rightarrow> Inl ValueError
             | e # _ \<Rightarrow> Inr (target, er_dst e, rv_node v (er_dst e)))
          else if nr_label r = ''FormalDeclaration'' then
            (case run_id of None \<Rightarrow> Inl ValueError | Some rid \<Rightarrow> Inr (rid, target, Some r))
          else Inl ValueError)"

definition compile_formal_request ::
  "lease \<Rightarrow> read_view \<Rightarrow> string option \<Rightarrow> string \<Rightarrow> fields option \<Rightarrow> py_exc + fields" where
  "compile_formal_request l v run_id policy budget =
     bind_res (formal_target v (ls_move l) run_id) (\<lambda>(rid, d, record).
       let (env, env_hash) = pinned_environment v d; row = ls_row l
       in case record of
            None \<Rightarrow> Inl AttributeError
          | Some r \<Rightarrow>
              Inr ([(''proof_id'', PStr (lr_proof row)), (''claim_id'', opt_str (aligned_claim v d)),
                (''formal_declaration_id'', PStr d), (''run_id'', PStr rid), (''base_revision'', PInt (lr_base row)),
                (''lease_id'', PStr (lr_id row)), (''fencing_token'', PInt (int (lr_token row))),
                (''lean_source_artifact'', get_or (nr_fields r) ''lean_value'' (PStr [])), (''environment_id'', PStr env),
                (''environment_hash'', env_hash), (''goal_text'', get_or (nr_fields r) ''lean_type'' (PStr [])),
                (''search_policy'', PStr policy)] @
                (case budget of None \<Rightarrow> [] | Some b \<Rightarrow> [(''budget'', PDict b)])))"

section \<open>What a request holds\<close>

text \<open>
  The claim a declaration serves and the environment it pins, over the committed edges; a missing one
  is a null claim and two empty texts.
\<close>

definition aligned :: "mem_view \<Rightarrow> string \<Rightarrow> string \<Rightarrow> bool" where
  "aligned v d c \<longleftrightarrow>
     (\<exists>e a e'. linked v ''ALIGNS_DECLARATION'' e a d \<and> mem_node v a \<noteq> None \<and> linked v ''ALIGNS_CLAIM'' e' a c)"

definition pinned :: "mem_view \<Rightarrow> string \<Rightarrow> node_rec \<Rightarrow> bool" where
  "pinned v d r \<longleftrightarrow> (\<exists>e n. linked v ''PINNED_ENVIRONMENT'' e d n \<and> mem_node v n = Some r)"

definition serves :: "mem_view \<Rightarrow> string \<Rightarrow> pyval \<Rightarrow> bool" where
  "serves v d y \<longleftrightarrow> (\<exists>c. aligned v d c \<and> y = PStr c) \<or> (\<forall>c. \<not> aligned v d c) \<and> y = PNone"

definition runs_in :: "mem_view \<Rightarrow> string \<Rightarrow> pyval \<Rightarrow> pyval \<Rightarrow> bool" where
  "runs_in v d i h \<longleftrightarrow>
     (\<exists>r. pinned v d r \<and> i = PStr (nr_id r) \<and> h = get_or (nr_fields r) ''lake_manifest_hash'' (PStr [])) \<or>
     (\<forall>r. \<not> pinned v d r) \<and> i = PStr [] \<and> h = PStr []"

text \<open>
  The required properties of \<^verbatim>\<open>schemas/formal-search-request.schema.json\<close>, and all its properties.
\<close>

definition schema_id :: "string \<Rightarrow> pyval \<Rightarrow> bool" where
  "schema_id kind y \<longleftrightarrow>
     (case y of
        PStr s \<Rightarrow>
          let rest = dropWhile (\<lambda>c. c \<noteq> CHR ''/'') s; start = ''/'' @ kind @ ''-''
          in s \<noteq> rest \<and> take (length start) rest = start \<and> match_serial (drop (length start) rest) \<noteq> None
      | _ \<Rightarrow> False)"

definition schema_property :: "string \<Rightarrow> pyval \<Rightarrow> bool" where
  "schema_property k y \<longleftrightarrow>
     (if k = ''claim_id'' then schema_id ''c'' y
      else if k = ''formal_declaration_id'' then schema_id ''fd'' y
      else if k = ''run_id'' then schema_id ''fr'' y
      else case y of
        PStr s \<Rightarrow> k = ''lease_id'' \<or> k \<in> {''proof_id'', ''environment_id''} \<and> s \<noteq> [] \<or>
          k \<in> {''lean_source_artifact'', ''environment_hash''} \<and> is_sha256 s
      | PInt i \<Rightarrow> k = ''base_revision'' \<and> 0 \<le> i \<or> k = ''fencing_token'' \<and> 1 \<le> i
      | _ \<Rightarrow> False)"

definition SCHEMA_PROPERTIES :: "string list" where
  "SCHEMA_PROPERTIES = REQUEST_REQUIRED_FIELDS @ [''corpus_manifest'', ''model_bundle'', ''search_policy'', ''budget'']"

lemma first_found:
  "(case List.map_filter f xs of [] \<Rightarrow> None | c # _ \<Rightarrow> Some c) = None \<Longrightarrow> \<forall>x \<in> set xs. f x = None"
  "(case List.map_filter f xs of [] \<Rightarrow> None | c # _ \<Rightarrow> Some c) = Some c \<Longrightarrow> \<exists>x \<in> set xs. f x = Some c"
  by (induction xs) (auto simp: List.map_filter_simps split: option.splits list.splits)

lemma aligned_claim_spec:
  assumes "wf_view v"
  shows "serves v d (opt_str (aligned_claim (as_view v) d))"
proof -
  let ?es = "rv_to (as_view v) d ''ALIGNS_DECLARATION''"
  let ?f = "\<lambda>e. case mem_node v (er_src e) of None \<Rightarrow> None
     | Some a \<Rightarrow> (case rv_from (as_view v) (nr_id a) ''ALIGNS_CLAIM'' of [] \<Rightarrow> None | f # _ \<Rightarrow> Some (er_dst f))"
  have id: "mem_node v n = Some a \<Longrightarrow> nr_id a = n" for n a using assms by (simp add: wf_view_def)
  have found: "aligned v d c" if e: "e \<in> set ?es" "?f e = Some c" for e c
  proof -
    obtain a g where a: "mem_node v (er_src e) = Some a" "g \<in> set (rv_from (as_view v) (er_src e) ''ALIGNS_CLAIM'')" "er_dst g = c"
      using e(2) id by (force split: option.splits list.splits)
    then have "\<exists>i. linked v ''ALIGNS_CLAIM'' i (er_src e) c" using edges_ex [OF assms, of "er_src e" "''ALIGNS_CLAIM''" "\<lambda>x. x = c"] by blast
    then show ?thesis
      using edges_in_ex [OF assms, of d "''ALIGNS_DECLARATION''"
          "\<lambda>s. mem_node v s \<noteq> None \<and> (\<exists>i. linked v ''ALIGNS_CLAIM'' i s c)"] e(1) a(1) unfolding aligned_def by blast
  qed
  have none: "\<not> aligned v d c" if "\<forall>e \<in> set ?es. ?f e = None" for c
  proof
    assume "aligned v d c"
    then obtain e where e: "e \<in> set ?es" "mem_node v (er_src e) \<noteq> None" "\<exists>i. linked v ''ALIGNS_CLAIM'' i (er_src e) c"
      using edges_in_ex [OF assms, of d "''ALIGNS_DECLARATION''"
          "\<lambda>s. mem_node v s \<noteq> None \<and> (\<exists>i. linked v ''ALIGNS_CLAIM'' i s c)"] unfolding aligned_def by blast
    then have "rv_from (as_view v) (er_src e) ''ALIGNS_CLAIM'' \<noteq> []"
      using edges_ex [OF assms, of "er_src e" "''ALIGNS_CLAIM''" "\<lambda>x. x = c"] by auto
    then show False using that e id by (fastforce split: option.splits list.splits)
  qed
  have "aligned_claim (as_view v) d = (case List.map_filter ?f ?es of [] \<Rightarrow> None | c # _ \<Rightarrow> Some c)"
    by (simp add: aligned_claim_def)
  note claims = first_found [of ?f ?es, folded this]
  show ?thesis
  proof (cases "aligned_claim (as_view v) d")
    case None
    then show ?thesis using none [OF claims(1) [OF None]] by (simp add: serves_def opt_str_def)
  next
    case (Some c)
    then show ?thesis using claims(2) [OF Some] found by (auto simp: serves_def opt_str_def)
  qed
qed

lemma pinned_environment_spec:
  assumes "wf_view v"
  shows "runs_in v d (PStr (fst (pinned_environment (as_view v) d))) (snd (pinned_environment (as_view v) d))"
proof -
  let ?xs = "List.map_filter (\<lambda>e. mem_node v (er_dst e)) (rv_from (as_view v) d ''PINNED_ENVIRONMENT'')"
  have "r \<in> set ?xs \<longleftrightarrow> pinned v d r" for r
    using edges_ex [OF assms, of d "''PINNED_ENVIRONMENT''" "\<lambda>n. mem_node v n = Some r"]
    unfolding map_filter_member pinned_def by simp
  then show ?thesis
    by (cases ?xs) (auto simp: runs_in_def pinned_environment_def)
qed

lemma compile_formal_request_Inr:
  assumes "compile_formal_request l v run_id policy budget = Inr req"
  obtains rid d r where "formal_target v (ls_move l) run_id = Inr (rid, d, Some r)"
    "req = [(''proof_id'', PStr (lr_proof (ls_row l))), (''claim_id'', opt_str (aligned_claim v d)),
        (''formal_declaration_id'', PStr d), (''run_id'', PStr rid), (''base_revision'', PInt (lr_base (ls_row l))),
        (''lease_id'', PStr (lr_id (ls_row l))), (''fencing_token'', PInt (int (lr_token (ls_row l)))),
        (''lean_source_artifact'', get_or (nr_fields r) ''lean_value'' (PStr [])),
        (''environment_id'', PStr (fst (pinned_environment v d))), (''environment_hash'', snd (pinned_environment v d)),
        (''goal_text'', get_or (nr_fields r) ''lean_type'' (PStr [])), (''search_policy'', PStr policy)] @
        (case budget of None \<Rightarrow> [] | Some b \<Rightarrow> [(''budget'', PDict b)])"
  using assms
  by (auto simp: compile_formal_request_def bind_res_Inr Let_def split_beta split: option.splits)

text \<open>C39. A compiled request has every required field, and each says what is committed: it is about the
  leased declaration, under the minted run id, or the one that the leased run searches, under the id of
  that run; it carries the proof, revision, id and token of the lease, the Lean text and type of the
  declaration, a claim the declaration is aligned with, or null when there is none, and a pinned
  environment with its manifest hash, or two empty texts when there is none. So its required fields
  conform to the request schema exactly when the ids and numbers are in range, the Lean text is a
  digest, the declaration is aligned with a claim of a well-formed id and the environment it pins has
  a digest for a hash.\<close>

theorem formal_requests_say_what_is_committed:
  assumes "wf_view v" "compile_formal_request l (as_view v) run_id policy budget = Inr req"
  shows "missing_request_fields req = [] \<and>
    dget req ''proof_id'' = PStr (lr_proof (ls_row l)) \<and> dget req ''base_revision'' = PInt (lr_base (ls_row l)) \<and>
    dget req ''lease_id'' = PStr (lr_id (ls_row l)) \<and> dget req ''fencing_token'' = PInt (int (lr_token (ls_row l))) \<and>
    (\<exists>target d rid r. mem_node v (ls_move l) = Some target \<and> mem_node v d = Some r \<and>
       dget req ''formal_declaration_id'' = PStr d \<and> dget req ''run_id'' = PStr rid \<and>
       (nr_label target = ''FormalDeclaration'' \<and> d = ls_move l \<and> run_id = Some rid \<or>
        nr_label target = ''FormalRun'' \<and> rid = ls_move l \<and> (\<exists>e. linked v ''SEARCHES'' e rid d)) \<and>
       dget req ''lean_source_artifact'' = get_or (nr_fields r) ''lean_value'' (PStr []) \<and>
       dget req ''goal_text'' = get_or (nr_fields r) ''lean_type'' (PStr []) \<and>
       serves v d (dget req ''claim_id'') \<and> runs_in v d (dget req ''environment_id'') (dget req ''environment_hash'') \<and>
       (list_all (\<lambda>k. schema_property k (dget req k)) REQUEST_REQUIRED_FIELDS \<longleftrightarrow>
          lr_proof (ls_row l) \<noteq> [] \<and> 0 \<le> lr_base (ls_row l) \<and> 0 < lr_token (ls_row l) \<and>
          schema_id ''fd'' (PStr d) \<and> schema_id ''fr'' (PStr rid) \<and>
          schema_property ''lean_source_artifact'' (get_or (nr_fields r) ''lean_value'' (PStr [])) \<and>
          (\<exists>c. aligned v d c \<and> dget req ''claim_id'' = PStr c \<and> schema_id ''c'' (PStr c)) \<and>
          (\<exists>n env. pinned v d env \<and> dget req ''environment_id'' = PStr (nr_id env) \<and> nr_id env \<noteq> [] \<and>
             get_or (nr_fields env) ''lake_manifest_hash'' (PStr []) = PStr n \<and> is_sha256 n \<and>
             dget req ''environment_hash'' = PStr n)))"
  using assms(2)
proof (rule compile_formal_request_Inr)
  fix rid d r
  let ?env = "pinned_environment (as_view v) d"
  assume t: "formal_target (as_view v) (ls_move l) run_id = Inr (rid, d, Some r)" and
    req: "req = [(''proof_id'', PStr (lr_proof (ls_row l))), (''claim_id'', opt_str (aligned_claim (as_view v) d)),
        (''formal_declaration_id'', PStr d), (''run_id'', PStr rid), (''base_revision'', PInt (lr_base (ls_row l))),
        (''lease_id'', PStr (lr_id (ls_row l))), (''fencing_token'', PInt (int (lr_token (ls_row l)))),
        (''lean_source_artifact'', get_or (nr_fields r) ''lean_value'' (PStr [])),
        (''environment_id'', PStr (fst ?env)), (''environment_hash'', snd ?env),
        (''goal_text'', get_or (nr_fields r) ''lean_type'' (PStr [])), (''search_policy'', PStr policy)] @
        (case budget of None \<Rightarrow> [] | Some b \<Rightarrow> [(''budget'', PDict b)])"
  obtain target where target: "mem_node v (ls_move l) = Some target"
    using t by (auto simp: formal_target_def split: option.splits)
  have searched: "\<exists>e. linked v rel e n (er_dst y)" if "rv_from (as_view v) n rel = y # ys" for n rel y ys
    using edges_ex [OF assms(1), of n rel "\<lambda>x. x = er_dst y"] that by auto
  from t target searched have about: "mem_node v d = Some r \<and>
      (nr_label target = ''FormalDeclaration'' \<and> d = ls_move l \<and> run_id = Some rid \<or>
        nr_label target = ''FormalRun'' \<and> rid = ls_move l \<and> (\<exists>e. linked v ''SEARCHES'' e rid d))"
    by (auto simp: formal_target_def split: if_splits list.splits option.splits)
  have vals: "dget req ''proof_id'' = PStr (lr_proof (ls_row l))" "dget req ''base_revision'' = PInt (lr_base (ls_row l))"
    "dget req ''lease_id'' = PStr (lr_id (ls_row l))" "dget req ''fencing_token'' = PInt (int (lr_token (ls_row l)))"
    "dget req ''formal_declaration_id'' = PStr d" "dget req ''run_id'' = PStr rid"
    "dget req ''lean_source_artifact'' = get_or (nr_fields r) ''lean_value'' (PStr [])"
    "dget req ''goal_text'' = get_or (nr_fields r) ''lean_type'' (PStr [])"
    "dget req ''claim_id'' = opt_str (aligned_claim (as_view v) d)" "dget req ''environment_id'' = PStr (fst ?env)"
    "dget req ''environment_hash'' = snd ?env"
    by (simp_all add: req)
  have serves: "serves v d (dget req ''claim_id'')"
    and env: "runs_in v d (dget req ''environment_id'') (dget req ''environment_hash'')"
    unfolding vals(9-11) by (rule aligned_claim_spec [OF assms(1)], rule pinned_environment_spec [OF assms(1)])
  have present: "missing_request_fields req = []"
    by (simp add: req missing_request_fields_def REQUEST_REQUIRED_FIELDS_def)
  have claim: "schema_id ''c'' (dget req ''claim_id'') \<longleftrightarrow>
      (\<exists>c. aligned v d c \<and> dget req ''claim_id'' = PStr c \<and> schema_id ''c'' (PStr c))"
    using serves by (auto simp: serves_def schema_id_def)
  have pin: "schema_property ''environment_id'' (dget req ''environment_id'') \<and>
        schema_property ''environment_hash'' (dget req ''environment_hash'') \<longleftrightarrow>
      (\<exists>n env. pinned v d env \<and> dget req ''environment_id'' = PStr (nr_id env) \<and> nr_id env \<noteq> [] \<and>
         get_or (nr_fields env) ''lake_manifest_hash'' (PStr []) = PStr n \<and> is_sha256 n \<and>
         dget req ''environment_hash'' = PStr n)"
    using env by (auto simp: runs_in_def schema_property_def split: pyval.splits)
  have conform: "list_all (\<lambda>k. schema_property k (dget req k)) REQUEST_REQUIRED_FIELDS \<longleftrightarrow>
      lr_proof (ls_row l) \<noteq> [] \<and> schema_id ''c'' (dget req ''claim_id'') \<and> schema_id ''fd'' (PStr d) \<and>
      schema_id ''fr'' (PStr rid) \<and> 0 \<le> lr_base (ls_row l) \<and> 0 < lr_token (ls_row l) \<and>
      schema_property ''lean_source_artifact'' (get_or (nr_fields r) ''lean_value'' (PStr [])) \<and>
      schema_property ''environment_id'' (dget req ''environment_id'') \<and>
      schema_property ''environment_hash'' (dget req ''environment_hash'')"
    unfolding REQUEST_REQUIRED_FIELDS_def list.pred_inject vals(1-7)
    by (simp add: schema_property_def [of "''proof_id''"] schema_property_def [of "''claim_id''"]
        schema_property_def [of "''formal_declaration_id''"] schema_property_def [of "''run_id''"]
        schema_property_def [of "''base_revision''"] schema_property_def [of "''lease_id''"]
        schema_property_def [of "''fencing_token''"] Suc_le_eq) blast?
  show ?thesis
    using about target vals(1-8) serves env present claim pin conform by blast
qed

definition declared_ops :: "op list" where
  "declared_ops =
     [UpsertNode ''Claim'' ''p/c-1'' [], UpsertNode ''AlignmentReview'' ''p/al-1'' [],
      UpsertNode ''EnvironmentRevision'' ''p/env-1'' [(''lake_manifest_hash'', PStr demo_hash)],
      UpsertNode ''FormalDeclaration'' ''p/fd-1''
        [(''status'', PStr ''aligned''), (''lean_type'', PStr ''1 = 1''), (''lean_value'', PStr demo_hash)],
      UpsertNode ''FormalRun'' ''p/fr-1'' [(''status'', PStr ''searching'')],
      AddEdge ''SEARCHES'' ''p/fr-1'' ''p/fd-1'' ''p/e-1'' [], AddEdge ''ALIGNS_DECLARATION'' ''p/al-1'' ''p/fd-1'' ''p/e-2'' [],
      AddEdge ''ALIGNS_CLAIM'' ''p/al-1'' ''p/c-1'' ''p/e-3'' [], AddEdge ''PINNED_ENVIRONMENT'' ''p/fd-1'' ''p/env-1'' ''p/e-4'' []]"

definition declared_view :: mem_view where
  "declared_view = projr (apply_ops empty_view declared_ops)"

definition sample_lease :: "string \<Rightarrow> string \<Rightarrow> lease" where
  "sample_lease worker_class move =
     \<lparr>ls_row = \<lparr>lr_proof = ''p'', lr_id = ''p/ls-1'', lr_class = worker_class, lr_move = Some move, lr_token = 4,
        lr_base = 2, lr_ttl = 60, lr_issued = 0, lr_expires = None, lr_status = Active\<rparr>,
      ls_move = move, ls_snapshot = [], ls_policy = POLICY_NAME\<rparr>"

theorem formal_requests_say_what_is_committed_witness:
  "\<exists>req. compile_formal_request (sample_lease ''formal-atp'' ''p/fr-1'') (as_view declared_view) None ''best-first'' None = Inr req \<and>
     aligned declared_view ''p/fd-1'' ''p/c-1'' \<and>
     list_all (\<lambda>k. schema_property k (dget req k)) REQUEST_REQUIRED_FIELDS"
proof -
  let ?compiled = "compile_formal_request (sample_lease ''formal-atp'' ''p/fr-1'') (as_view declared_view) None ''best-first'' None"
  have "\<not> isl (apply_ops empty_view declared_ops)" by code_simp
  then have "apply_ops empty_view declared_ops = Inr declared_view"
    by (cases "apply_ops empty_view declared_ops") (simp_all add: declared_view_def)
  then have wf: "wf_view declared_view" by (rule wf_apply_ops [OF wf_empty_view])
  have "case ?compiled of Inl _ \<Rightarrow> False | Inr r \<Rightarrow> dget r ''formal_declaration_id'' = PStr ''p/fd-1'' \<and>
      list_all (\<lambda>k. schema_property k (dget r k)) REQUEST_REQUIRED_FIELDS \<and> dget r ''claim_id'' = PStr ''p/c-1''" by code_simp
  then obtain req where req: "?compiled = Inr req" "dget req ''formal_declaration_id'' = PStr ''p/fd-1''"
      "list_all (\<lambda>k. schema_property k (dget req k)) REQUEST_REQUIRED_FIELDS" "dget req ''claim_id'' = PStr ''p/c-1''"
    by (auto split: sum.splits)
  from formal_requests_say_what_is_committed [OF wf req(1)] req(2,4) have "aligned declared_view ''p/fd-1'' ''p/c-1''"
    by (auto simp: serves_def)
  then show ?thesis using req(1,3) by blast
qed

text \<open>
  No compiled request conforms to the schema file as a whole: it has the goal text, which is no
  property of the schema, and its search policy is a text where the schema wants an object.
\<close>

lemma requests_break_the_schema:
  assumes "compile_formal_request l v run_id policy budget = Inr req"
  shows "''goal_text'' \<in> set (map fst req) - set SCHEMA_PROPERTIES \<and> dget req ''search_policy'' = PStr policy"
  using assms
  by (rule compile_formal_request_Inr) (simp add: SCHEMA_PROPERTIES_def REQUEST_REQUIRED_FIELDS_def)

text \<open>
  Evidence and declarations that an edge names but the view lacks: the packet unpacks a missing payload,
  the request reads the fields of a missing record.
\<close>

lemma missing_evidence_raises:
  assumes "e \<in> set (rv_from v c rel)" "rv_node v (er_dst e) = None"
  shows "evidence_of v c rel = Inl TypeError"
proof -
  have raises: "all_res f es = Inl TypeError" if "e \<in> set es" "f e = Inl TypeError" "\<And>x err. f x = Inl err \<Longrightarrow> err = TypeError"
    for f :: "edge_rec \<Rightarrow> py_exc + pyval" and es
    using that by (induction es) (auto simp: bind_res_def split: sum.splits)
  show ?thesis unfolding evidence_of_def
    by (rule raises [OF assms(1)]) (auto simp: node_payload_def assms(2) split: option.splits)
qed

lemma missing_declaration_raises:
  assumes "formal_target v (ls_move l) run_id = Inr (rid, d, None)"
  shows "compile_formal_request l v run_id policy budget = Inl AttributeError"
  using assms by (simp add: compile_formal_request_def split_beta Let_def)

end
