(* ===== verification/Cycle.thy ===== *)
theory Cycle
  imports Gate Routing Context
begin

text \<open>
  One scheduling cycle, \<^verbatim>\<open>src/src/mathproof/cycle.py\<close>: lease the best move, run its worker, commit the
  result through the gate, and evaluate the routing table over the run just committed.

  \<^item> \<open>world\<close>: what a cycle reads and changes: the committed view that gate, scheduler and cycle share, the
    store, the scheduler's statistics and the state of the prover's backend.
  \<^item> \<open>cycle_env\<close>: what is fixed during a cycle: policy and float operations, the dispatcher, the
    backend's calls, the maintenance callback, and what the database answers in each transaction.
  \<^item> \<open>run_cycle\<close>: the cycle; what it raises leaves the world as it was at that point.
\<close>

section \<open>The world of a cycle\<close>

record 'a world =
  wo_view :: mem_view
  wo_db :: db
  wo_stats :: statistics
  wo_backend :: 'a

record lease_env =
  le_sweep_lock :: lock
  le_sweep_now :: rat
  le_grant_lock :: lock
  le_grant_now :: rat
  le_grant_later :: rat

text \<open>\<^verbatim>\<open>maintenance(proposal, commit)\<close> may change the view, and may raise.\<close>

type_synonym maintenance = "proposal \<Rightarrow> gate_result \<Rightarrow> mem_view \<Rightarrow> py_exc + mem_view"

record 'a cycle_env =
  ce_runtime :: runtime
  ce_walk :: "string list \<Rightarrow> string list"
  ce_floats :: float_ops
  ce_policy :: policy
  ce_dispatcher :: worker
  ce_adapter :: "('a \<Rightarrow> atp_call \<Rightarrow> (py_exc + fields) \<times> 'a) option"
  ce_maintenance :: "maintenance option"
  ce_leasing :: lease_env
  ce_gate :: gate_env
  ce_release :: lock
  ce_follow_up :: gate_env

record cycle_digest =
  cy_issued :: bool
  cy_move :: "string option"
  cy_worker :: "string option"
  cy_accepted :: bool
  cy_revision :: "nat option"
  cy_rejections :: "rejection list"
  cy_audit :: bool
  cy_routing :: "routing_decision option"

definition empty_frontier :: cycle_digest where
  "empty_frontier =
     \<lparr>cy_issued = False, cy_move = None, cy_worker = None, cy_accepted = False, cy_revision = None,
      cy_rejections = [], cy_audit = True, cy_routing = None\<rparr>"

section \<open>Categories\<close>

text \<open>\<^verbatim>\<open>move_id.rsplit("/", 1)[-1]\<close>\<close>

definition local_part :: "string \<Rightarrow> string" where
  "local_part s = rev (takeWhile (\<lambda>c. c \<noteq> CHR ''/'') (rev s))"

definition category_of :: "string \<Rightarrow> py_exc + string" where
  "category_of move =
     (let local = local_part move
      in if startswith local ''rm-'' then Inr ''research-move''
         else if startswith local ''fd-'' \<or> startswith local ''fr-'' then Inr ''formal-run''
         else if startswith local ''c-'' then Inr ''critic-task''
         else Inl ValueError)"

section \<open>Running the worker\<close>

definition formal_worker ::
  "('a \<Rightarrow> atp_call \<Rightarrow> (py_exc + fields) \<times> 'a) option \<Rightarrow> lease \<Rightarrow> graph_view \<Rightarrow> string \<Rightarrow> 'a \<Rightarrow> (py_exc + fields) \<times> 'a" where
  "formal_worker adapter l g policy a =
     (case adapter of
        None \<Rightarrow> (Inl ValueError, a)
      | Some call \<Rightarrow>
          let proof = lr_proof (ls_row l); resuming = startswith (local_part (ls_move l)) ''fr-''
          in case compile_formal_request l (gv_view g) (if resuming then None else Some (minted g proof ''fr'')) policy None of
               Inl e \<Rightarrow> (Inl e, a)
             | Inr request \<Rightarrow>
                 (case key_str request ''run_id'' of
                    Inl e \<Rightarrow> (Inl e, a)
                  | Inr r \<Rightarrow>
                      (case call a (if resuming then CallResume r else CallStart request) of
                         (Inl e, a1) \<Rightarrow> (Inl e, a1)
                       | (Inr result, a1) \<Rightarrow> (Inr (AList.update ''proof_id'' (PStr proof) result), a1))))"

definition other_worker :: "runtime \<Rightarrow> worker \<Rightarrow> lease \<Rightarrow> graph_view \<Rightarrow> py_exc + fields" where
  "other_worker rt w l g = bind_res (compile_context rt l g) (w l)"

definition run_worker ::
  "'a cycle_env \<Rightarrow> lease \<Rightarrow> string \<Rightarrow> 'a world \<Rightarrow> (py_exc + fields \<times> proposal) \<times> 'a world" where
  "run_worker env l policy s =
     (let g = as_graph (wo_view s);
          (out, s1) =
            (if lr_class (ls_row l) = ''formal-atp'' then
               (case formal_worker (ce_adapter env) l g policy (wo_backend s) of (r, a) \<Rightarrow> (r, s\<lparr>wo_backend := a\<rparr>))
             else (other_worker (ce_runtime env) (ce_dispatcher env) l g, s))
      in (bind_res out (\<lambda>result.
            bind_res (result_to_proposal (ce_runtime env) result l g (Some (minted g (lr_proof (ls_row l)) ''at'')))
              (\<lambda>q. Inr (result, q))), s1))"

section \<open>After the commit\<close>

definition maintain :: "'a cycle_env \<Rightarrow> proposal \<Rightarrow> gate_result \<Rightarrow> 'a world \<Rightarrow> py_exc + 'a world" where
  "maintain env q commit s =
     (case ce_maintenance env of
        Some f \<Rightarrow> if gr_accepted commit then bind_res (f q commit (wo_view s)) (\<lambda>v. Inr (s\<lparr>wo_view := v\<rparr>)) else Inr s
      | None \<Rightarrow> Inr s)"

text \<open>The follow-up proposal of a converged obstruction, when the table asks for one.\<close>

definition bridge_ops :: "runtime \<Rightarrow> graph_view \<Rightarrow> string \<Rightarrow> string \<Rightarrow> pyval \<Rightarrow> op list" where
  "bridge_ops rt g proof state kind =
     (let rs = minted g proof ''rs''; rm = minted g proof ''rm''
      in [UpsertNode ''ResearchState'' rs [(''status'', PStr ''open''), (''origin_state'', PStr state)],
          UpsertNode ''ResearchMove'' rm [(''status'', PStr ''queued''),
            (''detail'', PStr (''bridge lemma for '' @ py_str rt kind @ '' converging at '' @ state))],
          AddEdge ''PROPOSES'' rs rm (rm @ ''-proposed'') []])"

definition bridge_proposal :: "runtime \<Rightarrow> graph_view \<Rightarrow> string \<Rightarrow> string \<Rightarrow> pyval \<Rightarrow> db \<Rightarrow> proposal" where
  "bridge_proposal rt g proof state kind d =
     \<lparr>prop_proof_id = proof, prop_actor = ''scheduler-routing'', prop_worker_class = ''llm-research'',
      prop_ops = bridge_ops rt g proof state kind, prop_base_revision = Some (int (fst (head d proof))),
      prop_lease_id = None, prop_fencing_token = None\<rparr>"

definition bridge_state :: "read_view \<Rightarrow> routing_decision \<Rightarrow> string option" where
  "bridge_state v decision =
     (if rd_action decision \<noteq> ''propose-bridge-lemma'' then None
      else case dget (rd_params decision) ''at_state'' of
             PStr state \<Rightarrow> if rv_node v state = None then None else Some state
           | _ \<Rightarrow> None)"

definition follow_up ::
  "'a cycle_env \<Rightarrow> string \<Rightarrow> routing_decision \<Rightarrow> string \<Rightarrow> 'a world \<Rightarrow> (store_error + unit) \<times> 'a world" where
  "follow_up env proof decision state s =
     (let rt = ce_runtime env;
          q = bridge_proposal rt (as_graph (wo_view s)) proof state (dget (rd_params decision) ''obstruction_kind'') (wo_db s)
      in case gate_commit rt (ce_follow_up env) (as_view (wo_view s)) q (wo_db s) of
           (Inl e, d) \<Rightarrow> (Inl e, s\<lparr>wo_db := d\<rparr>)
         | (Inr commit, d) \<Rightarrow>
             (case maintain env q commit (s\<lparr>wo_db := d\<rparr>) of
                Inl e \<Rightarrow> (Inl (PyError e), s\<lparr>wo_db := d\<rparr>)
              | Inr s1 \<Rightarrow> (Inr (), s1)))"

definition route_after_commit ::
  "'a cycle_env \<Rightarrow> fields \<Rightarrow> string \<Rightarrow> 'a world \<Rightarrow> (store_error + routing_decision option) \<times> 'a world" where
  "route_after_commit env result proof s =
     (let v = as_view (wo_view s); rid = dget result ''run_id''
      in if \<not> truthy rid then (Inr None, s)
         else case rid of
           PStr r \<Rightarrow>
             if rv_node v r = None then (Inr None, s)
             else (case evaluate_run (ce_runtime env) (ce_walk env) v r None of
                     Inl e \<Rightarrow> (Inl (PyError e), s)
                   | Inr None \<Rightarrow> (Inr None, s)
                   | Inr (Some decision) \<Rightarrow>
                       (case bridge_state v decision of
                          None \<Rightarrow> (Inr (Some decision), s)
                        | Some state \<Rightarrow>
                            (case follow_up env proof decision state s of
                               (Inl e, s1) \<Rightarrow> (Inl e, s1)
                             | (Inr _, s1) \<Rightarrow> (Inr (Some decision), s1))))
         | _ \<Rightarrow> (Inl (PyError OutOfModel), s))"

definition settle ::
  "'a cycle_env \<Rightarrow> string \<Rightarrow> lease \<Rightarrow> fields \<Rightarrow> proposal \<Rightarrow> gate_result \<Rightarrow> 'a world \<Rightarrow> (store_error + unit) \<times> 'a world" where
  "settle env proof l result q commit s =
     (case category_of (ls_move l) of
        Inl e \<Rightarrow> (Inl (PyError e), s)
      | Inr category \<Rightarrow>
          let s1 = s\<lparr>wo_stats := update_statistics (gr_accepted commit) category (wo_stats s)\<rparr>
          in if \<not> gr_accepted commit then (Inr (), s1)
             else case maintain env q commit s1 of
               Inl e \<Rightarrow> (Inl (PyError e), s1)
             | Inr s2 \<Rightarrow>
                 if truthy (get_or result ''terminal'' (PBool True))
                 then (case release (ce_release env) proof (lr_id (ls_row l)) (wo_db s2) of
                         (Inl e, d) \<Rightarrow> (Inl e, s2\<lparr>wo_db := d\<rparr>)
                       | (Inr _, d) \<Rightarrow> (Inr (), s2\<lparr>wo_db := d\<rparr>))
                 else (Inr (), s2))"

section \<open>The cycle\<close>

definition cycle_scheduler :: "'a cycle_env \<Rightarrow> 'a world \<Rightarrow> scheduler" where
  "cycle_scheduler env s =
     \<lparr>sc_floats = ce_floats env, sc_view = as_graph (wo_view s), sc_policy = ce_policy env, sc_stats = wo_stats s\<rparr>"

definition cycle_lease ::
  "'a cycle_env \<Rightarrow> string \<Rightarrow> string \<Rightarrow> rat \<Rightarrow> 'a world \<Rightarrow> (store_error + lease option) \<times> db" where
  "cycle_lease env proof worker_class ttl s =
     (let e = ce_leasing env
      in lease_next (ce_runtime env) (le_sweep_lock e) (le_sweep_now e) (le_grant_lock e) (le_grant_now e) (le_grant_later e)
           (cycle_scheduler env s) proof worker_class ttl (wo_db s))"

definition issued_digest :: "lease \<Rightarrow> gate_result \<Rightarrow> routing_decision option \<Rightarrow> cycle_digest" where
  "issued_digest l commit routing =
     \<lparr>cy_issued = True, cy_move = Some (ls_move l), cy_worker = Some (lr_class (ls_row l)),
      cy_accepted = gr_accepted commit, cy_revision = gr_revision commit, cy_rejections = gr_rejections commit,
      cy_audit = False, cy_routing = routing\<rparr>"

definition run_leased ::
  "'a cycle_env \<Rightarrow> string \<Rightarrow> lease \<Rightarrow> string \<Rightarrow> 'a world \<Rightarrow> (store_error + cycle_digest) \<times> 'a world" where
  "run_leased env proof l policy s =
     (case run_worker env l policy s of
        (Inl e, s1) \<Rightarrow> (Inl (PyError e), s1)
      | (Inr (result, q), s1) \<Rightarrow>
          (case gate_commit (ce_runtime env) (ce_gate env) (as_view (wo_view s1)) q (wo_db s1) of
             (Inl e, d) \<Rightarrow> (Inl e, s1\<lparr>wo_db := d\<rparr>)
           | (Inr commit, d) \<Rightarrow>
               (case settle env proof l result q commit (s1\<lparr>wo_db := d\<rparr>) of
                  (Inl e, s2) \<Rightarrow> (Inl e, s2)
                | (Inr _, s2) \<Rightarrow>
                    (case route_after_commit env result proof s2 of
                       (Inl e, s3) \<Rightarrow> (Inl e, s3)
                     | (Inr routing, s3) \<Rightarrow> (Inr (issued_digest l commit routing), s3)))))"

definition run_cycle ::
  "'a cycle_env \<Rightarrow> string \<Rightarrow> string \<Rightarrow> rat \<Rightarrow> string \<Rightarrow> 'a world \<Rightarrow> (store_error + cycle_digest) \<times> 'a world" where
  "run_cycle env proof worker_class ttl policy s =
     (case cycle_lease env proof worker_class ttl s of
        (Inl e, d) \<Rightarrow> (Inl e, s\<lparr>wo_db := d\<rparr>)
      | (Inr None, d) \<Rightarrow> (Inr empty_frontier, s\<lparr>wo_db := d\<rparr>)
      | (Inr (Some l), d) \<Rightarrow> run_leased env proof l policy (s\<lparr>wo_db := d\<rparr>))"

end
