(* ===== verification/CycleSafety.thy ===== *)
theory CycleSafety
  imports Cycle
begin

text \<open>
  What a scheduling cycle does to the store and to the committed graph.

  \<^item> Every cycle, also one that raises, is a sequence of calls of the store; what holds along such
    sequences (verified journals that only grow, dead leases that stay dead) holds across cycles.
  \<^item> A cycle that returns makes at most two commits through the gate, its own and the follow-up of the
    routing table, and keeps the correspondence of journal and graph.
\<close>

section \<open>Cycles as store calls\<close>

definition quiet_step :: "runtime \<Rightarrow> db \<Rightarrow> db \<Rightarrow> bool" where
  "quiet_step rt d d' \<longleftrightarrow> store_step rt d d' \<and> db_journal d' = db_journal d"

lemma write_tx_journal:
  assumes "write_tx lk body d = (r, d')" "\<And>a e. body d = Inr (a, e) \<Longrightarrow> db_journal e = db_journal d"
  shows "db_journal d' = db_journal d"
  using assms(1) by (rule write_tx_cases) (use assms(2) in auto)

lemma lease_calls_quiet:
  "active_leases lk t p d = (out, d') \<Longrightarrow> quiet_step rt d d'"
  "release lk p lid d = (out', d') \<Longrightarrow> quiet_step rt d d'"
  "dispatch_lease rt lk t1 t2 p ranked c ttl d = (out'', d') \<Longrightarrow> quiet_step rt d d'"
proof -
  show "quiet_step rt d d'" if a: "active_leases lk t p d = (out, d')"
    using store_step.active [OF a] write_tx_journal [OF a [unfolded active_leases_def]] lease_bodies_keep_journal(3)
    unfolding quiet_step_def by blast
  show "quiet_step rt d d'" if a: "release lk p lid d = (out', d')"
    using store_step.release [OF a [unfolded release_def]] write_tx_journal [OF a [unfolded release_def release_lease_def]]
      lease_bodies_keep_journal(2) unfolding quiet_step_def by blast
  show "quiet_step rt d d'" if a: "dispatch_lease rt lk t1 t2 p ranked c ttl d = (out'', d')"
  proof -
    have "db_journal d' = db_journal d"
    proof (cases "ttl \<le> 0")
      case True
      then show ?thesis using a by (auto simp: dispatch_lease_def)
    next
      case False
      then have "write_tx lk (dispatch_body rt t1 t2 p ranked c ttl) d = (out'', d')" using a by (simp add: dispatch_lease_def)
      then show ?thesis by (rule write_tx_journal) (rule dispatch_keeps_journal)
    qed
    then show ?thesis using store_step.dispatch [OF a] by (simp add: quiet_step_def)
  qed
qed

lemma lease_next_quiet:
  assumes "lease_next rt lk0 t0 lk t1 t2 s p w ttl d = (out, d')"
  shows "(quiet_step rt)\<^sup>*\<^sup>* d d'"
proof -
  obtain rows d1 where a: "active_leases lk0 t0 p d = (rows, d1)" by (metis surj_pair)
  note first = lease_calls_quiet(1) [OF a, of rt]
  consider "d' = d1" | ranked granted where "dispatch_lease rt lk t1 t2 p ranked w ttl d1 = (granted, d')"
    using assms a
    by (fastforce simp: lease_next_def split: sum.splits option.splits prod.splits)
  then show ?thesis
  proof cases
    case 1
    then show ?thesis using first by auto
  next
    case 2
    then show ?thesis using first lease_calls_quiet(3) [OF 2] by (meson rtranclp.simps)
  qed
qed

lemma audit_steps: "audit rt locks i q rs d = (r, d') \<Longrightarrow> (store_step rt)\<^sup>*\<^sup>* d d'"
proof (induction rs arbitrary: i d)
  case (Cons x rs)
  obtain out d1 where rec: "record_rejection rt (locks i) (prop_proof_id q) (rej_reason x)
      (Some (proposal_to_dict q)) d = (out, d1)" by (metis surj_pair)
  then have step: "store_step rt d d1" by (rule store_step.reject)
  show ?case
  proof (cases out)
    case (Inl e)
    then have "d' = d1" using Cons.prems rec by (cases e) simp_all
    then show ?thesis using step by blast
  next
    case (Inr n)
    then have "audit rt locks (i + 1) q rs d1 = (r, d')" using Cons.prems rec by simp
    from Cons.IH [OF this] step show ?thesis by (rule converse_rtranclp_into_rtranclp [rotated])
  qed
qed simp

lemma refuse_steps: "refuse rt env q rs d = (r, d') \<Longrightarrow> (store_step rt)\<^sup>*\<^sup>* d d'"
  by (auto simp: refuse_def split: prod.splits sum.splits dest: audit_steps)

lemma gate_commit_steps:
  assumes "gate_commit rt env view q d = (out, d')"
  shows "(store_step rt)\<^sup>*\<^sup>* d d'"
proof -
  obtain r d1 where a: "append_event rt (ge_lock env) (ge_relock env) (ge_now env) (ge_later env) (proposal_to_dict q) d = (r, d1)"
    by (metis surj_pair)
  then have step: "store_step rt d d1" by (rule store_step.append)
  consider "d' = d" | "d' = d1" | rs r' where "refuse rt env q rs d = (r', d')" | rs r' where "refuse rt env q rs d1 = (r', d')"
    using assms a by (auto simp: gate_commit_def split: sum.splits list.splits store_error.splits)
  then show ?thesis
  proof cases
    case 4
    then show ?thesis using refuse_steps step by (meson converse_rtranclp_into_rtranclp)
  qed (use step refuse_steps in auto)
qed

lemma quiet_steps: "(quiet_step rt)\<^sup>*\<^sup>* d d' \<Longrightarrow> (store_step rt)\<^sup>*\<^sup>* d d'"
  by (induction rule: rtranclp_induct) (auto simp: quiet_step_def intro: rtranclp.rtrancl_into_rtrancl)

lemma maintain_db: "maintain env q commit s = Inr s1 \<Longrightarrow> wo_db s1 = wo_db s"
  by (auto simp: maintain_def bind_res_Inr split: option.splits if_splits)

lemma run_worker_frame:
  "run_worker env l policy s = (out, s1) \<Longrightarrow> wo_db s1 = wo_db s \<and> wo_view s1 = wo_view s \<and> wo_stats s1 = wo_stats s"
  by (auto simp: run_worker_def Let_def split: prod.splits if_splits)

lemma settle_steps:
  assumes "settle env proof l result q commit s = (out, s')"
  shows "(quiet_step rt)\<^sup>*\<^sup>* (wo_db s) (wo_db s')"
proof -
  obtain r d where rel: "\<And>x. release (ce_release env) proof (lr_id (ls_row l)) (wo_db s) = (r, d)" by (metis surj_pair)
  have "wo_db s' = wo_db s \<or> wo_db s' = d"
    using assms rel
    by (auto simp: settle_def Let_def maintain_db split: sum.splits if_splits prod.splits dest!: maintain_db)
  then show ?thesis using lease_calls_quiet(2) [OF rel, of rt] by auto
qed

lemma follow_up_steps:
  assumes "follow_up env proof decision state s = (out, s')"
  shows "(store_step (ce_runtime env))\<^sup>*\<^sup>* (wo_db s) (wo_db s')"
proof -
  let ?q = "bridge_proposal (ce_runtime env) (as_graph (wo_view s)) proof state (dget (rd_params decision) ''obstruction_kind'') (wo_db s)"
  obtain r d where g: "gate_commit (ce_runtime env) (ce_follow_up env) (as_view (wo_view s)) ?q (wo_db s) = (r, d)" by (metis surj_pair)
  have "wo_db s' = d"
    using assms g by (auto simp: follow_up_def Let_def split: sum.splits dest!: maintain_db)
  then show ?thesis using gate_commit_steps [OF g] by simp
qed

lemma route_steps:
  assumes "route_after_commit env result proof s = (out, s')"
  shows "(store_step (ce_runtime env))\<^sup>*\<^sup>* (wo_db s) (wo_db s')"
proof -
  have "s' = s \<or> (\<exists>decision state out'. follow_up env proof decision state s = (out', s'))"
    using assms by (auto simp: route_after_commit_def Let_def split: pyval.splits option.splits sum.splits if_splits prod.splits)
  then show ?thesis using follow_up_steps by blast
qed

lemma run_leased_steps:
  assumes "run_leased env proof l policy s = (out, s')"
  shows "(store_step (ce_runtime env))\<^sup>*\<^sup>* (wo_db s) (wo_db s')"
proof -
  obtain r s1 where w: "run_worker env l policy s = (r, s1)" by (metis surj_pair)
  have db: "wo_db s1 = wo_db s" using run_worker_frame [OF w] by blast
  show ?thesis
  proof (cases r)
    case (Inl e)
    then show ?thesis using assms w db by (auto simp: run_leased_def)
  next
    case (Inr x)
    then obtain result q where r: "r = Inr (result, q)" by (cases x) auto
    obtain c d where g: "gate_commit (ce_runtime env) (ce_gate env) (as_view (wo_view s1)) q (wo_db s1) = (c, d)" by (metis surj_pair)
    note committed = gate_commit_steps [OF g, unfolded db]
    show ?thesis
    proof (cases c)
      case (Inl e)
      then show ?thesis using assms w r g committed by (auto simp: run_leased_def)
    next
      case (Inr commit)
      obtain t s2 where st: "settle env proof l result q commit (s1\<lparr>wo_db := d\<rparr>) = (t, s2)" by (metis surj_pair)
      obtain t' s3 where ro: "route_after_commit env result proof s2 = (t', s3)" by (metis surj_pair)
      have "s' = s2 \<or> s' = s3"
        using assms w r g Inr st ro by (auto simp: run_leased_def split: sum.splits)
      moreover have "(store_step (ce_runtime env))\<^sup>*\<^sup>* (wo_db s) (wo_db s2)"
        using committed quiet_steps [OF settle_steps [OF st]] by (auto intro: rtranclp_trans)
      ultimately show ?thesis using route_steps [OF ro] by (metis rtranclp_trans)
    qed
  qed
qed

lemma run_cycle_steps:
  assumes "run_cycle env proof c ttl policy s = (out, s')"
  shows "(store_step (ce_runtime env))\<^sup>*\<^sup>* (wo_db s) (wo_db s')"
proof -
  obtain r d where l: "cycle_lease env proof c ttl s = (r, d)" by (metis surj_pair)
  have leased: "(store_step (ce_runtime env))\<^sup>*\<^sup>* (wo_db s) d"
    using l unfolding cycle_lease_def Let_def by (intro quiet_steps lease_next_quiet)
  have "wo_db s' = d \<or> (\<exists>le. run_leased env proof le policy (s\<lparr>wo_db := d\<rparr>) = (out, s'))"
    using assms l by (auto simp: run_cycle_def split: sum.splits option.splits)
  then show ?thesis using leased by (auto dest!: run_leased_steps intro: rtranclp_trans)
qed

text \<open>C40. Whatever a cycle does, whether it returns or raises at any point, the store it leaves is sound:
  every journal is a verified chain that extends the one before the cycle, and a lease that was dead
  stays dead.\<close>

theorem cycles_keep_the_store:
  assumes "store_ok (ce_runtime env) (wo_db s)" "run_cycle env proof c ttl policy s = (out, s')"
  shows "store_ok (ce_runtime env) (wo_db s') \<and> fenced (wo_db s) (wo_db s') \<and>
    verify_chain (ce_runtime env) (wo_db s') p = Inr (length (read_events (wo_db s') p)) \<and>
    prefix (read_events (wo_db s) p) (read_events (wo_db s') p)"
proof -
  note steps = run_cycle_steps [OF assms(2)]
  have ok: "store_ok (ce_runtime env) (wo_db s')" by (rule store.steps_inv [OF steps assms(1)])
  have "store_rel (wo_db s) (wo_db s')" by (rule store.steps_rel [OF steps assms(1)])
  then show ?thesis using ok
    by (auto simp: store_rel_def store_ok_def journal_ok_verify read_events_def map_mono_prefix)
qed

section \<open>Cycles as commits\<close>

lemma system_quiet: "(quiet_step rt)\<^sup>*\<^sup>* d d' \<Longrightarrow> system rt qs v d \<Longrightarrow> system rt qs v d'"
  by (induction rule: rtranclp_induct) (auto simp: quiet_step_def intro: system.lease)

text \<open>What is asked of the caller's maintenance: when it returns, it has projected the accepted operations.\<close>

definition maintains :: "maintenance \<Rightarrow> bool" where
  "maintains f \<longleftrightarrow> (\<forall>q g v w. f q g v = Inr w \<longrightarrow> apply_ops v (prop_ops q) = Inr w)"

text \<open>\<^verbatim>\<open>apply_ops\<close> itself is such a callback.\<close>

definition projecting :: maintenance where
  "projecting q g v = apply_ops v (prop_ops q)"

lemma projecting_maintains: "maintains projecting"
  by (simp add: maintains_def projecting_def)

text \<open>
  The step of a world that commits the proposals \<open>qs\<close>: the journals grow by them, and view and store stay
  those of one system, if the caller maintains the view.
\<close>

definition tracks :: "'a cycle_env \<Rightarrow> 'a world \<Rightarrow> proposal list \<Rightarrow> 'a world \<Rightarrow> bool" where
  "tracks env s qs s' \<longleftrightarrow>
     (store_ok (ce_runtime env) (wo_db s) \<longrightarrow>
      store_ok (ce_runtime env) (wo_db s') \<and>
      (\<forall>p. read_events (wo_db s') p = read_events (wo_db s) p @ journalled p qs) \<and>
      (\<forall>f ps. ce_maintenance env = Some f \<longrightarrow> maintains f \<longrightarrow>
         system (ce_runtime env) ps (wo_view s) (wo_db s) \<longrightarrow>
         system (ce_runtime env) (ps @ qs) (wo_view s') (wo_db s')))"

lemma tracks_trans:
  assumes "tracks env s qs t" "tracks env t rs u"
  shows "tracks env s (qs @ rs) u"
  using assms unfolding tracks_def journalled_append append_assoc [symmetric] by metis

lemma tracks_same:
  assumes "tracks env s qs t" "wo_view s' = wo_view s" "wo_db s' = wo_db s" "wo_view t' = wo_view t" "wo_db t' = wo_db t"
  shows "tracks env s' qs t'"
  using assms unfolding tracks_def by metis

lemma quiet_keeps:
  assumes "(quiet_step rt)\<^sup>*\<^sup>* d d'" "store_ok rt d"
  shows "store_ok rt d'" "read_events d' p = read_events d p"
proof -
  show "store_ok rt d'" by (rule store.steps_inv [OF quiet_steps [OF assms(1)] assms(2)])
  have "db_journal d' = db_journal d"
    using assms(1) by (induction rule: rtranclp_induct) (auto simp: quiet_step_def)
  then show "read_events d' p = read_events d p" using same_journal [of d' d p] by (simp add: read_events_def)
qed

lemma tracks_quiet:
  assumes "(quiet_step (ce_runtime env))\<^sup>*\<^sup>* (wo_db s) (wo_db t)" "wo_view t = wo_view s"
  shows "tracks env s [] t"
  using quiet_keeps [OF assms(1)] system_quiet [OF assms(1)] assms(2) by (simp add: tracks_def)

lemma tracks_commit:
  assumes "gate_commit (ce_runtime env) ge (as_view (wo_view s)) q (wo_db s) = (Inr commit, d)"
    and "maintain env q commit (s\<lparr>wo_db := d\<rparr>) = Inr t"
  shows "tracks env s (if gr_accepted commit then [q] else []) t"
proof -
  let ?qs = "if gr_accepted commit then [q] else []"
  have t: "wo_db t = d" using maintain_db [OF assms(2)] by simp
  have "system (ce_runtime env) (ps @ ?qs) (wo_view t) d"
    if m: "ce_maintenance env = Some f" "maintains f" and sys: "system (ce_runtime env) ps (wo_view s) (wo_db s)" for f ps
  proof (cases "gr_accepted commit")
    case True
    then have "f q commit (wo_view s) = Inr (wo_view t)" using assms(2) m by (auto simp: maintain_def bind_res_Inr)
    then have "apply_ops (wo_view s) (prop_ops q) = Inr (wo_view t)" using m(2) by (simp add: maintains_def)
    then show ?thesis using system.accept [OF sys assms(1) True] True by simp
  next
    case False
    then have "wo_view t = wo_view s" using assms(2) m by (auto simp: maintain_def)
    then show ?thesis using system.refuse [OF sys assms(1) False] False by simp
  qed
  then show ?thesis
    using gate_commit_events [OF _ assms(1)] gate_steps [OF assms(1)] by (simp add: tracks_def t)
qed

lemma tracks_settle:
  assumes "gate_commit (ce_runtime env) ge (as_view (wo_view s)) q (wo_db s) = (Inr commit, d)"
    and "settle env pid l result q commit (s\<lparr>wo_db := d\<rparr>) = (Inr u, s')"
  shows "tracks env s (if gr_accepted commit then [q] else []) s'"
proof -
  obtain category where category: "category_of (ls_move l) = Inr category"
    using assms(2) by (auto simp: settle_def split: sum.splits)
  let ?s = "s\<lparr>wo_stats := update_statistics (gr_accepted commit) category (wo_stats s)\<rparr>"
  have eq: "?s\<lparr>wo_db := d\<rparr> = s\<lparr>wo_db := d, wo_stats := update_statistics (gr_accepted commit) category (wo_stats s)\<rparr>"
    by (cases s) simp
  obtain t where t: "maintain env q commit (?s\<lparr>wo_db := d\<rparr>) = Inr t"
    and final: "s' = t \<or> (\<exists>r e. release (ce_release env) pid (lr_id (ls_row l)) (wo_db t) = (r, e) \<and> s' = t\<lparr>wo_db := e\<rparr>)"
  proof (cases "gr_accepted commit")
    case True
    then show ?thesis using assms(2) category that unfolding eq
      by (auto simp: settle_def Let_def split: sum.splits if_splits prod.splits)
  next
    case False
    then have "maintain env q commit (?s\<lparr>wo_db := d\<rparr>) = Inr (?s\<lparr>wo_db := d\<rparr>)"
      by (simp add: maintain_def split: option.split)
    then show ?thesis using False assms(2) category that unfolding eq
      by (auto simp: settle_def Let_def)
  qed
  have commit: "tracks env ?s (if gr_accepted commit then [q] else []) t"
    by (rule tracks_commit [OF _ t]) (use assms(1) in simp)
  moreover have "tracks env t [] s'"
  proof (rule tracks_quiet)
    show "(quiet_step (ce_runtime env))\<^sup>*\<^sup>* (wo_db t) (wo_db s')" "wo_view s' = wo_view t"
      using final lease_calls_quiet(2) by fastforce+
  qed
  ultimately have "tracks env ?s ((if gr_accepted commit then [q] else []) @ []) s'" by (rule tracks_trans)
  then show ?thesis using tracks_same [of env ?s _ s' s s'] by simp
qed

lemma tracks_follow_up:
  assumes "follow_up env pid decision state s = (Inr u, s')"
  shows "\<exists>follow. tracks env s follow s' \<and> length follow \<le> 1 \<and>
    list_all (\<lambda>q. prop_proof_id q = pid \<and> prop_lease_id q = None) follow"
proof -
  let ?q = "bridge_proposal (ce_runtime env) (as_graph (wo_view s)) pid state (dget (rd_params decision) ''obstruction_kind'') (wo_db s)"
  obtain commit d where g: "gate_commit (ce_runtime env) (ce_follow_up env) (as_view (wo_view s)) ?q (wo_db s) = (Inr commit, d)"
    and m: "maintain env ?q commit (s\<lparr>wo_db := d\<rparr>) = Inr s'"
    using assms by (auto simp: follow_up_def Let_def split: prod.splits sum.splits)
  from tracks_commit [OF g m] show ?thesis
    by (intro exI [of _ "if gr_accepted commit then [?q] else []"]) (simp add: bridge_proposal_def)
qed

lemma tracks_route:
  assumes "route_after_commit env result pid s = (Inr routing, s')"
  shows "\<exists>follow. tracks env s follow s' \<and> length follow \<le> 1 \<and>
    list_all (\<lambda>q. prop_proof_id q = pid \<and> prop_lease_id q = None) follow \<and>
    (follow \<noteq> [] \<longrightarrow> (\<exists>d. routing = Some d \<and> rd_action d = ''propose-bridge-lemma''))"
proof -
  consider "s' = s" | decision state u where "bridge_state (as_view (wo_view s)) decision = Some state"
      "follow_up env pid decision state s = (Inr u, s')" "routing = Some decision"
    using assms
    by (auto simp: route_after_commit_def Let_def split: pyval.splits option.splits sum.splits if_splits prod.splits)
  then show ?thesis
  proof cases
    case 1
    then show ?thesis using tracks_quiet [of env s s] by (intro exI [of _ "[]"]) simp
  next
    case 2
    from 2(1) have "rd_action decision = ''propose-bridge-lemma''" by (auto simp: bridge_state_def split: if_splits)
    then show ?thesis using tracks_follow_up [OF 2(2)] 2(3) by blast
  qed
qed

lemma proposal_of_lease:
  assumes "result_to_proposal rt result l g attempt = Inr q"
  shows "prop_proof_id q = lr_proof (ls_row l) \<and> prop_lease_id q = Some (lr_id (ls_row l)) \<and>
    prop_fencing_token q = Some (int (lr_token (ls_row l))) \<and> prop_base_revision q = Some (lr_base (ls_row l))"
  using assms by (auto simp: result_to_proposal_def Let_def bind_res_Inr split: if_splits)

lemma worker_proposal:
  assumes "run_worker env l policy s = (Inr (result, q), s1)"
  shows "prop_proof_id q = lr_proof (ls_row l) \<and> prop_lease_id q = Some (lr_id (ls_row l)) \<and>
    prop_fencing_token q = Some (int (lr_token (ls_row l)))"
  using assms by (auto simp: run_worker_def Let_def bind_res_Inr split: prod.splits if_splits dest!: proposal_of_lease)

text \<open>The lease of a cycle is a row of its proof.\<close>

lemma cycle_lease_row:
  assumes "store_ok (ce_runtime env) (wo_db s)" "cycle_lease env pid c ttl s = (Inr (Some l), d)"
  shows "lr_proof (ls_row l) = pid"
proof -
  note lease = assms(2) [unfolded cycle_lease_def Let_def]
  obtain rows d1 ranked granted where
    a: "active_leases (le_sweep_lock (ce_leasing env)) (le_sweep_now (ce_leasing env)) pid (wo_db s) = (Inr rows, d1)" and
    g: "dispatch_lease (ce_runtime env) (le_grant_lock (ce_leasing env)) (le_grant_now (ce_leasing env))
       (le_grant_later (ce_leasing env)) pid (map (\<lambda>(m, snapshot). (m, Some (snapshot_dict snapshot))) ranked) c ttl d1 =
       (Inr granted, d)" and
    none: "Some l = None \<longleftrightarrow> granted = None" and
    row: "\<forall>row. granted = Some row \<longrightarrow> (\<exists>m snapshot. List.find (\<lambda>(m, _). Some m = lr_move row) ranked = Some (m, snapshot) \<and>
       Some l = Some (lease_from_row row snapshot (pol_name (sc_policy (cycle_scheduler env s)))))"
    by (rule lease_next_Inr [OF lease])
  obtain lr where lr: "granted = Some lr" using none by auto
  have "filter (\<lambda>r. lr_proof r = pid \<and> lr_status r = Active \<and> lr_move r = lr_move lr) (db_leases d) = [lr]"
    using dispatch_best_free [OF active_rows(1) [OF assms(1) a] g] lr by blast
  then have "lr \<in> set (filter (\<lambda>r. lr_proof r = pid \<and> lr_status r = Active \<and> lr_move r = lr_move lr) (db_leases d))" by simp
  then have "lr_proof lr = pid" by simp
  moreover have "ls_row l = lr" using row lr by (auto simp: lease_from_row_def)
  ultimately show ?thesis by simp
qed

text \<open>C9. A cycle that returns, on a sound store, extends the journals by its own proposal exactly when its digest
  says accepted, under the lease of its proof that the digest's move was granted by, and by at most one
  follow-up, without a lease, when the routing table asked for a bridge lemma; nothing else is journalled.
  If the caller's maintenance, where it returns, has projected the accepted operations with apply_ops, the view
  stays the projection of the accepted proposals; without a maintenance callback only the journals grow.\<close>

theorem cycles_follow_the_gate:
  assumes "store_ok (ce_runtime env) (wo_db s)" "run_cycle env pid c ttl policy s = (Inr dg, s')"
  shows "\<exists>own follow.
    (\<forall>p. read_events (wo_db s') p = read_events (wo_db s) p @ journalled p (own @ follow)) \<and>
    length own = (if cy_accepted dg then 1 else 0) \<and> length follow \<le> 1 \<and>
    list_all (\<lambda>q. prop_proof_id q = pid) (own @ follow) \<and>
    (own \<noteq> [] \<longrightarrow> (\<exists>l d. cycle_lease env pid c ttl s = (Inr (Some l), d) \<and> cy_move dg = Some (ls_move l) \<and>
       prop_lease_id (hd own) = Some (lr_id (ls_row l)) \<and>
       prop_fencing_token (hd own) = Some (int (lr_token (ls_row l))))) \<and>
    (follow \<noteq> [] \<longrightarrow> prop_lease_id (hd follow) = None \<and>
       (\<exists>d. cy_routing dg = Some d \<and> rd_action d = ''propose-bridge-lemma'')) \<and>
    (\<forall>f qs. ce_maintenance env = Some f \<longrightarrow> maintains f \<longrightarrow>
       system (ce_runtime env) qs (wo_view s) (wo_db s) \<longrightarrow>
       system (ce_runtime env) (qs @ own @ follow) (wo_view s') (wo_db s'))"
proof -
  obtain r d where lease: "cycle_lease env pid c ttl s = (r, d)" by (metis surj_pair)
  have leasing: "tracks env s [] (s\<lparr>wo_db := d\<rparr>)"
    by (rule tracks_quiet) (use lease_next_quiet [OF lease [unfolded cycle_lease_def Let_def]] in simp_all)
  consider (none) "dg = empty_frontier" "s' = s\<lparr>wo_db := d\<rparr>"
    | (leased) l where "r = Inr (Some l)" "run_leased env pid l policy (s\<lparr>wo_db := d\<rparr>) = (Inr dg, s')"
    using assms(2) lease by (auto simp: run_cycle_def split: sum.splits option.splits)
  then show ?thesis
  proof cases
    case none
    show ?thesis
      by (intro exI [of _ "[]"]) (use leasing assms(1) none in \<open>simp add: empty_frontier_def tracks_def\<close>)
  next
    case leased
    have row: "lr_proof (ls_row l) = pid" using cycle_lease_row [OF assms(1)] lease leased(1) by blast
    obtain result q s1 commit d1 u s2 routing where
      w: "run_worker env l policy (s\<lparr>wo_db := d\<rparr>) = (Inr (result, q), s1)" and
      g: "gate_commit (ce_runtime env) (ce_gate env) (as_view (wo_view s1)) q (wo_db s1) = (Inr commit, d1)" and
      st: "settle env pid l result q commit (s1\<lparr>wo_db := d1\<rparr>) = (Inr u, s2)" and
      ro: "route_after_commit env result pid s2 = (Inr routing, s')" and dig: "dg = issued_digest l commit routing"
      using leased(2) by (auto simp: run_leased_def split: prod.splits sum.splits)
    let ?own = "if gr_accepted commit then [q] else []"
    obtain follow where fo: "tracks env s2 follow s'"
      "length follow \<le> 1" "list_all (\<lambda>q. prop_proof_id q = pid \<and> prop_lease_id q = None) follow"
      "follow \<noteq> [] \<longrightarrow> (\<exists>d. routing = Some d \<and> rd_action d = ''propose-bridge-lemma'')"
      using tracks_route [OF ro] by blast
    have "tracks env s [] s1"
      by (rule tracks_same [OF leasing]) (use run_worker_frame [OF w] in simp_all)
    from tracks_trans [OF tracks_trans [OF this tracks_settle [OF g st]] fo(1)]
    have all: "tracks env s (?own @ follow) s'" by simp
    note q = worker_proposal [OF w] row lease [unfolded leased(1)]
    have own: "length ?own = (if cy_accepted dg then 1 else 0)" "list_all (\<lambda>q. prop_proof_id q = pid) ?own"
      "?own \<noteq> [] \<longrightarrow> (\<exists>l d. cycle_lease env pid c ttl s = (Inr (Some l), d) \<and> cy_move dg = Some (ls_move l) \<and>
         prop_lease_id (hd ?own) = Some (lr_id (ls_row l)) \<and> prop_fencing_token (hd ?own) = Some (int (lr_token (ls_row l))))"
      using q by (auto simp: dig issued_digest_def)
    have follow: "list_all (\<lambda>q. prop_proof_id q = pid) follow"
      "follow \<noteq> [] \<longrightarrow> prop_lease_id (hd follow) = None \<and> (\<exists>d. cy_routing dg = Some d \<and> rd_action d = ''propose-bridge-lemma'')"
      using fo(3,4) by (cases follow; auto simp: dig issued_digest_def list_all_iff)+
    show ?thesis
      by (rule exI [of _ ?own], rule exI [of _ follow])
        (use all assms(1) own follow fo(2) in \<open>unfold tracks_def list_all_append, blast\<close>)
  qed
qed

section \<open>A critic's cycle\<close>

text \<open>The proof holds a provisional claim; the critic supports it, and the maintenance applies the verdict.\<close>

definition supporting_critic :: worker where
  "supporting_critic l context = Inr [(''verdict'', PStr ''supported'')]"

definition demo_cycle_env :: "unit cycle_env" where
  "demo_cycle_env =
     \<lparr>ce_runtime = demo_runtime, ce_walk = id, ce_floats = exact_floats, ce_policy = default_policy exact_floats,
      ce_dispatcher = supporting_critic, ce_adapter = None, ce_maintenance = Some projecting,
      ce_leasing = \<lparr>le_sweep_lock = uncontended, le_sweep_now = 2, le_grant_lock = uncontended, le_grant_now = 2,
        le_grant_later = 2\<rparr>,
      ce_gate = demo_env 3, ce_release = uncontended, ce_follow_up = demo_env 4\<rparr>"

definition created_world :: "unit world" where
  "created_world =
     \<lparr>wo_view = projr (apply_ops empty_view claim_creation),
      wo_db = snd (gate_commit demo_runtime (demo_env 1) (as_view empty_view) (demo_ops claim_creation) leased_db),
      wo_stats = [], wo_backend = ()\<rparr>"

lemma created_world_system: "system demo_runtime [demo_ops claim_creation] (wo_view created_world) (wo_db created_world)"
proof -
  obtain g d' where c: "gate_commit demo_runtime (demo_env 1) (as_view empty_view) (demo_ops claim_creation)
      leased_db = (Inr g, d')" "gr_accepted g" by (rule creation_commit)
  have s: "system demo_runtime [] empty_view leased_db"
    by (rule system.lease [OF system.start demo_steps(1)]) (simp add: demo_values empty_db_def)
  have "case apply_ops empty_view claim_creation of Inl _ \<Rightarrow> False | Inr _ \<Rightarrow> True" by code_simp
  then have "apply_ops empty_view (prop_ops (demo_ops claim_creation)) = Inr (wo_view created_world)"
    by (auto simp: created_world_def demo_ops_def split: sum.splits)
  from system.accept [OF s c this] show ?thesis using c(1) by (simp add: created_world_def)
qed

lemma critic_cycle:
  obtains dg s' where "run_cycle demo_cycle_env ''p'' ''critic'' 60 ''best-first'' created_world = (Inr dg, s')" "cy_accepted dg"
proof -
  have "case fst (run_cycle demo_cycle_env ''p'' ''critic'' 60 ''best-first'' created_world) of
      Inl _ \<Rightarrow> False | Inr dg \<Rightarrow> cy_accepted dg" by code_simp
  then show thesis using that
    by (cases "run_cycle demo_cycle_env ''p'' ''critic'' 60 ''best-first'' created_world") (auto split: sum.splits)
qed

theorem cycles_follow_the_gate_witness:
  "\<exists>q (s' :: unit world) follow. system demo_runtime (demo_ops claim_creation # q # follow) (wo_view s') (wo_db s') \<and>
     prop_proof_id q = ''p'' \<and>
     read_events (wo_db s') ''p'' = read_events (wo_db created_world) ''p'' @ journalled ''p'' (q # follow)"
proof -
  obtain dg s' where c: "run_cycle demo_cycle_env ''p'' ''critic'' 60 ''best-first'' created_world = (Inr dg, s')" "cy_accepted dg"
    by (rule critic_cycle)
  have env: "ce_runtime demo_cycle_env = demo_runtime" "ce_maintenance demo_cycle_env = Some projecting"
    by (simp_all add: demo_cycle_env_def)
  from cycles_follow_the_gate [OF system_ok [OF created_world_system, folded env(1)] c(1)] c(2)
  obtain own follow where o: "read_events (wo_db s') ''p'' = read_events (wo_db created_world) ''p'' @ journalled ''p'' (own @ follow)"
    "length own = 1" "list_all (\<lambda>q. prop_proof_id q = ''p'') (own @ follow)"
    "\<forall>f qs. ce_maintenance demo_cycle_env = Some f \<longrightarrow> maintains f \<longrightarrow>
       system (ce_runtime demo_cycle_env) qs (wo_view created_world) (wo_db created_world) \<longrightarrow>
       system (ce_runtime demo_cycle_env) (qs @ own @ follow) (wo_view s') (wo_db s')" by auto
  then obtain q where own: "own = [q]" by (cases own) auto
  have "system demo_runtime (demo_ops claim_creation # q # follow) (wo_view s') (wo_db s')"
    using o(4) env projecting_maintains created_world_system own by fastforce
  moreover have "prop_proof_id q = ''p''" using o(3) own by simp
  moreover have "read_events (wo_db s') ''p'' = read_events (wo_db created_world) ''p'' @ journalled ''p'' (q # follow)"
    using o(1) own by simp
  ultimately show ?thesis by blast
qed

theorem cycles_keep_the_store_witness:
  "\<exists>s' :: unit world. fst (run_cycle demo_cycle_env ''p'' ''critic'' 60 ''best-first'' created_world) \<noteq> Inr empty_frontier \<and>
     prefix (read_events (wo_db created_world) ''p'') (read_events (wo_db s') ''p'') \<and> store_ok demo_runtime (wo_db s')"
proof -
  obtain dg s' where c: "run_cycle demo_cycle_env ''p'' ''critic'' 60 ''best-first'' created_world = (Inr dg, s')" "cy_accepted dg"
    by (rule critic_cycle)
  have env: "ce_runtime demo_cycle_env = demo_runtime" by (simp add: demo_cycle_env_def)
  have "dg \<noteq> empty_frontier" using c(2) by (auto simp: empty_frontier_def)
  from cycles_keep_the_store [OF system_ok [OF created_world_system, folded env] c(1), where p = "''p''"]
  have "prefix (read_events (wo_db created_world) ''p'') (read_events (wo_db s') ''p'') \<and> store_ok demo_runtime (wo_db s')"
    unfolding env by blast
  moreover have "fst (run_cycle demo_cycle_env ''p'' ''critic'' 60 ''best-first'' created_world) \<noteq> Inr empty_frontier"
    using \<open>dg \<noteq> empty_frontier\<close> by (simp only: c(1) fst_conv sum.inject not_False_eq_True simp_thms)
  ultimately show ?thesis by blast
qed

section \<open>Cycles that raise\<close>

text \<open>
  The category of the move is asked for after the commit. A move whose id has none of the known
  prefixes is committed, and then the cycle raises: no maintenance, no statistics, no release.
\<close>

lemma unexpected_ids_raise_after_the_commit:
  assumes "run_worker env l policy s = (Inr (result, q), s1)"
    and "gate_commit (ce_runtime env) (ce_gate env) (as_view (wo_view s1)) q (wo_db s1) = (Inr commit, d)"
    and "category_of (ls_move l) = Inl e"
  shows "run_leased env pid l policy s = (Inl (PyError e), s1\<lparr>wo_db := d\<rparr>)"
  using assms by (simp add: run_leased_def settle_def)

text \<open>
  \<^verbatim>\<open>lease_next\<close> leases any candidate to any worker class. A formal worker that is given the only
  candidate, a claim, raises, and the claim stays leased until the lease expires.
\<close>

lemma formal_worker_given_a_claim:
  "case run_cycle (demo_cycle_env\<lparr>ce_adapter := Some (\<lambda>a call. (Inr [], a))\<rparr>) ''p'' ''formal-atp'' 60 ''best-first'' created_world of
     (out, s') \<Rightarrow> (case out of Inl (PyError e) \<Rightarrow> e = ValueError | _ \<Rightarrow> False) \<and> held (wo_db s') ''p'' 50 ''p/c-1''"
  by code_simp

end
