(* ===== verification/Spec2Isabelle.thy ===== *)
theory Spec2Isabelle
  imports Findings Gate Ids Scheduler Dependencies Projector MathsAi Idempotence CycleSafety
begin

text \<open>
  A verification library for a persistent automated theorem prover: the commit gate and its journal, the
  scheduler, the workers it dispatches, and the two projections of the journal. Paths are those of the
  repository; every definition is named after the function it models where the name is free.

  \<^bold>\<open>The program.\<close> A proof is a graph of typed nodes (claims, formal runs and states, tactics,
  certificates, replays, obstructions) that only changes by journalled proposals. Workers, provers and
  critics have no write access: their output is converted to a proposal, a list of four kinds of operation,
  and handed to the commit gate. The gate validates it against the committed graph and appends it to a
  hash-chained journal in SQLite, in the transaction that also checks the base revision and the fencing
  token of the worker's lease. A scheduler ranks the open objects of the graph and leases the best free one
  to a worker class. One cycle is: lease, run the worker, commit, release, and a table of routing triggers
  over what the run committed. The journal is projected to a property graph in Neo4j, with closure and taint
  rules of its own, and to atoms of a reasoning engine.

  \<^bold>\<open>Foundations.\<close>

  \<^item> \<^verbatim>\<open>Prelude\<close>: Python values, exceptions as values, strings, dictionaries in insertion order, and two
    interfaces: \<open>invariant_loop\<close>, a loop whose step keeps an invariant, and \<open>step_system\<close>, a step relation
    with an invariant and a preorder that every step stands in.
  \<^item> \<^verbatim>\<open>Vocab\<close> (\<^verbatim>\<open>src/shared/vocab.py\<close>, \<^verbatim>\<open>src/commit_gate/reasons.py\<close>), \<^verbatim>\<open>Transitions\<close>
    (\<^verbatim>\<open>src/commit_gate/transitions.py\<close>): the closed vocabularies, the reason codes, the status tables and what
    the tables mean for the life of a claim or run.
  \<^item> \<^verbatim>\<open>Ops\<close> (\<^verbatim>\<open>ops.py\<close>, \<^verbatim>\<open>proposal.py\<close>): the operation algebra, the proposal, and their journalled form,
    which reads back to what was written.
  \<^item> \<^verbatim>\<open>Ids\<close> (\<^verbatim>\<open>src/mathproof/ids.py\<close>): identifiers, their parser and the allocator; \<^verbatim>\<open>Canon\<close>
    (\<^verbatim>\<open>src/commit_gate/canon.py\<close>): canonical JSON and the chain hash.

  \<^bold>\<open>Committed state.\<close>

  \<^item> \<^verbatim>\<open>View\<close> (\<^verbatim>\<open>state.py\<close>, \<^verbatim>\<open>apply.py\<close>): the in-memory view with its adjacency indexes, \<open>apply_ops\<close>, and the
    interface \<open>read_contract\<close> that the validators rely on, interpreted on that view.
  \<^item> \<^verbatim>\<open>Effects\<close>, \<^verbatim>\<open>Persistence\<close>: what a batch of operations does to a view without the loop, its
    refinement of a plain graph of nodes and edges, and what it leaves alone.

  \<^bold>\<open>The gate.\<close>

  \<^item> \<^verbatim>\<open>ValidateLocal\<close>, \<^verbatim>\<open>ValidateState\<close> (\<^verbatim>\<open>src/commit_gate/validate.py\<close>): the fourteen validators and
    \<open>validate_proposal\<close>, findings in the order of the generators, raised exceptions as values. For each
    validator a lemma says what a proposal without its findings looks like.
  \<^item> \<^verbatim>\<open>Accepted\<close>, \<^verbatim>\<open>Guarantees\<close>, \<^verbatim>\<open>Closures\<close>: from acceptance to the graph after the commit, and the
    histories of commits from the empty graph (\<open>reached\<close>, \<open>history\<close>) with their invariants. \<open>commits\<close> is
    acceptance followed by \<open>apply_ops\<close> and nothing else.
  \<^item> \<^verbatim>\<open>Scenario\<close>, \<^verbatim>\<open>GateSafety\<close>: a worked history, and the properties of accepted proposals instantiated
    on it: independent replay and reviewed alignment behind every promotion, Lean evidence behind every
    closure, all subgoals of a tactic required, lawful statuses, immutable fields, no lost update. The
    gate takes the label of a node from the proposal first and does not look at ids it has seen, so
    most of these properties have exceptions, which their statements name: a node upserted under
    another label than it has (\<open>misnamed\<close>), a node created twice with different content
    (\<open>recreated\<close>, \<open>ambiguous\<close>), an edge whose id is removed or already taken (\<open>disturbed\<close>), a
    content-addressed target.
  \<^item> \<^verbatim>\<open>Findings\<close>: accepted proposals that break what the documentation promises. Each exception
    above is taken by a proposal of this theory, so none of them can be dropped.

  \<^bold>\<open>The store.\<close>

  \<^item> \<^verbatim>\<open>Database\<close>, \<^verbatim>\<open>Leases\<close>, \<^verbatim>\<open>Journal\<close> (\<^verbatim>\<open>src/commit_gate/store.py\<close>): the tables, the write transaction
    with its rollback, leases and fencing tokens, the append with its compare-and-set, the hash chain and the
    rejection log. \<open>store_step\<close> is any call of the store; \<open>store\<close> interprets \<open>step_system\<close> on it.
  \<^item> \<^verbatim>\<open>StoreSafety\<close>: journals only grow and stay verified, tokens increase, dead leases stay dead, tampering
    needs two entries with different contents on which the chain hash, recomputed, collides, and an append that meets its conditions succeeds.
  \<^item> \<^verbatim>\<open>Gate\<close> (\<^verbatim>\<open>src/commit_gate/gate.py\<close>): \<open>gate_commit\<close> composes validators and store. The relation
    \<open>system\<close> runs commits, refusals and lease calls next to the graph, which an accepted commit moves by
    \<open>apply_ops\<close>, as the callers of the gate in the repository's tests do; the gate itself applies nothing. In
    it the journal is the history of the graph.

  \<^bold>\<open>Scheduling and workers.\<close>

  \<^item> \<^verbatim>\<open>Scheduler\<close> (\<^verbatim>\<open>src/mathproof/scheduler.py\<close>): frontier, features, score, statistics and \<open>lease_next\<close>.
  \<^item> \<^verbatim>\<open>Soundness\<close> (\<^verbatim>\<open>soundness.py\<close>), \<^verbatim>\<open>FormalAtp\<close> (\<^verbatim>\<open>formal_atp.py\<close>), \<^verbatim>\<open>MathsAi\<close> (\<^verbatim>\<open>maths_ai_atp.py\<close>): the
    checks of a formal result, the payload builders, and the two backends behind the interface
    \<open>atp_adapter\<close>, which is interpreted on both. What the first backend builds passes the checks; for what the
    second converts the outcome of the checks of edges, environments and certificates is given exactly,
    whatever the reasoner returns.
  \<^item> \<^verbatim>\<open>Dispatch\<close>, \<^verbatim>\<open>Idempotence\<close> (\<^verbatim>\<open>dispatch.py\<close>): worker output to operations; sound results pass the
    gate's subgoal check, and converting a result again changes nothing unless it mints a checkpoint or a
    certificate.
  \<^item> \<^verbatim>\<open>Routing\<close> (\<^verbatim>\<open>routing.py\<close>), \<^verbatim>\<open>Context\<close> (\<^verbatim>\<open>context_compiler.py\<close>): the trigger table, with the grounds
    of every decision stated over the committed nodes and edges, and the packets and requests that workers
    are sent, with what each field of a request says and when it conforms to the request schema.
  \<^item> \<^verbatim>\<open>Cycle\<close>, \<^verbatim>\<open>CycleSafety\<close> (\<^verbatim>\<open>cycle.py\<close>): the whole cycle over one world of view, store, statistics and
    backend. A cycle is a sequence of store calls, also when it raises; one that returns makes at most two
    commits, and stays within \<open>system\<close> when the caller's maintenance has projected them (\<open>maintains\<close>).

  \<^bold>\<open>Projections.\<close>

  \<^item> \<^verbatim>\<open>PropertyGraph\<close>, \<^verbatim>\<open>Adapter\<close>, \<^verbatim>\<open>Provenance\<close> (\<^verbatim>\<open>neo4j_adapter/session.py\<close>, \<^verbatim>\<open>adapter.py\<close>): the
    statement forms of the adapter on a property graph and one definition per method; \<^verbatim>\<open>Rules\<close>
    (\<^verbatim>\<open>rules.py\<close>), \<^verbatim>\<open>Replay\<close> (\<^verbatim>\<open>replay.py\<close>): closure, taint, cycle checks, and the replay of events.
  \<^item> \<^verbatim>\<open>Closure\<close>, \<^verbatim>\<open>Taint\<close>, \<^verbatim>\<open>Rebuild\<close>, \<^verbatim>\<open>Dependencies\<close>: the closure loop computes a least fixpoint, taint reaches
    exactly the dependents, a rebuild depends on its events only, dependencies stay acyclic.
  \<^item> \<^verbatim>\<open>Projector\<close> (\<^verbatim>\<open>mork/projector/\<close>): the atoms of a journal are the facts of the graph it builds
    (\<open>committed_fact\<close>, a specification that does not use the projector), state references apart, which
    come from every edge ever added.

  \<^bold>\<open>Conventions.\<close> An operation that may raise returns \<open>Inl\<close> of the exception or error, also where the
  state has changed before: results and new state are a pair. Dictionaries are association lists in insertion
  order. Every definition that
  models code is executable, and instances are evaluated in the kernel; specifications may quantify. A malformed payload that
  Python would carry on with, in a place where the model has a type, gives the exception \<open>OutOfModel\<close>,
  which no lemma treats as success.

  \<^bold>\<open>Parameters.\<close> What is not code of the repository is an argument: SHA-256 and the text of a float
  (\<open>runtime\<close>); the rounding of float arithmetic (\<open>float_ops\<close>); for each transaction what SQLite answers when the
  lock is asked for, and the clock readings (\<open>lock\<close>, \<open>gate_env\<close>, \<open>lease_env\<close>); driver failures and the order of
  unordered rows (\<open>driver\<close>); the search graphs of the reasoner and the exceptions of its searches; the order
  in which Python walks a set (\<open>walk\<close>); in a cycle, the dispatcher, the backend's calls and the maintenance
  callback. What a statement assumes of one of them is a named predicate or stated in full: digests are 64
  hexadecimal digits (\<open>hex_digests\<close>); the hash of an appended event is new in the journal; the rows of a
  query come in some order (\<open>permutes_rows\<close>) and a set is walked in some order (\<open>walks\<close>); the driver does
  not fail, where a call has to succeed; a maintenance callback that returns has applied what was accepted
  (\<open>maintains\<close>). Nothing is assumed of the reasoner.

  \<^bold>\<open>Bounds.\<close> The only iteration bound is that of the source, 64 rounds of closure propagation
  (\<open>MAX_ITER\<close>). Every round but the last closes a node, so it is enough for proofs with at most 64 open moves
  and states, and what it closes beyond that is still correct, only not complete. All other loops run
  over lists. Numbers are unbounded, as in Python; fencing tokens and revisions are natural numbers; the
  clock is exact, where Python adds a time to live to a float.

  \<^bold>\<open>Not modelled.\<close> Human-readable detail texts of findings, and the dictionary forms that only display them or
  a lease, policy or commit result; opening connections, WAL mode, schema creation and constraints;
  reading and writing files; printed messages; the in-process locks, since calls are sequential here and
  the interleaving that matters is that of transactions; \<^verbatim>\<open>schemas.py\<close>, which hands files to a third-party
  JSON schema package; \<open>default_reasoner_factory\<close>, which imports and configures the reasoner; the rule
  files of the reasoning engine, which are in another language. Gate, scheduler and cycle share one view,
  as the cycle needs them to; a payload that a caller mutates after passing it on is not followed.
\<close>

end
